(* ===== verification/Ordered_Map.thy ===== *)
theory Ordered_Map
  imports Prelude "HOL-Library.Product_Lexorder"
begin

text \<open>
  Rust's \<open>BTreeMap\<close> as the program uses it: a finite map that is iterated in key
  order. The contract the components rely on is the locale \<open>ordered_map\<close>; the
  implementation is a key-sorted association list, for which the contract is proved
  once by interpretation.
\<close>

type_synonym ('k, 'v) btree = "('k \<times> 'v) list"

section \<open>The implementation\<close>

fun bt_get :: "('k, 'v) btree \<Rightarrow> 'k \<Rightarrow> 'v option" where
  "bt_get [] k = None"
| "bt_get ((a, b) # m) k = (if a = k then Some b else bt_get m k)"

fun bt_insert :: "'k::linorder \<Rightarrow> 'v \<Rightarrow> ('k, 'v) btree \<Rightarrow> ('k, 'v) btree" where
  "bt_insert k v [] = [(k, v)]"
| "bt_insert k v ((a, b) # m) =
     (if k < a then (k, v) # (a, b) # m
      else if k = a then (k, v) # m
      else (a, b) # bt_insert k v m)"

text \<open>\<open>retain\<close> keeps the entries that satisfy the predicate, in order.\<close>

definition bt_retain :: "('k \<Rightarrow> 'v \<Rightarrow> bool) \<Rightarrow> ('k, 'v) btree \<Rightarrow> ('k, 'v) btree" where
  "bt_retain p m = filter (\<lambda>(k, v). p k v) m"

definition bt_keys :: "('k, 'v) btree \<Rightarrow> 'k list" where
  "bt_keys m = map fst m"

text \<open>The representation invariant: keys strictly ascending.\<close>

definition bt_wf :: "('k::linorder, 'v) btree \<Rightarrow> bool" where
  "bt_wf m = sorted_wrt (<) (bt_keys m)"

text \<open>\<open>entry(k).or_insert(v)\<close>: an existing entry wins.\<close>

definition bt_or_insert :: "'k::linorder \<Rightarrow> 'v \<Rightarrow> ('k, 'v) btree \<Rightarrow> ('k, 'v) btree" where
  "bt_or_insert k v m = (case bt_get m k of None \<Rightarrow> bt_insert k v m | Some _ \<Rightarrow> m)"

text \<open>\<open>*entry(k).or_insert(d)\<close> followed by an update of the entry.\<close>

definition bt_upsert ::
    "'k::linorder \<Rightarrow> 'v \<Rightarrow> ('v \<Rightarrow> 'v) \<Rightarrow> ('k, 'v) btree \<Rightarrow> ('k, 'v) btree" where
  "bt_upsert k d f m = bt_insert k (f (unwrap_or (bt_get m k) d)) m"

text \<open>\<open>extend\<close>: the entries of the second map are inserted one after the other.\<close>

definition bt_extend :: "('k::linorder, 'v) btree \<Rightarrow> ('k \<times> 'v) list \<Rightarrow> ('k, 'v) btree" where
  "bt_extend m xs = fold (\<lambda>(k, v). bt_insert k v) xs m"

section \<open>Laws of the implementation\<close>

lemma bt_get_insert: "bt_get (bt_insert k v m) k' = (if k' = k then Some v else bt_get m k')"
  by (induction m) auto

lemma bt_keys_insert: "set (bt_keys (bt_insert k v m)) = insert k (set (bt_keys m))"
proof (induction m)
  case Nil
  then show ?case by (simp add: bt_keys_def)
next
  case (Cons e m)
  then show ?case by (cases e) (auto simp: bt_keys_def)
qed

lemma bt_wf_Nil: "bt_wf []"
  by (simp add: bt_wf_def bt_keys_def)

lemma bt_wf_Cons:
  "bt_wf ((a, b) # m) \<longleftrightarrow> (\<forall>k\<in>set (bt_keys m). a < k) \<and> bt_wf m"
  by (simp add: bt_wf_def bt_keys_def)

lemma bt_wf_insert: "bt_wf m \<Longrightarrow> bt_wf (bt_insert k v m)"
proof (induction m)
  case Nil
  then show ?case by (simp add: bt_wf_Cons bt_wf_Nil bt_keys_def)
next
  case (Cons e m)
  obtain a b where e: "e = (a, b)" by (cases e)
  from Cons.prems e have less: "\<forall>x\<in>set (bt_keys m). a < x" and wf: "bt_wf m"
    by (simp_all add: bt_wf_Cons)
  consider "k < a" | "k = a" | "a < k" by (rule linorder_cases)
  then show ?case
  proof cases
    case 1
    with less Cons.prems e show ?thesis
      by (auto simp: bt_wf_Cons bt_keys_def intro: less_trans)
  next
    case 2
    with less wf e show ?thesis by (simp add: bt_wf_Cons)
  next
    case 3
    with less wf Cons.IH e show ?thesis by (auto simp: bt_wf_Cons bt_keys_insert)
  qed
qed

lemma bt_get_None_iff: "bt_get m k = None \<longleftrightarrow> k \<notin> set (bt_keys m)"
proof (induction m)
  case Nil
  then show ?case by (simp add: bt_keys_def)
next
  case (Cons e m)
  then show ?case by (cases e) (simp add: bt_keys_def eq_commute)
qed

lemma bt_get_Some_in: "bt_get m k = Some v \<Longrightarrow> (k, v) \<in> set m"
  by (induction m) (auto split: if_splits)

lemma bt_wf_get_iff: "bt_wf m \<Longrightarrow> bt_get m k = Some v \<longleftrightarrow> (k, v) \<in> set m"
proof (induction m)
  case Nil
  then show ?case by simp
next
  case (Cons e m)
  obtain a b where e: "e = (a, b)" by (cases e)
  from Cons.prems e have less: "\<forall>x\<in>set (bt_keys m). a < x" and wf: "bt_wf m"
    by (simp_all add: bt_wf_Cons)
  have "(a, w) \<notin> set m" for w
    using less by (force simp: bt_keys_def)
  with Cons.IH [OF wf] e show ?case by auto
qed

lemma bt_wf_retain: "bt_wf m \<Longrightarrow> bt_wf (bt_retain p m)"
proof (induction m)
  case Nil
  then show ?case by (simp add: bt_retain_def)
next
  case (Cons e m)
  then show ?case
    by (cases e) (auto simp: bt_retain_def bt_wf_Cons bt_keys_def)
qed

lemma bt_get_retain:
  "bt_wf m \<Longrightarrow> bt_get (bt_retain p m) k = option_filter (p k) (bt_get m k)"
proof (induction m)
  case Nil
  then show ?case by (simp add: bt_retain_def)
next
  case (Cons e m)
  obtain a b where e: "e = (a, b)" by (cases e)
  from Cons.prems e have less: "\<forall>x\<in>set (bt_keys m). a < x" and wf: "bt_wf m"
    by (simp_all add: bt_wf_Cons)
  have "bt_get m a = None"
    using less by (auto simp: bt_get_None_iff)
  with Cons.IH [OF wf] e show ?case
    by (auto simp: bt_retain_def)
qed

section \<open>The contract\<close>

text \<open>Entries that agree on equal keys.\<close>

definition functional :: "('k \<times> 'v) list \<Rightarrow> bool" where
  "functional xs \<longleftrightarrow> (\<forall>k v w. (k, v) \<in> set xs \<longrightarrow> (k, w) \<in> set xs \<longrightarrow> v = w)"

lemma map_of_functional:
  assumes "functional xs"
  shows "map_of (rev xs) k = Some v \<longleftrightarrow> (k, v) \<in> set xs"
proof
  assume "map_of (rev xs) k = Some v"
  then show "(k, v) \<in> set xs" using map_of_SomeD by fastforce
next
  assume in_xs: "(k, v) \<in> set xs"
  then obtain w where w: "map_of (rev xs) k = Some w"
    by (metis map_of_eq_None_iff not_None_eq set_rev image_eqI fst_conv)
  then have "(k, w) \<in> set xs" using map_of_SomeD by fastforce
  with in_xs assms w show "map_of (rev xs) k = Some v"
    unfolding functional_def by blast
qed

locale ordered_map =
  fixes empty :: "'m"
    and get :: "'m \<Rightarrow> 'k::linorder \<Rightarrow> 'v option"
    and insert :: "'k \<Rightarrow> 'v \<Rightarrow> 'm \<Rightarrow> 'm"
    and entries :: "'m \<Rightarrow> ('k \<times> 'v) list"
    and wf :: "'m \<Rightarrow> bool"
  assumes wf_empty: "wf empty"
    and wf_insert: "wf m \<Longrightarrow> wf (insert k v m)"
    and get_empty: "get empty k = None"
    and get_insert: "get (insert k v m) k' = (if k' = k then Some v else get m k')"
    and entries_get: "wf m \<Longrightarrow> (k, v) \<in> set (entries m) \<longleftrightarrow> get m k = Some v"
    and entries_sorted: "wf m \<Longrightarrow> sorted_wrt (<) (map fst (entries m))"
begin

lemma distinct_keys: "wf m \<Longrightarrow> distinct (map fst (entries m))"
  using entries_sorted by (rule strict_sorted_iff [THEN iffD1, THEN conjunct2])

lemma wf_fold_insert: "wf m \<Longrightarrow> wf (fold (\<lambda>(k, v). insert k v) xs m)"
  by (induction xs arbitrary: m) (auto simp: wf_insert)

text \<open>Folding inserts over a list: the last entry for a key wins.\<close>

lemma get_fold_insert:
  "get (fold (\<lambda>(k, v). insert k v) xs m) k =
     (case map_of (rev xs) k of None \<Rightarrow> get m k | Some v \<Rightarrow> Some v)"
proof (induction xs arbitrary: m)
  case Nil
  then show ?case by simp
next
  case (Cons x xs)
  then show ?case
    by (cases x) (auto simp: get_insert map_add_def split: option.splits)
qed

text \<open>Two well-formed maps with the same lookups list the same entries.\<close>

lemma entries_cong:
  assumes "wf m" "wf m'" "get m = get m'"
  shows "entries m = entries m'"
proof -
  let ?ks = "\<lambda>m. map fst (entries m)"
  have dom: "set (?ks m) = set (?ks m')"
    using assms by (force simp: entries_get image_iff)
  have keys: "?ks m = ?ks m'"
    using dom assms(1,2) entries_sorted
    by (metis strict_sorted_equal)
  have "set (entries m) = set (entries m')"
    using assms entries_get [OF assms(1)] entries_get [OF assms(2)] by auto
  then have "map_of (entries m) = map_of (entries m')"
    using assms(1,2) by (intro map_of_inject_set [THEN iffD2]) (auto intro: distinct_keys)
  then have "map (\<lambda>k. (k, the (map_of (entries m) k))) (?ks m) =
      map (\<lambda>k. (k, the (map_of (entries m') k))) (?ks m')"
    using keys by simp
  moreover have "map (\<lambda>k. (k, the (map_of xs k))) (map fst xs) = xs"
    if "distinct (map fst xs)" for xs :: "('k \<times> 'v) list"
    using that by (auto intro!: map_idI)
  ultimately show ?thesis
    using distinct_keys [OF assms(1)] distinct_keys [OF assms(2)] by metis
qed

lemma wf_functional: "wf m \<Longrightarrow> functional (entries m)"
  unfolding functional_def by (metis entries_get option.inject)

lemma get_cong:
  assumes "wf m" "wf m'" "entries m = entries m'"
  shows "get m k = get m' k"
proof (cases "get m k")
  case (Some v)
  with assms(1) have "(k, v) \<in> set (entries m')"
    unfolding assms(3) [symmetric] by (simp add: entries_get)
  with Some assms(2) show ?thesis by (simp add: entries_get)
next
  case None
  have False if "get m' k = Some w" for w
  proof -
    from that assms(2) have "(k, w) \<in> set (entries m)"
      unfolding assms(3) by (simp add: entries_get)
    with None assms(1) show False by (simp add: entries_get)
  qed
  with None show ?thesis by (cases "get m' k") simp_all
qed

text \<open>A map built from entries that agree on equal keys holds exactly these entries.\<close>

lemma set_fold_insert:
  assumes "functional xs"
  shows "set (entries (fold (\<lambda>(k, v). insert k v) xs empty)) = set xs"
proof -
  have "(k, v) \<in> set (entries (fold (\<lambda>(k, v). insert k v) xs empty)) \<longleftrightarrow> (k, v) \<in> set xs" for k v
    by (simp add: entries_get wf_fold_insert wf_empty get_fold_insert get_empty
        map_of_functional [OF assms, symmetric] split: option.split)
  then show ?thesis by auto
qed

lemma set_fold_subset: "set (entries (fold (\<lambda>(k, v). insert k v) xs empty)) \<subseteq> set xs"
proof -
  have "(k, v) \<in> set xs" if "get (fold (\<lambda>(k, v). insert k v) xs empty) k = Some v" for k v
    using that map_of_SomeD [of "rev xs" k] by (auto simp: get_fold_insert get_empty split: option.splits)
  then show ?thesis
    using entries_get [OF wf_fold_insert [OF wf_empty]] by auto
qed

lemma entries_eqI:
  assumes "wf m" "wf m'" "set (entries m) = set (entries m')"
  shows "entries m = entries m'"
proof -
  have "get m k = Some v \<longleftrightarrow> get m' k = Some v" for k v
    using assms by (simp add: entries_get [symmetric])
  then have "get m = get m'" by (metis ext option.exhaust)
  then show ?thesis using entries_cong [OF assms(1,2)] by simp
qed

lemma fold_insert_eqI:
  assumes "wf m" "set xs = set (entries m)"
  shows "entries (fold (\<lambda>(k, v). insert k v) xs empty) = entries m"
proof (rule entries_eqI)
  have "functional xs"
    using wf_functional [OF assms(1)] assms(2) by (simp add: functional_def)
  then show "set (entries (fold (\<lambda>(k, v). insert k v) xs empty)) = set (entries m)"
    by (simp add: set_fold_insert assms(2))
qed (simp_all add: assms wf_fold_insert wf_empty)

end

interpretation bt: ordered_map "[]" bt_get bt_insert "\<lambda>m. m" bt_wf
proof unfold_locales
  show "bt_wf []" by (rule bt_wf_Nil)
next
  fix m :: "('k::linorder, 'v) btree" and k v
  show "bt_wf m \<Longrightarrow> bt_wf (bt_insert k v m)" by (rule bt_wf_insert)
next
  fix k :: 'k
  show "bt_get [] k = None" by simp
next
  fix k k' :: "'k::linorder" and v :: 'v and m
  show "bt_get (bt_insert k v m) k' = (if k' = k then Some v else bt_get m k')"
    by (rule bt_get_insert)
next
  fix m :: "('k::linorder, 'v) btree" and k v
  show "bt_wf m \<Longrightarrow> (k, v) \<in> set m \<longleftrightarrow> bt_get m k = Some v"
    by (simp add: bt_wf_get_iff)
next
  fix m :: "('k::linorder, 'v) btree"
  show "bt_wf m \<Longrightarrow> sorted_wrt (<) (map fst m)"
    by (simp add: bt_wf_def bt_keys_def)
qed

lemma bt_wf_or_insert: "bt_wf m \<Longrightarrow> bt_wf (bt_or_insert k v m)"
  by (simp add: bt_or_insert_def bt_wf_insert split: option.splits)

lemma bt_get_or_insert:
  "bt_get (bt_or_insert k v m) k' =
     (if k' = k then Some (unwrap_or (bt_get m k) v) else bt_get m k')"
  by (auto simp: bt_or_insert_def bt_get_insert split: option.splits)

lemma bt_wf_upsert: "bt_wf m \<Longrightarrow> bt_wf (bt_upsert k d f m)"
  by (simp add: bt_upsert_def bt_wf_insert)

lemma bt_get_upsert:
  "bt_get (bt_upsert k d f m) k' =
     (if k' = k then Some (f (unwrap_or (bt_get m k) d)) else bt_get m k')"
  by (simp add: bt_upsert_def bt_get_insert)

lemma bt_wf_extend: "bt_wf m \<Longrightarrow> bt_wf (bt_extend m xs)"
  unfolding bt_extend_def by (rule bt.wf_fold_insert)

lemma bt_get_extend:
  "bt_get (bt_extend m xs) k =
     (case map_of (rev xs) k of None \<Rightarrow> bt_get m k | Some v \<Rightarrow> Some v)"
  unfolding bt_extend_def by (rule bt.get_fold_insert)

lemmas bt_simps =
  bt_get_insert bt_get_or_insert bt_get_upsert
lemmas bt_wf_intros =
  bt_wf_Nil bt_wf_insert bt_wf_or_insert bt_wf_upsert bt_wf_extend bt_wf_retain

lemmas bt_wf_functional = bt.wf_functional
lemmas bt_eqI = bt.entries_eqI

lemma set_bt_extend: "functional xs \<Longrightarrow> set (bt_extend [] xs) = set xs"
  unfolding bt_extend_def by (rule bt.set_fold_insert)

lemma bt_extend_eqI: "bt_wf m \<Longrightarrow> set xs = set m \<Longrightarrow> bt_extend [] xs = m"
  unfolding bt_extend_def by (rule bt.fold_insert_eqI)

section \<open>Maps of maps\<close>

text \<open>\<open>entry(t).or_default().insert(c, v)\<close>; seen as a map from pairs of keys it satisfies the
  same contract. Inner maps are never empty.\<close>

definition nest_insert ::
    "'t::linorder \<times> 'c::linorder \<Rightarrow> 'v \<Rightarrow> ('t, ('c, 'v) btree) btree \<Rightarrow>
     ('t, ('c, 'v) btree) btree" where
  "nest_insert tc v m = bt_upsert (fst tc) [] (bt_insert (snd tc) v) m"

definition nest_get :: "('t, ('c, 'v) btree) btree \<Rightarrow> 't \<times> 'c \<Rightarrow> 'v option" where
  "nest_get m tc = Option.bind (bt_get m (fst tc)) (\<lambda>cols. bt_get cols (snd tc))"

definition nest_entries :: "('t, ('c, 'v) btree) btree \<Rightarrow> (('t \<times> 'c) \<times> 'v) list" where
  "nest_entries m = concat (map (\<lambda>(t, cols). map (\<lambda>(c, v). ((t, c), v)) cols) m)"

definition nest_wf :: "('t::linorder, ('c::linorder, 'v) btree) btree \<Rightarrow> bool" where
  "nest_wf m \<longleftrightarrow> bt_wf m \<and> (\<forall>(t, cols)\<in>set m. bt_wf cols \<and> cols \<noteq> [])"

definition nest_extend ::
    "('t::linorder, ('c::linorder, 'v) btree) btree \<Rightarrow> (('t \<times> 'c) \<times> 'v) list \<Rightarrow>
     ('t, ('c, 'v) btree) btree" where
  "nest_extend m xs = fold (\<lambda>(k, v). nest_insert k v) xs m"

lemma nest_wfD: "nest_wf m \<Longrightarrow> (t, cols) \<in> set m \<Longrightarrow> bt_wf cols \<and> cols \<noteq> []"
  by (auto simp: nest_wf_def)

lemma nest_wf_get: "nest_wf m \<Longrightarrow> bt_get m t = Some cols \<Longrightarrow> bt_wf cols \<and> cols \<noteq> []"
  by (rule nest_wfD) (auto dest: bt_get_Some_in)

lemma bt_insert_nonempty [simp]: "bt_insert k v m \<noteq> []"
  by (induction k v m rule: bt_insert.induct) auto

lemma nest_wf_upsert:
  assumes "nest_wf m" and "bt_wf (f (unwrap_or (bt_get m t) []))" "f (unwrap_or (bt_get m t) []) \<noteq> []"
  shows "nest_wf (bt_upsert t [] f m)"
proof -
  have wf: "bt_wf m" using assms by (simp add: nest_wf_def)
  have new: "bt_wf (bt_upsert t [] f m)" by (simp add: bt_wf_upsert wf)
  have "bt_wf cols \<and> cols \<noteq> []" if mem: "(t', cols) \<in> set (bt_upsert t [] f m)" for t' cols
  proof -
    have "bt_get (bt_upsert t [] f m) t' = Some cols" using mem new by (simp add: bt_wf_get_iff)
    then show ?thesis
      using nest_wf_get [OF assms(1)] assms(2,3) by (auto simp: bt_get_upsert split: if_splits)
  qed
  with new show ?thesis by (auto simp: nest_wf_def)
qed

lemma nest_wf_unwrap: "nest_wf m \<Longrightarrow> bt_wf (unwrap_or (bt_get m t) [])"
  using nest_wf_get by (cases "bt_get m t") (auto simp: bt_wf_Nil)

lemma nest_wf_insert: "nest_wf m \<Longrightarrow> nest_wf (nest_insert tc v m)"
  unfolding nest_insert_def by (rule nest_wf_upsert) (auto simp: bt_wf_insert nest_wf_unwrap)

lemma nest_get_upsert:
  "nest_get (bt_upsert t [] f m) (t', c) =
     (if t' = t then bt_get (f (unwrap_or (bt_get m t) [])) c else nest_get m (t', c))"
  by (simp add: nest_get_def bt_get_upsert)

lemma nest_get_unwrap: "bt_get (unwrap_or (bt_get m t) []) c = nest_get m (t, c)"
  by (cases "bt_get m t") (simp_all add: nest_get_def)

lemma set_nest_entries:
  "((t, c), v) \<in> set (nest_entries m) \<longleftrightarrow> (\<exists>cols. (t, cols) \<in> set m \<and> (c, v) \<in> set cols)"
  by (force simp: nest_entries_def)

lemma sorted_nest_entries: "nest_wf m \<Longrightarrow> sorted_wrt (<) (map fst (nest_entries m))"
proof (induction m)
  case Nil
  then show ?case by (simp add: nest_entries_def)
next
  case (Cons e m)
  obtain t cols where e: "e = (t, cols)" by (cases e)
  from Cons.prems e have less: "\<forall>x\<in>set (bt_keys m). t < x" and wf: "nest_wf m" "bt_wf cols"
    by (auto simp: nest_wf_def bt_wf_Cons)
  have "sorted_wrt (<) (map fst (map (\<lambda>(c, v). ((t, c), v)) cols))"
    using wf(2) by (simp add: bt_wf_def bt_keys_def sorted_wrt_map split_beta)
  moreover have "x < y" if "x \<in> set (map fst (map (\<lambda>(c, v). ((t, c), v)) cols))"
    "y \<in> set (map fst (nest_entries m))" for x y
  proof -
    from that(1) have "fst x = t" by auto
    moreover from that(2) have "t < fst y"
      using less by (force simp: nest_entries_def bt_keys_def)
    ultimately show ?thesis by (cases x; cases y) simp
  qed
  ultimately show ?case
    using Cons.IH [OF wf(1)] e by (simp add: nest_entries_def sorted_wrt_append)
qed

interpretation nest: ordered_map
  "[]" nest_get nest_insert nest_entries
  "nest_wf :: ('t::linorder, ('c::linorder, 'v) btree) btree \<Rightarrow> bool"
proof
  show "nest_wf []" by (simp add: nest_wf_def bt_wf_Nil)
next
  fix m k v
  show "nest_wf m \<Longrightarrow> nest_wf (nest_insert k v m)" by (rule nest_wf_insert)
next
  fix k
  show "nest_get [] k = None" by (simp add: nest_get_def)
next
  fix k k' v m
  show "nest_get (nest_insert k v m) k' = (if k' = k then Some v else nest_get m k')"
    by (cases k; cases k'; cases "bt_get m (fst k)")
       (auto simp: nest_get_def nest_insert_def bt_get_upsert bt_get_insert)
next
  fix m :: "('t, ('c, 'v) btree) btree" and k :: "'t \<times> 'c" and v :: 'v
  assume wf: "nest_wf m"
  obtain t c where k: "k = (t, c)" by (cases k)
  have "nest_get m (t, c) = Some v \<longleftrightarrow> (\<exists>cols. bt_get m t = Some cols \<and> bt_get cols c = Some v)"
    by (simp add: nest_get_def bind_eq_Some_conv)
  also have "\<dots> \<longleftrightarrow> (\<exists>cols. (t, cols) \<in> set m \<and> (c, v) \<in> set cols)"
  proof -
    have "bt_get m t = Some cols \<longleftrightarrow> (t, cols) \<in> set m" for cols
      using wf by (simp add: bt_wf_get_iff nest_wf_def)
    moreover have "bt_get cols c = Some v \<longleftrightarrow> (c, v) \<in> set cols" if "(t, cols) \<in> set m" for cols
      using nest_wfD [OF wf that] by (simp add: bt_wf_get_iff)
    ultimately show ?thesis by blast
  qed
  finally show "(k, v) \<in> set (nest_entries m) \<longleftrightarrow> nest_get m k = Some v"
    by (simp add: set_nest_entries k)
next
  fix m
  show "nest_wf m \<Longrightarrow> sorted_wrt (<) (map fst (nest_entries m))" by (rule sorted_nest_entries)
qed

lemma nest_entries_subset:
  assumes wf: "nest_wf m" "nest_wf m'" and eq: "nest_entries m = nest_entries m'"
    and mem: "(t, cols) \<in> set m"
  shows "(t, cols) \<in> set m'"
proof -
  note get = nest.get_cong [OF wf eq]
  have t: "bt_get m t = Some cols" using mem wf(1) by (simp add: bt_wf_get_iff nest_wf_def)
  obtain c v where "(c, v) \<in> set cols" using nest_wfD [OF wf(1) mem] by (cases cols) auto
  then have "nest_get m (t, c) = Some v"
    using t nest_wfD [OF wf(1) mem] by (simp add: nest_get_def bt_wf_get_iff)
  then obtain cols' where t': "bt_get m' t = Some cols'"
    using get [of "(t, c)"] by (cases "bt_get m' t") (auto simp: nest_get_def)
  have "bt_get cols c = bt_get cols' c" for c
    using get [of "(t, c)"] t t' by (simp add: nest_get_def)
  then have "cols = cols'"
    using nest_wfD [OF wf(1) mem] nest_wf_get [OF wf(2) t'] by (intro bt.entries_cong) auto
  then show ?thesis using bt_get_Some_in [OF t'] by simp
qed

lemma nest_extend_eqI:
  assumes "nest_wf m" "set xs = set (nest_entries m)"
  shows "nest_extend [] xs = m"
proof -
  have eq: "nest_entries (nest_extend [] xs) = nest_entries m"
    unfolding nest_extend_def using assms by (rule nest.fold_insert_eqI)
  have wf: "nest_wf (nest_extend [] xs)"
    unfolding nest_extend_def using nest.wf_empty by (rule nest.wf_fold_insert)
  have "set (nest_extend [] xs) = set m"
    using nest_entries_subset [OF wf assms(1) eq] nest_entries_subset [OF assms(1) wf eq [symmetric]]
    by auto
  then show ?thesis using wf assms(1) by (intro bt_eqI) (auto simp: nest_wf_def)
qed

lemma nest_wf_extend: "nest_wf m \<Longrightarrow> nest_wf (nest_extend m xs)"
  unfolding nest_extend_def by (rule nest.wf_fold_insert)

lemma set_nest_extend: "set (nest_entries (nest_extend [] xs)) \<subseteq> set xs"
  unfolding nest_extend_def by (rule nest.set_fold_subset)

lemma set_bt_extend_subset: "set (bt_extend [] xs) \<subseteq> set xs"
  unfolding bt_extend_def by (rule bt.set_fold_subset)

text \<open>Existing entries win when a list is added with \<open>or_insert\<close>.\<close>

definition bt_or_insert_all :: "('k::linorder, 'v) btree \<Rightarrow> ('k \<times> 'v) list \<Rightarrow> ('k, 'v) btree" where
  "bt_or_insert_all m xs = foldl (\<lambda>e (k, v). bt_or_insert k v e) m xs"

lemma bt_wf_or_insert_all: "bt_wf m \<Longrightarrow> bt_wf (bt_or_insert_all m xs)"
  unfolding bt_or_insert_all_def by (induction xs arbitrary: m) (auto simp: bt_wf_or_insert)

lemma bt_get_or_insert_all:
  "bt_get (bt_or_insert_all m xs) k = option_or (bt_get m k) (map_of xs k)"
  unfolding bt_or_insert_all_def
proof (induction xs arbitrary: m)
  case Nil
  then show ?case by (simp add: option_or_def split: option.split)
next
  case (Cons x xs)
  then show ?case
    by (cases x) (auto simp: bt_get_or_insert option_or_def split: option.splits)
qed

lemma bt_or_insert_all_nonempty: "xs \<noteq> [] \<Longrightarrow> bt_or_insert_all m xs \<noteq> []"
proof
  assume "xs \<noteq> []" "bt_or_insert_all m xs = []"
  moreover obtain k v ys where "xs = (k, v) # ys" using \<open>xs \<noteq> []\<close> by (metis neq_Nil_conv surj_pair)
  ultimately have "option_or (bt_get m k) (Some v) = None"
    using bt_get_or_insert_all [of m xs k] by simp
  then show False by (simp add: option_or_def split: option.splits)
qed

end
