(* ===== verification/Ini.thy ===== *)
theory Ini
  imports Rust_Text Ordered_Map "HOL-Library.Product_Lexorder"
begin

text \<open>
  The INI core of the settings file (crates/tm-core/src/settings.rs): escaping, the lenient
  parser, and what it makes of a document of well-formed lines.
\<close>

section \<open>Escaping\<close>

abbreviation backslash :: char where "backslash \<equiv> CHR 0x5C"

definition escape_ini :: "string \<Rightarrow> string" where
  "escape_ini v =
     replace_char (CHR '';'') [backslash, CHR '';'']
       (replace_char LF [backslash, CHR ''n'']
         (replace_char backslash [backslash, backslash] v))"

fun unescape_ini :: "string \<Rightarrow> string" where
  "unescape_ini [] = []"
| "unescape_ini [c] = [c]"
| "unescape_ini (c # d # r) =
     (if c = backslash then
        (if d = CHR ''n'' then LF # unescape_ini r
         else if d = CHR '';'' then CHR '';'' # unescape_ini r
         else if d = backslash then backslash # unescape_ini r
         else backslash # d # unescape_ini r)
      else c # unescape_ini (d # r))"

text \<open>The three replacements together, character by character.\<close>

definition escape_char :: "char \<Rightarrow> string" where
  "escape_char c =
     (if c = backslash then [backslash, backslash]
      else if c = LF then [backslash, CHR ''n'']
      else if c = CHR '';'' then [backslash, CHR '';'']
      else [c])"

lemma escape_ini_chars: "escape_ini v = concat (map escape_char v)"
  by (induction v) (auto simp: escape_ini_def escape_char_def replace_char_Cons)

lemma escape_ini_simps [simp]:
  "escape_ini [] = []"
  "escape_ini (c # v) = escape_char c @ escape_ini v"
  "escape_ini (u @ v) = escape_ini u @ escape_ini v"
  by (simp_all add: escape_ini_chars)

lemma unescape_escape_char: "unescape_ini (escape_char c @ r) = c # unescape_ini r"
  by (cases r) (auto simp: escape_char_def)

lemma unescape_escape [simp]: "unescape_ini (escape_ini v) = v"
  by (induction v) (simp_all add: unescape_escape_char)

lemma escape_ini_no_LF [simp]: "LF \<notin> set (escape_ini v)"
  by (auto simp: escape_ini_chars escape_char_def)

lemma escape_ini_Nil_iff [simp]: "escape_ini v = [] \<longleftrightarrow> v = []"
  by (cases v) (auto simp: escape_char_def)

text \<open>Texts on which escaping is the identity.\<close>

definition plain :: "string \<Rightarrow> bool" where
  "plain v = (\<forall>c\<in>set v. c \<noteq> backslash \<and> c \<noteq> LF \<and> c \<noteq> CHR '';'')"

lemma escape_ini_plain: "plain v \<Longrightarrow> escape_ini v = v"
  by (induction v) (auto simp: plain_def escape_char_def)

section \<open>Parsing\<close>

type_synonym ini_map = "(string \<times> string, string) btree"

definition ini_line :: "string \<times> ini_map \<Rightarrow> string \<Rightarrow> string \<times> ini_map" where
  "ini_line st raw =
     (let (section, out) = st; line = trim raw in
      if line = [] \<or> starts_with line ''#'' \<or> starts_with line '';'' then st
      else case Option.bind (strip_prefix ''['' line) (strip_suffix '']'') of
        Some name \<Rightarrow> (to_ascii_lowercase (trim name), out)
      | None \<Rightarrow>
          (case split_once (CHR ''='') line of
             None \<Rightarrow> st
           | Some (k, v) \<Rightarrow>
               let key = to_ascii_lowercase (trim k); val = trim v in
               if section \<noteq> [] \<and> key \<noteq> []
               then (section, bt_insert (section, key) (unescape_ini val) out)
               else st))"

definition parse_ini :: "string \<Rightarrow> ini_map" where
  "parse_ini text = snd (foldl ini_line ([], []) (lines text))"

lemma bt_wf_ini_line: "bt_wf (snd st) \<Longrightarrow> bt_wf (snd (ini_line st raw))"
  by (cases st) (simp add: ini_line_def Let_def bt_wf_insert split: option.split)

lemma bt_wf_parse_ini: "bt_wf (parse_ini text)"
proof -
  have "bt_wf (snd st) \<Longrightarrow> bt_wf (snd (foldl ini_line st ls))" for st ls
    by (induction ls arbitrary: st) (simp_all add: bt_wf_ini_line)
  then show ?thesis by (simp add: parse_ini_def bt_wf_Nil)
qed

section \<open>Documents\<close>

text \<open>The lines a rendered document is made of.\<close>

datatype ini_item =
    Remark string
  | Header string
  | Entry string string

fun item_line :: "ini_item \<Rightarrow> string" where
  "item_line (Remark t) = t"
| "item_line (Header n) = ''['' @ n @ '']''"
| "item_line (Entry k v) = k @ ''='' @ escape_ini v"

definition render_items :: "ini_item list \<Rightarrow> string" where
  "render_items its = concat (map (\<lambda>i. item_line i @ [LF]) its)"

text \<open>Names the parser reads back unchanged: lower case, trimmed, not empty.\<close>

definition ini_name :: "string \<Rightarrow> bool" where
  "ini_name n \<longleftrightarrow> n \<noteq> [] \<and> trimmed n \<and> to_ascii_lowercase n = n \<and> LF \<notin> set n"

definition ini_key :: "string \<Rightarrow> bool" where
  "ini_key k \<longleftrightarrow> ini_name k \<and> CHR ''='' \<notin> set k \<and>
     hd k \<noteq> CHR ''#'' \<and> hd k \<noteq> CHR '';'' \<and> hd k \<noteq> CHR ''[''"

text \<open>Values that survive the trimming: no white space at either end but line feeds, which
  are escaped.\<close>

definition edge_ok :: "char \<Rightarrow> bool" where
  "edge_ok c \<longleftrightarrow> \<not> is_whitespace c \<or> c = LF"

definition ini_value :: "string \<Rightarrow> bool" where
  "ini_value v \<longleftrightarrow> v = [] \<or> edge_ok (hd v) \<and> edge_ok (last v)"

fun item_ok :: "ini_item \<Rightarrow> bool" where
  "item_ok (Remark t) = (LF \<notin> set t \<and> (t = [] \<or> hd t = CHR ''#'' \<and> \<not> is_whitespace (last t)))"
| "item_ok (Header n) = ini_name n"
| "item_ok (Entry k v) = (ini_key k \<and> ini_value v)"

fun apply_item :: "string \<times> ini_map \<Rightarrow> ini_item \<Rightarrow> string \<times> ini_map" where
  "apply_item st (Remark t) = st"
| "apply_item st (Header n) = (n, snd st)"
| "apply_item st (Entry k v) =
     (if fst st = [] then st else (fst st, bt_insert (fst st, k) v (snd st)))"

lemma is_whitespace_specials [simp]:
  "\<not> is_whitespace (CHR ''['')" "\<not> is_whitespace (CHR '']'')" "\<not> is_whitespace (CHR ''#'')"
  "\<not> is_whitespace (CHR ''='')" "\<not> is_whitespace (CHR '';'')" "\<not> is_whitespace (CHR ''n'')"
  "\<not> is_whitespace backslash" "is_whitespace LF" "is_whitespace CR"
  by (simp_all add: is_whitespace_def code_def)

lemma hd_escape_char: "edge_ok c \<Longrightarrow> \<not> is_whitespace (hd (escape_char c))"
  by (cases "c = LF") (simp_all add: escape_char_def edge_ok_def)

lemma last_escape_char: "edge_ok c \<Longrightarrow> \<not> is_whitespace (last (escape_char c))"
  by (cases "c = LF") (simp_all add: escape_char_def edge_ok_def)

lemma escape_char_nonempty [simp]: "escape_char c \<noteq> []"
  by (simp add: escape_char_def)

lemma trimmed_escape_value: "ini_value v \<Longrightarrow> trimmed (escape_ini v)"
proof (rule trimmedI)
  assume v: "ini_value v"
  show "escape_ini v = [] \<or>
      \<not> is_whitespace (hd (escape_ini v)) \<and> \<not> is_whitespace (last (escape_ini v))"
  proof (cases "v = []")
    case False
    then have "escape_ini v = escape_char (hd v) @ escape_ini (tl v)"
      and "escape_ini v = escape_ini (butlast v) @ escape_char (last v)"
      by (metis escape_ini_simps(2) list.collapse)
         (metis False append_butlast_last_id append_Nil2 escape_ini_simps)
    then have "hd (escape_ini v) = hd (escape_char (hd v))"
      "last (escape_ini v) = last (escape_char (last v))"
      by (metis escape_char_nonempty hd_append2) (metis \<open>escape_ini v = escape_ini (butlast v) @ escape_char (last v)\<close> escape_char_nonempty last_appendR)
    with v False show ?thesis
      by (simp add: ini_value_def hd_escape_char last_escape_char)
  qed simp
qed

lemma trim_append_edge:
  assumes "a \<noteq> []" "\<not> is_whitespace (hd a)" "b \<noteq> []" "\<not> is_whitespace (last b)"
  shows "trim (a @ b) = a @ b"
  using trimmedI [of "a @ b"] assms by (simp add: trimmed_def)

lemma trimmed_edges:
  assumes "trimmed n" "n \<noteq> []"
  shows "\<not> is_whitespace (hd n)" "\<not> is_whitespace (last n)"
proof -
  have n: "trim_end (trim_start n) = n"
    using assms(1) by (simp add: trimmed_def trim_def)
  then have "trim_start n \<noteq> []"
    using assms(2) by (auto simp: trim_end_def)
  then show "\<not> is_whitespace (hd n)"
    using trim_start_hd [of n] trim_end_hd [of "trim_start n"] n assms(2) by simp
  show "\<not> is_whitespace (last n)"
    using trim_end_last [of "trim_start n"] n assms(2) by simp
qed

lemma not_starts_with_hd: "s \<noteq> [] \<Longrightarrow> hd s \<noteq> c \<Longrightarrow> \<not> starts_with s [c]"
  by (cases s) (simp_all add: starts_with_def)

lemma item_line_edges:
  assumes "item_ok i"
  shows "LF \<notin> set (item_line i) \<and> trimmed (item_line i)"
proof (cases i)
  case (Remark t)
  with assms show ?thesis by (cases "t = []") (simp_all add: trimmedI)
next
  case (Header n)
  with assms show ?thesis by (simp add: trimmedI ini_name_def)
next
  case (Entry k v)
  with assms have k: "k \<noteq> []" "trimmed k" "LF \<notin> set k" and v: "ini_value v"
    by (simp_all add: ini_key_def ini_name_def)
  have "\<not> is_whitespace (last (CHR ''='' # escape_ini v))"
    using trimmed_edges(2) [OF trimmed_escape_value [OF v]] by simp
  with k trimmed_edges(1) [OF k(2,1)] Entry show ?thesis
    by (simp add: trimmedI)
qed

lemma ini_line_item:
  assumes ok: "item_ok i"
  shows "ini_line st (item_line i) = apply_item st i"
proof -
  have trim: "trim (item_line i) = item_line i"
    using item_line_edges [OF ok] by (simp add: trimmed_def)
  show ?thesis
  proof (cases i)
    case (Remark t)
    then show ?thesis
      using ok trim by (cases st; cases t) (simp_all add: ini_line_def starts_with_def)
  next
    case (Header n)
    with ok have n: "trim n = n" "to_ascii_lowercase n = n"
      by (simp_all add: ini_name_def trimmed_def)
    have "strip_prefix ''['' (''['' @ n @ '']'') = Some (n @ '']'')"
      and "strip_suffix '']'' (n @ '']'') = Some n"
      by (simp_all only: strip_prefix_Some_iff strip_suffix_Some_iff)
    with Header n trim show ?thesis
      by (cases st) (simp add: ini_line_def starts_with_def)
  next
    case (Entry k v)
    with ok have k: "k \<noteq> []" "trim k = k" "to_ascii_lowercase k = k" "CHR ''='' \<notin> set k"
      and h: "hd k \<noteq> CHR ''#''" "hd k \<noteq> CHR '';''" "hd k \<noteq> CHR ''[''"
      and v: "trim (escape_ini v) = escape_ini v"
      using trimmed_escape_value by (auto simp: ini_key_def ini_name_def trimmed_def)
    let ?l = "k @ CHR ''='' # escape_ini v"
    have s: "\<not> starts_with ?l [c]" if "hd k \<noteq> c" for c
      using k(1) that by (intro not_starts_with_hd) simp_all
    have "split_once (CHR ''='') ?l = Some (k, escape_ini v)"
      using k(4) by (rule split_once_append)
    with Entry k v s h trim show ?thesis
      by (cases st) (simp add: ini_line_def strip_prefix_def)
  qed
qed

text \<open>The parser on a rendered document: the last header and the entries below a header.\<close>

theorem parse_ini_render_items:
  assumes "\<forall>i\<in>set its. item_ok i"
  shows "parse_ini (render_items its) = snd (foldl apply_item ([], []) its)"
proof -
  have "lines (render_items its) = map item_line its"
  proof -
    have "render_items its = concat (map (\<lambda>l. l @ [LF]) (map item_line its))"
      by (simp add: render_items_def comp_def)
    moreover have "LF \<notin> set (item_line i) \<and> (item_line i = [] \<or> last (item_line i) \<noteq> CR)"
      if "i \<in> set its" for i
    proof -
      have "item_ok i" using assms that by blast
      then show ?thesis
        using item_line_edges [of i] trimmed_edges(2) [of "item_line i"] is_whitespace_specials(9)
        by metis
    qed
    ultimately show ?thesis
      using lines_concat [of "map item_line its"] by simp
  qed
  moreover have "foldl ini_line st (map item_line its) = foldl apply_item st its" for st
    using assms by (induction its arbitrary: st) (simp_all add: ini_line_item)
  ultimately show ?thesis by (simp add: parse_ini_def)
qed

text \<open>A block of the document: an empty line, a header, then remarks and entries.\<close>

definition section_of :: "string \<Rightarrow> ini_item list \<Rightarrow> ((string \<times> string) \<times> string) list" where
  "section_of h its = concat (map (\<lambda>i. case i of Entry k v \<Rightarrow> [((h, k), v)] | _ \<Rightarrow> []) its)"

fun headless :: "ini_item \<Rightarrow> bool" where
  "headless (Header n) = False"
| "headless _ = True"

lemma foldl_apply_block:
  assumes "\<forall>i\<in>set its. headless i" "h \<noteq> []"
  shows "foldl apply_item (h, m) its = (h, bt_extend m (section_of h its))"
  using assms(1)
proof (induction its arbitrary: m)
  case Nil
  then show ?case by (simp add: section_of_def bt_extend_def)
next
  case (Cons i its)
  with assms(2) show ?case
    by (cases i) (simp_all add: section_of_def bt_extend_def)
qed

definition block_items :: "(string \<times> ini_item list) list \<Rightarrow> ini_item list" where
  "block_items bs = concat (map (\<lambda>(h, its). Remark [] # Header h # its) bs)"

definition block_entries ::
    "(string \<times> ini_item list) list \<Rightarrow> ((string \<times> string) \<times> string) list" where
  "block_entries bs = concat (map (\<lambda>(h, its). section_of h its) bs)"

lemma foldl_apply_blocks:
  assumes "\<forall>(h, its)\<in>set bs. h \<noteq> [] \<and> (\<forall>i\<in>set its. headless i)"
  shows "snd (foldl apply_item (h0, m) (block_items bs)) = bt_extend m (block_entries bs)"
  using assms
proof (induction bs arbitrary: h0 m)
  case Nil
  then show ?case by (simp add: block_items_def block_entries_def bt_extend_def)
next
  case (Cons b bs)
  obtain h its where b: "b = (h, its)" by (cases b)
  with Cons.prems have "foldl apply_item (h, m) its = (h, bt_extend m (section_of h its))"
    by (intro foldl_apply_block) auto
  with Cons b show ?case
    by (simp add: block_items_def block_entries_def bt_extend_def)
qed

lemma foldl_apply_remarks:
  "\<forall>i\<in>set its. \<exists>t. i = Remark t \<Longrightarrow> foldl apply_item st its = st"
  by (induction its arbitrary: st) auto

end
