(* ===== verification/Settings_Values.thy ===== *)
theory Settings_Values
  imports Complex_Main Ini
begin

text \<open>
  The values of the settings file (crates/tm-core/src/settings.rs): the enumerations and their
  names in the file, booleans, numbers, the window size, column widths and the migration of the
  positional widths of old builds. \<open>f32\<close> is the parameter \<open>'f\<close> with the operations of the
  standard library the code uses.
\<close>

section \<open>Enumerations\<close>

datatype theme_mode = ThemeSystem | ThemeLight | ThemeDark

datatype update_speed = SpeedHigh | SpeedNormal | SpeedLow | SpeedPaused

datatype text_smoothing = Sharp | Standard | Smooth

datatype render_mode = RenderAuto | RenderCompatibility | RenderSoftware

datatype lang_choice = LangSystem | LangDe | LangEn

text \<open>\<open>UpdateSpeed::interval\<close>, in milliseconds.\<close>

fun interval :: "update_speed \<Rightarrow> nat" where
  "interval SpeedHigh = 500"
| "interval SpeedNormal = 1000"
| "interval SpeedLow = 4000"
| "interval SpeedPaused = 3600 * 1000"

fun theme_as_cfg :: "theme_mode \<Rightarrow> string" where
  "theme_as_cfg ThemeSystem = ''system''"
| "theme_as_cfg ThemeLight = ''light''"
| "theme_as_cfg ThemeDark = ''dark''"

definition theme_from_cfg :: "string \<Rightarrow> theme_mode option" where
  "theme_from_cfg s =
     (let l = to_ascii_lowercase s in
      if l = ''system'' then Some ThemeSystem
      else if l \<in> {''light'', ''hell''} then Some ThemeLight
      else if l \<in> {''dark'', ''dunkel''} then Some ThemeDark
      else None)"

fun speed_as_cfg :: "update_speed \<Rightarrow> string" where
  "speed_as_cfg SpeedHigh = ''high''"
| "speed_as_cfg SpeedNormal = ''normal''"
| "speed_as_cfg SpeedLow = ''low''"
| "speed_as_cfg SpeedPaused = ''paused''"

definition speed_from_cfg :: "string \<Rightarrow> update_speed option" where
  "speed_from_cfg s =
     (let l = to_ascii_lowercase s in
      if l = ''high'' then Some SpeedHigh
      else if l = ''normal'' then Some SpeedNormal
      else if l = ''low'' then Some SpeedLow
      else if l = ''paused'' then Some SpeedPaused
      else None)"

fun smoothing_as_cfg :: "text_smoothing \<Rightarrow> string" where
  "smoothing_as_cfg Sharp = ''sharp''"
| "smoothing_as_cfg Standard = ''standard''"
| "smoothing_as_cfg Smooth = ''smooth''"

definition smoothing_from_cfg :: "string \<Rightarrow> text_smoothing option" where
  "smoothing_from_cfg s =
     (let l = to_ascii_lowercase s in
      if l \<in> {''sharp'', ''scharf''} then Some Sharp
      else if l \<in> {''standard'', ''normal''} then Some Standard
      else if l \<in> {''smooth'', ''weich''} then Some Smooth
      else None)"

fun render_as_cfg :: "render_mode \<Rightarrow> string" where
  "render_as_cfg RenderAuto = ''auto''"
| "render_as_cfg RenderCompatibility = ''compatibility''"
| "render_as_cfg RenderSoftware = ''software''"

definition render_from_cfg :: "string \<Rightarrow> render_mode option" where
  "render_from_cfg s =
     (let l = to_ascii_lowercase s in
      if l \<in> {''auto'', ''automatic'', ''automatisch'', ''gpu'', ''true'', ''on''} then Some RenderAuto
      else if l \<in> {''compatibility'', ''kompatibilitaet'', ''opengl'', ''gl''}
        then Some RenderCompatibility
      else if l \<in> {''software'', ''cpu'', ''warp'', ''false'', ''off''} then Some RenderSoftware
      else None)"

definition is_accelerated :: "render_mode \<Rightarrow> bool" where
  "is_accelerated m = (m \<noteq> RenderSoftware)"

fun lang_as_cfg :: "lang_choice \<Rightarrow> string" where
  "lang_as_cfg LangSystem = ''system''"
| "lang_as_cfg LangDe = ''de''"
| "lang_as_cfg LangEn = ''en''"

definition lang_from_cfg :: "string \<Rightarrow> lang_choice option" where
  "lang_from_cfg s =
     (let l = to_ascii_lowercase s in
      if l \<in> {''system'', ''''} then Some LangSystem
      else if l \<in> {''de'', ''german''} then Some LangDe
      else if l \<in> {''en'', ''english''} then Some LangEn
      else None)"

definition parse_bool :: "string \<Rightarrow> bool option" where
  "parse_bool s =
     (let l = to_ascii_lowercase s in
      if l \<in> {''1'', ''true'', ''yes'', ''on''} then Some True
      else if l \<in> {''0'', ''false'', ''no'', ''off''} then Some False
      else None)"

text \<open>\<open>bool::to_string\<close>.\<close>

fun show_bool :: "bool \<Rightarrow> string" where
  "show_bool True = ''true''"
| "show_bool False = ''false''"

lemmas from_cfg_defs =
  theme_from_cfg_def speed_from_cfg_def smoothing_from_cfg_def render_from_cfg_def
  lang_from_cfg_def parse_bool_def to_ascii_lowercase_def ascii_lower_def code_def Let_def

lemma theme_cfg_roundtrip [simp]: "theme_from_cfg (theme_as_cfg t) = Some t"
  by (cases t) (simp_all add: from_cfg_defs)

lemma speed_cfg_roundtrip [simp]: "speed_from_cfg (speed_as_cfg u) = Some u"
  by (cases u) (simp_all add: from_cfg_defs)

lemma smoothing_cfg_roundtrip [simp]: "smoothing_from_cfg (smoothing_as_cfg g) = Some g"
  by (cases g) (simp_all add: from_cfg_defs)

lemma render_cfg_roundtrip [simp]: "render_from_cfg (render_as_cfg r) = Some r"
  by (cases r) (simp_all add: from_cfg_defs)

lemma lang_cfg_roundtrip [simp]: "lang_from_cfg (lang_as_cfg l) = Some l"
  by (cases l) (simp_all add: from_cfg_defs)

lemma bool_cfg_roundtrip [simp]: "parse_bool (show_bool b) = Some b"
  by (cases b) (simp_all add: from_cfg_defs)

section \<open>Numbers\<close>

record 'f f32_ops =
  f_parse :: "string \<Rightarrow> 'f option"
  f_finite :: "'f \<Rightarrow> bool"
  f_le :: "'f \<Rightarrow> 'f \<Rightarrow> bool"
  f_lit :: "rat \<Rightarrow> 'f"
  f_display :: "'f \<Rightarrow> string"
  f_fixed1 :: "'f \<Rightarrow> string"

definition f_lt :: "('f, 'z) f32_ops_scheme \<Rightarrow> 'f \<Rightarrow> 'f \<Rightarrow> bool" where
  "f_lt F a b = (f_le F a b \<and> \<not> f_le F b a)"

definition f_within :: "('f, 'z) f32_ops_scheme \<Rightarrow> rat \<Rightarrow> rat \<Rightarrow> 'f \<Rightarrow> bool" where
  "f_within F lo hi v = (f_le F (f_lit F lo) v \<and> f_le F v (f_lit F hi))"

text \<open>\<open>f32::clamp\<close>.\<close>

definition f_clamp :: "('f, 'z) f32_ops_scheme \<Rightarrow> rat \<Rightarrow> rat \<Rightarrow> 'f \<Rightarrow> 'f" where
  "f_clamp F lo hi v =
     (let v = if f_lt F v (f_lit F lo) then f_lit F lo else v
      in if f_lt F (f_lit F hi) v then f_lit F hi else v)"

lemma f_clamp_within: "f_within F lo hi v \<Longrightarrow> f_clamp F lo hi v = v"
  by (simp add: f_clamp_def f_within_def f_lt_def)

definition parse_f32 :: "('f, 'z) f32_ops_scheme \<Rightarrow> string \<Rightarrow> 'f option" where
  "parse_f32 F s = option_filter (f_finite F) (f_parse F s)"

definition parse_u32 :: "string \<Rightarrow> nat option" where
  "parse_u32 s = parse_unsigned 32 s"

definition fmt_width :: "('f, 'z) f32_ops_scheme \<Rightarrow> 'f \<Rightarrow> string" where
  "fmt_width F w =
     (let s = f_fixed1 F w in case strip_suffix ''.0'' s of Some t \<Rightarrow> t | None \<Rightarrow> s)"

text \<open>\<open>split_once(['x', 'X'])\<close>: at the first of either letter.\<close>

fun split_once_x :: "string \<Rightarrow> (string \<times> string) option" where
  "split_once_x [] = None"
| "split_once_x (c # s) =
     (if c = CHR ''x'' \<or> c = CHR ''X'' then Some ([], s)
      else case split_once_x s of None \<Rightarrow> None | Some (a, b) \<Rightarrow> Some (c # a, b))"

definition write_window_size :: "('f, 'z) f32_ops_scheme \<Rightarrow> 'f \<times> 'f \<Rightarrow> string" where
  "write_window_size F sz = f_display F (fst sz) @ ''x'' @ f_display F (snd sz)"

definition parse_window_size :: "('f, 'z) f32_ops_scheme \<Rightarrow> string \<Rightarrow> ('f \<times> 'f) option" where
  "parse_window_size F s =
     Option.bind (split_once_x s) (\<lambda>(w, h).
       Option.bind (parse_f32 F (trim w)) (\<lambda>w.
         Option.bind (parse_f32 F (trim h)) (\<lambda>h. Some (w, h))))"

lemma split_once_x_append:
  "CHR ''x'' \<notin> set a \<Longrightarrow> CHR ''X'' \<notin> set a \<Longrightarrow> split_once_x (a @ CHR ''x'' # b) = Some (a, b)"
  by (induction a) auto

text \<open>One bad entry makes the whole line invalid.\<close>

fun parse_width_parts :: "('f, 'z) f32_ops_scheme \<Rightarrow> string list \<Rightarrow> 'f list option" where
  "parse_width_parts F [] = Some []"
| "parse_width_parts F (p # ps) =
     (case f_parse F (trim p) of
        Some w \<Rightarrow>
          if f_finite F w \<and> f_lt F (f_lit F 0) w
          then map_option (\<lambda>ws. w # ws) (parse_width_parts F ps)
          else None
      | None \<Rightarrow> None)"

definition parse_widths :: "('f, 'z) f32_ops_scheme \<Rightarrow> string \<Rightarrow> 'f list option" where
  "parse_widths F s =
     (case parse_width_parts F (split_on (CHR '','') s) of
        None \<Rightarrow> None
      | Some out \<Rightarrow> if out = [] then None else Some out)"

section \<open>The positional widths of old builds\<close>

definition LEGACY_COLUMN_ORDER :: "(string \<times> string list) list" where
  "LEGACY_COLUMN_ORDER =
     [(''processes'', [''name'', ''status'', ''cpu'', ''mem'', ''disk'', ''net'']),
      (''details'',
       [''name'', ''pid'', ''status'', ''user'', ''cpu'', ''mem'', ''platform'', ''elevated'',
        ''uac'', ''gpu'']),
      (''users'', [''user'', ''status'', ''cpu'', ''mem'', ''disk'', ''net'']),
      (''startup'', [''name'', ''pub'', ''status'', ''impact'']),
      (''services'', [''name'', ''pid'', ''desc'', ''status'', ''group'']),
      (''apphistory'', [''name'', ''cpu'', ''net'', ''notif''])]"

definition migrate_positional_widths ::
    "('f, 'z) f32_ops_scheme \<Rightarrow> string \<Rightarrow> 'f list \<Rightarrow> (string, 'f) btree" where
  "migrate_positional_widths F table widths =
     (case find (\<lambda>(t, _). t = table) LEGACY_COLUMN_ORDER of
        None \<Rightarrow> []
      | Some (_, order) \<Rightarrow>
          foldl (\<lambda>out (col, w). if f_within F 40 1200 w then bt_insert col w out else out)
            [] (zip order widths))"

lemma foldl_insert_if:
  "foldl (\<lambda>out (k, v). if p v then bt_insert k v out else out) m xs =
     bt_extend m (filter (\<lambda>(k, v). p v) xs)"
  by (induction xs arbitrary: m) (auto simp: bt_extend_def)

lemma bt_wf_migrate: "bt_wf (migrate_positional_widths F table widths)"
  by (simp add: migrate_positional_widths_def bt_wf_Nil bt_wf_extend foldl_insert_if
      split: option.split)

lemma functional_filter_zip:
  assumes "distinct ks"
  shows "functional (filter p (zip ks vs))"
  unfolding functional_def
  using assms by (auto simp: in_set_conv_nth nth_eq_iff_index_eq)

lemma LEGACY_COLUMN_ORDER_distinct:
  "distinct (map fst LEGACY_COLUMN_ORDER)" "(t, order) \<in> set LEGACY_COLUMN_ORDER \<Longrightarrow> distinct order"
  by (auto simp: LEGACY_COLUMN_ORDER_def)

lemma find_key:
  "distinct (map fst kvs) \<Longrightarrow>
     find (\<lambda>(t, _). t = k) kvs = Some (t, v) \<longleftrightarrow> t = k \<and> (k, v) \<in> set kvs"
  by (induction kvs) (auto simp: image_iff)

text \<open>A positional width lands on the column that had this position, if it is a usable width.\<close>

lemma set_migrate:
  "(c, w) \<in> set (migrate_positional_widths F table widths) \<longleftrightarrow>
     (\<exists>order i. (table, order) \<in> set LEGACY_COLUMN_ORDER \<and> i < length order \<and>
        i < length widths \<and> order ! i = c \<and> widths ! i = w \<and> f_within F 40 1200 w)"
proof (cases "find (\<lambda>(t, _). t = table) LEGACY_COLUMN_ORDER")
  case None
  then have "(table, order) \<notin> set LEGACY_COLUMN_ORDER" for order
    by (auto simp: find_None_iff)
  with None show ?thesis by (simp add: migrate_positional_widths_def)
next
  case (Some x)
  obtain t order where x: "x = (t, order)" by (cases x)
  with Some have mem: "t = table" "(table, order) \<in> set LEGACY_COLUMN_ORDER"
    using find_key [OF LEGACY_COLUMN_ORDER_distinct(1)] by blast+
  have uniq: "order' = order" if "(table, order') \<in> set LEGACY_COLUMN_ORDER" for order'
    using that mem(2) LEGACY_COLUMN_ORDER_distinct(1) by (meson eq_key_imp_eq_value)
  have "set (migrate_positional_widths F table widths) =
      set (filter (\<lambda>(c, w). f_within F 40 1200 w) (zip order widths))"
    using Some x LEGACY_COLUMN_ORDER_distinct(2) [OF mem(2)]
    by (simp add: migrate_positional_widths_def foldl_insert_if set_bt_extend functional_filter_zip)
  also have "(c, w) \<in> \<dots> \<longleftrightarrow> (\<exists>i. i < length order \<and> i < length widths \<and> order ! i = c \<and>
      widths ! i = w \<and> f_within F 40 1200 w)"
    by (auto simp: in_set_zip)
  finally show ?thesis using mem(2) uniq by blast
qed

end
