(* ===== verification/Errors.thy ===== *)
theory Errors
  imports Rust_Text
begin

text \<open>
  The error type shared by the workspace (crates/tm-core/src/error.rs). The payload of an
  I/O or serialization error is a value of the standard library or of serde_json; what the
  program reads of it is its kind and its text.
\<close>

datatype io_kind = NotFound | InvalidData | OtherKind

record io_error =
  io_kind :: io_kind
  io_text :: string

datatype tm_error =
    Unsupported string
  | Io io_error
  | Json string
  | ChannelClosed
  | Platform string string
  | ProcessNotFound u32
  | ServiceNotFound string
  | Canceled

fun tm_error_text :: "tm_error \<Rightarrow> string" where
  "tm_error_text (Unsupported what) = ''operation not supported on this platform: '' @ what"
| "tm_error_text (Io e) = ''I/O error: '' @ io_text e"
| "tm_error_text (Json e) = ''serialization error: '' @ e"
| "tm_error_text ChannelClosed = ''engine channel closed''"
| "tm_error_text (Platform context detail) =
     ''platform API failure: '' @ context @ '': '' @ detail"
| "tm_error_text (ProcessNotFound pid) =
     ''process '' @ show_nat (unat pid) @ '' not found''"
| "tm_error_text (ServiceNotFound name) = ''service '' @ [CHR 0x27] @ name @ [CHR 0x27] @ '' not found''"
| "tm_error_text Canceled = ''operation canceled''"

text \<open>\<open>TmError::platform\<close> and the two conversions.\<close>

definition tm_platform :: "string \<Rightarrow> string \<Rightarrow> tm_error" where
  "tm_platform context detail = Platform context detail"

definition from_io :: "io_error \<Rightarrow> tm_error" where "from_io e = Io e"
definition from_json :: "string \<Rightarrow> tm_error" where "from_json e = Json e"

text \<open>\<open>source\<close>: the wrapped error, for the two kinds that have one.\<close>

fun tm_error_source :: "tm_error \<Rightarrow> string option" where
  "tm_error_source (Io e) = Some (io_text e)"
| "tm_error_source (Json e) = Some e"
| "tm_error_source _ = None"

section \<open>Fallible steps\<close>

text \<open>The \<open>?\<close> operator: stop at the first error.\<close>

definition and_then :: "'e + 'a \<Rightarrow> ('a \<Rightarrow> 'e + 'b) \<Rightarrow> 'e + 'b" where
  "and_then r f = (case r of Inl e \<Rightarrow> Inl e | Inr v \<Rightarrow> f v)"

text \<open>Running a fallible step over a list: results in order, or the first error.\<close>

fun try_map :: "('a \<Rightarrow> 'e + 'b) \<Rightarrow> 'a list \<Rightarrow> 'e + 'b list" where
  "try_map f [] = Inr []"
| "try_map f (x # xs) =
     (case f x of Inl e \<Rightarrow> Inl e
      | Inr y \<Rightarrow> (case try_map f xs of Inl e \<Rightarrow> Inl e | Inr ys \<Rightarrow> Inr (y # ys)))"

definition is_ok :: "'e + 'a \<Rightarrow> bool" where
  "is_ok r = (case r of Inl _ \<Rightarrow> False | Inr _ \<Rightarrow> True)"

lemma and_then_simps [simp]: "and_then (Inl e) f = Inl e" "and_then (Inr v) f = f v"
  by (simp_all add: and_then_def)

lemma is_ok_simps [simp]: "\<not> is_ok (Inl e)" "is_ok (Inr v)"
  by (simp_all add: is_ok_def)

lemma and_then_Inr_iff: "and_then r f = Inr w \<longleftrightarrow> (\<exists>v. r = Inr v \<and> f v = Inr w)"
  by (cases r) auto

lemma try_map_Inr:
  "try_map f xs = Inr ys \<Longrightarrow>
     length ys = length xs \<and> (\<forall>i<length xs. f (xs ! i) = Inr (ys ! i))"
proof (induction xs arbitrary: ys)
  case Nil
  then show ?case by simp
next
  case (Cons x xs)
  then obtain y zs where "f x = Inr y" "try_map f xs = Inr zs" "ys = y # zs"
    by (auto split: sum.splits)
  with Cons.IH [of zs] show ?case
    by (auto simp: nth_Cons split: nat.splits)
qed

lemma try_map_all_Inr:
  "\<forall>x\<in>set xs. f x = Inr (g x) \<Longrightarrow> try_map f xs = Inr (map g xs)"
  by (induction xs) auto

end
