(* ===== verification/Persist.thy ===== *)
theory Persist
  imports Errors
begin

text \<open>
  Crash-safe replacement of the persisted files (crates/tm-core/src/persist.rs), over a model
  of a file system that tells what a file holds now from what is known to be on stable
  storage. A run can end after any prefix of its file-system operations: because the machine
  loses power there, or because the next operation fails and its error is returned.
\<close>

section \<open>The file system\<close>

type_synonym bytes = "u8 list"

text \<open>A path is its directory and its file name.\<close>

record path =
  p_dir :: "string list"
  p_name :: string

text \<open>\<open>stable\<close> is the content that survives a crash, \<open>None\<close> while nothing is known of it.\<close>

record fs_file =
  cached :: bytes
  stable :: "bytes option"

type_synonym fs = "path \<Rightarrow> fs_file option"

datatype fs_op =
    CreateDirAll "string list"
  | CreateFile path
  | WriteAll path bytes
  | SyncAll path
  | Rename path path

fun fs_apply :: "fs \<Rightarrow> fs_op \<Rightarrow> fs" where
  "fs_apply s (CreateDirAll d) = s"
| "fs_apply s (CreateFile p) = s(p \<mapsto> \<lparr>cached = [], stable = None\<rparr>)"
| "fs_apply s (WriteAll p b) =
     (case s p of None \<Rightarrow> s | Some f \<Rightarrow> s(p \<mapsto> \<lparr>cached = cached f @ b, stable = None\<rparr>))"
| "fs_apply s (SyncAll p) =
     (case s p of None \<Rightarrow> s | Some f \<Rightarrow> s(p \<mapsto> \<lparr>cached = cached f, stable = Some (cached f)\<rparr>))"
| "fs_apply s (Rename p q) =
     (case s p of None \<Rightarrow> s | Some f \<Rightarrow> (s(p := None))(q \<mapsto> f))"

definition fs_run :: "fs \<Rightarrow> fs_op list \<Rightarrow> fs" where
  "fs_run = foldl fs_apply"

text \<open>What a program reads, and what it may read after a crash: an unsynced file holds
  anything.\<close>

definition fs_read :: "fs \<Rightarrow> path \<Rightarrow> bytes option" where
  "fs_read s p = map_option cached (s p)"

definition crash_reads :: "fs \<Rightarrow> path \<Rightarrow> bytes option \<Rightarrow> bool" where
  "crash_reads s p r =
     (case s p of
        None \<Rightarrow> r = None
      | Some f \<Rightarrow> (case stable f of Some b \<Rightarrow> r = Some b | None \<Rightarrow> r \<noteq> None))"

lemma fs_run_simps [simp]:
  "fs_run s [] = s" "fs_run s (x # xs) = fs_run (fs_apply s x) xs"
  by (simp_all add: fs_run_def)

lemma fs_run_append: "fs_run s (xs @ ys) = fs_run (fs_run s xs) ys"
  by (simp add: fs_run_def)

section \<open>The operations of the program\<close>

text \<open>\<open>Path::with_extension\<close>: the extension is what follows the last dot of the name,
  unless that dot is its first character.\<close>

definition file_stem :: "string \<Rightarrow> string" where
  "file_stem name =
     (case rsplit_once (CHR ''.'') name of
        None \<Rightarrow> name
      | Some (a, b) \<Rightarrow> if a = [] then name else a)"

definition with_extension :: "string \<Rightarrow> path \<Rightarrow> path" where
  "with_extension ext p = p\<lparr>p_name := file_stem (p_name p) @ ''.'' @ ext\<rparr>"

text \<open>\<open>replace_file\<close>: the chunks are what the writer handed over by the caller produces.\<close>

definition replace_file :: "path \<Rightarrow> string \<Rightarrow> bytes list \<Rightarrow> fs_op list" where
  "replace_file p tmp_ext chunks =
     (let tmp = with_extension tmp_ext p in
      [CreateDirAll (p_dir p), CreateFile tmp] @ map (WriteAll tmp) chunks @
      [SyncAll tmp, Rename tmp p])"

text \<open>\<open>set_aside\<close>: best effort, so a failing rename leaves the state alone.\<close>

definition bad_path :: "path \<Rightarrow> path" where
  "bad_path p = p\<lparr>p_name := p_name p @ ''.bad''\<rparr>"

definition set_aside :: "bool \<Rightarrow> path \<Rightarrow> fs \<Rightarrow> fs" where
  "set_aside rename_ok p s = (if rename_ok then fs_apply s (Rename p (bad_path p)) else s)"

section \<open>Crash safety\<close>

lemma with_extension_neq:
  assumes "CHR ''.'' \<in> set ext"
  shows "with_extension ext p \<noteq> p"
proof
  assume "with_extension ext p = p"
  then have eq: "p_name p = file_stem (p_name p) @ ''.'' @ ext"
    by (metis path.simps(2) path.surjective path.update_convs(2) with_extension_def)
  show False
  proof (cases "rsplit_once (CHR ''.'') (p_name p)")
    case None
    with eq show False by (simp add: file_stem_def)
  next
    case (Some ab)
    obtain a b where ab: "ab = (a, b)" by (cases ab)
    from Some ab have split: "p_name p = a @ CHR ''.'' # b" "CHR ''.'' \<notin> set b"
      by (auto dest: rsplit_once_Some)
    show False
    proof (cases "a = []")
      case True
      with Some ab eq show False by (simp add: file_stem_def)
    next
      case False
      with Some ab have "file_stem (p_name p) = a" by (simp add: file_stem_def)
      with eq split(1) have "b = ext" by (metis append_Cons append_Nil same_append_eq list.inject)
      with split(2) assms show False by simp
    qed
  qed
qed

lemma run_writes_created:
  "fs_run (s(p \<mapsto> \<lparr>cached = c, stable = None\<rparr>)) (map (WriteAll p) chunks) =
     s(p \<mapsto> \<lparr>cached = c @ concat chunks, stable = None\<rparr>)"
  by (induction chunks arbitrary: c) simp_all

text \<open>The operations that name only the temporary file leave every other path alone.\<close>

fun touches :: "path \<Rightarrow> fs_op \<Rightarrow> bool" where
  "touches p (CreateDirAll d) = False"
| "touches p (CreateFile q) = (p = q)"
| "touches p (WriteAll q b) = (p = q)"
| "touches p (SyncAll q) = (p = q)"
| "touches p (Rename q r) = (p = q \<or> p = r)"

lemma fs_apply_untouched: "\<not> touches p x \<Longrightarrow> fs_apply s x p = s p"
  by (cases x) (auto split: option.splits)

lemma fs_run_untouched: "list_all (\<lambda>x. \<not> touches p x) xs \<Longrightarrow> fs_run s xs p = s p"
  by (induction xs arbitrary: s) (auto simp: fs_apply_untouched)

lemma replace_file_complete:
  assumes "with_extension ext p \<noteq> p"
  shows "fs_run s (replace_file p ext chunks) =
    (s(with_extension ext p := None))
      (p \<mapsto> \<lparr>cached = concat chunks, stable = Some (concat chunks)\<rparr>)"
  using assms
  by (simp add: replace_file_def Let_def fs_run_append run_writes_created fun_eq_iff)

lemma replace_file_prefix:
  assumes "with_extension ext p \<noteq> p" and "n < length (replace_file p ext chunks)"
  shows "fs_run s (take n (replace_file p ext chunks)) p = s p"
proof -
  let ?tmp = "with_extension ext p"
  let ?init = "[CreateDirAll (p_dir p), CreateFile ?tmp] @ map (WriteAll ?tmp) chunks @ [SyncAll ?tmp]"
  obtain xs where xs: "xs = ?init" by blast
  have whole: "replace_file p ext chunks = xs @ [Rename ?tmp p]"
    by (simp add: xs replace_file_def Let_def)
  with assms(2) have "take n (replace_file p ext chunks) = take n ?init"
    unfolding xs [symmetric] by simp
  moreover have "list_all (\<lambda>x. \<not> touches p x) ?init"
    using assms(1) by (auto simp: list_all_iff)
  then have "list_all (\<lambda>x. \<not> touches p x) (take n ?init)"
    by (rule list_all_take)
  ultimately show ?thesis by (simp add: fs_run_untouched)
qed

text \<open>
  C5: replacing a persisted file is atomic under crashes and errors. Wherever the sequence of
  file-system operations is cut short, a reader of the destination, at once or after a power
  loss, finds what it would have found before, or the complete new content; once the
  sequence is through it is the new content, on stable storage, with no temporary file left.
\<close>

theorem replace_file_atomic:
  assumes "CHR ''.'' \<in> set ext"
    and "crash_reads (fs_run s (take n (replace_file p ext chunks))) p r"
  shows "(if n < length (replace_file p ext chunks) then crash_reads s p r
          else r = Some (concat chunks) \<and>
            fs_read (fs_run s (replace_file p ext chunks)) p = r \<and>
            fs_read (fs_run s (replace_file p ext chunks)) (with_extension ext p) = None)"
proof -
  note neq = with_extension_neq [OF assms(1), of p]
  show ?thesis
    using assms(2) neq
    by (auto simp: replace_file_prefix replace_file_complete crash_reads_def fs_read_def)
qed

definition config_path :: path where
  "config_path = \<lparr>p_dir = [''taskman''], p_name = ''config.ini''\<rparr>"

theorem replace_file_atomic_witness:
  "crash_reads [config_path \<mapsto> \<lparr>cached = [1, 2], stable = Some [1, 2]\<rparr>] config_path (Some [1, 2])"
  using replace_file_atomic [of "''ini.tmp''" "[config_path \<mapsto> \<lparr>cached = [1, 2], stable = Some [1, 2]\<rparr>]"
      4 config_path "[[3], [4]]" "Some [1, 2]"]
  by (simp add: replace_file_def Let_def crash_reads_def config_path_def with_extension_def
      file_stem_def rsplit_once_def)

text \<open>
  A file that could not be used is never destroyed by starting over. After setting it
  aside and replacing it, its old content is still readable under the name with \<open>.bad\<close>.
\<close>

lemma bad_path_neq: "bad_path p \<noteq> p"
proof
  assume "bad_path p = p"
  then have "p_name (bad_path p) = p_name p" by simp
  then show False by (simp add: bad_path_def)
qed

theorem set_aside_keeps_content:
  assumes "fs_read s p = Some old" and "CHR ''.'' \<in> set ext"
    and "with_extension ext p \<noteq> bad_path p"
  shows "fs_read (fs_run (set_aside True p s) (replace_file p ext chunks)) (bad_path p) = Some old \<and>
    fs_read (fs_run (set_aside True p s) (replace_file p ext chunks)) p = Some (concat chunks)"
  using assms bad_path_neq [of p] with_extension_neq [OF assms(2), of p]
  by (auto simp: set_aside_def fs_read_def replace_file_complete)

theorem set_aside_keeps_content_witness:
  "fs_read (fs_run (set_aside True config_path [config_path \<mapsto> \<lparr>cached = [7], stable = None\<rparr>])
      (replace_file config_path ''ini.tmp'' [[1], [2]])) (bad_path config_path) = Some [7]"
  using set_aside_keeps_content [of "[config_path \<mapsto> \<lparr>cached = [7], stable = None\<rparr>]" config_path
      "[7]" "''ini.tmp''" "[[1], [2]]"]
  by (simp add: fs_read_def config_path_def bad_path_def with_extension_def file_stem_def
      rsplit_once_def)

end
