(* ===== verification/Settings.thy ===== *)
theory Settings
  imports Settings_Values Persist
begin

text \<open>
  The settings (crates/tm-core/src/settings.rs): the record, its defaults, reading it from the
  text of config.ini, writing that text, and loading and saving the file. The functions take
  the operations of \<open>f32\<close> and the two conversions of serde_json that the process rules use.
\<close>

section \<open>The record\<close>

datatype priority_class =
    PrioRealtime | PrioHigh | PrioAboveNormal | PrioNormal | PrioBelowNormal | PrioLow | PrioUnknown

record sort_preference =
  sp_column :: string
  sp_ascending :: bool

record process_rule =
  pr_priority :: "priority_class option"
  pr_affinity_mask :: "u64 option"

definition rule_is_empty :: "process_rule \<Rightarrow> bool" where
  "rule_is_empty r = (pr_priority r = None \<and> pr_affinity_mask r = None)"

text \<open>The key of a rule: the lossy text of the image path, normalized on Windows.\<close>

definition process_rule_key :: "bool \<Rightarrow> string \<Rightarrow> string" where
  "process_rule_key windows path =
     (if windows then to_lowercase (replace_char (CHR ''/'') [backslash] path) else path)"

record 'f settings =
  save_config :: bool
  theme :: theme_mode
  update_speed :: update_speed
  always_on_top :: bool
  graph_seconds :: nat
  ui_zoom :: 'f
  remember_window :: bool
  window_size :: "'f \<times> 'f"
  default_start_page :: string
  sidebar_collapsed :: bool
  language :: lang_choice
  col_widths :: "(string, (string, 'f) btree) btree"
  col_visible :: "(string, (string, bool) btree) btree"
  col_order :: "(string, string list) btree"
  table_sort :: "(string, sort_preference) btree"
  process_rules :: "(string, process_rule) btree"
  perf_card_width :: 'f
  cpu_graph_mode :: string
  gpu_graph_mode :: string
  show_kernel_times :: bool
  wifi_details :: bool
  perf_selected_key :: string
  details_tree_hierarchical :: bool
  close_to_tray :: bool
  start_with_windows :: bool
  start_elevated :: bool
  text_smoothing :: text_smoothing
  render_mode :: render_mode

text \<open>The library operations: \<open>f32\<close>, and JSON text of a rule with its path.\<close>

record 'f cfg_ops = "'f f32_ops" +
  json_of :: "string \<times> process_rule \<Rightarrow> string option"
  json_to :: "string \<Rightarrow> (string \<times> process_rule) option"

definition default_settings :: "('f, 'z) cfg_ops_scheme \<Rightarrow> 'f settings" where
  "default_settings F =
     \<lparr>save_config = True, theme = ThemeSystem, update_speed = SpeedNormal, always_on_top = False,
      graph_seconds = 60, ui_zoom = f_lit F 1, remember_window = True,
      window_size = (f_lit F 1100, f_lit F 720), default_start_page = ''processes'',
      sidebar_collapsed = False, language = LangSystem, col_widths = [], col_visible = [],
      col_order = [], table_sort = [], process_rules = [], perf_card_width = f_lit F 252,
      cpu_graph_mode = ''overall'', gpu_graph_mode = ''overall'', show_kernel_times = False,
      wifi_details = False, perf_selected_key = ''cpu'', details_tree_hierarchical = False,
      close_to_tray = False, start_with_windows = False, start_elevated = False,
      text_smoothing = Sharp, render_mode = RenderAuto\<rparr>"

section \<open>Reading\<close>

definition general_get :: "ini_map \<Rightarrow> string \<Rightarrow> string option" where
  "general_get kv key = bt_get kv (''general'', key)"

definition general_bool :: "ini_map \<Rightarrow> string \<Rightarrow> bool \<Rightarrow> bool" where
  "general_bool kv key dflt = unwrap_or (Option.bind (general_get kv key) parse_bool) dflt"

definition start_pages :: "string list" where
  "start_pages =
     [''processes'', ''performance'', ''apphistory'', ''startup'', ''users'', ''details'',
      ''services'']"

definition gpu_mode_ok :: "string \<Rightarrow> bool" where
  "gpu_mode_ok mode \<longleftrightarrow> mode \<noteq> [] \<and> utf8_len mode \<le> 32 \<and>
     list_all (\<lambda>c. is_alphanumeric c \<or> c = CHR ''_'' \<or> c = CHR '' '') mode"

text \<open>The \<open>[general]\<close> section.\<close>

definition general_settings :: "('f, 'z) cfg_ops_scheme \<Rightarrow> ini_map \<Rightarrow> 'f settings" where
  "general_settings F kv =
     (let s = default_settings F;
       s = s\<lparr>save_config := general_bool kv ''save_config'' (save_config s)\<rparr>;
       s = (case Option.bind (general_get kv ''theme'') theme_from_cfg of
              Some v \<Rightarrow> s\<lparr>theme := v\<rparr> | None \<Rightarrow> s);
       s = (case Option.bind (general_get kv ''update_speed'') speed_from_cfg of
              Some v \<Rightarrow> s\<lparr>update_speed := v\<rparr> | None \<Rightarrow> s);
       s = s\<lparr>always_on_top := general_bool kv ''always_on_top'' (always_on_top s)\<rparr>;
       s = (case Option.bind (general_get kv ''graph_seconds'') parse_u32 of
              Some v \<Rightarrow> s\<lparr>graph_seconds := min (max v 10) 600\<rparr> | None \<Rightarrow> s);
       s = (case option_filter (f_within F (1/2) 3) (Option.bind (general_get kv ''ui_zoom'') (parse_f32 F)) of
              Some v \<Rightarrow> s\<lparr>ui_zoom := v\<rparr> | None \<Rightarrow> s);
       s = s\<lparr>remember_window := general_bool kv ''remember_window'' (remember_window s)\<rparr>;
       s = s\<lparr>start_elevated := general_bool kv ''start_elevated'' (start_elevated s)\<rparr>;
       s = (case Option.bind (general_get kv ''window_size'') (parse_window_size F) of
              Some (w, h) \<Rightarrow>
                s\<lparr>window_size := (f_clamp F 200 16384 w, f_clamp F 150 16384 h)\<rparr>
            | None \<Rightarrow> s);
       s = (case general_get kv ''default_start_page'' of
              Some v \<Rightarrow>
                (let page = to_ascii_lowercase (trim v) in
                 if page \<in> set start_pages then s\<lparr>default_start_page := page\<rparr> else s)
            | None \<Rightarrow> s);
       s = s\<lparr>sidebar_collapsed := general_bool kv ''sidebar_collapsed'' (sidebar_collapsed s)\<rparr>;
       s = (case Option.bind (general_get kv ''language'') lang_from_cfg of
              Some v \<Rightarrow> s\<lparr>language := v\<rparr> | None \<Rightarrow> s);
       s = (case option_filter (f_within F 100 2000)
                   (Option.bind (general_get kv ''perf_card_width'') (parse_f32 F)) of
              Some v \<Rightarrow> s\<lparr>perf_card_width := v\<rparr> | None \<Rightarrow> s);
       s = (case general_get kv ''cpu_graph_mode'' of
              Some v \<Rightarrow>
                (let mode = to_ascii_lowercase (trim v) in
                 if mode = ''overall'' \<or> mode = ''logical'' then s\<lparr>cpu_graph_mode := mode\<rparr> else s)
            | None \<Rightarrow> s);
       s = (case general_get kv ''gpu_graph_mode'' of
              Some v \<Rightarrow>
                (let mode = trim v in
                 if gpu_mode_ok mode then s\<lparr>gpu_graph_mode := mode\<rparr> else s)
            | None \<Rightarrow> s);
       s = s\<lparr>show_kernel_times := general_bool kv ''show_kernel_times'' (show_kernel_times s)\<rparr>;
       s = s\<lparr>wifi_details := general_bool kv ''wifi_details'' (wifi_details s)\<rparr>;
       s = (case general_get kv ''perf_selected_key'' of
              Some v \<Rightarrow>
                (let key = trim v in
                 if key \<noteq> [] \<and> utf8_len key \<le> 64 then s\<lparr>perf_selected_key := key\<rparr> else s)
            | None \<Rightarrow> s);
       s = s\<lparr>details_tree_hierarchical :=
              unwrap_or
                (option_or
                  (option_or (Option.bind (general_get kv ''details_tree_hierarchical'') parse_bool)
                    (Option.bind (general_get kv ''details_tree_view'') parse_bool))
                  (Option.bind (general_get kv ''process_tree_view'') parse_bool))
                (details_tree_hierarchical s)\<rparr>;
       s = s\<lparr>close_to_tray := general_bool kv ''close_to_tray'' (close_to_tray s)\<rparr>;
       s = s\<lparr>start_with_windows := general_bool kv ''start_with_windows'' (start_with_windows s)\<rparr>;
       s = (case Option.bind (general_get kv ''text_smoothing'') smoothing_from_cfg of
              Some v \<Rightarrow> s\<lparr>text_smoothing := v\<rparr> | None \<Rightarrow> s);
       s = (case option_or (Option.bind (general_get kv ''render_mode'') render_from_cfg)
                   (Option.bind (general_get kv ''gpu_acceleration'') render_from_cfg) of
              Some v \<Rightarrow> s\<lparr>render_mode := v\<rparr> | None \<Rightarrow> s)
      in s)"

text \<open>One entry of the loop over the whole file; the flag is \<open>saw_legacy\<close>.\<close>

definition width_entry ::
    "('f, 'z) cfg_ops_scheme \<Rightarrow> string \<Rightarrow> string \<Rightarrow> string \<Rightarrow> 'f settings \<Rightarrow> 'f settings" where
  "width_entry F rest key value s =
     (case parse_f32 F value of
        Some w \<Rightarrow>
          if rest \<noteq> ''columns'' \<and> f_within F 40 1200 w
          then s\<lparr>col_widths := nest_insert (rest, key) w (col_widths s)\<rparr> else s
      | None \<Rightarrow> s)"

definition order_ids :: "string \<Rightarrow> string list" where
  "order_ids value = filter (\<lambda>i. i \<noteq> []) (map trim (split_on (CHR '','') value))"

definition column_entry ::
    "('f, 'z) cfg_ops_scheme \<Rightarrow> bool \<times> 'f settings \<Rightarrow> (string \<times> string) \<times> string \<Rightarrow>
     bool \<times> 'f settings" where
  "column_entry F st e =
     (let (saw, s) = st; ((section, key), value) = e in
      if section = ''columns'' then (True, s)
      else if section = ''sort'' then
        (case rsplit_once (CHR '','') value of
           None \<Rightarrow> (saw, s)
         | Some (column, ascending) \<Rightarrow>
             (case parse_bool (trim ascending) of
                Some a \<Rightarrow>
                  (if trim column \<noteq> []
                   then (saw, s\<lparr>table_sort :=
                      bt_insert key \<lparr>sp_column = trim column, sp_ascending = a\<rparr> (table_sort s)\<rparr>)
                   else (saw, s))
              | None \<Rightarrow> (saw, s)))
      else if section = ''process-rules'' \<and> starts_with key ''rule.'' then
        (case json_to F value of
           Some (path, rule) \<Rightarrow>
             (if trim path \<noteq> [] \<and> \<not> rule_is_empty rule
              then (saw, s\<lparr>process_rules := bt_insert path rule (process_rules s)\<rparr>)
              else (saw, s))
         | None \<Rightarrow> (saw, s))
      else
        (case strip_prefix ''columns.'' section of
           None \<Rightarrow> (saw, s)
         | Some rest \<Rightarrow>
             (case rsplit_once (CHR ''.'') rest of
                Some (table, kind) \<Rightarrow>
                  if kind = ''visible'' then
                    (case parse_bool value of
                       Some on \<Rightarrow>
                         (saw, s\<lparr>col_visible := nest_insert (table, key) on (col_visible s)\<rparr>)
                     | None \<Rightarrow> (saw, s))
                  else if kind = ''order'' then
                    (if key = ''order'' \<and> order_ids value \<noteq> []
                     then (saw, s\<lparr>col_order := bt_insert table (order_ids value) (col_order s)\<rparr>)
                     else (saw, s))
                  else (saw, width_entry F rest key value s)
              | None \<Rightarrow> (saw, width_entry F rest key value s))))"

text \<open>The migration of positional widths: \<open>entry(table).or_default()\<close>, then
  \<open>or_insert\<close> of each migrated width.\<close>

definition migrate_columns :: "('f, 'z) cfg_ops_scheme \<Rightarrow> ini_map \<Rightarrow> 'f settings \<Rightarrow> 'f settings" where
  "migrate_columns F kv s =
     foldl (\<lambda>s ((section, table), value).
       case parse_widths F value of
         None \<Rightarrow> s
       | Some widths \<Rightarrow>
           (let migrated = migrate_positional_widths F table widths in
            if migrated = [] then s
            else s\<lparr>col_widths :=
              bt_upsert table [] (\<lambda>entry. bt_or_insert_all entry migrated)
                (col_widths s)\<rparr>))
       s (filter (\<lambda>((section, table), value). section = ''columns'') kv)"

definition from_ini_text :: "('f, 'z) cfg_ops_scheme \<Rightarrow> string \<Rightarrow> 'f settings" where
  "from_ini_text F text =
     (let kv = parse_ini text;
          (saw_legacy, s) = foldl (column_entry F) (False, general_settings F kv) kv;
          s = (if saw_legacy then migrate_columns F kv s else s)
      in if \<not> remember_window s then s\<lparr>window_size := window_size (default_settings F)\<rparr> else s)"

section \<open>Writing\<close>

text \<open>The comment at the top holds a dash that is not in the character range of the model;
  it is \<open>em_dash\<close>.\<close>

definition em_dash :: char where "em_dash = CHR 0x97"

definition general_pairs :: "('f, 'z) cfg_ops_scheme \<Rightarrow> 'f settings \<Rightarrow> (string \<times> string) list" where
  "general_pairs F s =
     [(''save_config'', show_bool (save_config s)),
      (''language'', lang_as_cfg (language s)),
      (''theme'', theme_as_cfg (theme s)),
      (''update_speed'', speed_as_cfg (update_speed s)),
      (''always_on_top'', show_bool (always_on_top s)),
      (''graph_seconds'', show_nat (graph_seconds s)),
      (''ui_zoom'', f_display F (ui_zoom s)),
      (''remember_window'', show_bool (remember_window s)),
      (''window_size'', write_window_size F (window_size s)),
      (''default_start_page'', default_start_page s),
      (''sidebar_collapsed'', show_bool (sidebar_collapsed s)),
      (''perf_card_width'', f_display F (perf_card_width s)),
      (''cpu_graph_mode'', cpu_graph_mode s),
      (''gpu_graph_mode'', gpu_graph_mode s),
      (''show_kernel_times'', show_bool (show_kernel_times s)),
      (''wifi_details'', show_bool (wifi_details s)),
      (''perf_selected_key'', perf_selected_key s),
      (''details_tree_hierarchical'', show_bool (details_tree_hierarchical s)),
      (''close_to_tray'', show_bool (close_to_tray s)),
      (''start_with_windows'', show_bool (start_with_windows s)),
      (''start_elevated'', show_bool (start_elevated s)),
      (''text_smoothing'', smoothing_as_cfg (text_smoothing s)),
      (''render_mode'', render_as_cfg (render_mode s))]"

definition general_body :: "('f, 'z) cfg_ops_scheme \<Rightarrow> 'f settings \<Rightarrow> string" where
  "general_body F s =
     ''[general]'' @ [LF] @
     concat (map (\<lambda>(k, v). k @ ''='' @ escape_ini v @ [LF]) (general_pairs F s))"

text \<open>\<open>i8::from\<close> of a boolean.\<close>

definition show_flag :: "bool \<Rightarrow> string" where
  "show_flag on = (if on then ''1'' else ''0'')"

definition render_ini ::
    "('f, 'z) cfg_ops_scheme \<Rightarrow> string \<Rightarrow> (string, (string, 'f) btree) btree \<Rightarrow>
     (string, (string, bool) btree) btree \<Rightarrow> (string, string list) btree \<Rightarrow>
     (string, sort_preference) btree \<Rightarrow> (string, process_rule) btree \<Rightarrow> string" where
  "render_ini F body columns visible order sorts rules_map =
     (''# taskman configuration '' @ [em_dash] @ '' edited values apply on the next start.'' @ [LF]) @
     (''# Delete this file to reset all settings to their defaults.'' @ [LF, LF]) @
     body @
     concat (map (\<lambda>(table, cols).
       if cols = [] then []
       else [LF] @ ''[columns.'' @ table @ '']'' @ [LF] @ ''# column id = width px'' @ [LF] @
         concat (map (\<lambda>(col, w). escape_ini col @ ''='' @ fmt_width F w @ [LF]) cols)) columns) @
     concat (map (\<lambda>(table, cols).
       if cols = [] then []
       else [LF] @ ''[columns.'' @ table @ ''.visible]'' @ [LF] @
         ''# column id = 0 (hidden) | 1 (shown)'' @ [LF] @
         concat (map (\<lambda>(col, on). escape_ini col @ ''='' @ show_flag on @ [LF]) cols)) visible) @
     concat (map (\<lambda>(table, ids).
       if ids = [] then []
       else [LF] @ ''[columns.'' @ table @ ''.order]'' @ [LF] @
         ''order='' @ escape_ini (join '','' ids) @ [LF]) order) @
     (if sorts = [] then []
      else [LF] @ ''[sort]'' @ [LF] @ ''# table = stable column id, ascending'' @ [LF] @
        concat (map (\<lambda>(table, p). escape_ini table @ ''='' @ escape_ini (sp_column p) @ '','' @
          show_bool (sp_ascending p) @ [LF]) sorts)) @
     (let rules = filter (\<lambda>(_, rule). \<not> rule_is_empty rule) rules_map in
      if rules = [] then []
      else [LF] @ ''[process-rules]'' @ [LF] @
        ''# rule.N = JSON [normalized image path, scheduling policy]'' @ [LF] @
        concat (map (\<lambda>(index, path, rule).
          case json_of F (path, rule) of
            Some json \<Rightarrow> ''rule.'' @ show_nat index @ ''='' @ escape_ini json @ [LF]
          | None \<Rightarrow> []) (List.enumerate 0 rules)))"

definition settings_text :: "('f, 'z) cfg_ops_scheme \<Rightarrow> 'f settings \<Rightarrow> string" where
  "settings_text F s =
     render_ini F (general_body F s) (col_widths s) (col_visible s) (col_order s) (table_sort s)
       (process_rules s)"

end
