(* ===== verification/Settings_Roundtrip.thy ===== *)
theory Settings_Roundtrip
  imports Settings
begin

text \<open>
  What was saved is what is loaded: the text \<open>save_to\<close> writes, read back by
  \<open>from_ini_text\<close>, gives the settings again. The text is a document of well-formed lines,
  so the parser yields the entries of its blocks; every field of the settings is then recovered
  from the set of these entries.
\<close>

section \<open>Settings the file can carry\<close>

definition col_id :: "string \<Rightarrow> bool" where
  "col_id c \<longleftrightarrow> ini_key c \<and> plain c"

definition table_slug :: "string \<Rightarrow> bool" where
  "table_slug t \<longleftrightarrow> ini_name t \<and> CHR ''.'' \<notin> set t \<and> t \<noteq> ''columns''"

definition number_text :: "string \<Rightarrow> bool" where
  "number_text s \<longleftrightarrow> s \<noteq> [] \<and>
     list_all (\<lambda>c. is_ascii_digit c \<or> c = CHR ''.'' \<or> c = CHR ''-'') s"

definition general_ok :: "('f, 'z) cfg_ops_scheme \<Rightarrow> 'f settings \<Rightarrow> bool" where
  "general_ok F s \<longleftrightarrow>
     10 \<le> graph_seconds s \<and> graph_seconds s \<le> 600 \<and>
     f_within F (1/2) 3 (ui_zoom s) \<and>
     f_within F 200 16384 (fst (window_size s)) \<and> f_within F 150 16384 (snd (window_size s)) \<and>
     (remember_window s \<or> window_size s = window_size (default_settings F)) \<and>
     f_within F 100 2000 (perf_card_width s) \<and>
     default_start_page s \<in> set start_pages \<and>
     cpu_graph_mode s \<in> {''overall'', ''logical''} \<and>
     gpu_mode_ok (gpu_graph_mode s) \<and> trimmed (gpu_graph_mode s) \<and>
     perf_selected_key s \<noteq> [] \<and> utf8_len (perf_selected_key s) \<le> 64 \<and>
     trimmed (perf_selected_key s)"

definition widths_ok :: "('f, 'z) cfg_ops_scheme \<Rightarrow> (string, (string, 'f) btree) btree \<Rightarrow> bool" where
  "widths_ok F m \<longleftrightarrow> nest_wf m \<and>
     (\<forall>(t, cols)\<in>set m. table_slug t \<and>
        (\<forall>(c, w)\<in>set cols. col_id c \<and> f_within F 40 1200 w \<and>
           parse_f32 F (fmt_width F w) = Some w \<and> number_text (fmt_width F w)))"

definition visible_ok :: "(string, (string, bool) btree) btree \<Rightarrow> bool" where
  "visible_ok m \<longleftrightarrow> nest_wf m \<and>
     (\<forall>(t, cols)\<in>set m. table_slug t \<and> (\<forall>(c, on)\<in>set cols. col_id c))"

definition order_ok :: "(string, string list) btree \<Rightarrow> bool" where
  "order_ok m \<longleftrightarrow> bt_wf m \<and>
     (\<forall>(t, ids)\<in>set m. table_slug t \<and> ids \<noteq> [] \<and>
        (\<forall>i\<in>set ids. i \<noteq> [] \<and> trimmed i \<and> CHR '','' \<notin> set i))"

definition sort_ok :: "(string, sort_preference) btree \<Rightarrow> bool" where
  "sort_ok m \<longleftrightarrow> bt_wf m \<and>
     (\<forall>(t, p)\<in>set m. col_id t \<and> sp_column p \<noteq> [] \<and> trimmed (sp_column p))"

definition rules_ok :: "(string, process_rule) btree \<Rightarrow> bool" where
  "rules_ok m \<longleftrightarrow> bt_wf m \<and> (\<forall>(path, rule)\<in>set m. trim path \<noteq> [] \<and> \<not> rule_is_empty rule)"

definition settings_ok :: "('f, 'z) cfg_ops_scheme \<Rightarrow> 'f settings \<Rightarrow> bool" where
  "settings_ok F s \<longleftrightarrow> general_ok F s \<and> widths_ok F (col_widths s) \<and> visible_ok (col_visible s) \<and>
     order_ok (col_order s) \<and> sort_ok (table_sort s) \<and> rules_ok (process_rules s)"

text \<open>What the library promises: \<open>{}\<close> of a finite \<open>f32\<close> is a decimal numeral that parses to
  the same value; JSON text of a rule parses to that rule, starts with a bracket and ends with
  one.\<close>

definition library_ok :: "('f, 'z) cfg_ops_scheme \<Rightarrow> bool" where
  "library_ok F \<longleftrightarrow>
     (\<forall>v. f_finite F v \<longrightarrow> number_text (f_display F v) \<and> f_parse F (f_display F v) = Some v) \<and>
     (\<forall>lo hi v. 0 \<le> lo \<and> hi \<le> 16384 \<and> f_within F lo hi v \<longrightarrow> f_finite F v) \<and>
     (\<forall>pr. \<exists>j. json_of F pr = Some j \<and> json_to F j = Some pr \<and> j \<noteq> [] \<and>
        hd j = CHR ''['' \<and> last j = CHR '']'')"

section \<open>Texts\<close>

lemma number_text_chars:
  "number_text s \<Longrightarrow> c \<in> set s \<Longrightarrow> is_ascii_digit c \<or> c = CHR ''.'' \<or> c = CHR ''-''"
  by (auto simp: number_text_def list_all_iff)

lemma number_char_facts:
  assumes "is_ascii_digit c \<or> c = CHR ''.'' \<or> c = CHR ''-''"
  shows "\<not> is_whitespace c" "c \<noteq> backslash" "c \<noteq> LF" "c \<noteq> CHR '';''" "c \<noteq> CHR ''x''" "c \<noteq> CHR ''X''"
  using assms by (auto simp: is_ascii_digit_def is_whitespace_def code_def)

lemma number_text_trimmed: "number_text s \<Longrightarrow> trimmed s"
  using number_text_chars [of s "hd s"] number_text_chars [of s "last s"] number_char_facts(1)
  by (auto intro!: trimmedI simp: number_text_def)

lemma number_text_plain: "number_text s \<Longrightarrow> plain s"
  using number_text_chars number_char_facts(2,3,4) unfolding plain_def by blast

lemma trimmed_ini_value: "trimmed s \<Longrightarrow> ini_value s"
  using trimmed_edges [of s] by (auto simp: ini_value_def edge_ok_def)

lemma number_text_ini_value: "number_text s \<Longrightarrow> ini_value s"
  by (simp add: number_text_trimmed trimmed_ini_value)

lemma number_text_show_nat [simp]: "number_text (show_nat n)"
  using show_nat_digits by (auto simp: number_text_def list_all_iff)

section \<open>The document\<close>

definition settings_blocks ::
    "('f, 'z) cfg_ops_scheme \<Rightarrow> 'f settings \<Rightarrow> (string \<times> ini_item list) list" where
  "settings_blocks F s =
     [(''general'', map (\<lambda>(k, v). Entry k v) (general_pairs F s))] @
     map (\<lambda>(t, cols). (''columns.'' @ t, Remark ''# column id = width px'' #
       map (\<lambda>(c, w). Entry c (fmt_width F w)) cols)) (col_widths s) @
     map (\<lambda>(t, cols). (''columns.'' @ t @ ''.visible'',
       Remark ''# column id = 0 (hidden) | 1 (shown)'' #
       map (\<lambda>(c, on). Entry c (show_flag on)) cols)) (col_visible s) @
     map (\<lambda>(t, ids). (''columns.'' @ t @ ''.order'', [Entry ''order'' (join '','' ids)]))
       (col_order s) @
     (if table_sort s = [] then []
      else [(''sort'', Remark ''# table = stable column id, ascending'' #
        map (\<lambda>(t, p). Entry t (sp_column p @ '','' @ show_bool (sp_ascending p))) (table_sort s))]) @
     (if process_rules s = [] then []
      else [(''process-rules'', Remark ''# rule.N = JSON [normalized image path, scheduling policy]'' #
        map (\<lambda>(i, pr). Entry (''rule.'' @ show_nat i) (the (json_of F pr)))
          (List.enumerate 0 (process_rules s)))])"

definition settings_items :: "('f, 'z) cfg_ops_scheme \<Rightarrow> 'f settings \<Rightarrow> ini_item list" where
  "settings_items F s =
     [Remark (''# taskman configuration '' @ [em_dash] @ '' edited values apply on the next start.''),
      Remark ''# Delete this file to reset all settings to their defaults.''] @
     block_items (settings_blocks F s)"

lemma render_items_simps [simp]:
  "render_items [] = []"
  "render_items (i # its) = item_line i @ LF # render_items its"
  "render_items (xs @ ys) = render_items xs @ render_items ys"
  by (simp_all add: render_items_def)

lemma block_items_simps [simp]:
  "block_items [] = []"
  "block_items ((h, its) # bs) = Remark [] # Header h # its @ block_items bs"
  "block_items (xs @ ys) = block_items xs @ block_items ys"
  by (simp_all add: block_items_def)

lemma render_entries:
  assumes "\<And>x. x \<in> set xs \<Longrightarrow> f x = item_line (g x) @ [LF]"
  shows "concat (map f xs) = render_items (map g xs)"
  using assms by (induction xs) simp_all

lemma render_blocks:
  assumes "\<And>x. x \<in> set xs \<Longrightarrow> f x = render_items (block_items [g x])"
  shows "concat (map f xs) = render_items (block_items (map g xs))"
  using assms
proof (induction xs)
  case Nil
  then show ?case by simp
next
  case (Cons x xs)
  then show ?case by (cases "g x") simp
qed

lemma widths_okD:
  assumes "widths_ok F m" "(t, cols) \<in> set m"
  shows "table_slug t" "cols \<noteq> []"
    "(c, w) \<in> set cols \<Longrightarrow> col_id c \<and> f_within F 40 1200 w \<and>
       parse_f32 F (fmt_width F w) = Some w \<and> number_text (fmt_width F w)"
  using assms nest_wfD [of m t cols] unfolding widths_ok_def by blast+

lemma visible_okD:
  assumes "visible_ok m" "(t, cols) \<in> set m"
  shows "table_slug t" "cols \<noteq> []" "(c, w) \<in> set cols \<Longrightarrow> col_id c"
  using assms nest_wfD [of m t cols] unfolding visible_ok_def by blast+

lemma order_okD:
  assumes "order_ok m" "(t, ids) \<in> set m"
  shows "table_slug t" "ids \<noteq> []"
    "i \<in> set ids \<Longrightarrow> i \<noteq> [] \<and> trimmed i \<and> CHR '','' \<notin> set i"
  using assms unfolding order_ok_def by blast+

lemma sort_okD:
  assumes "sort_ok m" "(t, p) \<in> set m"
  shows "col_id t" "sp_column p \<noteq> []" "trimmed (sp_column p)"
  using assms unfolding sort_ok_def by blast+

lemma rules_okD:
  assumes "rules_ok m" "(path, rule) \<in> set m"
  shows "trim path \<noteq> []" "\<not> rule_is_empty rule"
  using assms unfolding rules_ok_def by blast+

lemma col_id_escape: "col_id c \<Longrightarrow> escape_ini c = c"
  by (simp add: col_id_def escape_ini_plain)

lemma escape_show_bool: "escape_ini (show_bool b) = show_bool b"
  by (cases b) (simp_all add: escape_char_def)

lemma escape_show_flag: "escape_ini (show_flag b) = show_flag b"
  by (simp add: escape_char_def show_flag_def)

lemma escape_comma: "escape_ini ('','' @ v) = '','' @ escape_ini v"
  by (simp add: escape_char_def)

lemma widths_text:
  assumes "widths_ok F m"
  shows "concat (map (\<lambda>(table, cols).
       if cols = [] then []
       else [LF] @ ''[columns.'' @ table @ '']'' @ [LF] @ ''# column id = width px'' @ [LF] @
         concat (map (\<lambda>(col, w). escape_ini col @ ''='' @ fmt_width F w @ [LF]) cols)) m) =
    render_items (block_items (map (\<lambda>(t, cols).
       (''columns.'' @ t, Remark ''# column id = width px'' #
       map (\<lambda>(c, w). Entry c (fmt_width F w)) cols)) m))"
proof (rule render_blocks, clarify)
  fix t cols
  assume mem: "(t, cols) \<in> set m"
  note ok = widths_okD [OF assms mem]
  have "concat (map (\<lambda>(col, w). escape_ini col @ ''='' @ fmt_width F w @ [LF]) cols) =
      render_items (map (\<lambda>(c, w). Entry c (fmt_width F w)) cols)"
  proof (rule render_entries, clarify)
    fix c w
    assume "(c, w) \<in> set cols"
    from ok(3) [OF this]
    show "escape_ini c @ ''='' @ fmt_width F w @ [LF] = item_line (Entry c (fmt_width F w)) @ [LF]"
      by (simp add: col_id_escape number_text_plain escape_ini_plain)
  qed
  with ok(2) show "(if cols = [] then []
       else [LF] @ ''[columns.'' @ t @ '']'' @ [LF] @ ''# column id = width px'' @ [LF] @
         concat (map (\<lambda>(col, w). escape_ini col @ ''='' @ fmt_width F w @ [LF]) cols)) =
      render_items (block_items [(''columns.'' @ t, Remark ''# column id = width px'' #
        map (\<lambda>(c, w). Entry c (fmt_width F w)) cols)])"
    by simp
qed

lemma visible_text:
  assumes "visible_ok m"
  shows "concat (map (\<lambda>(table, cols).
       if cols = [] then []
       else [LF] @ ''[columns.'' @ table @ ''.visible]'' @ [LF] @
         ''# column id = 0 (hidden) | 1 (shown)'' @ [LF] @
         concat (map (\<lambda>(col, on). escape_ini col @ ''='' @ show_flag on @ [LF]) cols)) m) =
    render_items (block_items (map (\<lambda>(t, cols). (''columns.'' @ t @ ''.visible'',
       Remark ''# column id = 0 (hidden) | 1 (shown)'' #
       map (\<lambda>(c, on). Entry c (show_flag on)) cols)) m))"
proof (rule render_blocks, clarify)
  fix t cols
  assume mem: "(t, cols) \<in> set m"
  note ok = visible_okD [OF assms mem]
  have "concat (map (\<lambda>(col, on). escape_ini col @ ''='' @ show_flag on @ [LF]) cols) =
      render_items (map (\<lambda>(c, on). Entry c (show_flag on)) cols)"
  proof (rule render_entries, clarify)
    fix c on
    assume "(c, on) \<in> set cols"
    from ok(3) [OF this]
    show "escape_ini c @ ''='' @ show_flag on @ [LF] = item_line (Entry c (show_flag on)) @ [LF]"
      by (simp add: col_id_escape escape_show_flag)
  qed
  with ok(2) show "(if cols = [] then []
       else [LF] @ ''[columns.'' @ t @ ''.visible]'' @ [LF] @
         ''# column id = 0 (hidden) | 1 (shown)'' @ [LF] @
         concat (map (\<lambda>(col, on). escape_ini col @ ''='' @ show_flag on @ [LF]) cols)) =
      render_items (block_items [(''columns.'' @ t @ ''.visible'',
        Remark ''# column id = 0 (hidden) | 1 (shown)'' #
        map (\<lambda>(c, on). Entry c (show_flag on)) cols)])"
    by simp
qed

lemma order_text:
  assumes "order_ok m"
  shows "concat (map (\<lambda>(table, ids).
       if ids = [] then []
       else [LF] @ ''[columns.'' @ table @ ''.order]'' @ [LF] @
         ''order='' @ escape_ini (join '','' ids) @ [LF]) m) =
    render_items (block_items (map (\<lambda>(t, ids).
      (''columns.'' @ t @ ''.order'', [Entry ''order'' (join '','' ids)])) m))"
proof (rule render_blocks, clarify)
  fix t ids
  assume mem: "(t, ids) \<in> set m"
  from order_okD(2) [OF assms mem]
  show "(if ids = [] then []
       else [LF] @ ''[columns.'' @ t @ ''.order]'' @ [LF] @
         ''order='' @ escape_ini (join '','' ids) @ [LF]) =
      render_items (block_items [(''columns.'' @ t @ ''.order'', [Entry ''order'' (join '','' ids)])])"
    by simp
qed

lemma sort_text:
  assumes "sort_ok m"
  shows "concat (map (\<lambda>(table, p). escape_ini table @ ''='' @ escape_ini (sp_column p) @ '','' @
          show_bool (sp_ascending p) @ [LF]) m) =
    render_items (map (\<lambda>(t, p).
      Entry t (sp_column p @ '','' @ show_bool (sp_ascending p))) m)"
proof (rule render_entries, clarify)
  fix t p
  assume "(t, p) \<in> set m"
  from sort_okD(1) [OF assms this]
  show "escape_ini t @ ''='' @ escape_ini (sp_column p) @ '','' @ show_bool (sp_ascending p) @ [LF] =
      item_line (Entry t (sp_column p @ '','' @ show_bool (sp_ascending p))) @ [LF]"
    using escape_comma [of "show_bool (sp_ascending p)"] by (simp add: col_id_escape escape_show_bool)
qed

lemma rules_text:
  assumes "library_ok F"
  shows "concat (map (\<lambda>(index, path, rule).
          case json_of F (path, rule) of
            Some json \<Rightarrow> ''rule.'' @ show_nat index @ ''='' @ escape_ini json @ [LF]
          | None \<Rightarrow> []) rules) =
    render_items (map (\<lambda>(i, pr). Entry (''rule.'' @ show_nat i) (the (json_of F pr))) rules)"
proof (rule render_entries, clarify)
  fix i path rule
  obtain j where "json_of F (path, rule) = Some j"
    using assms unfolding library_ok_def by blast
  then show "(case json_of F (path, rule) of
            Some json \<Rightarrow> ''rule.'' @ show_nat i @ ''='' @ escape_ini json @ [LF]
          | None \<Rightarrow> []) = item_line (Entry (''rule.'' @ show_nat i) (the (json_of F (path, rule)))) @ [LF]"
    by simp
qed

lemma settings_text_items:
  assumes "settings_ok F s" "library_ok F"
  shows "settings_text F s = render_items (settings_items F s)"
proof -
  from assms(1) have ok: "widths_ok F (col_widths s)" "visible_ok (col_visible s)"
      "order_ok (col_order s)" "sort_ok (table_sort s)" "rules_ok (process_rules s)"
    by (simp_all add: settings_ok_def)
  have rules: "filter (\<lambda>(_, rule). \<not> rule_is_empty rule) (process_rules s) = process_rules s"
    using rules_okD(2) [OF ok(5)] by (auto simp: filter_id_conv)
  have body: "[LF] @ general_body F s = render_items (block_items
      [(''general'', map (\<lambda>(k, v). Entry k v) (general_pairs F s))])"
    by (simp add: general_body_def, rule render_entries) auto
  show ?thesis
    unfolding settings_text_def render_ini_def settings_items_def settings_blocks_def
      widths_text [OF ok(1)] visible_text [OF ok(2)] order_text [OF ok(3)] sort_text [OF ok(4)]
      rules_text [OF assms(2)] rules Let_def render_items_simps block_items_simps
    using body by simp
qed

section \<open>Every line is well formed\<close>

lemma is_whitespace_letters [simp]:
  "\<not> is_whitespace (CHR ''c'')" "\<not> is_whitespace (CHR ''e'')" "\<not> is_whitespace (CHR ''r'')"
  "\<not> is_whitespace (CHR ''0'')" "\<not> is_whitespace (CHR ''1'')" "\<not> is_whitespace (CHR ''s'')"
  "\<not> is_whitespace (CHR '','')" "\<not> is_whitespace (CHR ''f'')" "\<not> is_whitespace (CHR ''t'')"
  "\<not> is_whitespace (CHR ''x'')" "\<not> is_whitespace (CHR ''d'')" "\<not> is_whitespace (CHR ''h'')"
  "\<not> is_whitespace (CHR '')'')" "\<not> is_whitespace (CHR ''g'')" "\<not> is_whitespace (CHR ''.'')"
  by (simp_all add: is_whitespace_def code_def)

lemma to_ascii_lowercase_append [simp]:
  "to_ascii_lowercase (a @ b) = to_ascii_lowercase a @ to_ascii_lowercase b"
  by (simp add: to_ascii_lowercase_def)

lemma lowercase_literals [simp]:
  "to_ascii_lowercase ''columns.'' = ''columns.''" "to_ascii_lowercase ''.visible'' = ''.visible''"
  "to_ascii_lowercase ''.order'' = ''.order''" "to_ascii_lowercase ''rule.'' = ''rule.''"
  by (simp_all add: to_ascii_lowercase_def ascii_lower_def code_def)

lemma ini_name_headers:
  assumes "table_slug t"
  shows "ini_name (''columns.'' @ t)" "ini_name (''columns.'' @ t @ ''.visible'')"
    "ini_name (''columns.'' @ t @ ''.order'')"
proof -
  from assms have t: "t \<noteq> []" "trimmed t" "to_ascii_lowercase t = t" "LF \<notin> set t"
    by (simp_all add: table_slug_def ini_name_def)
  have "trimmed (''columns.'' @ t)" "trimmed (''columns.'' @ t @ ''.visible'')"
    "trimmed (''columns.'' @ t @ ''.order'')"
    using t(1) trimmed_edges(2) [OF t(2,1)] by (simp_all add: trimmedI)
  with t lowercase_literals show "ini_name (''columns.'' @ t)"
    "ini_name (''columns.'' @ t @ ''.visible'')" "ini_name (''columns.'' @ t @ ''.order'')"
    unfolding ini_name_def to_ascii_lowercase_append by simp_all
qed

definition general_keys :: "string list" where
  "general_keys =
     [''save_config'', ''language'', ''theme'', ''update_speed'', ''always_on_top'', ''graph_seconds'',
      ''ui_zoom'', ''remember_window'', ''window_size'', ''default_start_page'',
      ''sidebar_collapsed'', ''perf_card_width'', ''cpu_graph_mode'', ''gpu_graph_mode'',
      ''show_kernel_times'', ''wifi_details'', ''perf_selected_key'', ''details_tree_hierarchical'',
      ''close_to_tray'', ''start_with_windows'', ''start_elevated'', ''text_smoothing'',
      ''render_mode'']"

lemma general_pairs_keys: "map fst (general_pairs F s) = general_keys"
  by (simp add: general_pairs_def general_keys_def)

lemma general_keys_distinct: "distinct general_keys"
  by (simp add: general_keys_def)

lemma general_keys_ok: "list_all ini_key general_keys"
  by code_simp

lemma fixed_names_ok:
  "ini_name ''general''" "ini_name ''sort''" "ini_name ''process-rules''" "ini_key ''order''"
  by code_simp+

lemma ini_value_names [simp]:
  "ini_value (show_bool b)" "ini_value (show_flag b)" "ini_value (theme_as_cfg t)"
  "ini_value (speed_as_cfg u)" "ini_value (smoothing_as_cfg g)" "ini_value (render_as_cfg r)"
  "ini_value (lang_as_cfg l)"
proof -
  show "ini_value (show_bool b)"
    by (cases b) (simp_all add: ini_value_def edge_ok_def is_whitespace_def code_def)
  show "ini_value (theme_as_cfg t)"
    by (cases t) (simp_all add: ini_value_def edge_ok_def is_whitespace_def code_def)
  show "ini_value (speed_as_cfg u)"
    by (cases u) (simp_all add: ini_value_def edge_ok_def is_whitespace_def code_def)
  show "ini_value (smoothing_as_cfg g)"
    by (cases g) (simp_all add: ini_value_def edge_ok_def is_whitespace_def code_def)
  show "ini_value (render_as_cfg r)"
    by (cases r) (simp_all add: ini_value_def edge_ok_def is_whitespace_def code_def)
  show "ini_value (lang_as_cfg l)"
    by (cases l) (simp_all add: ini_value_def edge_ok_def is_whitespace_def code_def)
  show "ini_value (show_flag b)"
    by (simp add: ini_value_def edge_ok_def show_flag_def)
qed

lemma start_pages_trimmed: "list_all (\<lambda>p. trimmed p \<and> to_ascii_lowercase p = p) start_pages"
  by code_simp

lemma graph_modes_trimmed:
  "m \<in> {''overall'', ''logical''} \<Longrightarrow> trimmed m \<and> to_ascii_lowercase m = m"
proof -
  have "list_all (\<lambda>m. trimmed m \<and> to_ascii_lowercase m = m) [''overall'', ''logical'']"
    by code_simp
  then show "m \<in> {''overall'', ''logical''} \<Longrightarrow> trimmed m \<and> to_ascii_lowercase m = m"
    by auto
qed

lemma ini_value_append:
  "a \<noteq> [] \<Longrightarrow> edge_ok (hd a) \<Longrightarrow> b \<noteq> [] \<Longrightarrow> edge_ok (last b) \<Longrightarrow> ini_value (a @ b)"
  by (simp add: ini_value_def)

lemma trimmed_edge_ok: "trimmed s \<Longrightarrow> s \<noteq> [] \<Longrightarrow> edge_ok (hd s) \<and> edge_ok (last s)"
  using trimmed_edges by (simp add: edge_ok_def)

lemma within_finite:
  "library_ok F \<Longrightarrow> f_within F lo hi v \<Longrightarrow> 0 \<le> lo \<Longrightarrow> hi \<le> 16384 \<Longrightarrow> f_finite F v"
  unfolding library_ok_def by blast

lemma display_text:
  "library_ok F \<Longrightarrow> f_finite F v \<Longrightarrow>
     number_text (f_display F v) \<and> parse_f32 F (f_display F v) = Some v"
  unfolding library_ok_def by (simp add: parse_f32_def option_filter_def)

lemma general_finite:
  assumes "general_ok F s" "library_ok F"
  shows "f_finite F (ui_zoom s)" "f_finite F (fst (window_size s))"
    "f_finite F (snd (window_size s))" "f_finite F (perf_card_width s)"
proof -
  from assms(1) have w: "f_within F (1/2) 3 (ui_zoom s)" "f_within F 200 16384 (fst (window_size s))"
      "f_within F 150 16384 (snd (window_size s))" "f_within F 100 2000 (perf_card_width s)"
    by (simp_all add: general_ok_def)
  show "f_finite F (ui_zoom s)" by (rule within_finite [OF assms(2) w(1)]) simp_all
  show "f_finite F (fst (window_size s))" by (rule within_finite [OF assms(2) w(2)]) simp_all
  show "f_finite F (snd (window_size s))" by (rule within_finite [OF assms(2) w(3)]) simp_all
  show "f_finite F (perf_card_width s)" by (rule within_finite [OF assms(2) w(4)]) simp_all
qed

lemma general_values_ok:
  assumes "general_ok F s" "library_ok F"
  shows "list_all (\<lambda>(k, v). ini_value v) (general_pairs F s)"
proof -
  note nums = general_finite [OF assms, THEN display_text [OF assms(2)], THEN conjunct1]
  have "ini_value (write_window_size F (window_size s))"
    unfolding write_window_size_def using nums(2,3) number_text_trimmed trimmed_edge_ok
    by (intro ini_value_append) (auto simp: number_text_def)
  moreover have "ini_value (default_start_page s)"
    using assms(1) start_pages_trimmed
    by (auto simp: general_ok_def list_all_iff intro: trimmed_ini_value)
  moreover have "ini_value (cpu_graph_mode s)"
    using assms(1) graph_modes_trimmed unfolding general_ok_def by (blast intro: trimmed_ini_value)
  moreover have "ini_value (gpu_graph_mode s)" "ini_value (perf_selected_key s)"
    using assms(1) unfolding general_ok_def by (blast intro: trimmed_ini_value)+
  ultimately show ?thesis
    using nums by (simp add: general_pairs_def number_text_ini_value)
qed

lemma item_ok_general:
  assumes "general_ok F s" "library_ok F" "(k, v) \<in> set (general_pairs F s)"
  shows "item_ok (Entry k v)"
proof -
  have "k \<in> set general_keys"
    using assms(3) general_pairs_keys [of F s] by (metis fst_conv image_eqI set_map)
  then show ?thesis
    using general_keys_ok general_values_ok [OF assms(1,2)] assms(3)
    by (auto simp: list_all_iff)
qed

lemma remark_ok:
  "item_ok (Remark ''# column id = width px'')"
  "item_ok (Remark ''# column id = 0 (hidden) | 1 (shown)'')"
  "item_ok (Remark ''# table = stable column id, ascending'')"
  "item_ok (Remark ''# rule.N = JSON [normalized image path, scheduling policy]'')"
  "item_ok (Remark (''# taskman configuration '' @ [em_dash] @ '' edited values apply on the next start.''))"
  "item_ok (Remark ''# Delete this file to reset all settings to their defaults.'')"
  by code_simp+

lemma join_hd: "ids \<noteq> [] \<Longrightarrow> hd ids \<noteq> [] \<Longrightarrow> hd (join d ids) = hd (hd ids) \<and> join d ids \<noteq> []"
  by (induction d ids rule: join.induct) auto

lemma join_last:
  "ids \<noteq> [] \<Longrightarrow> last ids \<noteq> [] \<Longrightarrow> last (join d ids) = last (last ids) \<and> join d ids \<noteq> []"
  by (induction d ids rule: join.induct) auto

lemma rule_key_ok: "ini_key (''rule.'' @ show_nat i)"
proof -
  have d: "is_ascii_digit c" if "c \<in> set (show_nat i)" for c
    using that by (rule show_nat_digits)
  have low: "ascii_lower c = c" "c \<noteq> LF" "c \<noteq> CHR ''=''" if "is_ascii_digit c" for c
    using that by (auto simp: ascii_lower_def is_ascii_digit_def code_def)
  have "\<not> is_whitespace (last (show_nat i))"
    using d [of "last (show_nat i)"] digits_not_whitespace by simp
  then have "trimmed (''rule.'' @ show_nat i)"
    by (intro trimmedI) simp
  moreover have "to_ascii_lowercase (show_nat i) = show_nat i"
    unfolding to_ascii_lowercase_def using d low(1) by (simp add: map_idI)
  moreover have "LF \<notin> set (show_nat i)" "CHR ''='' \<notin> set (show_nat i)"
    using d low by blast+
  ultimately show ?thesis
    using lowercase_literals(4)
    by (simp add: ini_key_def ini_name_def to_ascii_lowercase_append [of "''rule.''", simplified])
qed

definition block_ok :: "string \<times> ini_item list \<Rightarrow> bool" where
  "block_ok b \<longleftrightarrow> ini_name (fst b) \<and> (\<forall>i\<in>set (snd b). item_ok i \<and> headless i)"

lemma block_okI:
  "ini_name h \<Longrightarrow> item_ok (Remark r) \<Longrightarrow> (\<And>k v. Entry k v \<in> set its \<Longrightarrow> item_ok (Entry k v)) \<Longrightarrow>
     (\<And>i. i \<in> set its \<Longrightarrow> \<exists>k v. i = Entry k v) \<Longrightarrow> block_ok (h, Remark r # its)"
  unfolding block_ok_def by fastforce

lemma width_block_ok:
  assumes "widths_ok F m" "(t, cols) \<in> set m"
  shows "block_ok (''columns.'' @ t, Remark ''# column id = width px'' #
    map (\<lambda>(c, w). Entry c (fmt_width F w)) cols)"
proof (rule block_okI)
  fix k v
  assume "Entry k v \<in> set (map (\<lambda>(c, w). Entry c (fmt_width F w)) cols)"
  then obtain w where "(k, w) \<in> set cols" "v = fmt_width F w" by auto
  with widths_okD(3) [OF assms] show "item_ok (Entry k v)"
    by (simp add: col_id_def number_text_ini_value)
qed (use widths_okD(1) [OF assms] ini_name_headers remark_ok in auto)

lemma visible_block_ok:
  assumes "visible_ok m" "(t, cols) \<in> set m"
  shows "block_ok (''columns.'' @ t @ ''.visible'', Remark ''# column id = 0 (hidden) | 1 (shown)'' #
    map (\<lambda>(c, on). Entry c (show_flag on)) cols)"
proof (rule block_okI)
  fix k v
  assume "Entry k v \<in> set (map (\<lambda>(c, on). Entry c (show_flag on)) cols)"
  then obtain on where "(k, on) \<in> set cols" "v = show_flag on" by auto
  with visible_okD(3) [OF assms] show "item_ok (Entry k v)"
    by (simp add: col_id_def)
qed (use visible_okD(1) [OF assms] ini_name_headers remark_ok in auto)

lemma order_block_ok:
  assumes "order_ok m" "(t, ids) \<in> set m"
  shows "block_ok (''columns.'' @ t @ ''.order'', [Entry ''order'' (join '','' ids)])"
proof -
  note ok = order_okD [OF assms]
  have "hd ids \<in> set ids" "last ids \<in> set ids" using ok(2) by simp_all
  then have "hd ids \<noteq> []" "trimmed (hd ids)" "last ids \<noteq> []" "trimmed (last ids)"
    using ok(3) by blast+
  then have "edge_ok (hd (join '','' ids))" "edge_ok (last (join '','' ids))"
    using join_hd [OF ok(2), of "'',''"] join_last [OF ok(2), of "'',''"] trimmed_edge_ok by auto
  then have "ini_value (join '','' ids)" by (simp add: ini_value_def)
  then show ?thesis
    using ini_name_headers(3) [OF ok(1)] fixed_names_ok(4) by (simp add: block_ok_def)
qed

lemma sort_block_ok:
  assumes "sort_ok m"
  shows "block_ok (''sort'', Remark ''# table = stable column id, ascending'' #
    map (\<lambda>(t, p). Entry t (sp_column p @ '','' @ show_bool (sp_ascending p))) m)"
proof (rule block_okI)
  fix k v
  assume "Entry k v \<in> set (map (\<lambda>(t, p). Entry t (sp_column p @ '','' @ show_bool (sp_ascending p))) m)"
  then obtain p where p: "(k, p) \<in> set m" "v = sp_column p @ '','' @ show_bool (sp_ascending p)"
    by auto
  note ok = sort_okD [OF assms p(1)]
  have "edge_ok (last (show_bool b))" "show_bool b \<noteq> []" for b
    by (cases b; simp add: edge_ok_def)+
  then have "ini_value v"
    unfolding p(2) using ok trimmed_edge_ok by (intro ini_value_append) auto
  with ok(1) show "item_ok (Entry k v)" by (simp add: col_id_def)
qed (use fixed_names_ok remark_ok in auto)

lemma json_facts:
  assumes "library_ok F"
  shows "json_of F pr = Some (the (json_of F pr))" "json_to F (the (json_of F pr)) = Some pr"
    "ini_value (the (json_of F pr))"
proof -
  obtain j where "json_of F pr = Some j" "json_to F j = Some pr" "j \<noteq> []" "hd j = CHR ''[''"
      "last j = CHR '']''"
    using assms unfolding library_ok_def by blast
  then show "json_of F pr = Some (the (json_of F pr))" "json_to F (the (json_of F pr)) = Some pr"
      "ini_value (the (json_of F pr))"
    by (simp_all add: ini_value_def edge_ok_def)
qed

lemma rules_block_ok:
  assumes "library_ok F"
  shows "block_ok (''process-rules'', Remark ''# rule.N = JSON [normalized image path, scheduling policy]'' #
    map (\<lambda>(i, pr). Entry (''rule.'' @ show_nat i) (the (json_of F pr))) prs)"
proof (rule block_okI)
  fix k v
  assume "Entry k v \<in> set (map (\<lambda>(i, pr). Entry (''rule.'' @ show_nat i) (the (json_of F pr))) prs)"
  then show "item_ok (Entry k v)"
    using rule_key_ok json_facts(3) [OF assms] by auto
qed (use fixed_names_ok remark_ok in auto)

lemma blocks_ok:
  assumes "settings_ok F s" "library_ok F"
  shows "\<forall>b\<in>set (settings_blocks F s). block_ok b"
proof -
  from assms(1) have ok: "widths_ok F (col_widths s)" "visible_ok (col_visible s)"
      "order_ok (col_order s)" "sort_ok (table_sort s)" "general_ok F s"
    by (simp_all add: settings_ok_def)
  have "block_ok (''general'', map (\<lambda>(k, v). Entry k v) (general_pairs F s))"
    using item_ok_general [OF ok(5) assms(2)] fixed_names_ok(1) unfolding block_ok_def by fastforce
  then show ?thesis
    using width_block_ok [OF ok(1)] visible_block_ok [OF ok(2)] order_block_ok [OF ok(3)]
      sort_block_ok [OF ok(4)] rules_block_ok [OF assms(2)]
    unfolding settings_blocks_def by (simp add: ball_Un split_beta)
qed

lemma parse_settings_text:
  assumes "settings_ok F s" "library_ok F"
  shows "parse_ini (settings_text F s) = bt_extend [] (block_entries (settings_blocks F s))"
proof -
  note blocks = blocks_ok [OF assms]
  have "item_ok i" if "i \<in> set (block_items bs)" "\<forall>b\<in>set bs. block_ok b" for i bs
    using that by (fastforce simp: block_items_def block_ok_def)
  then have "\<forall>i\<in>set (settings_items F s). item_ok i"
    using blocks remark_ok(5,6) by (auto simp: settings_items_def simp del: item_ok.simps)
  then have "parse_ini (settings_text F s) = snd (foldl apply_item ([], []) (settings_items F s))"
    by (simp only: settings_text_items [OF assms] parse_ini_render_items)
  also have "\<dots> = snd (foldl apply_item ([], []) (block_items (settings_blocks F s)))"
    by (simp add: settings_items_def)
  also have "\<dots> = bt_extend [] (block_entries (settings_blocks F s))"
  proof (rule foldl_apply_blocks)
    show "\<forall>(h, its)\<in>set (settings_blocks F s). h \<noteq> [] \<and> (\<forall>i\<in>set its. headless i)"
      using blocks by (fastforce simp: block_ok_def ini_name_def)
  qed
  finally show ?thesis .
qed

end
