(* ===== verification/Settings_Columns.thy ===== *)
theory Settings_Columns
  imports Settings
begin

text \<open>
  The loop of \<open>from_ini_text\<close> over the whole file, taken apart: each of the maps it fills is
  the extension of its start value by the entries of the file that concern it.
\<close>

datatype section_kind =
    KLegacy | KSort | KRules | KWidths string | KVisible string | KOrder string | KOther

definition section_kind :: "string \<Rightarrow> section_kind" where
  "section_kind section =
     (if section = ''columns'' then KLegacy
      else if section = ''sort'' then KSort
      else if section = ''process-rules'' then KRules
      else case strip_prefix ''columns.'' section of
        None \<Rightarrow> KOther
      | Some rest \<Rightarrow>
          (case rsplit_once (CHR ''.'') rest of
             Some (table, kind) \<Rightarrow>
               if kind = ''visible'' then KVisible table
               else if kind = ''order'' then KOrder table
               else KWidths rest
           | None \<Rightarrow> KWidths rest))"

fun width_of :: "('f, 'z) cfg_ops_scheme \<Rightarrow> (string \<times> string) \<times> string \<Rightarrow> ((string \<times> string) \<times> 'f) option" where
  "width_of F ((section, key), value) =
     (case section_kind section of
        KWidths rest \<Rightarrow>
          (case parse_f32 F value of
             Some w \<Rightarrow> if rest \<noteq> ''columns'' \<and> f_within F 40 1200 w then Some ((rest, key), w) else None
           | None \<Rightarrow> None)
      | _ \<Rightarrow> None)"

fun visible_of :: "(string \<times> string) \<times> string \<Rightarrow> ((string \<times> string) \<times> bool) option" where
  "visible_of ((section, key), value) =
     (case section_kind section of
        KVisible table \<Rightarrow> map_option (\<lambda>on. ((table, key), on)) (parse_bool value)
      | _ \<Rightarrow> None)"

fun order_of :: "(string \<times> string) \<times> string \<Rightarrow> (string \<times> string list) option" where
  "order_of ((section, key), value) =
     (case section_kind section of
        KOrder table \<Rightarrow>
          if key = ''order'' \<and> order_ids value \<noteq> [] then Some (table, order_ids value) else None
      | _ \<Rightarrow> None)"

fun sort_of :: "(string \<times> string) \<times> string \<Rightarrow> (string \<times> sort_preference) option" where
  "sort_of ((section, key), value) =
     (case section_kind section of
        KSort \<Rightarrow>
          (case rsplit_once (CHR '','') value of
             None \<Rightarrow> None
           | Some (column, ascending) \<Rightarrow>
               (case parse_bool (trim ascending) of
                  Some a \<Rightarrow>
                    if trim column \<noteq> []
                    then Some (key, \<lparr>sp_column = trim column, sp_ascending = a\<rparr>) else None
                | None \<Rightarrow> None))
      | _ \<Rightarrow> None)"

fun rule_of :: "('f, 'z) cfg_ops_scheme \<Rightarrow> (string \<times> string) \<times> string \<Rightarrow> (string \<times> process_rule) option" where
  "rule_of F ((section, key), value) =
     (case section_kind section of
        KRules \<Rightarrow>
          if starts_with key ''rule.'' then
            (case json_to F value of
               Some (path, rule) \<Rightarrow>
                 if trim path \<noteq> [] \<and> \<not> rule_is_empty rule then Some (path, rule) else None
             | None \<Rightarrow> None)
          else None
      | _ \<Rightarrow> None)"

text \<open>Insert what an entry contributes, if it contributes anything.\<close>

definition put :: "('k \<Rightarrow> 'v \<Rightarrow> 'm \<Rightarrow> 'm) \<Rightarrow> ('k \<times> 'v) option \<Rightarrow> 'm \<Rightarrow> 'm" where
  "put ins x m = (case x of None \<Rightarrow> m | Some (k, v) \<Rightarrow> ins k v m)"

lemma put_simps [simp]: "put ins None m = m" "put ins (Some (k, v)) m = ins k v m"
  by (simp_all add: put_def)

lemma foldl_put:
  "foldl (\<lambda>m e. put ins (f e) m) m es = fold (\<lambda>(k, v). ins k v) (List.map_filter f es) m"
  by (induction es arbitrary: m) (auto simp: put_def map_filter_simps split: option.split)

definition column_update ::
    "('f, 'z) cfg_ops_scheme \<Rightarrow> (string \<times> string) \<times> string \<Rightarrow> bool \<times> 'f settings \<Rightarrow> bool \<times> 'f settings" where
  "column_update F e st =
     (fst st \<or> fst (fst e) = ''columns'',
      (snd st)\<lparr>col_widths := put nest_insert (width_of F e) (col_widths (snd st)),
        col_visible := put nest_insert (visible_of e) (col_visible (snd st)),
        col_order := put bt_insert (order_of e) (col_order (snd st)),
        table_sort := put bt_insert (sort_of e) (table_sort (snd st)),
        process_rules := put bt_insert (rule_of F e) (process_rules (snd st))\<rparr>)"

lemma strip_prefix_literals [simp]:
  "strip_prefix ''columns.'' ''sort'' = None" "strip_prefix ''columns.'' ''process-rules'' = None"
  "strip_prefix ''columns.'' ''columns'' = None" "strip_prefix ''columns.'' ''general'' = None"
  by (simp_all add: strip_prefix_def starts_with_def)

lemma column_entry_update: "column_entry F st e = column_update F e st"
proof -
  obtain saw s sec key v where st: "st = (saw, s)" "e = ((sec, key), v)"
    by (metis surj_pair)
  consider "sec = ''columns''" | "sec = ''sort''" | "sec = ''process-rules''"
    | "sec \<noteq> ''columns''" "sec \<noteq> ''sort''" "sec \<noteq> ''process-rules''"
      "strip_prefix ''columns.'' sec = None"
    | rest where "sec \<noteq> ''columns''" "sec \<noteq> ''sort''" "sec \<noteq> ''process-rules''"
      "strip_prefix ''columns.'' sec = Some rest"
    by (cases "strip_prefix ''columns.'' sec") blast+
  then show ?thesis
  proof cases
    case 1
    then show ?thesis by (simp add: st column_entry_def column_update_def section_kind_def)
  next
    case 2
    then show ?thesis
      by (simp add: st column_entry_def column_update_def section_kind_def split: option.split)
  next
    case 3
    then show ?thesis
      by (simp add: st column_entry_def column_update_def section_kind_def split: option.split)
  next
    case 4
    then show ?thesis by (simp add: st column_entry_def column_update_def section_kind_def)
  next
    case 5
    then show ?thesis
      by (cases "rsplit_once (CHR ''.'') rest")
         (auto simp: st column_entry_def column_update_def section_kind_def width_entry_def
           split: option.split)
  qed
qed

text \<open>The loop as a whole.\<close>

lemma column_loop:
  "foldl (column_entry F) (saw, s) kv =
     (saw \<or> (\<exists>e\<in>set kv. fst (fst e) = ''columns''),
      s\<lparr>col_widths := nest_extend (col_widths s) (List.map_filter (width_of F) kv),
        col_visible := nest_extend (col_visible s) (List.map_filter visible_of kv),
        col_order := bt_extend (col_order s) (List.map_filter order_of kv),
        table_sort := bt_extend (table_sort s) (List.map_filter sort_of kv),
        process_rules := bt_extend (process_rules s) (List.map_filter (rule_of F) kv)\<rparr>)"
  unfolding nest_extend_def bt_extend_def foldl_put [symmetric]
proof (induction kv arbitrary: saw s)
  case Nil
  then show ?case by simp
next
  case (Cons e kv)
  then show ?case by (auto simp: column_entry_update column_update_def)
qed

lemma set_map_filter: "set (List.map_filter f xs) = {y. \<exists>x\<in>set xs. f x = Some y}"
  by (force simp: List.map_filter_def)

end
