(* ===== verification/Settings_Load.thy ===== *)
theory Settings_Load
  imports Settings_Roundtrip Settings_Columns
begin

text \<open>
  The settings recovered from the entries of a saved document, field by field, and the round
  trip of the whole record.
\<close>

section \<open>The entries of a saved document\<close>

abbreviation saved :: "('f, 'z) cfg_ops_scheme \<Rightarrow> 'f settings \<Rightarrow> ((string \<times> string) \<times> string) set" where
  "saved F s \<equiv> set (block_entries (settings_blocks F s))"

lemma block_entries_iff:
  "((h, k), v) \<in> set (block_entries bs) \<longleftrightarrow> (\<exists>its. (h, its) \<in> set bs \<and> Entry k v \<in> set its)"
proof -
  have "((h, k), v) \<in> set (section_of h' its) \<longleftrightarrow> h = h' \<and> Entry k v \<in> set its" for h' its
    by (induction its) (auto simp: section_of_def split: ini_item.splits)
  then show ?thesis by (auto simp: block_entries_def)
qed

lemma block_entries_append:
  "((h, k), v) \<in> set (block_entries (xs @ ys)) \<longleftrightarrow>
     ((h, k), v) \<in> set (block_entries xs) \<or> ((h, k), v) \<in> set (block_entries ys)"
  by (auto simp: block_entries_iff)

definition width_saved where
  "width_saved F m h k v \<longleftrightarrow>
     (\<exists>t cols w. (t, cols) \<in> set m \<and> (k, w) \<in> set cols \<and> h = ''columns.'' @ t \<and> v = fmt_width F w)"

definition visible_saved where
  "visible_saved m h k v \<longleftrightarrow>
     (\<exists>t cols on. (t, cols) \<in> set m \<and> (k, on) \<in> set cols \<and> h = ''columns.'' @ t @ ''.visible'' \<and>
        v = show_flag on)"

definition order_saved where
  "order_saved m h k v \<longleftrightarrow>
     (\<exists>t ids. (t, ids) \<in> set m \<and> h = ''columns.'' @ t @ ''.order'' \<and> k = ''order'' \<and>
        v = join '','' ids)"

definition sort_saved where
  "sort_saved m h k v \<longleftrightarrow>
     (\<exists>p. (k, p) \<in> set m \<and> h = ''sort'' \<and> v = sp_column p @ '','' @ show_bool (sp_ascending p))"

definition rule_saved where
  "rule_saved F m h k v \<longleftrightarrow>
     (\<exists>i < length m. h = ''process-rules'' \<and> k = ''rule.'' @ show_nat i \<and> v = the (json_of F (m ! i)))"

lemma saved_iff:
  "((h, k), v) \<in> saved F s \<longleftrightarrow>
     h = ''general'' \<and> (k, v) \<in> set (general_pairs F s) \<or> width_saved F (col_widths s) h k v \<or>
     visible_saved (col_visible s) h k v \<or> order_saved (col_order s) h k v \<or>
     sort_saved (table_sort s) h k v \<or> rule_saved F (process_rules s) h k v"
proof -
  have g: "((h, k), v) \<in> set (block_entries [(''general'', map (\<lambda>(k, v). Entry k v) ps)]) \<longleftrightarrow>
      h = ''general'' \<and> (k, v) \<in> set ps" for ps
    by (auto simp: block_entries_iff)
  have w: "((h, k), v) \<in> set (block_entries (map (\<lambda>(t, cols). (''columns.'' @ t, Remark r #
       map (\<lambda>(c, w). Entry c (fmt_width F w)) cols)) m)) \<longleftrightarrow> width_saved F m h k v" for r m
    unfolding block_entries_iff width_saved_def by force
  have vi: "((h, k), v) \<in> set (block_entries (map (\<lambda>(t, cols). (''columns.'' @ t @ ''.visible'',
       Remark r # map (\<lambda>(c, on). Entry c (show_flag on)) cols)) m)) \<longleftrightarrow> visible_saved m h k v" for r m
    unfolding block_entries_iff visible_saved_def by force
  have o: "((h, k), v) \<in> set (block_entries (map (\<lambda>(t, ids). (''columns.'' @ t @ ''.order'',
       [Entry ''order'' (join '','' ids)])) m)) \<longleftrightarrow> order_saved m h k v" for m
    unfolding block_entries_iff order_saved_def by force
  have so: "((h, k), v) \<in> set (block_entries (if m = [] then [] else [(''sort'', Remark r #
       map (\<lambda>(t, p). Entry t (sp_column p @ '','' @ show_bool (sp_ascending p))) m)])) \<longleftrightarrow>
       sort_saved m h k v" for r m
    unfolding block_entries_iff sort_saved_def by force
  have ru: "((h, k), v) \<in> set (block_entries (if m = [] then [] else [(''process-rules'', Remark r #
       map (\<lambda>(i, pr). Entry (''rule.'' @ show_nat i) (the (json_of F pr))) (List.enumerate 0 m))])) \<longleftrightarrow>
       rule_saved F m h k v" for r m
    unfolding block_entries_iff rule_saved_def by (force simp: in_set_enumerate_eq)
  show ?thesis
    unfolding settings_blocks_def block_entries_append g w vi o so ru ..
qed

lemma show_nat_inject: "show_nat i = show_nat j \<longleftrightarrow> i = j"
  by (metis digits_value_show_nat)

lemma section_kind_fixed:
  "section_kind ''general'' = KOther" "section_kind ''sort'' = KSort"
  "section_kind ''process-rules'' = KRules"
  by (simp_all add: section_kind_def)

lemma strip_columns: "strip_prefix ''columns.'' (''columns.'' @ t) = Some t"
  unfolding strip_prefix_Some_iff ..

lemma rsplit_kind:
  "rsplit_once (CHR ''.'') (t @ ''.visible'') = Some (t, ''visible'')"
  "rsplit_once (CHR ''.'') (t @ ''.order'') = Some (t, ''order'')"
  using rsplit_once_append [of "CHR ''.''" "''visible''" t]
    rsplit_once_append [of "CHR ''.''" "''order''" t] by simp_all

lemma section_kind_columns:
  "table_slug t \<Longrightarrow> section_kind (''columns.'' @ t) = KWidths t"
  "section_kind (''columns.'' @ t @ ''.visible'') = KVisible t"
  "section_kind (''columns.'' @ t @ ''.order'') = KOrder t"
proof -
  have other: "''columns.'' @ r \<noteq> ''columns''" "''columns.'' @ r \<noteq> ''sort''"
    "''columns.'' @ r \<noteq> ''process-rules''" for r
    by simp_all
  show "table_slug t \<Longrightarrow> section_kind (''columns.'' @ t) = KWidths t"
    using rsplit_once_None_iff [of "CHR ''.''" t]
    unfolding section_kind_def strip_columns by (simp add: table_slug_def)
  show "section_kind (''columns.'' @ t @ ''.visible'') = KVisible t"
    "section_kind (''columns.'' @ t @ ''.order'') = KOrder t"
    unfolding section_kind_def strip_columns rsplit_kind if_not_P [OF other(1)]
      if_not_P [OF other(2)] if_not_P [OF other(3)] option.case prod.case by simp_all
qed

text \<open>What the kind of a section says of the entries saved under it.\<close>

lemma saved_kind:
  assumes ok: "settings_ok F s" and mem: "((h, k), v) \<in> saved F s"
  shows "case section_kind h of
      KOther \<Rightarrow> (k, v) \<in> set (general_pairs F s)
    | KWidths t \<Rightarrow> \<exists>cols w. (t, cols) \<in> set (col_widths s) \<and> (k, w) \<in> set cols \<and> v = fmt_width F w
    | KVisible t \<Rightarrow> \<exists>cols on. (t, cols) \<in> set (col_visible s) \<and> (k, on) \<in> set cols \<and> v = show_flag on
    | KOrder t \<Rightarrow> \<exists>ids. (t, ids) \<in> set (col_order s) \<and> k = ''order'' \<and> v = join '','' ids
    | KSort \<Rightarrow> \<exists>p. (k, p) \<in> set (table_sort s) \<and> v = sp_column p @ '','' @ show_bool (sp_ascending p)
    | KRules \<Rightarrow> \<exists>i < length (process_rules s). k = ''rule.'' @ show_nat i \<and>
        v = the (json_of F (process_rules s ! i))
    | KLegacy \<Rightarrow> False"
proof -
  have w: "widths_ok F (col_widths s)" using ok by (simp add: settings_ok_def)
  from mem consider "h = ''general''" "(k, v) \<in> set (general_pairs F s)"
    | "width_saved F (col_widths s) h k v" | "visible_saved (col_visible s) h k v"
    | "order_saved (col_order s) h k v" | "sort_saved (table_sort s) h k v"
    | "rule_saved F (process_rules s) h k v"
    unfolding saved_iff by blast
  then show ?thesis
  proof cases
    case 1
    then show ?thesis by (simp add: section_kind_fixed)
  next
    case 2
    then obtain t cols x where x: "(t, cols) \<in> set (col_widths s)" "(k, x) \<in> set cols"
      "h = ''columns.'' @ t" "v = fmt_width F x"
      unfolding width_saved_def by blast
    have "section_kind h = KWidths t"
      unfolding x(3) using widths_okD(1) [OF w x(1)] by (rule section_kind_columns)
    with x show ?thesis by auto
  next
    case 3
    then obtain t cols x where x: "(t, cols) \<in> set (col_visible s)" "(k, x) \<in> set cols"
      "h = ''columns.'' @ t @ ''.visible''" "v = show_flag x"
      unfolding visible_saved_def by blast
    have "section_kind h = KVisible t" unfolding x(3) by (rule section_kind_columns)
    with x show ?thesis by auto
  next
    case 4
    then obtain t ids where x: "(t, ids) \<in> set (col_order s)" "k = ''order''"
      "h = ''columns.'' @ t @ ''.order''" "v = join '','' ids"
      unfolding order_saved_def by blast
    have "section_kind h = KOrder t" unfolding x(3) by (rule section_kind_columns)
    with x show ?thesis by auto
  next
    case 5
    then show ?thesis by (auto simp: sort_saved_def section_kind_fixed)
  next
    case 6
    then show ?thesis by (auto simp: rule_saved_def section_kind_fixed)
  qed
qed

lemma functional_pairs: "distinct (map fst ps) \<Longrightarrow> functional ps"
  unfolding functional_def by (metis eq_key_imp_eq_value)

lemma functionalD: "functional xs \<Longrightarrow> (k, v) \<in> set xs \<Longrightarrow> (k, w) \<in> set xs \<Longrightarrow> v = w"
  unfolding functional_def by blast

lemma nest_functionalD:
  "nest_wf m \<Longrightarrow> (t, cols) \<in> set m \<Longrightarrow> (t, cols') \<in> set m \<Longrightarrow> (c, v) \<in> set cols \<Longrightarrow>
     (c, w) \<in> set cols' \<Longrightarrow> v = w"
  by (rule functionalD [OF nest.wf_functional, of m "(t, c)"]) (auto simp: set_nest_entries)

lemma saved_functional:
  assumes ok: "settings_ok F s"
  shows "functional (block_entries (settings_blocks F s))"
  unfolding functional_def
proof (intro allI impI)
  fix hk v w
  assume mem: "(hk, v) \<in> saved F s" "(hk, w) \<in> saved F s"
  obtain h k where hk: "hk = (h, k)" by (cases hk)
  note kinds = saved_kind [OF ok mem(1) [unfolded hk]] saved_kind [OF ok mem(2) [unfolded hk]]
  from ok have wf: "nest_wf (col_widths s)" "nest_wf (col_visible s)" "bt_wf (col_order s)"
    "bt_wf (table_sort s)"
    by (simp_all add: settings_ok_def widths_ok_def visible_ok_def order_ok_def sort_ok_def)
  show "v = w"
  proof (cases "section_kind h")
    case KLegacy
    with kinds show ?thesis by simp
  next
    case KSort
    with kinds functionalD [OF bt_wf_functional [OF wf(4)]] show ?thesis by auto
  next
    case KRules
    with kinds show ?thesis by (auto simp: show_nat_inject)
  next
    case (KWidths t)
    with kinds obtain cols cols' x y where x: "(t, cols) \<in> set (col_widths s)" "(k, x) \<in> set cols"
      "v = fmt_width F x" and y: "(t, cols') \<in> set (col_widths s)" "(k, y) \<in> set cols'"
      "w = fmt_width F y"
      by auto
    have "x = y" using nest_functionalD [OF wf(1) x(1) y(1) x(2) y(2)] .
    with x y show ?thesis by simp
  next
    case (KVisible t)
    with kinds obtain cols cols' x y where x: "(t, cols) \<in> set (col_visible s)" "(k, x) \<in> set cols"
      "v = show_flag x" and y: "(t, cols') \<in> set (col_visible s)" "(k, y) \<in> set cols'"
      "w = show_flag y"
      by auto
    have "x = y" using nest_functionalD [OF wf(2) x(1) y(1) x(2) y(2)] .
    with x y show ?thesis by simp
  next
    case (KOrder t)
    with kinds functionalD [OF bt_wf_functional [OF wf(3)]] show ?thesis by auto
  next
    case KOther
    moreover have "functional (general_pairs F s)"
      using general_pairs_keys [of F s] general_keys_distinct by (intro functional_pairs) simp
    ultimately show ?thesis using kinds by (auto dest: functionalD)
  qed
qed

lemma set_parsed:
  "settings_ok F s \<Longrightarrow> library_ok F \<Longrightarrow> set (parse_ini (settings_text F s)) = saved F s"
  by (simp add: parse_settings_text set_bt_extend saved_functional)

section \<open>The fields\<close>

lemma saved_general_get:
  assumes "settings_ok F s" "library_ok F" "(k, v) \<in> set (general_pairs F s)"
  shows "general_get (parse_ini (settings_text F s)) k = Some v"
proof -
  have "((''general'', k), v) \<in> saved F s" using assms(3) by (simp add: saved_iff)
  then show ?thesis
    using set_parsed [OF assms(1,2)] bt_wf_parse_ini by (simp add: general_get_def bt_wf_get_iff)
qed

lemma window_size_text:
  assumes "library_ok F" "f_finite F (fst sz)" "f_finite F (snd sz)"
  shows "parse_window_size F (write_window_size F sz) = Some sz"
proof -
  note w = display_text [OF assms(1,2)] and h = display_text [OF assms(1,3)]
  have "split_once_x (write_window_size F sz) = Some (f_display F (fst sz), f_display F (snd sz))"
    unfolding write_window_size_def
    using w number_text_chars number_char_facts(5,6)
    by (simp add: split_once_x_append) (metis split_once_x_append)
  moreover have "trim (f_display F (fst sz)) = f_display F (fst sz)"
    "trim (f_display F (snd sz)) = f_display F (snd sz)"
    using w h number_text_trimmed by (auto simp: trimmed_def)
  ultimately show ?thesis
    using w h by (simp add: parse_window_size_def)
qed

lemma general_settings_saved:
  assumes ok: "settings_ok F s" and lib: "library_ok F"
  shows "general_settings F (parse_ini (settings_text F s)) =
    s\<lparr>col_widths := [], col_visible := [], col_order := [], table_sort := [], process_rules := []\<rparr>"
proof -
  from ok have g: "general_ok F s" by (simp add: settings_ok_def)
  note get = saved_general_get [OF ok lib]
  note fin = general_finite [OF g lib]
  have gets:
    "general_get (parse_ini (settings_text F s)) ''save_config'' = Some (show_bool (save_config s))"
    "general_get (parse_ini (settings_text F s)) ''language'' = Some (lang_as_cfg (language s))"
    "general_get (parse_ini (settings_text F s)) ''theme'' = Some (theme_as_cfg (theme s))"
    "general_get (parse_ini (settings_text F s)) ''update_speed'' = Some (speed_as_cfg (update_speed s))"
    "general_get (parse_ini (settings_text F s)) ''always_on_top'' = Some (show_bool (always_on_top s))"
    "general_get (parse_ini (settings_text F s)) ''graph_seconds'' = Some (show_nat (graph_seconds s))"
    "general_get (parse_ini (settings_text F s)) ''ui_zoom'' = Some (f_display F (ui_zoom s))"
    "general_get (parse_ini (settings_text F s)) ''remember_window'' = Some (show_bool (remember_window s))"
    "general_get (parse_ini (settings_text F s)) ''window_size'' = Some (write_window_size F (window_size s))"
    "general_get (parse_ini (settings_text F s)) ''default_start_page'' = Some (default_start_page s)"
    "general_get (parse_ini (settings_text F s)) ''sidebar_collapsed'' = Some (show_bool (sidebar_collapsed s))"
    "general_get (parse_ini (settings_text F s)) ''perf_card_width'' = Some (f_display F (perf_card_width s))"
    "general_get (parse_ini (settings_text F s)) ''cpu_graph_mode'' = Some (cpu_graph_mode s)"
    "general_get (parse_ini (settings_text F s)) ''gpu_graph_mode'' = Some (gpu_graph_mode s)"
    "general_get (parse_ini (settings_text F s)) ''show_kernel_times'' = Some (show_bool (show_kernel_times s))"
    "general_get (parse_ini (settings_text F s)) ''wifi_details'' = Some (show_bool (wifi_details s))"
    "general_get (parse_ini (settings_text F s)) ''perf_selected_key'' = Some (perf_selected_key s)"
    "general_get (parse_ini (settings_text F s)) ''details_tree_hierarchical'' =
       Some (show_bool (details_tree_hierarchical s))"
    "general_get (parse_ini (settings_text F s)) ''close_to_tray'' = Some (show_bool (close_to_tray s))"
    "general_get (parse_ini (settings_text F s)) ''start_with_windows'' = Some (show_bool (start_with_windows s))"
    "general_get (parse_ini (settings_text F s)) ''start_elevated'' = Some (show_bool (start_elevated s))"
    "general_get (parse_ini (settings_text F s)) ''text_smoothing'' = Some (smoothing_as_cfg (text_smoothing s))"
    "general_get (parse_ini (settings_text F s)) ''render_mode'' = Some (render_as_cfg (render_mode s))"
    by (rule get, simp add: general_pairs_def)+
  have "parse_u32 (show_nat (graph_seconds s)) = Some (graph_seconds s)"
    unfolding parse_u32_def using g by (intro parse_unsigned_show) (simp add: general_ok_def)
  moreover have "min (max (graph_seconds s) 10) 600 = graph_seconds s"
    using g by (simp add: general_ok_def)
  moreover have "trim (default_start_page s) = default_start_page s"
      "to_ascii_lowercase (default_start_page s) = default_start_page s"
      "default_start_page s \<in> set start_pages"
    using g start_pages_trimmed by (auto simp: general_ok_def list_all_iff trimmed_def)
  moreover have "trim (cpu_graph_mode s) = cpu_graph_mode s"
      "to_ascii_lowercase (cpu_graph_mode s) = cpu_graph_mode s"
      "cpu_graph_mode s = ''overall'' \<or> cpu_graph_mode s = ''logical''"
    using g graph_modes_trimmed [of "cpu_graph_mode s"] by (auto simp: general_ok_def trimmed_def)
  moreover have "trim (gpu_graph_mode s) = gpu_graph_mode s" "gpu_mode_ok (gpu_graph_mode s)"
      "trim (perf_selected_key s) = perf_selected_key s" "perf_selected_key s \<noteq> []"
      "utf8_len (perf_selected_key s) \<le> 64"
    using g by (simp_all add: general_ok_def trimmed_def)
  moreover have "f_clamp F 200 16384 (fst (window_size s)) = fst (window_size s)"
      "f_clamp F 150 16384 (snd (window_size s)) = snd (window_size s)"
    using g by (simp_all add: general_ok_def f_clamp_within)
  moreover have "option_filter (f_within F (1/2) 3) (parse_f32 F (f_display F (ui_zoom s))) = Some (ui_zoom s)"
      "option_filter (f_within F 100 2000) (parse_f32 F (f_display F (perf_card_width s))) =
        Some (perf_card_width s)"
    using g display_text [OF lib] fin by (simp_all add: general_ok_def option_filter_def)
  ultimately show ?thesis
    by (simp add: general_settings_def Let_def general_bool_def gets window_size_text [OF lib fin(2,3)]
        default_settings_def split_beta)
qed

lemma parse_show_flag [simp]: "parse_bool (show_flag on) = Some on"
  by (simp add: show_flag_def from_cfg_defs)

lemma widths_saved:
  assumes ok: "settings_ok F s" and lib: "library_ok F"
  shows "nest_extend [] (List.map_filter (width_of F) (parse_ini (settings_text F s))) = col_widths s"
proof (rule nest_extend_eqI)
  have w: "widths_ok F (col_widths s)" using ok by (simp add: settings_ok_def)
  then show "nest_wf (col_widths s)" by (simp add: widths_ok_def)
  show "set (List.map_filter (width_of F) (parse_ini (settings_text F s))) = set (nest_entries (col_widths s))"
    unfolding set_map_filter set_parsed [OF ok lib]
  proof (intro set_eqI iffI)
    fix y
    assume "y \<in> {y. \<exists>x\<in>saved F s. width_of F x = Some y}"
    then obtain h k v where x: "((h, k), v) \<in> saved F s" "width_of F ((h, k), v) = Some y" by auto
    then obtain t where t: "section_kind h = KWidths t" by (cases "section_kind h") auto
    with saved_kind [OF ok x(1)] obtain cols f where f: "(t, cols) \<in> set (col_widths s)"
      "(k, f) \<in> set cols" "v = fmt_width F f"
      by auto
    have "y = ((t, k), f)"
      using x(2) t f(3) widths_okD(3) [OF w f(1,2)] by (simp split: if_splits)
    with f show "y \<in> set (nest_entries (col_widths s))"
      by (cases y) (auto simp: set_nest_entries)
  next
    fix y
    assume "y \<in> set (nest_entries (col_widths s))"
    moreover obtain t c f where y: "y = ((t, c), f)" by (metis surj_pair)
    ultimately obtain cols where f: "(t, cols) \<in> set (col_widths s)" "(c, f) \<in> set cols"
      by (auto simp: set_nest_entries)
    then have "((''columns.'' @ t, c), fmt_width F f) \<in> saved F s"
      unfolding saved_iff width_saved_def by blast
    moreover have "width_of F ((''columns.'' @ t, c), fmt_width F f) = Some y"
      using section_kind_columns(1) [OF widths_okD(1) [OF w f(1)]] widths_okD(1) [OF w f(1)]
        widths_okD(3) [OF w f] y
      by (simp add: table_slug_def)
    ultimately show "y \<in> {y. \<exists>x\<in>saved F s. width_of F x = Some y}" by blast
  qed
qed

lemma visible_saved_field:
  assumes ok: "settings_ok F s" and lib: "library_ok F"
  shows "nest_extend [] (List.map_filter visible_of (parse_ini (settings_text F s))) = col_visible s"
proof (rule nest_extend_eqI)
  have w: "visible_ok (col_visible s)" using ok by (simp add: settings_ok_def)
  then show "nest_wf (col_visible s)" by (simp add: visible_ok_def)
  show "set (List.map_filter visible_of (parse_ini (settings_text F s))) = set (nest_entries (col_visible s))"
    unfolding set_map_filter set_parsed [OF ok lib]
  proof (intro set_eqI iffI)
    fix y
    assume "y \<in> {y. \<exists>x\<in>saved F s. visible_of x = Some y}"
    then obtain h k v where x: "((h, k), v) \<in> saved F s" "visible_of ((h, k), v) = Some y" by auto
    then obtain t where t: "section_kind h = KVisible t" by (cases "section_kind h") auto
    with saved_kind [OF ok x(1)] obtain cols f where f: "(t, cols) \<in> set (col_visible s)"
      "(k, f) \<in> set cols" "v = show_flag f"
      by auto
    have "y = ((t, k), f)" using x(2) t f(3) by simp
    with f show "y \<in> set (nest_entries (col_visible s))"
      by (cases y) (auto simp: set_nest_entries)
  next
    fix y
    assume "y \<in> set (nest_entries (col_visible s))"
    moreover obtain t c f where y: "y = ((t, c), f)" by (metis surj_pair)
    ultimately obtain cols where f: "(t, cols) \<in> set (col_visible s)" "(c, f) \<in> set cols"
      by (auto simp: set_nest_entries)
    then have "((''columns.'' @ t @ ''.visible'', c), show_flag f) \<in> saved F s"
      unfolding saved_iff visible_saved_def by blast
    moreover have "visible_of ((''columns.'' @ t @ ''.visible'', c), show_flag f) = Some y"
      unfolding visible_of.simps section_kind_columns(2) using y by simp
    ultimately show "y \<in> {y. \<exists>x\<in>saved F s. visible_of x = Some y}" by blast
  qed
qed

lemma order_ids_join:
  assumes "ids \<noteq> []" "\<And>i. i \<in> set ids \<Longrightarrow> i \<noteq> [] \<and> trimmed i \<and> CHR '','' \<notin> set i"
  shows "order_ids (join '','' ids) = ids"
proof -
  have "split_on (CHR '','') (join '','' ids) = ids"
    using assms by (intro split_on_join) blast+
  moreover have "map trim ids = ids"
    using assms(2) by (intro map_idI) (simp add: trimmed_def)
  moreover have "filter (\<lambda>i. i \<noteq> []) ids = ids"
    using assms(2) by (simp add: filter_id_conv)
  ultimately show ?thesis by (simp add: order_ids_def)
qed

lemma order_saved_field:
  assumes ok: "settings_ok F s" and lib: "library_ok F"
  shows "bt_extend [] (List.map_filter order_of (parse_ini (settings_text F s))) = col_order s"
proof (rule bt_extend_eqI)
  have w: "order_ok (col_order s)" using ok by (simp add: settings_ok_def)
  then show "bt_wf (col_order s)" by (simp add: order_ok_def)
  have ids: "order_ids (join '','' ids) = ids \<and> ids \<noteq> []" if "(t, ids) \<in> set (col_order s)" for t ids
    using order_okD(2,3) [OF w that] order_ids_join by blast
  show "set (List.map_filter order_of (parse_ini (settings_text F s))) = set (col_order s)"
    unfolding set_map_filter set_parsed [OF ok lib]
  proof (intro set_eqI iffI)
    fix y
    assume "y \<in> {y. \<exists>x\<in>saved F s. order_of x = Some y}"
    then obtain h k v where x: "((h, k), v) \<in> saved F s" "order_of ((h, k), v) = Some y" by auto
    then obtain t where t: "section_kind h = KOrder t" by (cases "section_kind h") auto
    with saved_kind [OF ok x(1)] obtain js where f: "(t, js) \<in> set (col_order s)"
      "k = ''order''" "v = join '','' js"
      by auto
    have "y = (t, js)" using x(2) t f(2,3) ids [OF f(1)] by simp
    with f show "y \<in> set (col_order s)" by simp
  next
    fix y
    assume f: "y \<in> set (col_order s)"
    obtain t js where y: "y = (t, js)" by (cases y)
    with f have "((''columns.'' @ t @ ''.order'', ''order''), join '','' js) \<in> saved F s"
      unfolding saved_iff order_saved_def by blast
    moreover have "order_of ((''columns.'' @ t @ ''.order'', ''order''), join '','' js) = Some y"
      unfolding order_of.simps section_kind_columns(3) using y f ids by simp
    ultimately show "y \<in> {y. \<exists>x\<in>saved F s. order_of x = Some y}" by blast
  qed
qed

lemma sort_of_saved:
  assumes "sort_ok m" "(t, p) \<in> set m"
  shows "sort_of ((''sort'', t), sp_column p @ '','' @ show_bool (sp_ascending p)) = Some (t, p)"
proof -
  note ok = sort_okD [OF assms]
  have "CHR '','' \<notin> set (show_bool b) \<and> trim (show_bool b) = show_bool b" for b
  proof -
    have "list_all (\<lambda>b. CHR '','' \<notin> set (show_bool b) \<and> trim (show_bool b) = show_bool b) [True, False]"
      by code_simp
    then show ?thesis by (cases b) simp_all
  qed
  moreover from this have "rsplit_once (CHR '','') (sp_column p @ CHR '','' # show_bool (sp_ascending p)) =
      Some (sp_column p, show_bool (sp_ascending p))"
    by (intro rsplit_once_append) simp
  ultimately show ?thesis
    using ok by (simp add: section_kind_fixed trimmed_def)
qed

lemma sort_saved_field:
  assumes ok: "settings_ok F s" and lib: "library_ok F"
  shows "bt_extend [] (List.map_filter sort_of (parse_ini (settings_text F s))) = table_sort s"
proof (rule bt_extend_eqI)
  have w: "sort_ok (table_sort s)" using ok by (simp add: settings_ok_def)
  then show "bt_wf (table_sort s)" by (simp add: sort_ok_def)
  show "set (List.map_filter sort_of (parse_ini (settings_text F s))) = set (table_sort s)"
    unfolding set_map_filter set_parsed [OF ok lib]
  proof (intro set_eqI iffI)
    fix y
    assume "y \<in> {y. \<exists>x\<in>saved F s. sort_of x = Some y}"
    then obtain h k v where x: "((h, k), v) \<in> saved F s" "sort_of ((h, k), v) = Some y" by auto
    then have t: "section_kind h = KSort" by (cases "section_kind h") auto
    with saved_kind [OF ok x(1)] obtain p where f: "(k, p) \<in> set (table_sort s)"
      "v = sp_column p @ '','' @ show_bool (sp_ascending p)"
      by auto
    have "sort_of ((h, k), v) = sort_of ((''sort'', k), v)"
      using t by (simp add: section_kind_fixed)
    then have "y = (k, p)" using x(2) sort_of_saved [OF w f(1)] f(2) by simp
    with f show "y \<in> set (table_sort s)" by simp
  next
    fix y
    assume f: "y \<in> set (table_sort s)"
    obtain t p where y: "y = (t, p)" by (cases y)
    with f have "((''sort'', t), sp_column p @ '','' @ show_bool (sp_ascending p)) \<in> saved F s"
      unfolding saved_iff sort_saved_def by blast
    then show "y \<in> {y. \<exists>x\<in>saved F s. sort_of x = Some y}"
      using sort_of_saved [OF w] f y by blast
  qed
qed

lemma rule_of_saved:
  assumes "library_ok F" "rules_ok m" "pr \<in> set m"
  shows "rule_of F ((''process-rules'', ''rule.'' @ show_nat i), the (json_of F pr)) = Some pr"
proof -
  obtain path rule where pr: "pr = (path, rule)" by (cases pr)
  have "starts_with (''rule.'' @ show_nat i) ''rule.''" by (rule starts_with_append)
  then show ?thesis
    using json_facts(2) [OF assms(1), of pr] rules_okD [OF assms(2), of path rule] assms(3) pr
    by (simp add: section_kind_fixed)
qed

lemma rules_saved_field:
  assumes ok: "settings_ok F s" and lib: "library_ok F"
  shows "bt_extend [] (List.map_filter (rule_of F) (parse_ini (settings_text F s))) = process_rules s"
proof (rule bt_extend_eqI)
  have w: "rules_ok (process_rules s)" using ok by (simp add: settings_ok_def)
  then show "bt_wf (process_rules s)" by (simp add: rules_ok_def)
  show "set (List.map_filter (rule_of F) (parse_ini (settings_text F s))) = set (process_rules s)"
    unfolding set_map_filter set_parsed [OF ok lib]
  proof (intro set_eqI iffI)
    fix y
    assume "y \<in> {y. \<exists>x\<in>saved F s. rule_of F x = Some y}"
    then obtain h k v where x: "((h, k), v) \<in> saved F s" "rule_of F ((h, k), v) = Some y" by auto
    then have t: "section_kind h = KRules" by (cases "section_kind h") auto
    with saved_kind [OF ok x(1)] obtain i where f: "i < length (process_rules s)"
      "k = ''rule.'' @ show_nat i" "v = the (json_of F (process_rules s ! i))"
      by auto
    have "rule_of F ((h, k), v) = rule_of F ((''process-rules'', k), v)"
      using t by (simp add: section_kind_fixed)
    then have "y = process_rules s ! i"
      using x(2) rule_of_saved [OF lib w nth_mem [OF f(1)], of i] unfolding f(2,3) by simp
    with f show "y \<in> set (process_rules s)" by simp
  next
    fix y
    assume "y \<in> set (process_rules s)"
    then obtain i where i: "i < length (process_rules s)" "y = process_rules s ! i"
      by (auto simp: in_set_conv_nth)
    then have "((''process-rules'', ''rule.'' @ show_nat i), the (json_of F y)) \<in> saved F s"
      unfolding saved_iff rule_saved_def by blast
    then show "y \<in> {y. \<exists>x\<in>saved F s. rule_of F x = Some y}"
      using rule_of_saved [OF lib w nth_mem [OF i(1)]] i(2) by blast
  qed
qed

section \<open>The round trip\<close>

lemma settings_roundtrip_all:
  assumes "settings_ok F s" and "library_ok F"
  shows "from_ini_text F (settings_text F s) = s"
proof -
  have no_legacy: "fst (fst e) \<noteq> ''columns''" if "e \<in> saved F s" for e
  proof
    assume h: "fst (fst e) = ''columns''"
    obtain k v where "e = ((''columns'', k), v)" using h by (cases e) auto
    with that saved_kind [OF assms(1), of "''columns''" k v] show False
      by (simp add: section_kind_def)
  qed
  have "remember_window s \<or> window_size s = window_size (default_settings F)"
    using assms(1) by (simp add: settings_ok_def general_ok_def)
  moreover have "\<not> (\<exists>e\<in>set (parse_ini (settings_text F s)). fst (fst e) = ''columns'')"
    using no_legacy set_parsed [OF assms] by blast
  ultimately show ?thesis
    unfolding from_ini_text_def Let_def column_loop general_settings_saved [OF assms]
    using widths_saved [OF assms] visible_saved_field [OF assms] order_saved_field [OF assms]
      sort_saved_field [OF assms] rules_saved_field [OF assms]
    by (cases s) auto
qed

text \<open>
  C3: saving and loading are inverse. For settings the file can carry (every value in the range
  the loader accepts, column ids in lower case, widths with one decimal, no empty column list)
  the text that \<open>save_to\<close> writes is read back by \<open>from_ini_text\<close> as exactly these
  settings: all 28 fields, among them the nested maps of widths and visibilities, the column
  orders, the sorts and the process rules.
\<close>

theorem settings_roundtrip:
  assumes "settings_ok F s" and "library_ok F"
  shows "from_ini_text F (settings_text F s) = s"
  using assms by (rule settings_roundtrip_all)

text \<open>A library on which the hypotheses hold: whole numbers for \<open>f32\<close>, and a compact text for
  the rules.\<close>

definition priority_letters :: "(char \<times> priority_class option) list" where
  "priority_letters =
     [(CHR ''-'', None), (CHR ''R'', Some PrioRealtime), (CHR ''H'', Some PrioHigh),
      (CHR ''A'', Some PrioAboveNormal), (CHR ''N'', Some PrioNormal),
      (CHR ''B'', Some PrioBelowNormal), (CHR ''L'', Some PrioLow), (CHR ''U'', Some PrioUnknown)]"

definition sample_json_of :: "string \<times> process_rule \<Rightarrow> string option" where
  "sample_json_of pr =
     (case map_of (map prod.swap priority_letters) (pr_priority (snd pr)) of
        None \<Rightarrow> None
      | Some c \<Rightarrow>
          Some (CHR ''['' # c #
            (case pr_affinity_mask (snd pr) of None \<Rightarrow> [] | Some m \<Rightarrow> show_nat (unat m)) @
            CHR '':'' # fst pr @ '']''))"

definition sample_json_to :: "string \<Rightarrow> (string \<times> process_rule) option" where
  "sample_json_to j =
     (case j of
        b # c # r \<Rightarrow>
          (case split_once (CHR '':'') r of
             None \<Rightarrow> None
           | Some (m, path) \<Rightarrow>
               Some (butlast path,
                 \<lparr>pr_priority = Option.bind (map_of priority_letters c) (\<lambda>p. p),
                  pr_affinity_mask = map_option of_nat (parse_unsigned 64 m)\<rparr>))
      | _ \<Rightarrow> None)"

definition sample_ops :: "'z \<Rightarrow> (nat, 'z) cfg_ops_scheme" where
  "sample_ops z =
     \<lparr>f_parse = parse_unsigned 24, f_finite = (\<lambda>v. v < 2 ^ 24), f_le = (\<le>),
      f_lit = (\<lambda>r. nat \<lfloor>r\<rfloor>), f_display = show_nat, f_fixed1 = (\<lambda>v. show_nat v @ ''.0''),
      json_of = sample_json_of, json_to = sample_json_to, \<dots> = z\<rparr>"

definition sample_settings :: "nat settings" where
  "sample_settings =
     (default_settings (sample_ops ()))\<lparr>
       ui_zoom := 2, language := LangDe, remember_window := False, wifi_details := True,
       col_widths := [(''details'', [(''cpu'', 110), (''mem'', 200)]), (''users'', [(''cpu'', 90)])],
       col_visible := [(''details'', [(''uac'', False)])],
       col_order := [(''details'', [''pid'', ''name''])],
       table_sort := [(''processes'', \<lparr>sp_column = ''cpu'', sp_ascending = False\<rparr>)],
       process_rules := [([CHR ''c'', CHR '':'', backslash, CHR ''a''],
         \<lparr>pr_priority = Some PrioLow, pr_affinity_mask = Some 3\<rparr>)]\<rparr>"

lemma sample_json:
  "\<exists>j. sample_json_of pr = Some j \<and> sample_json_to j = Some pr \<and> j \<noteq> [] \<and>
     hd j = CHR ''['' \<and> last j = CHR '']''"
proof -
  obtain path p m where pr: "pr = (path, \<lparr>pr_priority = p, pr_affinity_mask = m\<rparr>)"
    by (metis process_rule.surjective old.unit.exhaust surj_pair)
  let ?m = "case m of None \<Rightarrow> [] | Some m \<Rightarrow> show_nat (unat m)"
  have "CHR '':'' \<notin> set ?m"
  proof -
    have "\<not> is_ascii_digit (CHR '':'')" by (simp add: is_ascii_digit_def code_def)
    then show ?thesis using show_nat_digits [of "CHR '':''"] by (cases m) auto
  qed
  then have split: "split_once (CHR '':'') (?m @ CHR '':'' # path @ '']'') = Some (?m, path @ '']'')"
    by (rule split_once_append)
  have m: "map_option of_nat (parse_unsigned 64 ?m) = m"
  proof (cases m)
    case None
    then show ?thesis by (simp add: parse_unsigned_def)
  next
    case (Some x)
    have "parse_unsigned 64 (show_nat (unat x)) = Some (unat x)"
      using unsigned_less [of x] by (intro parse_unsigned_show) simp
    with Some show ?thesis by simp
  qed
  have "\<exists>c. map_of (map prod.swap priority_letters) p = Some c \<and> map_of priority_letters c = Some p"
  proof (cases p)
    case None
    then show ?thesis by (simp add: priority_letters_def)
  next
    case (Some q)
    then show ?thesis by (cases q) (simp_all add: priority_letters_def)
  qed
  then obtain c where "map_of (map prod.swap priority_letters) p = Some c"
    "map_of priority_letters c = Some p" by blast
  then show ?thesis
    using split m by (simp add: pr sample_json_of_def sample_json_to_def)
qed

lemma sample_ops_ok: "library_ok (sample_ops z)"
proof -
  have bound: "v < 2 ^ 24" if w: "hi \<le> 16384 \<and> f_within (sample_ops z) lo hi v" for lo hi v
  proof -
    have "\<lfloor>hi\<rfloor> \<le> 16384" using w by linarith
    moreover have "v \<le> nat \<lfloor>hi\<rfloor>" using w by (simp add: f_within_def sample_ops_def)
    ultimately have "v \<le> 16384" by linarith
    then show ?thesis by simp
  qed
  have "f_parse (sample_ops z) (f_display (sample_ops z) v) = Some v" if "f_finite (sample_ops z) v" for v
    using that parse_unsigned_show [of v 24] by (simp add: sample_ops_def)
  moreover have "number_text (f_display (sample_ops z) v)" for v by (simp add: sample_ops_def)
  moreover have "f_finite (sample_ops z) v \<longleftrightarrow> v < 2 ^ 24" for v by (simp add: sample_ops_def)
  moreover have "json_of (sample_ops z) = sample_json_of" "json_to (sample_ops z) = sample_json_to"
    by (simp_all add: sample_ops_def)
  ultimately show ?thesis
    using bound sample_json unfolding library_ok_def by metis
qed

lemma sample_key_names:
  "table_slug ''details''" "table_slug ''users''" "col_id ''cpu''" "col_id ''mem''"
  "gpu_mode_ok ''overall''" "trimmed ''overall''" "trimmed ''cpu''"
  "visible_ok [(''details'', [(''uac'', False)])]"
  "order_ok [(''details'', [''pid'', ''name''])]"
  "sort_ok [(''processes'', \<lparr>sp_column = ''cpu'', sp_ascending = False\<rparr>)]"
  "rules_ok [([CHR ''c'', CHR '':'', backslash, CHR ''a''],
     \<lparr>pr_priority = Some PrioLow, pr_affinity_mask = Some 3\<rparr>)]"
  by code_simp+

lemma sample_widths:
  "v < 2 ^ 24 \<Longrightarrow>
     fmt_width (sample_ops z) v = show_nat v \<and> parse_f32 (sample_ops z) (show_nat v) = Some v"
proof -
  have "strip_suffix ''.0'' (show_nat v @ ''.0'') = Some (show_nat v)"
    unfolding strip_suffix_Some_iff ..
  then show "v < 2 ^ 24 \<Longrightarrow>
      fmt_width (sample_ops z) v = show_nat v \<and> parse_f32 (sample_ops z) (show_nat v) = Some v"
    using parse_unsigned_show [of v 24]
    by (simp add: fmt_width_def parse_f32_def option_filter_def sample_ops_def)
qed

lemma sample_within: "f_within (sample_ops z) lo hi v \<longleftrightarrow> nat \<lfloor>lo\<rfloor> \<le> v \<and> v \<le> nat \<lfloor>hi\<rfloor>"
  by (simp add: f_within_def sample_ops_def)

lemma sample_nest_wf:
  "nest_wf [(''details'', [(''cpu'', 110 :: nat), (''mem'', 200)]), (''users'', [(''cpu'', 90)])]"
  by code_simp

lemma sample_settings_eq:
  "sample_settings =
     \<lparr>save_config = True, theme = ThemeSystem, update_speed = SpeedNormal, always_on_top = False,
      graph_seconds = 60, ui_zoom = 2, remember_window = False,
      window_size = (1100, 720), default_start_page = ''processes'',
      sidebar_collapsed = False, language = LangDe,
      col_widths = [(''details'', [(''cpu'', 110), (''mem'', 200)]), (''users'', [(''cpu'', 90)])],
      col_visible = [(''details'', [(''uac'', False)])],
      col_order = [(''details'', [''pid'', ''name''])],
      table_sort = [(''processes'', \<lparr>sp_column = ''cpu'', sp_ascending = False\<rparr>)],
      process_rules = [([CHR ''c'', CHR '':'', backslash, CHR ''a''],
        \<lparr>pr_priority = Some PrioLow, pr_affinity_mask = Some 3\<rparr>)],
      perf_card_width = 252, cpu_graph_mode = ''overall'', gpu_graph_mode = ''overall'',
      show_kernel_times = False, wifi_details = True, perf_selected_key = ''cpu'',
      details_tree_hierarchical = False, close_to_tray = False, start_with_windows = False,
      start_elevated = False, text_smoothing = Sharp, render_mode = RenderAuto\<rparr>"
  by (simp add: sample_settings_def default_settings_def sample_ops_def)

lemma sample_settings_ok: "settings_ok (sample_ops z) sample_settings"
proof -
  have "widths_ok (sample_ops z) (col_widths sample_settings)"
    using sample_widths [of _ z] sample_key_names(1-4) sample_nest_wf
    by (simp add: widths_ok_def sample_settings_eq sample_within)
  moreover have "default_settings (sample_ops z) = default_settings (sample_ops ())"
    by (simp add: default_settings_def sample_ops_def)
  then have "general_ok (sample_ops z) sample_settings"
    using sample_key_names(5-7)
    by (simp add: general_ok_def sample_settings_def sample_within)
       (simp add: default_settings_def sample_ops_def start_pages_def utf8_len_def code_def)
  ultimately show ?thesis
    using sample_key_names(8-11) by (simp add: settings_ok_def sample_settings_def)
qed

theorem settings_roundtrip_witness:
  "from_ini_text (sample_ops ()) (settings_text (sample_ops ()) sample_settings) = sample_settings"
  using sample_settings_ok sample_ops_ok by (rule settings_roundtrip)

end
