(* ===== verification/Settings_File.thy ===== *)
theory Settings_File
  imports Settings_Load
begin

text \<open>
  What the settings are whatever the file holds, and the file operations: \<open>load_from\<close>,
  \<open>load\<close>, \<open>save_to\<close> and \<open>save_forced\<close> over the file system of Persist.
\<close>

section \<open>Settings that are always in range\<close>

text \<open>The order of the numbers the library reads: literals keep their order, finite numbers
  can be compared.\<close>

definition order_laws :: "('f, 'z) cfg_ops_scheme \<Rightarrow> bool" where
  "order_laws F \<longleftrightarrow>
     (\<forall>a b. 0 \<le> a \<and> a \<le> b \<and> b \<le> 16384 \<longrightarrow> f_le F (f_lit F a) (f_lit F b)) \<and>
     (\<forall>v a. f_finite F v \<and> 0 \<le> a \<and> a \<le> 16384 \<longrightarrow>
        f_le F v (f_lit F a) \<or> f_le F (f_lit F a) v)"

lemma lit_within: "order_laws F \<Longrightarrow> 0 \<le> lo \<Longrightarrow> lo \<le> a \<Longrightarrow> a \<le> hi \<Longrightarrow> hi \<le> 16384 \<Longrightarrow>
    f_within F lo hi (f_lit F a)"
  by (simp add: order_laws_def f_within_def)

lemma clamp_within:
  assumes laws: "order_laws F" and v: "f_finite F v" and b: "0 \<le> lo" "lo \<le> hi" "hi \<le> 16384"
  shows "f_within F lo hi (f_clamp F lo hi v)"
proof -
  have le: "f_le F (f_lit F lo) (f_lit F hi)" "f_le F (f_lit F lo) (f_lit F lo)"
      "f_le F (f_lit F hi) (f_lit F hi)"
    using laws b by (simp_all add: order_laws_def)
  have "f_le F v (f_lit F lo) \<or> f_le F (f_lit F lo) v" "f_le F v (f_lit F hi) \<or> f_le F (f_lit F hi) v"
    using laws v b by (simp_all add: order_laws_def)
  with le show ?thesis
    by (auto simp: f_clamp_def f_lt_def f_within_def Let_def)
qed

definition general_in_range :: "('f, 'z) cfg_ops_scheme \<Rightarrow> 'f settings \<Rightarrow> bool" where
  "general_in_range F s \<longleftrightarrow>
     10 \<le> graph_seconds s \<and> graph_seconds s \<le> 600 \<and>
     f_within F (1/2) 3 (ui_zoom s) \<and>
     f_within F 200 16384 (fst (window_size s)) \<and> f_within F 150 16384 (snd (window_size s)) \<and>
     f_within F 100 2000 (perf_card_width s) \<and>
     default_start_page s \<in> set start_pages \<and>
     cpu_graph_mode s \<in> {''overall'', ''logical''} \<and> gpu_mode_ok (gpu_graph_mode s) \<and>
     perf_selected_key s \<noteq> [] \<and> utf8_len (perf_selected_key s) \<le> 64"

text \<open>An invariant of a chain of updates holds at its end.\<close>

lemma let_invariant: "P x \<Longrightarrow> (\<And>s. P s \<Longrightarrow> P (f s)) \<Longrightarrow> P (Let x f)"
  by simp

lemma default_in_range:
  assumes "order_laws F"
  shows "general_in_range F (default_settings F)"
proof -
  have "gpu_mode_ok ''overall''" "utf8_len ''cpu'' \<le> 64" by code_simp+
  then show ?thesis
    using assms by (simp add: general_in_range_def default_settings_def start_pages_def lit_within)
qed

lemma parse_f32_finite: "parse_f32 F t = Some v \<Longrightarrow> f_finite F v"
  by (auto simp: parse_f32_def option_filter_def split: option.splits if_splits)

lemma option_filter_Some: "option_filter p x = Some v \<Longrightarrow> x = Some v \<and> p v"
  by (auto simp: option_filter_def split: option.splits if_splits)

lemma window_in_range:
  assumes laws: "order_laws F" and get: "Option.bind t (parse_window_size F) = Some (w, h)"
  shows "f_within F 200 16384 (f_clamp F 200 16384 w) \<and> f_within F 150 16384 (f_clamp F 150 16384 h)"
proof -
  have "f_finite F w" "f_finite F h"
    using get by (auto simp: bind_eq_Some_conv parse_window_size_def dest: parse_f32_finite)
  then show ?thesis using laws by (simp add: clamp_within)
qed


text \<open>One update at a time.\<close>

lemma in_range_unaffected:
  "general_in_range F (s\<lparr>save_config := b\<rparr>) = general_in_range F s"
  "general_in_range F (s\<lparr>theme := t\<rparr>) = general_in_range F s"
  "general_in_range F (s\<lparr>update_speed := u\<rparr>) = general_in_range F s"
  "general_in_range F (s\<lparr>always_on_top := b\<rparr>) = general_in_range F s"
  "general_in_range F (s\<lparr>remember_window := b\<rparr>) = general_in_range F s"
  "general_in_range F (s\<lparr>start_elevated := b\<rparr>) = general_in_range F s"
  "general_in_range F (s\<lparr>sidebar_collapsed := b\<rparr>) = general_in_range F s"
  "general_in_range F (s\<lparr>language := l\<rparr>) = general_in_range F s"
  "general_in_range F (s\<lparr>show_kernel_times := b\<rparr>) = general_in_range F s"
  "general_in_range F (s\<lparr>wifi_details := b\<rparr>) = general_in_range F s"
  "general_in_range F (s\<lparr>details_tree_hierarchical := b\<rparr>) = general_in_range F s"
  "general_in_range F (s\<lparr>close_to_tray := b\<rparr>) = general_in_range F s"
  "general_in_range F (s\<lparr>start_with_windows := b\<rparr>) = general_in_range F s"
  "general_in_range F (s\<lparr>text_smoothing := g\<rparr>) = general_in_range F s"
  "general_in_range F (s\<lparr>render_mode := r\<rparr>) = general_in_range F s"
  by (simp_all add: general_in_range_def)

lemma in_range_affected:
  assumes "general_in_range F s"
  shows "general_in_range F (s\<lparr>graph_seconds := min (max n 10) 600\<rparr>)"
    "f_within F (1/2) 3 v \<Longrightarrow> general_in_range F (s\<lparr>ui_zoom := v\<rparr>)"
    "f_within F 200 16384 a \<Longrightarrow> f_within F 150 16384 b \<Longrightarrow> general_in_range F (s\<lparr>window_size := (a, b)\<rparr>)"
    "f_within F 100 2000 v \<Longrightarrow> general_in_range F (s\<lparr>perf_card_width := v\<rparr>)"
    "p \<in> set start_pages \<Longrightarrow> general_in_range F (s\<lparr>default_start_page := p\<rparr>)"
    "m = ''overall'' \<or> m = ''logical'' \<Longrightarrow> general_in_range F (s\<lparr>cpu_graph_mode := m\<rparr>)"
    "gpu_mode_ok g \<Longrightarrow> general_in_range F (s\<lparr>gpu_graph_mode := g\<rparr>)"
    "k \<noteq> [] \<Longrightarrow> utf8_len k \<le> 64 \<Longrightarrow> general_in_range F (s\<lparr>perf_selected_key := k\<rparr>)"
  using assms by (simp_all add: general_in_range_def)

lemma in_range_window:
  assumes "order_laws F" "general_in_range F s"
  shows "general_in_range F (case Option.bind t (parse_window_size F) of
      Some (w, h) \<Rightarrow> s\<lparr>window_size := (f_clamp F 200 16384 w, f_clamp F 150 16384 h)\<rparr> | None \<Rightarrow> s)"
  using assms window_in_range [OF assms(1), of t]
  by (cases "Option.bind t (parse_window_size F)") (auto intro: in_range_affected(3))

lemma in_range_cases:
  "general_in_range F s \<Longrightarrow> (\<And>v. x = Some v \<Longrightarrow> general_in_range F (f v)) \<Longrightarrow>
     general_in_range F (case x of Some v \<Rightarrow> f v | None \<Rightarrow> s)"
  by (cases x) simp_all

lemmas in_range_intros =
  in_range_unaffected [THEN iffD2] in_range_window in_range_affected in_range_cases

lemma general_settings_in_range:
  assumes laws: "order_laws F"
  shows "general_in_range F (general_settings F kv)"
  unfolding general_settings_def
  apply (rule let_invariant [where P = "general_in_range F"], rule default_in_range [OF laws])
  apply (rule let_invariant [where P = "general_in_range F"],
      (intro in_range_intros laws; (assumption | simp add: Let_def option_filter_Some_iff in_range_affected))[1])+
  apply assumption
  done

section \<open>Migrated widths\<close>

text \<open>One legacy entry: the table, and the widths it contributes.\<close>

definition migrated_of ::
    "('f, 'z) cfg_ops_scheme \<Rightarrow> (string \<times> string) \<times> string \<Rightarrow> (string \<times> (string, 'f) btree) option" where
  "migrated_of F e =
     (case parse_widths F (snd e) of
        None \<Rightarrow> None
      | Some widths \<Rightarrow>
          (let migrated = migrate_positional_widths F (snd (fst e)) widths in
           if migrated = [] then None else Some (snd (fst e), migrated)))"

definition add_migrated ::
    "(string, (string, 'f) btree) btree \<Rightarrow> string \<times> (string, 'f) btree \<Rightarrow>
     (string, (string, 'f) btree) btree" where
  "add_migrated m tm = bt_upsert (fst tm) [] (\<lambda>entry. bt_or_insert_all entry (snd tm)) m"

lemma migrate_columns_fold:
  "migrate_columns F kv s =
     s\<lparr>col_widths := foldl add_migrated (col_widths s)
       (List.map_filter (migrated_of F) (filter (\<lambda>e. fst (fst e) = ''columns'') kv))\<rparr>"
proof -
  have "foldl (\<lambda>s ((section, table), v).
       case parse_widths F v of
         None \<Rightarrow> s
       | Some widths \<Rightarrow>
           (let migrated = migrate_positional_widths F table widths in
            if migrated = [] then s
            else s\<lparr>col_widths :=
              bt_upsert table [] (\<lambda>entry. bt_or_insert_all entry migrated) (col_widths s)\<rparr>)) s es =
    s\<lparr>col_widths := foldl add_migrated (col_widths s) (List.map_filter (migrated_of F) es)\<rparr>"
    for es :: "((string \<times> string) \<times> string) list" and s :: "'a settings"
  proof (induction es arbitrary: s)
    case Nil
    then show ?case by (simp add: map_filter_simps)
  next
    case (Cons e es)
    obtain sec table v where "e = ((sec, table), v)" by (metis surj_pair)
    then show ?case
      by (simp add: Cons.IH map_filter_simps migrated_of_def add_migrated_def Let_def
          split: option.split)
  qed
  moreover have "(\<lambda>((section, table), v). section = ''columns'') =
      (\<lambda>e :: (string \<times> string) \<times> string. fst (fst e) = ''columns'')"
    by auto
  ultimately show ?thesis by (simp add: migrate_columns_def)
qed

lemma migrated_of_Some:
  assumes "migrated_of F e = Some (t, mig)"
  shows "mig \<noteq> [] \<and> (\<forall>(c, w)\<in>set mig. f_within F 40 1200 w)"
proof -
  from assms obtain widths where "mig = migrate_positional_widths F t widths" "mig \<noteq> []"
    by (auto simp: migrated_of_def Let_def split: option.splits if_splits)
  then show ?thesis using set_migrate by fastforce
qed

definition widths_in_range :: "('f, 'z) cfg_ops_scheme \<Rightarrow> (string, (string, 'f) btree) btree \<Rightarrow> bool" where
  "widths_in_range F m \<longleftrightarrow> nest_wf m \<and> (\<forall>k w. nest_get m k = Some w \<longrightarrow> f_within F 40 1200 w)"

lemma add_migrated_get:
  "nest_get (add_migrated m (t, mig)) (t', c) =
     (if t' = t then option_or (nest_get m (t, c)) (map_of mig c) else nest_get m (t', c))"
  by (simp add: add_migrated_def nest_get_upsert bt_get_or_insert_all nest_get_unwrap)

lemma add_migrated_in_range:
  assumes "widths_in_range F m" "mig \<noteq> []" "\<forall>(c, w)\<in>set mig. f_within F 40 1200 w"
  shows "widths_in_range F (add_migrated m (t, mig))"
proof -
  have "nest_wf (add_migrated m (t, mig))"
    using assms(1,2) unfolding add_migrated_def widths_in_range_def
    by (auto intro!: nest_wf_upsert bt_wf_or_insert_all nest_wf_unwrap bt_or_insert_all_nonempty)
  moreover have "f_within F 40 1200 w" if get: "nest_get (add_migrated m (t, mig)) k = Some w" for k w
  proof -
    obtain t' c where k: "k = (t', c)" by (cases k)
    show ?thesis
    proof (cases "nest_get m (t', c)")
      case None
      with get k have "map_of mig c = Some w"
        by (simp add: add_migrated_get split: if_splits)
      with assms(3) show ?thesis using map_of_SomeD by fastforce
    next
      case (Some x)
      with get k have "x = w" by (auto simp: add_migrated_get split: if_splits)
      with Some assms(1) show ?thesis by (simp add: widths_in_range_def)
    qed
  qed
  ultimately show ?thesis by (simp add: widths_in_range_def)
qed

lemma migrate_columns_in_range:
  assumes "widths_in_range F (col_widths s)"
  shows "widths_in_range F (col_widths (migrate_columns F kv s))"
proof -
  have "widths_in_range F m \<Longrightarrow> widths_in_range F (foldl add_migrated m (List.map_filter (migrated_of F) es))"
    for m es
  proof (induction es arbitrary: m)
    case Nil
    then show ?case by (simp add: map_filter_simps)
  next
    case (Cons e es)
    then show ?case
      using migrated_of_Some [of F e] add_migrated_in_range [of F m]
      by (auto simp: map_filter_simps split: option.split)
  qed
  with assms show ?thesis by (simp add: migrate_columns_fold)
qed

lemma get_foldl_migrated:
  "distinct (map fst xs) \<Longrightarrow>
     nest_get (foldl add_migrated m xs) (t, c) =
       option_or (nest_get m (t, c)) (Option.bind (map_of xs t) (\<lambda>mig. map_of mig c))"
proof (induction xs arbitrary: m)
  case Nil
  then show ?case by (simp add: option_or_def split: option.split)
next
  case (Cons x xs)
  obtain u mig where x: "x = (u, mig)" by (cases x)
  have "map_of xs u = None" using Cons.prems x by (simp add: map_of_eq_None_iff)
  then have "nest_get (foldl add_migrated (add_migrated m (u, mig)) xs) (t, c) =
      option_or (nest_get (add_migrated m (u, mig)) (t, c)) (if t = u then None else Option.bind (map_of xs t) (\<lambda>mig. map_of mig c))"
    using Cons.IH [of "add_migrated m (u, mig)"] Cons.prems by (cases "t = u") simp_all
  then show ?case
    by (simp add: x add_migrated_get option_or_def split: option.split)
qed

definition legacy_entries :: "ini_map \<Rightarrow> ini_map" where
  "legacy_entries kv = filter (\<lambda>e. fst (fst e) = ''columns'') kv"

lemma map_of_bt: "map_of m k = bt_get m k"
  by (induction m) auto

lemma migrated_of_table: "migrated_of F e = Some (t, mig) \<Longrightarrow> t = snd (fst e)"
  by (auto simp: migrated_of_def Let_def split: option.splits if_splits)

lemma legacy_distinct:
  assumes "bt_wf kv"
  shows "distinct (map fst (List.map_filter (migrated_of F) (legacy_entries kv)))"
proof -
  have "distinct (map fst (List.map_filter (migrated_of F) es))"
    if "distinct (map fst es)" "\<forall>e\<in>set es. fst (fst e) = ''columns''" for es
    using that
  proof (induction es)
    case Nil
    then show ?case by (simp add: map_filter_simps)
  next
    case (Cons e es)
    have "snd (fst e) \<notin> fst ` set (List.map_filter (migrated_of F) es)"
    proof
      assume "snd (fst e) \<in> fst ` set (List.map_filter (migrated_of F) es)"
      then obtain x mig where x: "x \<in> set es" "migrated_of F x = Some (snd (fst e), mig)"
        by (auto simp: set_map_filter)
      have "fst x = fst e"
        using migrated_of_table [OF x(2)] Cons.prems(2) x(1) by (simp add: prod_eq_iff)
      with x(1) Cons.prems(1) show False by (metis distinct.simps(2) image_eqI list.simps(9) set_map)
    qed
    moreover have "distinct (map fst (List.map_filter (migrated_of F) es))"
      using Cons by simp
    ultimately show ?case
    proof (cases "migrated_of F e")
      case (Some tm)
      then have "fst tm = snd (fst e)"
        using migrated_of_table [of F e "fst tm" "snd tm"] by simp
      with Some \<open>snd (fst e) \<notin> _\<close> \<open>distinct (map fst (List.map_filter (migrated_of F) es))\<close>
      show ?thesis by (simp add: map_filter_simps)
    qed (simp add: map_filter_simps)
  qed
  moreover have "distinct (map fst kv)" using bt.distinct_keys [OF assms] .
  then have "distinct (map fst (legacy_entries kv))"
    unfolding legacy_entries_def by (rule distinct_map_filter)
  ultimately show ?thesis by (simp add: legacy_entries_def)
qed

text \<open>
  The migration of an old file. The width of column \<open>c\<close> of table \<open>t\<close> afterwards is the
  one given by column id if there is one; otherwise the one that the positional list of the
  table has, at the position the column had in the old builds, if the whole list is well formed
  and the value is a usable width; otherwise none.
\<close>

theorem migrated_width:
  "nest_get (col_widths (migrate_columns F (parse_ini doc) s)) (t, c) =
     option_or (nest_get (col_widths s) (t, c))
       (Option.bind (Option.bind (bt_get (parse_ini doc) (''columns'', t)) (parse_widths F))
         (\<lambda>ws. bt_get (migrate_positional_widths F t ws) c))"
proof -
  let ?kv = "parse_ini doc"
  let ?xs = "List.map_filter (migrated_of F) (legacy_entries ?kv)"
  note dist = legacy_distinct [OF bt_wf_parse_ini, of F doc]
  have eq: "map_of ?xs t = Some mig \<longleftrightarrow>
      (\<exists>v. bt_get ?kv (''columns'', t) = Some v \<and> migrated_of F ((''columns'', t), v) = Some (t, mig))"
    for mig
  proof -
    have "map_of ?xs t = Some mig \<longleftrightarrow> (t, mig) \<in> set ?xs" using dist by simp
    also have "\<dots> \<longleftrightarrow> (\<exists>v. ((''columns'', t), v) \<in> set ?kv \<and>
        migrated_of F ((''columns'', t), v) = Some (t, mig))"
    proof
      assume "(t, mig) \<in> set ?xs"
      then obtain e where e: "e \<in> set ?kv" "fst (fst e) = ''columns''" "migrated_of F e = Some (t, mig)"
        by (auto simp: set_map_filter legacy_entries_def)
      moreover have "e = ((''columns'', t), snd e)"
        using migrated_of_table [OF e(3)] e(2) by (simp add: prod_eq_iff)
      ultimately show "\<exists>v. ((''columns'', t), v) \<in> set ?kv \<and>
          migrated_of F ((''columns'', t), v) = Some (t, mig)"
        by metis
    next
      assume "\<exists>v. ((''columns'', t), v) \<in> set ?kv \<and>
          migrated_of F ((''columns'', t), v) = Some (t, mig)"
      then show "(t, mig) \<in> set ?xs"
        by (fastforce simp: set_map_filter legacy_entries_def)
    qed
    finally show ?thesis using bt_wf_parse_ini by (simp add: bt_wf_get_iff)
  qed
  have "Option.bind (map_of ?xs t) (\<lambda>mig. map_of mig c) =
      Option.bind (Option.bind (bt_get ?kv (''columns'', t)) (parse_widths F))
        (\<lambda>ws. bt_get (migrate_positional_widths F t ws) c)"
  proof (cases "Option.bind (bt_get ?kv (''columns'', t)) (parse_widths F)")
    case None
    have "map_of ?xs t \<noteq> Some mig" for mig
      unfolding eq using None by (auto simp: migrated_of_def bind_eq_None_conv)
    then have "map_of ?xs t = None" by (cases "map_of ?xs t") blast+
    with None show ?thesis by simp
  next
    case (Some ws)
    then obtain v where v: "bt_get ?kv (''columns'', t) = Some v" "parse_widths F v = Some ws"
      by (auto simp: bind_eq_Some_conv)
    show ?thesis
    proof (cases "migrate_positional_widths F t ws = []")
      case True
      have "map_of ?xs t \<noteq> Some mig" for mig
        unfolding eq using v True by (auto simp: migrated_of_def)
      then have "map_of ?xs t = None" by (cases "map_of ?xs t") blast+
      with True Some show ?thesis by simp
    next
      case False
      then have "map_of ?xs t = Some (migrate_positional_widths F t ws)"
        using v unfolding eq by (simp add: migrated_of_def)
      with Some show ?thesis by (simp add: map_of_bt)
    qed
  qed
  then show ?thesis
    using dist by (simp add: migrate_columns_fold get_foldl_migrated legacy_entries_def)
qed

section \<open>Any file gives settings in range\<close>

definition settings_in_range :: "('f, 'z) cfg_ops_scheme \<Rightarrow> 'f settings \<Rightarrow> bool" where
  "settings_in_range F s \<longleftrightarrow> general_in_range F s \<and> widths_in_range F (col_widths s) \<and>
     nest_wf (col_visible s) \<and>
     bt_wf (col_order s) \<and>
     (\<forall>(t, ids)\<in>set (col_order s). ids \<noteq> [] \<and> (\<forall>i\<in>set ids. i \<noteq> [] \<and> trimmed i)) \<and>
     bt_wf (table_sort s) \<and>
     (\<forall>(t, p)\<in>set (table_sort s). sp_column p \<noteq> [] \<and> trimmed (sp_column p)) \<and>
     rules_ok (process_rules s)"

lemma order_of_ok:
  assumes "order_of e = Some (t, ids)"
  shows "ids \<noteq> [] \<and> (\<forall>i\<in>set ids. i \<noteq> [] \<and> trimmed i)"
proof -
  obtain sec k v where e: "e = ((sec, k), v)" by (metis surj_pair)
  with assms have "ids = order_ids v" "ids \<noteq> []"
    by (auto split: section_kind.splits if_splits)
  then show ?thesis by (auto simp: order_ids_def trimmed_trim)
qed

lemma sort_of_ok:
  assumes "sort_of e = Some (t, p)"
  shows "sp_column p \<noteq> [] \<and> trimmed (sp_column p)"
proof -
  obtain sec k v where e: "e = ((sec, k), v)" by (metis surj_pair)
  with assms show ?thesis
    by (auto simp: trimmed_trim split: section_kind.splits option.splits if_splits)
qed

lemma rule_of_ok:
  assumes "rule_of F e = Some (path, rule)"
  shows "trim path \<noteq> [] \<and> \<not> rule_is_empty rule"
proof -
  obtain sec k v where e: "e = ((sec, k), v)" by (metis surj_pair)
  with assms show ?thesis
    by (auto split: section_kind.splits option.splits if_splits)
qed

lemma width_of_ok:
  assumes "width_of F e = Some (tc, w)"
  shows "f_within F 40 1200 w"
proof -
  obtain sec k v where e: "e = ((sec, k), v)" by (metis surj_pair)
  with assms show ?thesis
    by (auto split: section_kind.splits option.splits if_splits)
qed

lemma extend_collect: "x \<in> set (bt_extend [] (List.map_filter f kv)) \<Longrightarrow> \<exists>e. f e = Some x"
  using set_bt_extend_subset by (fastforce simp: set_map_filter)

lemma general_settings_maps:
  "col_widths (general_settings F kv) = []" "col_visible (general_settings F kv) = []"
  "col_order (general_settings F kv) = []" "table_sort (general_settings F kv) = []"
  "process_rules (general_settings F kv) = []"
proof -
  define P where "P s \<longleftrightarrow> col_widths s = [] \<and> col_visible s = [] \<and> col_order s = [] \<and>
      table_sort s = [] \<and> process_rules s = []" for s :: "'a settings"
  have "P (general_settings F kv)"
    unfolding general_settings_def
    apply (rule let_invariant [where P = P], simp add: P_def default_settings_def)
    apply (rule let_invariant [where P = P], simp add: P_def Let_def split: option.split)+
    apply assumption
    done
  then show "col_widths (general_settings F kv) = []" "col_visible (general_settings F kv) = []"
    "col_order (general_settings F kv) = []" "table_sort (general_settings F kv) = []"
    "process_rules (general_settings F kv) = []"
    by (simp_all add: P_def)
qed

lemma general_maps_unaffected:
  "general_in_range F (s\<lparr>col_widths := a, col_visible := b, col_order := c, table_sort := d,
     process_rules := e\<rparr>) = general_in_range F s"
  "general_in_range F (s\<lparr>col_widths := a\<rparr>) = general_in_range F s"
  by (simp_all add: general_in_range_def)

lemma widths_extend_in_range:
  "widths_in_range F (nest_extend [] (List.map_filter (width_of F) kv))"
proof -
  let ?m = "nest_extend [] (List.map_filter (width_of F) kv)"
  have wf: "nest_wf ?m" by (intro nest_wf_extend nest.wf_empty)
  have "f_within F 40 1200 w" if "nest_get ?m k = Some w" for k w
  proof -
    have "(k, w) \<in> set (nest_entries ?m)" using that nest.entries_get [OF wf] by simp
    then have "(k, w) \<in> set (List.map_filter (width_of F) kv)" using set_nest_extend by blast
    then obtain e where "width_of F e = Some (k, w)" unfolding set_map_filter by blast
    then show ?thesis by (rule width_of_ok)
  qed
  with wf show ?thesis by (simp add: widths_in_range_def)
qed

text \<open>
  C33: loading is total and safe on any text, hand-edited or corrupt. Whatever the file holds,
  the settings that come out are in range: numbers inside their limits, a known start page and
  graph mode, every column width usable and every map well formed with no empty column list,
  no blank column id, no rule without an effect.
\<close>

theorem settings_always_in_range:
  assumes "order_laws F"
  shows "settings_in_range F (from_ini_text F doc)"
proof -
  let ?kv = "parse_ini doc"
  obtain saw s where loop: "foldl (column_entry F) (False, general_settings F ?kv) ?kv = (saw, s)"
    by (metis surj_pair)
  then have s: "s = (general_settings F ?kv)
      \<lparr>col_widths := nest_extend [] (List.map_filter (width_of F) ?kv),
       col_visible := nest_extend [] (List.map_filter visible_of ?kv),
       col_order := bt_extend [] (List.map_filter order_of ?kv),
       table_sort := bt_extend [] (List.map_filter sort_of ?kv),
       process_rules := bt_extend [] (List.map_filter (rule_of F) ?kv)\<rparr>"
    by (simp add: column_loop general_settings_maps)
  have "\<forall>(t, ids)\<in>set (bt_extend [] (List.map_filter order_of ?kv)).
      ids \<noteq> [] \<and> (\<forall>i\<in>set ids. i \<noteq> [] \<and> trimmed i)"
    using extend_collect order_of_ok by blast
  moreover have "\<forall>(t, p)\<in>set (bt_extend [] (List.map_filter sort_of ?kv)).
      sp_column p \<noteq> [] \<and> trimmed (sp_column p)"
    using extend_collect sort_of_ok by blast
  moreover have "rules_ok (bt_extend [] (List.map_filter (rule_of F) ?kv))"
    unfolding rules_ok_def using extend_collect rule_of_ok
    by (blast intro: bt_wf_extend bt_wf_Nil)
  ultimately have "settings_in_range F s"
    using general_settings_in_range [OF assms, of ?kv] widths_extend_in_range [of F ?kv]
    by (simp add: settings_in_range_def s general_maps_unaffected nest_wf_extend nest.wf_empty
        bt_wf_extend bt_wf_Nil)
  then have "settings_in_range F (if saw then migrate_columns F ?kv s else s)"
    using migrate_columns_in_range [of F s ?kv]
    by (simp add: settings_in_range_def migrate_columns_fold general_maps_unaffected)
  then show ?thesis
    using default_in_range [OF assms] loop
    by (auto simp: from_ini_text_def Let_def settings_in_range_def general_in_range_def)
qed

lemma sample_order_laws: "order_laws (sample_ops z)"
  by (auto simp: order_laws_def sample_ops_def intro!: nat_mono floor_mono)

theorem settings_always_in_range_witness:
  "settings_in_range (sample_ops ()) (from_ini_text (sample_ops ())
     (''[general]'' @ LF # ''graph_seconds=9999'' @ LF # ''[columns.details]'' @ LF # ''cpu=nan''))"
  using sample_order_laws by (rule settings_always_in_range)

section \<open>The file\<close>

definition MAX_SETTINGS_BYTES :: nat where
  "MAX_SETTINGS_BYTES = 4 * 1024 * 1024"

definition taskman_config_dir :: "string list option \<Rightarrow> string list option \<Rightarrow> string list" where
  "taskman_config_dir env_dir local_dir =
     (case env_dir of Some d \<Rightarrow> d | None \<Rightarrow> unwrap_or local_dir [''.''] @ [''taskman''])"

text \<open>\<open>read_capped\<close>; the first argument is the error opening or reading the file meets, if it
  meets one although the file is there.\<close>

definition read_capped :: "io_error option \<Rightarrow> fs \<Rightarrow> path \<Rightarrow> nat \<Rightarrow> io_error + bytes" where
  "read_capped fault s p limit =
     (case fs_read s p of
        None \<Rightarrow> Inl \<lparr>io_kind = NotFound, io_text = ''not found''\<rparr>
      | Some content \<Rightarrow>
          (case fault of
             Some e \<Rightarrow> Inl e
           | None \<Rightarrow>
               (let bytes = take (limit + 1) content in
                if limit < length bytes
                then Inl \<lparr>io_kind = InvalidData,
                  io_text = p_name p @ '' exceeds the '' @ show_nat limit @ ''-byte limit''\<rparr>
                else Inr bytes)))"

text \<open>Decoding and encoding of UTF-8 (lossy with a byte order mark dropped, and strict), and
  the JSON of the settings of old builds, are functions of the libraries.\<close>

record 'f file_ops = "'f cfg_ops" +
  utf8_lossy :: "bytes \<Rightarrow> string"
  utf8_strict :: "bytes \<Rightarrow> string option"
  utf8_bytes :: "string \<Rightarrow> bytes"
  settings_of_json :: "string \<Rightarrow> 'f settings option"

definition load_from ::
    "('f, 'z) file_ops_scheme \<Rightarrow> io_error option \<Rightarrow> bool \<Rightarrow> path \<Rightarrow> fs \<Rightarrow> 'f settings \<times> fs" where
  "load_from F fault rename_ok p s =
     (case read_capped fault s p MAX_SETTINGS_BYTES of
        Inr bytes \<Rightarrow> (from_ini_text F (utf8_lossy F bytes), s)
      | Inl e \<Rightarrow>
          if io_kind e = NotFound then (default_settings F, s)
          else (default_settings F, set_aside rename_ok p s))"

definition load_settings ::
    "('f, 'z) file_ops_scheme \<Rightarrow> io_error option \<Rightarrow> bool \<Rightarrow> string list \<Rightarrow> fs \<Rightarrow> 'f settings \<times> fs" where
  "load_settings F fault rename_ok dir s =
     (let ini = \<lparr>p_dir = dir, p_name = ''config.ini''\<rparr>;
          json = \<lparr>p_dir = dir, p_name = ''settings.json''\<rparr> in
      if fs_read s ini \<noteq> None then load_from F fault rename_ok ini s
      else if fs_read s json \<noteq> None then
        (case read_capped fault s json MAX_SETTINGS_BYTES of
           Inl e \<Rightarrow> load_from F fault rename_ok ini s
         | Inr bytes \<Rightarrow>
             (case utf8_strict F bytes of
                None \<Rightarrow> load_from F fault rename_ok ini s
              | Some txt \<Rightarrow>
                  (case settings_of_json F txt of
                     Some st \<Rightarrow> (st\<lparr>save_config := True\<rparr>, s)
                   | None \<Rightarrow> load_from F fault rename_ok ini s)))
      else load_from F fault rename_ok ini s)"

definition save_to :: "('f, 'z) file_ops_scheme \<Rightarrow> 'f settings \<Rightarrow> path \<Rightarrow> fs_op list" where
  "save_to F st p = replace_file p ''ini.tmp'' [utf8_bytes F (settings_text F st)]"

definition default_path :: "string list option \<Rightarrow> string list \<Rightarrow> path" where
  "default_path override_dir config_dir =
     (case override_dir of
        Some dir \<Rightarrow> \<lparr>p_dir = dir, p_name = ''config.ini''\<rparr>
      | None \<Rightarrow> \<lparr>p_dir = config_dir, p_name = ''config.ini''\<rparr>)"

text \<open>\<open>save_forced\<close> ignores the error of an operation that fails: \<open>completed\<close> operations of the
  sequence have been carried out.\<close>

definition save_forced ::
    "('f, 'z) file_ops_scheme \<Rightarrow> string list option \<Rightarrow> string list \<Rightarrow> 'f settings \<Rightarrow> nat \<Rightarrow> fs \<Rightarrow> fs" where
  "save_forced F override_dir config_dir st completed s =
     fs_run s (take completed (save_to F st (default_path override_dir config_dir)))"

text \<open>
  End to end, what \<open>save_to\<close> has written to the disk is what \<open>load_from\<close> returns, and
  loading does not touch the file.
\<close>

theorem save_load:
  assumes "settings_ok F st" "library_ok F"
    and "utf8_lossy F (utf8_bytes F (settings_text F st)) = settings_text F st"
    and "length (utf8_bytes F (settings_text F st)) \<le> MAX_SETTINGS_BYTES"
  shows "load_from F None rename_ok p (fs_run s (save_to F st p)) = (st, fs_run s (save_to F st p))"
proof -
  have "CHR ''.'' \<in> set ''ini.tmp''" by simp
  from replace_file_complete [OF with_extension_neq [OF this]]
  have "fs_read (fs_run s (save_to F st p)) p = Some (utf8_bytes F (settings_text F st))"
    by (simp add: save_to_def fs_read_def)
  then show ?thesis
    using settings_roundtrip_all [OF assms(1,2)] assms(3,4)
    by (simp add: load_from_def read_capped_def Let_def)
qed

definition sample_files :: "nat file_ops" where
  "sample_files = sample_ops
     \<lparr>utf8_lossy = map (\<lambda>b. char_of (unat b)), utf8_strict = (\<lambda>_. None),
      utf8_bytes = map (\<lambda>c. of_nat (code c)), settings_of_json = (\<lambda>_. None)\<rparr>"

lemma sample_utf8: "utf8_lossy sample_files (utf8_bytes sample_files t) = t"
proof -
  have "char_of (unat (of_nat (code c) :: u8)) = c" for c
    using code_less [of c] by (simp add: unat_of_nat)
  then show ?thesis by (induction t) (simp_all add: sample_files_def sample_ops_def)
qed

lemma sample_numbers:
  "show_nat 60 = ''60''" "show_nat 2 = ''2''" "show_nat 1100 = ''1100''" "show_nat 720 = ''720''"
  "show_nat 252 = ''252''" "show_nat 110 = ''110''" "show_nat 200 = ''200''" "show_nat 90 = ''90''"
  "show_nat 0 = ''0''" "show_nat 3 = ''3''"
  by code_simp+

lemma sample_text_length:
  "length (utf8_bytes sample_files (settings_text sample_files sample_settings)) \<le> MAX_SETTINGS_BYTES"
proof -
  have "length (settings_text sample_files sample_settings) < 2000"
    by (simp add: sample_settings_eq settings_text_def render_ini_def general_body_def
        general_pairs_def write_window_size_def sample_files_def sample_ops_def sample_numbers
        escape_char_def fmt_width_def strip_suffix_def ends_with_def starts_with_def show_flag_def
        rule_is_empty_def sample_json_of_def priority_letters_def)
  then show ?thesis by (simp add: MAX_SETTINGS_BYTES_def sample_files_def sample_ops_def)
qed

theorem save_load_witness:
  "load_from sample_files None False config_path
     (fs_run (\<lambda>_. None) (save_to sample_files sample_settings config_path)) =
     (sample_settings, fs_run (\<lambda>_. None) (save_to sample_files sample_settings config_path))"
proof (rule save_load)
  show "settings_ok sample_files sample_settings" "library_ok sample_files"
    unfolding sample_files_def by (rule sample_settings_ok sample_ops_ok)+
qed (simp_all only: sample_utf8 sample_text_length)

text \<open>
  C34: A settings file that is there but cannot be used (too large, or unreadable) is not lost if it can
  be renamed: defaults are used, and its bytes are under the name with \<open>.bad\<close>, at once and after
  the next save. If the renaming fails, which is only logged, the file stays as it is, defaults are used
  all the same, and the next save replaces its bytes; nothing is under the name with \<open>.bad\<close> that
  was not there before.
\<close>

theorem unusable_settings_kept:
  assumes "fs_read s p = Some old"
    and "(case fault of None \<Rightarrow> MAX_SETTINGS_BYTES < length old | Some e \<Rightarrow> io_kind e \<noteq> NotFound)"
    and "with_extension ''ini.tmp'' p \<noteq> bad_path p"
  shows "fst (load_from F fault rename_ok p s) = default_settings F \<and>
    (if rename_ok
     then fs_read (snd (load_from F fault rename_ok p s)) (bad_path p) = Some old \<and>
       fs_read (fs_run (snd (load_from F fault rename_ok p s)) (save_to F st p)) (bad_path p) = Some old
     else snd (load_from F fault rename_ok p s) = s \<and>
       fs_read (fs_run s (save_to F st p)) p = Some (utf8_bytes F (settings_text F st)) \<and>
       fs_read (fs_run s (save_to F st p)) (bad_path p) = fs_read s (bad_path p))"
proof -
  have load: "load_from F fault rename_ok p s = (default_settings F, set_aside rename_ok p s)"
    using assms(1,2) by (auto simp: load_from_def read_capped_def Let_def split: option.splits)
  note neq = bad_path_neq [of p] with_extension_neq [of "''ini.tmp''" p] assms(3)
  show ?thesis
  proof (cases rename_ok)
    case True
    moreover have "fs_read (set_aside True p s) (bad_path p) = Some old"
      "fs_read (fs_run (set_aside True p s) (save_to F st p)) (bad_path p) = Some old"
      using assms(1) neq by (auto simp: save_to_def set_aside_def fs_read_def replace_file_complete)
    ultimately show ?thesis using load by simp
  next
    case False
    moreover have "fs_read (fs_run s (save_to F st p)) p = Some (utf8_bytes F (settings_text F st))"
      "fs_read (fs_run s (save_to F st p)) (bad_path p) = fs_read s (bad_path p)"
      using neq by (auto simp: save_to_def fs_read_def replace_file_complete)
    ultimately show ?thesis using load by (simp add: set_aside_def)
  qed
qed

theorem unusable_settings_kept_witness:
  "fs_read (fs_run (snd (load_from sample_files
      (Some \<lparr>io_kind = OtherKind, io_text = ''denied''\<rparr>) True config_path
      [config_path \<mapsto> \<lparr>cached = [7], stable = None\<rparr>]))
    (save_to sample_files sample_settings config_path)) (bad_path config_path) = Some [7]"
  using unusable_settings_kept [of "[config_path \<mapsto> \<lparr>cached = [7], stable = None\<rparr>]" config_path
      "[7]" "Some \<lparr>io_kind = OtherKind, io_text = ''denied''\<rparr>" sample_files True sample_settings]
  by (simp add: fs_read_def config_path_def bad_path_def with_extension_def file_stem_def
      rsplit_once_def)

end
