(* ===== verification/Classify.thy ===== *)
theory Classify
  imports Rust_Text
begin

text \<open>
  Process classification (crates/tm-core/src/classify.rs): the three groups Apps,
  Background and System, decided from the pid, the image name, window ownership, the
  kernel's criticality flag and the ownership evidence.
\<close>

datatype proc_category = App | Background | System

definition KERNEL_NAMES :: "string list" where
  "KERNEL_NAMES = [''system'', ''registry'', ''memory compression'', ''secure system'',
     ''system idle process'', ''[system process]'']"

definition WINDOWS_CORE_IMAGES :: "string list" where
  "WINDOWS_CORE_IMAGES = [''smss.exe'', ''csrss.exe'', ''wininit.exe'', ''services.exe'',
     ''lsass.exe'', ''lsaiso.exe'', ''svchost.exe'', ''winlogon.exe'', ''dwm.exe'', ''conhost.exe'']"

definition SYSTEM_UNIX :: "string list" where
  "SYSTEM_UNIX = [''kthreadd'', ''ksoftirqd'', ''kworker'', ''rcu_'', ''migration'', ''systemd'',
     ''systemd-journal'', ''systemd-udevd'', ''systemd-logind'', ''dbus-daemon'', ''dbus-broker'',
     ''launchd'', ''loginwindow'', ''windowserver'', ''kernel_task'']"

definition normalize :: "string \<Rightarrow> string" where
  "normalize name = to_ascii_lowercase (dropWhile (\<lambda>c. c = CHR ''/'') name)"

definition is_kernel_name :: "string \<Rightarrow> bool" where
  "is_kernel_name name_lower = (name_lower \<in> set KERNEL_NAMES)"

definition matches_core :: "string \<Rightarrow> bool" where
  "matches_core name_lower =
     (if is_kernel_name name_lower \<or> name_lower \<in> set WINDOWS_CORE_IMAGES then True
      else if starts_with name_lower ''['' then True
      else list_ex (\<lambda>n. starts_with name_lower n \<or> name_lower = n) SYSTEM_UNIX)"

definition is_core_os_image :: "string \<Rightarrow> bool" where
  "is_core_os_image name = matches_core (normalize name)"

record classify_input =
  ci_pid :: u32
  ci_name :: string
  ci_has_window :: bool
  ci_critical :: "bool option"
  ci_windows_owned :: "bool option"

definition classify :: "classify_input \<Rightarrow> proc_category" where
  "classify i =
     (let name = normalize (ci_name i) in
      if ci_pid i \<le> 4 \<or> is_kernel_name name then System
      else if ci_critical i = Some True then System
      else if matches_core name \<and> unwrap_or (ci_windows_owned i) True then System
      else if ci_has_window i then App
      else Background)"

section \<open>What decides each group\<close>

text \<open>The evidence that makes a process a Windows process, spelled out.\<close>

definition system_evidence :: "classify_input \<Rightarrow> bool" where
  "system_evidence i \<longleftrightarrow>
     ci_pid i \<le> 4 \<or> is_kernel_name (normalize (ci_name i)) \<or> ci_critical i = Some True \<or>
     is_core_os_image (ci_name i) \<and> ci_windows_owned i \<noteq> Some False"

lemma unwrap_or_True_iff: "unwrap_or x True \<longleftrightarrow> x \<noteq> Some False"
  by (cases x) auto

lemma classify_cases:
  "classify i = System \<longleftrightarrow> system_evidence i"
  "classify i = App \<longleftrightarrow> \<not> system_evidence i \<and> ci_has_window i"
  "classify i = Background \<longleftrightarrow> \<not> system_evidence i \<and> \<not> ci_has_window i"
  by (auto simp: classify_def system_evidence_def is_core_os_image_def Let_def unwrap_or_True_iff)

lemma normalize_variants:
  "normalize (CHR ''/'' # n) = normalize n" "normalize (to_ascii_lowercase n) = normalize n"
proof -
  have slash: "ascii_lower c = CHR ''/'' \<longleftrightarrow> c = CHR ''/''" for c
  proof
    assume "ascii_lower c = CHR ''/''"
    then have "code (ascii_lower c) = 47" by (simp add: code_def)
    moreover have "code (ascii_lower c) = (if 65 \<le> code c \<and> code c \<le> 90 then code c + 32 else code c)"
      by (simp add: ascii_lower_def code_char_of)
    ultimately have "code c = 47" by (simp split: if_splits)
    then have "code c = code (CHR ''/'')" by (simp add: code_def)
    then show "c = CHR ''/''" by (simp only: code_inject)
  qed (simp add: ascii_lower_def code_def)
  have "to_ascii_lowercase (dropWhile (\<lambda>c. c = CHR ''/'') (to_ascii_lowercase n)) =
      to_ascii_lowercase (dropWhile (\<lambda>c. c = CHR ''/'') n)"
    by (induction n) (simp_all add: to_ascii_lowercase_def slash comp_def)
  then show "normalize (to_ascii_lowercase n) = normalize n" by (simp add: normalize_def)
qed (simp add: normalize_def)

text \<open>
  An image name is no evidence against the signature of the file. A process whose executable
  is known not to be Windows-owned is a Windows process only by its pid, by a kernel
  pseudo-process name or by the critical flag, whatever core image it is named after; otherwise
  its group is decided by its window.
\<close>

theorem spoofed_image_is_no_system_process:
  "classify (i\<lparr>ci_windows_owned := Some False\<rparr>) =
     (if ci_pid i \<le> 4 \<or> is_kernel_name (normalize (ci_name i)) \<or> ci_critical i = Some True then System
      else if ci_has_window i then App else Background)"
  by (simp add: classify_def Let_def)

text \<open>
  Missing evidence is neutral. A critical flag that could not be read counts as not
  critical, unreadable ownership as Windows-owned; neither the case of the name nor leading
  slashes matter.
\<close>

theorem classify_unknown_evidence:
  "classify (i\<lparr>ci_critical := None\<rparr>) = classify (i\<lparr>ci_critical := Some False\<rparr>) \<and>
   classify (i\<lparr>ci_windows_owned := None\<rparr>) = classify (i\<lparr>ci_windows_owned := Some True\<rparr>) \<and>
   classify (i\<lparr>ci_name := CHR ''/'' # n\<rparr>) = classify (i\<lparr>ci_name := n\<rparr>) \<and>
   classify (i\<lparr>ci_name := to_ascii_lowercase n\<rparr>) = classify (i\<lparr>ci_name := n\<rparr>)"
  by (simp add: classify_def Let_def normalize_variants)

end
