(* ===== verification/Writers.thy ===== *)
theory Writers
  imports Prelude "HOL-Library.Sublist"
begin

text \<open>
  The two background writer threads: the settings writer (crates/tm-core/src/settings.rs) and
  the app-history writer (crates/tm-core/src/app_history.rs). Each owns its file and keeps at
  most one pending snapshot. \<open>written\<close> is the sequence of snapshots a loop hands to the
  atomic file replacement. An iteration waits without a limit while nothing is pending and for
  the coalescing window otherwise; its input is what the wait returned.
\<close>

section \<open>The settings writer\<close>

datatype 's write_msg =
    Write 's
  | Force 's
  | Flush
  | WShutdown

datatype 'm wait_result = Message 'm | WindowElapsed | ChannelGone

record 's settings_writer =
  sw_pending :: "'s option"
  sw_written :: "'s list"
  sw_running :: bool
  sw_replies :: nat

definition sw_start :: "'s settings_writer" where
  "sw_start = \<lparr>sw_pending = None, sw_written = [], sw_running = True, sw_replies = 0\<rparr>"

definition sw_drain :: "'s settings_writer \<Rightarrow> 's settings_writer" where
  "sw_drain w =
     (case sw_pending w of
        None \<Rightarrow> w
      | Some s \<Rightarrow> w\<lparr>sw_pending := None, sw_written := sw_written w @ [s]\<rparr>)"

text \<open>A window can only elapse while something is pending: without one the loop waits in
  \<open>recv\<close>.\<close>

fun sw_step :: "'s settings_writer \<Rightarrow> 's write_msg wait_result \<Rightarrow> 's settings_writer" where
  "sw_step w (Message (Write s)) = w\<lparr>sw_pending := Some s\<rparr>"
| "sw_step w (Message (Force s)) = w\<lparr>sw_pending := Some s\<rparr>"
| "sw_step w (Message Flush) = (sw_drain w)\<lparr>sw_replies := Suc (sw_replies w)\<rparr>"
| "sw_step w (Message WShutdown) = (sw_drain w)\<lparr>sw_running := False\<rparr>"
| "sw_step w WindowElapsed = (if sw_pending w = None then w else sw_drain w)"
| "sw_step w ChannelGone = w\<lparr>sw_running := False\<rparr>"

definition sw_iter :: "'s settings_writer \<Rightarrow> 's write_msg wait_result \<Rightarrow> 's settings_writer" where
  "sw_iter w r = (if sw_running w then sw_step w r else w)"

section \<open>The history writer\<close>

datatype 'f write_cmd =
    Save nat 'f
  | HFlush
  | HShutdown

record 'f history_writer =
  hw_pending :: "(nat \<times> 'f) option"
  hw_written :: "(nat \<times> 'f) list"
  hw_running :: bool
  hw_replies :: nat

definition hw_start :: "'f history_writer" where
  "hw_start = \<lparr>hw_pending = None, hw_written = [], hw_running = True, hw_replies = 0\<rparr>"

definition hw_drain :: "'f history_writer \<Rightarrow> 'f history_writer" where
  "hw_drain w =
     (case hw_pending w of
        None \<Rightarrow> w
      | Some gf \<Rightarrow> w\<lparr>hw_pending := None, hw_written := hw_written w @ [gf]\<rparr>)"

text \<open>Leaving the loop, by shutdown or because the channel is gone, flushes what is pending.\<close>

fun hw_step :: "'f history_writer \<Rightarrow> 'f write_cmd wait_result \<Rightarrow> 'f history_writer" where
  "hw_step w (Message (Save g f)) =
     (if is_none_or (hw_pending w) (\<lambda>p. fst p < g) then w\<lparr>hw_pending := Some (g, f)\<rparr> else w)"
| "hw_step w (Message HFlush) = (hw_drain w)\<lparr>hw_replies := Suc (hw_replies w)\<rparr>"
| "hw_step w (Message HShutdown) = (hw_drain w)\<lparr>hw_running := False\<rparr>"
| "hw_step w WindowElapsed = (if hw_pending w = None then w else hw_drain w)"
| "hw_step w ChannelGone = (hw_drain w)\<lparr>hw_running := False\<rparr>"

definition hw_iter :: "'f history_writer \<Rightarrow> 'f write_cmd wait_result \<Rightarrow> 'f history_writer" where
  "hw_iter w r = (if hw_running w then hw_step w r else w)"

section \<open>The contract of a coalescing writer\<close>

text \<open>
  \<open>payload\<close> is the snapshot a message queues; \<open>drains\<close> holds of the messages after which
  nothing is pending and \<open>ends\<close> of those that leave the loop. A snapshot replaces the pending
  one it is allowed to follow.
\<close>

locale coalescing_writer =
  fixes step :: "'w \<Rightarrow> 'm \<Rightarrow> 'w"
    and payload :: "'m \<Rightarrow> 's option"
    and drains :: "'m \<Rightarrow> bool"
    and ends :: "'m \<Rightarrow> bool"
    and follows :: "'s \<Rightarrow> 's \<Rightarrow> bool"
    and pending :: "'w \<Rightarrow> 's option"
    and written :: "'w \<Rightarrow> 's list"
    and alive :: "'w \<Rightarrow> bool"
  assumes queue: "alive w \<Longrightarrow> payload m = Some s \<Longrightarrow>
      (\<And>p. pending w = Some p \<Longrightarrow> follows p s) \<Longrightarrow>
      pending (step w m) = Some s \<and> written (step w m) = written w \<and> alive (step w m)"
    and drain: "alive w \<Longrightarrow> payload m = None \<Longrightarrow> drains m \<Longrightarrow>
      pending (step w m) = None \<and>
      written (step w m) = written w @ (case pending w of None \<Rightarrow> [] | Some p \<Rightarrow> [p])"
    and keep: "alive w \<Longrightarrow> payload m = None \<Longrightarrow> \<not> ends m \<Longrightarrow>
      alive (step w m) \<and>
      (pending (step w m) = pending w \<and> written (step w m) = written w \<or>
       pending (step w m) = None \<and>
       written (step w m) = written w @ (case pending w of None \<Rightarrow> [] | Some p \<Rightarrow> [p]))"
begin

definition run :: "'w \<Rightarrow> 'm list \<Rightarrow> 'w" where
  "run = foldl step"

fun queued :: "'m list \<Rightarrow> 's list" where
  "queued [] = []"
| "queued (m # ms) = (case payload m of None \<Rightarrow> queued ms | Some s \<Rightarrow> s # queued ms)"

text \<open>Everything handed over so far: what is written, then what is pending.\<close>

definition backlog :: "'w \<Rightarrow> 's list" where
  "backlog w = (case pending w of None \<Rightarrow> [] | Some p \<Rightarrow> [p])"

text \<open>
  Coalescing may skip snapshots, but never reorders them and never loses the newest one: over
  messages in an allowed order the snapshots written and pending are a subsequence of the
  ones handed over that ends with the last.
\<close>

lemma run_backlog:
  assumes "alive w"
    and "list_all (\<lambda>m. payload m = None \<longrightarrow> \<not> ends m) ms"
    and "sorted_wrt follows (backlog w @ queued ms)"
  shows "alive (run w ms) \<and>
    (\<exists>xs. written (run w ms) @ backlog (run w ms) = written w @ xs \<and>
      subseq xs (backlog w @ queued ms) \<and>
      last_opt xs = last_opt (backlog w @ queued ms))"
  using assms
proof (induction ms arbitrary: w)
  case Nil
  then show ?case by (auto simp: run_def)
next
  case (Cons m ms)
  show ?case
  proof (cases "payload m")
    case (Some s)
    have less: "follows p s" if "pending w = Some p" for p
      using Cons.prems(3) that Some by (simp add: backlog_def)
    note q = queue [OF Cons.prems(1) Some less]
    then have b: "backlog (step w m) = [s]" and wr: "written (step w m) = written w"
      by (auto simp: backlog_def)
    have "sorted_wrt follows (backlog (step w m) @ queued ms)"
      using Cons.prems(3) Some b by (simp add: sorted_wrt_append)
    with Cons.IH [of "step w m"] Cons.prems q b wr obtain xs where
      *: "alive (run (step w m) ms)"
      "written (run (step w m) ms) @ backlog (run (step w m) ms) = written w @ xs"
      "subseq xs (s # queued ms)" "last_opt xs = last_opt (s # queued ms)"
      by auto
    have "subseq xs (backlog w @ s # queued ms)"
      using *(3) by (simp add: subseq_append' list_emb_append2)
    with * Some show ?thesis
      by (auto simp: run_def last_opt_def)
  next
    case None
    with Cons.prems have nd: "\<not> ends m" by simp
    from keep [OF Cons.prems(1) None nd] consider
      (same) "alive (step w m)" "pending (step w m) = pending w" "written (step w m) = written w"
      | (out) "alive (step w m)" "pending (step w m) = None"
          "written (step w m) = written w @ backlog w"
      by (auto simp: backlog_def)
    then show ?thesis
    proof cases
      case same
      then have "backlog (step w m) = backlog w" by (simp add: backlog_def)
      with Cons.IH [of "step w m"] Cons.prems None same show ?thesis
        by (auto simp: run_def)
    next
      case out
      then have b: "backlog (step w m) = []" by (simp add: backlog_def)
      have "sorted_wrt follows (queued ms)"
        using Cons.prems(3) None by (simp add: sorted_wrt_append)
      with Cons.IH [of "step w m"] Cons.prems out b obtain xs where
        *: "alive (run (step w m) ms)"
        "written (run (step w m) ms) @ backlog (run (step w m) ms) = (written w @ backlog w) @ xs"
        "subseq xs (queued ms)" "last_opt xs = last_opt (queued ms)"
        by auto
      have "subseq (backlog w @ xs) (backlog w @ queued ms)"
        using *(3) by (simp add: subseq_append')
      moreover have "last_opt (backlog w @ xs) = last_opt (backlog w @ queued ms)"
        using *(4) by (auto simp: last_opt_def split: if_splits)
      ultimately show ?thesis
        using * None by (auto simp: run_def intro!: exI [of _ "backlog w @ xs"])
    qed
  qed
qed

lemma drained_run:
  assumes "alive w" "pending w = None" "written w = []"
    and "list_all (\<lambda>m. payload m = None \<longrightarrow> \<not> ends m) ms"
    and "sorted_wrt follows (queued ms)"
    and "payload d = None" "drains d"
  shows "subseq (written (run w (ms @ [d]))) (queued ms) \<and>
    last_opt (written (run w (ms @ [d]))) = last_opt (queued ms) \<and>
    pending (run w (ms @ [d])) = None"
proof -
  have b: "backlog w = []" using assms(2) by (simp add: backlog_def)
  from run_backlog [OF assms(1) assms(4)] assms(3,5) b obtain xs where
    *: "alive (run w ms)" "written (run w ms) @ backlog (run w ms) = xs"
    "subseq xs (queued ms)" "last_opt xs = last_opt (queued ms)"
    by auto
  have "run w (ms @ [d]) = step (run w ms) d" by (simp add: run_def)
  with drain [OF *(1) assms(6,7)] * show ?thesis
    by (simp add: backlog_def)
qed

end

section \<open>Both writers satisfy it\<close>

fun sw_payload :: "'s write_msg wait_result \<Rightarrow> 's option" where
  "sw_payload (Message (Write s)) = Some s"
| "sw_payload (Message (Force s)) = Some s"
| "sw_payload _ = None"

text \<open>A hang-up does not drain the settings writer; its owner sends a shutdown first.\<close>

fun sw_drains :: "'s write_msg wait_result \<Rightarrow> bool" where
  "sw_drains (Message Flush) = True"
| "sw_drains (Message WShutdown) = True"
| "sw_drains _ = False"

fun sw_ends :: "'s write_msg wait_result \<Rightarrow> bool" where
  "sw_ends (Message WShutdown) = True"
| "sw_ends ChannelGone = True"
| "sw_ends _ = False"

fun hw_payload :: "'f write_cmd wait_result \<Rightarrow> (nat \<times> 'f) option" where
  "hw_payload (Message (Save g f)) = Some (g, f)"
| "hw_payload _ = None"

fun hw_drains :: "'f write_cmd wait_result \<Rightarrow> bool" where
  "hw_drains (Message HFlush) = True"
| "hw_drains (Message HShutdown) = True"
| "hw_drains ChannelGone = True"
| "hw_drains _ = False"

fun hw_ends :: "'f write_cmd wait_result \<Rightarrow> bool" where
  "hw_ends (Message HShutdown) = True"
| "hw_ends ChannelGone = True"
| "hw_ends _ = False"

definition newer :: "nat \<times> 'f \<Rightarrow> nat \<times> 'f \<Rightarrow> bool" where
  "newer a b = (fst a < fst b)"

lemma sw_drain_fields [simp]:
  "sw_pending (sw_drain w) = None"
  "sw_written (sw_drain w) = sw_written w @ (case sw_pending w of None \<Rightarrow> [] | Some p \<Rightarrow> [p])"
  "sw_running (sw_drain w) = sw_running w"
  by (simp_all add: sw_drain_def split: option.splits)

lemma hw_drain_fields [simp]:
  "hw_pending (hw_drain w) = None"
  "hw_written (hw_drain w) = hw_written w @ (case hw_pending w of None \<Rightarrow> [] | Some p \<Rightarrow> [p])"
  "hw_running (hw_drain w) = hw_running w"
  by (simp_all add: hw_drain_def split: option.splits)

lemma sw_payload_Some: "sw_payload m = Some s \<longleftrightarrow> m = Message (Write s) \<or> m = Message (Force s)"
  by (cases m rule: sw_payload.cases) auto

lemma hw_payload_Some: "hw_payload m = Some gf \<longleftrightarrow> m = Message (Save (fst gf) (snd gf))"
  by (cases m rule: hw_payload.cases) auto

interpretation sw: coalescing_writer sw_iter sw_payload sw_drains sw_ends "\<lambda>_ _. True"
  sw_pending sw_written sw_running
proof unfold_locales
  fix w :: "'s settings_writer" and m s
  show "sw_running w \<Longrightarrow> sw_payload m = Some s \<Longrightarrow> (\<And>p. sw_pending w = Some p \<Longrightarrow> True) \<Longrightarrow>
      sw_pending (sw_iter w m) = Some s \<and> sw_written (sw_iter w m) = sw_written w \<and>
      sw_running (sw_iter w m)"
    by (auto simp: sw_payload_Some sw_iter_def)
next
  fix w :: "'s settings_writer" and m
  show "sw_running w \<Longrightarrow> sw_payload m = None \<Longrightarrow> sw_drains m \<Longrightarrow>
      sw_pending (sw_iter w m) = None \<and>
      sw_written (sw_iter w m) = sw_written w @ (case sw_pending w of None \<Rightarrow> [] | Some p \<Rightarrow> [p])"
    by (cases m rule: sw_drains.cases) (simp_all add: sw_iter_def)
next
  fix w :: "'s settings_writer" and m
  show "sw_running w \<Longrightarrow> sw_payload m = None \<Longrightarrow> \<not> sw_ends m \<Longrightarrow>
      sw_running (sw_iter w m) \<and>
      (sw_pending (sw_iter w m) = sw_pending w \<and> sw_written (sw_iter w m) = sw_written w \<or>
       sw_pending (sw_iter w m) = None \<and>
       sw_written (sw_iter w m) = sw_written w @ (case sw_pending w of None \<Rightarrow> [] | Some p \<Rightarrow> [p]))"
    by (cases "(w, m)" rule: sw_step.cases) (simp_all add: sw_iter_def)
qed

interpretation hw: coalescing_writer hw_iter hw_payload hw_drains hw_ends newer
  hw_pending hw_written hw_running
proof unfold_locales
  fix w :: "'f history_writer" and m s
  show "hw_running w \<Longrightarrow> hw_payload m = Some s \<Longrightarrow> (\<And>p. hw_pending w = Some p \<Longrightarrow> newer p s) \<Longrightarrow>
      hw_pending (hw_iter w m) = Some s \<and> hw_written (hw_iter w m) = hw_written w \<and>
      hw_running (hw_iter w m)"
    by (cases "hw_pending w") (auto simp: hw_payload_Some hw_iter_def newer_def)
next
  fix w :: "'f history_writer" and m
  show "hw_running w \<Longrightarrow> hw_payload m = None \<Longrightarrow> hw_drains m \<Longrightarrow>
      hw_pending (hw_iter w m) = None \<and>
      hw_written (hw_iter w m) = hw_written w @ (case hw_pending w of None \<Rightarrow> [] | Some p \<Rightarrow> [p])"
    by (cases m rule: hw_drains.cases) (simp_all add: hw_iter_def)
next
  fix w :: "'f history_writer" and m
  show "hw_running w \<Longrightarrow> hw_payload m = None \<Longrightarrow> \<not> hw_ends m \<Longrightarrow>
      hw_running (hw_iter w m) \<and>
      (hw_pending (hw_iter w m) = hw_pending w \<and> hw_written (hw_iter w m) = hw_written w \<or>
       hw_pending (hw_iter w m) = None \<and>
       hw_written (hw_iter w m) = hw_written w @ (case hw_pending w of None \<Rightarrow> [] | Some p \<Rightarrow> [p]))"
    by (cases "(w, m)" rule: hw_step.cases) (simp_all add: hw_iter_def)
qed

definition sw_run :: "'s settings_writer \<Rightarrow> 's write_msg wait_result list \<Rightarrow> 's settings_writer" where
  "sw_run = foldl sw_iter"

definition hw_run :: "'f history_writer \<Rightarrow> 'f write_cmd wait_result list \<Rightarrow> 'f history_writer" where
  "hw_run = foldl hw_iter"

text \<open>The snapshots handed over in a list of inputs.\<close>

definition sw_queued :: "'s write_msg wait_result list \<Rightarrow> 's list" where
  "sw_queued ms = List.map_filter sw_payload ms"

definition hw_queued :: "'f write_cmd wait_result list \<Rightarrow> (nat \<times> 'f) list" where
  "hw_queued ms = List.map_filter hw_payload ms"

lemma sw_run_eq: "sw_run = sw.run"
  by (simp add: fun_eq_iff sw_run_def sw.run_def)

lemma hw_run_eq: "hw_run = hw.run"
  by (simp add: fun_eq_iff hw_run_def hw.run_def)

lemma sw_queued_eq: "sw_queued ms = sw.queued ms"
  by (induction ms) (auto simp: sw_queued_def map_filter_simps split: option.splits)

lemma hw_queued_eq: "hw_queued ms = hw.queued ms"
  by (induction ms) (auto simp: hw_queued_def map_filter_simps split: option.splits)

text \<open>
  The settings writer may skip snapshots of a burst but never reorders them and never
  loses the last one: after any traffic followed by a flush or a shutdown, what was written is
  a subsequence of the snapshots queued, ends with the newest of them, and nothing is left
  pending.
\<close>

theorem settings_writer_coalesces:
  assumes "list_all (\<lambda>m. \<not> sw_ends m) ms" and "sw_drains d"
  shows "subseq (sw_written (sw_run sw_start (ms @ [d]))) (sw_queued ms) \<and>
    last_opt (sw_written (sw_run sw_start (ms @ [d]))) = last_opt (sw_queued ms) \<and>
    sw_pending (sw_run sw_start (ms @ [d])) = None"
  unfolding sw_run_eq sw_queued_eq
proof (rule sw.drained_run)
  show "list_all (\<lambda>m. sw_payload m = None \<longrightarrow> \<not> sw_ends m) ms"
    using assms(1) by (auto simp: list_all_iff)
  show "sorted_wrt (\<lambda>_ _. True) (sw.queued ms)" by (simp add: sorted_wrt_iff_nth_less)
  show "sw_payload d = None" using assms(2) by (cases d rule: sw_drains.cases) auto
qed (use assms in \<open>auto simp: sw_start_def\<close>)

theorem settings_writer_coalesces_witness:
  "sw_written (sw_run sw_start
      ([Message (Write (1 :: nat)), Message (Write 2), WindowElapsed, Message (Force 3)]
         @ [Message WShutdown])) = [2, 3] \<and>
   last_opt [2, 3 :: nat] = last_opt (sw_queued [Message (Write (1 :: nat)), Message (Write 2),
      WindowElapsed, Message (Force 3)])"
  using settings_writer_coalesces [of "[Message (Write (1 :: nat)), Message (Write 2),
      WindowElapsed, Message (Force 3)]" "Message WShutdown"]
  by (simp add: sw_run_def sw_iter_def sw_start_def sw_drain_def)

lemma history_writer_drained:
  assumes "list_all (\<lambda>m. \<not> hw_ends m) ms" and "sorted_wrt (<) (map fst (hw_queued ms))"
    and "hw_drains d"
  shows "subseq (hw_written (hw_run hw_start (ms @ [d]))) (hw_queued ms) \<and>
    last_opt (hw_written (hw_run hw_start (ms @ [d]))) = last_opt (hw_queued ms) \<and>
    hw_pending (hw_run hw_start (ms @ [d])) = None"
  unfolding hw_run_eq hw_queued_eq
proof (rule hw.drained_run)
  show "list_all (\<lambda>m. hw_payload m = None \<longrightarrow> \<not> hw_ends m) ms"
    using assms(1) by (auto simp: list_all_iff)
  show "sorted_wrt newer (hw.queued ms)"
    using assms(2) by (simp add: hw_queued_eq newer_def [abs_def] sorted_wrt_map)
  show "hw_payload d = None" using assms(3) by (cases d rule: hw_drains.cases) auto
qed (use assms in \<open>auto simp: hw_start_def\<close>)

text \<open>
  The same for the app-history writer, when the generations of the saves increase, as
  the database hands them out: an older save never follows a newer one, and leaving the loop
  in any way writes what is pending.
\<close>

theorem history_writer_coalesces:
  assumes "list_all (\<lambda>m. \<not> hw_ends m) ms" and "sorted_wrt (<) (map fst (hw_queued ms))"
    and "hw_drains d"
  shows "subseq (hw_written (hw_run hw_start (ms @ [d]))) (hw_queued ms) \<and>
    last_opt (hw_written (hw_run hw_start (ms @ [d]))) = last_opt (hw_queued ms) \<and>
    hw_pending (hw_run hw_start (ms @ [d])) = None"
  using assms by (rule history_writer_drained)

theorem history_writer_coalesces_witness:
  "hw_written (hw_run hw_start ([Message (Save 1 True), Message (Save 2 False)] @ [ChannelGone]))
     = [(2, False)] \<and>
   last_opt [(2, False)] = last_opt (hw_queued [Message (Save 1 True), Message (Save 2 False)])"
  using history_writer_coalesces [of "[Message (Save 1 True), Message (Save 2 False)]" ChannelGone]
  by (simp add: hw_run_def hw_iter_def hw_start_def hw_drain_def hw_queued_def map_filter_simps)

end
