(* ===== verification/App_History.thy ===== *)
theory App_History
  imports Complex_Main Classify Ordered_Map Persist Writers
begin

text \<open>
  The per-application usage history (crates/tm-core/src/app_history.rs): which processes count,
  how a snapshot is folded into the totals, the deferred load of the saved file and the saves
  handed to the writer thread of Writers. Times are milliseconds and epochs integers given by
  the caller; CPU seconds and rates are rational numbers (no \<open>f64\<close> rounding); totals are
  64-bit words whose unchecked additions wrap.
\<close>

section \<open>Data\<close>

record app_usage =
  au_cpu_seconds :: rat
  au_network_bytes :: u64
  au_network_available :: bool

definition default_usage :: app_usage where
  "default_usage = \<lparr>au_cpu_seconds = 0, au_network_bytes = 0, au_network_available = False\<rparr>"

text \<open>What the history reads of a process; paths are their lossy texts.\<close>

record hist_process =
  hp_pid :: u32
  hp_name :: string
  hp_display :: string
  hp_exe_path :: "string option"
  hp_category :: proc_category
  hp_start_epoch_s :: "int option"
  hp_cpu_time_s :: "rat option"
  hp_cpu_pct :: rat
  hp_net_recv_total :: "u64 option"
  hp_net_sent_total :: "u64 option"
  hp_net_recv_bps :: "rat option"
  hp_net_sent_bps :: "rat option"

record hist_snapshot =
  hs_logical_count :: nat
  hs_processes :: "hist_process list"

definition shown_name :: "hist_process \<Rightarrow> string" where
  "shown_name p = (if hp_display p = [] then hp_name p else hp_display p)"

definition entry_key :: "hist_process \<Rightarrow> string" where
  "entry_key p =
     (case hp_exe_path p of
        Some path \<Rightarrow>
          (let norm = to_ascii_lowercase path in
           if norm \<noteq> [] then norm else to_ascii_lowercase (hp_name p))
      | None \<Rightarrow> to_ascii_lowercase (hp_name p))"

definition history_eligible :: "proc_category \<Rightarrow> bool \<Rightarrow> bool" where
  "history_eligible category windows \<longleftrightarrow>
     category = App \<or> \<not> windows \<and> category = Background"

record db_file =
  df_since_epoch_s :: int
  df_entries :: "(string, app_usage) btree"
  df_names :: "(string, string) btree"
  df_icon_paths :: "(string, string) btree"

record prev_tick =
  pt_start_epoch_s :: "int option"
  pt_app_identity :: string
  pt_cpu_time_s :: "rat option"
  pt_net_total_bytes :: "u64 option"

text \<open>The database. \<open>db_sent\<close> is what was sent to the writer thread, \<open>None\<close> without one;
  \<open>db_load_rx\<close> tells whether the channel of the deferred load is still held.\<close>

record app_history =
  db_path :: "path option"
  db_since_epoch_s :: int
  db_entries :: "(string, app_usage) btree"
  db_names :: "(string, string) btree"
  db_icon_paths :: "(string, string) btree"
  db_prev :: "(u32, prev_tick) btree"
  db_loading :: bool
  db_observing :: bool
  db_generation :: nat
  db_sent :: "db_file write_cmd list option"
  db_load_rx :: bool
  db_save_after_load :: bool

definition history_in_memory :: "int \<Rightarrow> app_history" where
  "history_in_memory now =
     \<lparr>db_path = None, db_since_epoch_s = now, db_entries = [], db_names = [], db_icon_paths = [],
      db_prev = [], db_loading = False, db_observing = False, db_generation = 0, db_sent = None,
      db_load_rx = False, db_save_after_load = False\<rparr>"

text \<open>Starting the writer thread can fail; then saves go nowhere.\<close>

definition attach_writer :: "bool \<Rightarrow> app_history \<Rightarrow> app_history" where
  "attach_writer spawned db =
     (case db_path db of None \<Rightarrow> db
      | Some _ \<Rightarrow> db\<lparr>db_sent := (if spawned then Some [] else None)\<rparr>)"

section \<open>Saving\<close>

definition snapshot_file :: "app_history \<Rightarrow> db_file" where
  "snapshot_file db =
     \<lparr>df_since_epoch_s = db_since_epoch_s db, df_entries = db_entries db, df_names = db_names db,
      df_icon_paths = db_icon_paths db\<rparr>"

definition writer_send :: "db_file write_cmd \<Rightarrow> app_history \<Rightarrow> app_history" where
  "writer_send m db = db\<lparr>db_sent := map_option (\<lambda>ms. ms @ [m]) (db_sent db)\<rparr>"

definition enqueue_save :: "app_history \<Rightarrow> app_history" where
  "enqueue_save db =
     (if db_loading db then db\<lparr>db_save_after_load := True\<rparr>
      else
        (let db = db\<lparr>db_generation := db_generation db + 1\<rparr>
         in writer_send (Save (db_generation db) (snapshot_file db)) db))"

definition save_async :: "app_history \<Rightarrow> app_history" where
  "save_async db = enqueue_save db"

definition history_save :: "app_history \<Rightarrow> app_history" where
  "history_save db =
     (let db = enqueue_save db in if db_loading db then db else writer_send HFlush db)"

text \<open>\<open>Drop\<close> of the writer handle.\<close>

definition writer_drop :: "app_history \<Rightarrow> app_history" where
  "writer_drop db = writer_send HShutdown db"

section \<open>Loading\<close>

definition MAX_DB_BYTES :: nat where
  "MAX_DB_BYTES = 16 * 1024 * 1024"

text \<open>Opening can fail with an error, reading too; UTF-8 decoding is a function of the library.
  The file is set aside when it is there but of no use.\<close>

definition read_db_text ::
    "(bytes \<Rightarrow> string option) \<Rightarrow> io_error option \<Rightarrow> bool \<Rightarrow> bool \<Rightarrow> path \<Rightarrow> fs \<Rightarrow> string option \<times> fs" where
  "read_db_text utf8 open_error read_fails rename_ok p s =
     (case fs_read s p of
        None \<Rightarrow> (None, s)
      | Some content \<Rightarrow>
          (case open_error of
             Some e \<Rightarrow> if io_kind e = NotFound then (None, s) else (None, set_aside rename_ok p s)
           | None \<Rightarrow>
               (let bytes = take (MAX_DB_BYTES + 1) content in
                if read_fails \<or> MAX_DB_BYTES < length bytes then (None, set_aside rename_ok p s)
                else case utf8 bytes of
                  None \<Rightarrow> (None, set_aside rename_ok p s)
                | Some txt \<Rightarrow> (Some txt, s))))"

text \<open>The migration of old files: traffic proves availability, an absolute key is its own
  icon path.\<close>

definition migrate_file :: "(string \<Rightarrow> bool) \<Rightarrow> db_file \<Rightarrow> db_file" where
  "migrate_file is_absolute f =
     (let f = f\<lparr>df_entries := map (\<lambda>(k, u).
            (k, u\<lparr>au_network_available := au_network_available u \<or> 0 < au_network_bytes u\<rparr>))
            (df_entries f)\<rparr>
      in f\<lparr>df_icon_paths := foldl (\<lambda>m key. if is_absolute key then bt_or_insert key key m else m)
            (df_icon_paths f) (bt_keys (df_entries f))\<rparr>)"

definition add_usage :: "app_usage \<Rightarrow> app_usage \<Rightarrow> app_usage" where
  "add_usage loaded current =
     \<lparr>au_cpu_seconds = au_cpu_seconds loaded + au_cpu_seconds current,
      au_network_bytes = saturating_add (au_network_bytes loaded) (au_network_bytes current),
      au_network_available = (au_network_available loaded \<or> au_network_available current)\<rparr>"

text \<open>The parsed file, or \<open>None\<close> for a corrupt one, which is set aside.\<close>

definition apply_loaded_file ::
    "(string \<Rightarrow> bool) \<Rightarrow> db_file option \<Rightarrow> bool \<Rightarrow> path \<Rightarrow> app_history \<times> fs \<Rightarrow> app_history \<times> fs" where
  "apply_loaded_file is_absolute parsed rename_ok p ds =
     (let (db, s) = ds in
      case parsed of
        None \<Rightarrow> (db, set_aside rename_ok p s)
      | Some f \<Rightarrow>
          (let f = migrate_file is_absolute f;
               db = db\<lparr>db_since_epoch_s := df_since_epoch_s f\<rparr>;
               f = (if db_observing db
                    then f\<lparr>df_entries := foldl (\<lambda>m (key, current).
                             bt_upsert key default_usage (\<lambda>loaded. add_usage loaded current) m)
                             (df_entries f) (db_entries db),
                           df_names := bt_extend (df_names f) (db_names db),
                           df_icon_paths := bt_extend (df_icon_paths f) (db_icon_paths db)\<rparr>
                    else f)
           in (db\<lparr>db_entries := df_entries f, db_names := df_names f,
                 db_icon_paths := df_icon_paths f\<rparr>, s)))"

definition history_open ::
    "(string \<Rightarrow> bool) \<Rightarrow> (string \<Rightarrow> db_file option) \<Rightarrow> int \<Rightarrow> bool \<Rightarrow> string option \<Rightarrow> bool \<Rightarrow> path \<Rightarrow> fs \<Rightarrow>
     app_history \<times> fs" where
  "history_open is_absolute json now spawned txt rename_ok p s =
     (let db = attach_writer spawned ((history_in_memory now)\<lparr>db_path := Some p\<rparr>) in
      case txt of None \<Rightarrow> (db, s)
      | Some t \<Rightarrow> apply_loaded_file is_absolute (json t) rename_ok p (db, s))"

definition open_deferred :: "int \<Rightarrow> bool \<Rightarrow> bool \<Rightarrow> path \<Rightarrow> app_history" where
  "open_deferred now writer_spawned loader_spawned p =
     (let db = attach_writer writer_spawned
            ((history_in_memory now)\<lparr>db_path := Some p, db_loading := True\<rparr>)
      in if loader_spawned then db\<lparr>db_load_rx := True\<rparr> else db\<lparr>db_loading := False\<rparr>)"

definition finish_load :: "app_history \<Rightarrow> app_history" where
  "finish_load db =
     (let db = db\<lparr>db_loading := False, db_load_rx := False\<rparr> in
      if db_save_after_load db then enqueue_save (db\<lparr>db_save_after_load := False\<rparr>) else db)"

text \<open>What \<open>try_recv\<close> on the channel of the loader returns.\<close>

datatype load_msg = Loaded "string option" | NothingYet | LoaderGone

definition poll_load ::
    "(string \<Rightarrow> bool) \<Rightarrow> (string \<Rightarrow> db_file option) \<Rightarrow> nat \<Rightarrow> load_msg \<Rightarrow> bool \<Rightarrow> app_history \<times> fs \<Rightarrow>
     bool \<times> app_history \<times> fs" where
  "poll_load is_absolute json elapsed_ms msg rename_ok ds =
     (let (db, s) = ds in
      if \<not> db_loading db then (False, db, s)
      else if \<not> db_load_rx db then (True, finish_load db, s)
      else case msg of
        Loaded txt \<Rightarrow>
          (let (db, s) =
             (case (txt, db_path db) of
                (Some t, Some p) \<Rightarrow> apply_loaded_file is_absolute (json t) rename_ok p (db, s)
              | _ \<Rightarrow> (db, s))
           in (True, finish_load db, s))
      | NothingYet \<Rightarrow>
          if 2000 < elapsed_ms
          then (\<not> db_observing db, db\<lparr>db_observing := True\<rparr>, s)
          else (False, db, s)
      | LoaderGone \<Rightarrow> (True, finish_load db, s))"

definition history_clear :: "int \<Rightarrow> app_history \<Rightarrow> app_history" where
  "history_clear now db =
     enqueue_save
       (db\<lparr>db_loading := False, db_load_rx := False, db_save_after_load := False, db_entries := [],
          db_names := [], db_icon_paths := [], db_prev := [], db_since_epoch_s := now\<rparr>)"

section \<open>Observing\<close>

text \<open>\<open>as u64\<close> of a non-negative number: truncated, saturating at the largest value.\<close>

definition rat_as_u64 :: "rat \<Rightarrow> u64" where
  "rat_as_u64 x = (if x < 2 ^ 64 then of_nat (nat \<lfloor>x\<rfloor>) else - 1)"

definition net_total_of :: "hist_process \<Rightarrow> u64 option" where
  "net_total_of p =
     (case (hp_net_recv_total p, hp_net_sent_total p) of
        (Some r, Some s) \<Rightarrow> Some (r + s)
      | _ \<Rightarrow> None)"

definition same_process :: "prev_tick option \<Rightarrow> hist_process \<Rightarrow> bool" where
  "same_process prev p \<longleftrightarrow>
     is_some_and prev (\<lambda>pt. pt_app_identity pt = entry_key p \<and>
       pt_start_epoch_s pt = hp_start_epoch_s p)"

definition cpu_delta :: "nat \<Rightarrow> rat \<Rightarrow> prev_tick option \<Rightarrow> hist_process \<Rightarrow> rat" where
  "cpu_delta logical_count interval_s prev p =
     (if \<not> same_process prev p then 0
      else case (Option.bind prev pt_cpu_time_s, hp_cpu_time_s p) of
        (Some before, Some now) \<Rightarrow> max (now - before) 0
      | _ \<Rightarrow>
          if 0 < hp_cpu_pct p
          then hp_cpu_pct p / 100 * max interval_s 0 * of_nat (max logical_count 1)
          else 0)"

definition net_delta :: "rat \<Rightarrow> prev_tick option \<Rightarrow> hist_process \<Rightarrow> u64" where
  "net_delta interval_s prev p =
     (if \<not> same_process prev p then 0
      else case (Option.bind prev pt_net_total_bytes, net_total_of p) of
        (Some before, Some now) \<Rightarrow> saturating_sub now before
      | _ \<Rightarrow>
          if hp_net_recv_bps p \<noteq> None \<or> hp_net_sent_bps p \<noteq> None
          then rat_as_u64 ((unwrap_or (hp_net_recv_bps p) 0 + unwrap_or (hp_net_sent_bps p) 0)
                 * max interval_s 0)
          else 0)"

definition network_available :: "hist_process \<Rightarrow> bool" where
  "network_available p \<longleftrightarrow>
     net_total_of p \<noteq> None \<or> hp_net_recv_bps p \<noteq> None \<or> hp_net_sent_bps p \<noteq> None"

definition usage_step :: "bool \<Rightarrow> rat \<Rightarrow> u64 \<Rightarrow> app_usage \<Rightarrow> app_usage" where
  "usage_step available d_cpu d_net e =
     (let e = e\<lparr>au_network_available := au_network_available e \<or> available\<rparr> in
      if 1 / 1000000 < d_cpu \<or> 0 < d_net
      then e\<lparr>au_cpu_seconds := au_cpu_seconds e + d_cpu,
             au_network_bytes := au_network_bytes e + d_net\<rparr>
      else e)"

text \<open>One turn of the loop over the processes of a snapshot.\<close>

definition observe_one ::
    "(string \<Rightarrow> bool) \<Rightarrow> bool \<Rightarrow> nat \<Rightarrow> rat \<Rightarrow> (u32, prev_tick) btree \<Rightarrow> hist_process \<Rightarrow>
     app_history \<times> (u32, prev_tick) btree \<Rightarrow> app_history \<times> (u32, prev_tick) btree" where
  "observe_one is_absolute windows logical_count interval_s old_prev p acc =
     (let (db, next_prev) = acc in
      if \<not> history_eligible (hp_category p) windows then acc
      else
        (let key = entry_key p;
             prev = bt_get old_prev (hp_pid p);
             d_cpu = cpu_delta logical_count interval_s prev p;
             d_net = net_delta interval_s prev p;
             db = db\<lparr>db_entries := bt_upsert key default_usage
                       (usage_step (network_available p) d_cpu d_net) (db_entries db),
                     db_names := bt_or_insert key (shown_name p) (db_names db)\<rparr>;
             db = (case hp_exe_path p of
                     Some exe \<Rightarrow> db\<lparr>db_icon_paths := bt_or_insert key exe (db_icon_paths db)\<rparr>
                   | None \<Rightarrow>
                       if is_absolute key
                       then db\<lparr>db_icon_paths := bt_or_insert key key (db_icon_paths db)\<rparr>
                       else db)
         in (db,
             bt_insert (hp_pid p)
               \<lparr>pt_start_epoch_s = hp_start_epoch_s p, pt_app_identity = key,
                pt_cpu_time_s = hp_cpu_time_s p, pt_net_total_bytes = net_total_of p\<rparr>
               next_prev)))"

definition history_observe ::
    "(string \<Rightarrow> bool) \<Rightarrow> bool \<Rightarrow> hist_snapshot \<Rightarrow> rat \<Rightarrow> app_history \<Rightarrow> app_history" where
  "history_observe is_absolute windows snap interval_s db =
     (if db_loading db \<and> \<not> db_observing db then db
      else
        (let (db', next_prev) =
           fold (observe_one is_absolute windows (hs_logical_count snap) interval_s (db_prev db))
             (hs_processes snap) (db, [])
         in db'\<lparr>db_prev := next_prev\<rparr>))"

end
