(* ===== verification/App_History_Props.thy ===== *)
theory App_History_Props
  imports App_History
begin

text \<open>
  Properties of the usage history: saves are never sent before the saved file has been adopted,
  the newest one reaches the disk, a late load is added to what was observed meanwhile, and a
  process is accounted by the growth of its own counters.
\<close>

section \<open>Reachable states of the database\<close>

text \<open>The states a client can bring the database into, over the file system.\<close>

inductive history_reachable ::
    "(string \<Rightarrow> bool) \<Rightarrow> (string \<Rightarrow> db_file option) \<Rightarrow> bool \<Rightarrow> app_history \<times> fs \<Rightarrow> bool"
  for is_absolute json windows where
  opened_deferred: "history_reachable is_absolute json windows
     (open_deferred now writer_spawned loader_spawned p, s)"
| opened_now: "history_reachable is_absolute json windows
     (history_open is_absolute json now writer_spawned doc rename_ok p s)"
| observed: "history_reachable is_absolute json windows (db, s) \<Longrightarrow>
     history_reachable is_absolute json windows
       (history_observe is_absolute windows snap interval_s db, s)"
| polled: "history_reachable is_absolute json windows ds \<Longrightarrow>
     history_reachable is_absolute json windows
       (snd (poll_load is_absolute json elapsed_ms msg rename_ok ds))"
| cleared: "history_reachable is_absolute json windows (db, s) \<Longrightarrow>
     history_reachable is_absolute json windows (history_clear now db, s)"
| saved_async: "history_reachable is_absolute json windows (db, s) \<Longrightarrow>
     history_reachable is_absolute json windows (save_async db, s)"
| saved: "history_reachable is_absolute json windows (db, s) \<Longrightarrow>
     history_reachable is_absolute json windows (history_save db, s)"

definition saves_of :: "'f write_cmd list \<Rightarrow> (nat \<times> 'f) list" where
  "saves_of ms = List.map_filter (\<lambda>m. case m of Save g f \<Rightarrow> Some (g, f) | _ \<Rightarrow> None) ms"

lemma saves_of_simps [simp]:
  "saves_of [] = []" "saves_of (ms @ ns) = saves_of ms @ saves_of ns"
  "saves_of [Save g f] = [(g, f)]" "saves_of [HFlush] = []"
  by (simp_all add: saves_of_def List.map_filter_def)

text \<open>What was sent so far: nothing while loading, generations ascending up to the current one,
  never a shutdown.\<close>

definition sent_inv :: "app_history \<Rightarrow> bool" where
  "sent_inv db \<longleftrightarrow>
     (case db_sent db of
        None \<Rightarrow> True
      | Some ms \<Rightarrow>
          (db_loading db \<longrightarrow> ms = []) \<and> HShutdown \<notin> set ms \<and>
          sorted_wrt (<) (map fst (saves_of ms)) \<and>
          (\<forall>gf\<in>set (saves_of ms). fst gf \<le> db_generation db))"

lemma sent_inv_cong:
  "db_sent db' = db_sent db \<Longrightarrow> db_generation db' = db_generation db \<Longrightarrow>
     (db_loading db' \<Longrightarrow> db_loading db) \<Longrightarrow> sent_inv db \<Longrightarrow> sent_inv db'"
  by (auto simp: sent_inv_def split: option.splits)

lemma sent_inv_save: "sent_inv db \<Longrightarrow> sent_inv (enqueue_save db)"
  by (force simp: sent_inv_def enqueue_save_def writer_send_def Let_def sorted_wrt_append
      split: option.splits)

lemma enqueue_save_loading [simp]: "db_loading (enqueue_save db) = db_loading db"
  by (simp add: enqueue_save_def writer_send_def Let_def)

lemma sent_inv_flush: "sent_inv db \<Longrightarrow> \<not> db_loading db \<Longrightarrow> sent_inv (writer_send HFlush db)"
  by (auto simp: sent_inv_def writer_send_def split: option.splits)

lemma observe_one_sent:
  "db_sent (fst (observe_one is_absolute windows n i pr p acc)) = db_sent (fst acc) \<and>
   db_generation (fst (observe_one is_absolute windows n i pr p acc)) = db_generation (fst acc) \<and>
   db_loading (fst (observe_one is_absolute windows n i pr p acc)) = db_loading (fst acc)"
  by (simp add: observe_one_def Let_def split: prod.split option.split)

lemma observe_sent:
  "db_sent (history_observe is_absolute windows snap i db) = db_sent db"
  "db_generation (history_observe is_absolute windows snap i db) = db_generation db"
  "db_loading (history_observe is_absolute windows snap i db) = db_loading db"
proof -
  have "db_sent (fst (fold (observe_one is_absolute windows n i pr) ps acc)) = db_sent (fst acc) \<and>
      db_generation (fst (fold (observe_one is_absolute windows n i pr) ps acc)) = db_generation (fst acc) \<and>
      db_loading (fst (fold (observe_one is_absolute windows n i pr) ps acc)) = db_loading (fst acc)"
    for n pr ps and acc :: "app_history \<times> (u32, prev_tick) btree"
    by (induction ps arbitrary: acc) (simp_all add: observe_one_sent)
  then show "db_sent (history_observe is_absolute windows snap i db) = db_sent db"
    "db_generation (history_observe is_absolute windows snap i db) = db_generation db"
    "db_loading (history_observe is_absolute windows snap i db) = db_loading db"
    by (simp_all add: history_observe_def split_beta)
qed

lemma apply_loaded_sent:
  "db_sent (fst (apply_loaded_file is_absolute parsed ok p ds)) = db_sent (fst ds)"
  "db_generation (fst (apply_loaded_file is_absolute parsed ok p ds)) = db_generation (fst ds)"
  "db_loading (fst (apply_loaded_file is_absolute parsed ok p ds)) = db_loading (fst ds)"
  by (simp_all add: apply_loaded_file_def Let_def split: prod.split option.split)

lemma finish_load_inv: "sent_inv db \<Longrightarrow> sent_inv (finish_load db)"
proof -
  assume "sent_inv db"
  then have "sent_inv (db\<lparr>db_loading := False, db_load_rx := False\<rparr>)"
    "sent_inv (db\<lparr>db_loading := False, db_load_rx := False, db_save_after_load := False\<rparr>)"
    by (auto intro: sent_inv_cong)
  then show ?thesis by (simp add: finish_load_def Let_def sent_inv_save)
qed

lemma poll_load_inv:
  assumes "sent_inv (fst ds)"
  shows "sent_inv (fst (snd (poll_load is_absolute json elapsed_ms msg ok ds)))"
proof -
  obtain db s where ds: "ds = (db, s)" by (cases ds)
  have "sent_inv (fst (apply_loaded_file is_absolute parsed ok p (db, s)))" for parsed p
    by (rule sent_inv_cong [of _ db]) (use assms ds in \<open>simp_all add: apply_loaded_sent\<close>)
  moreover have "sent_inv (db\<lparr>db_observing := True\<rparr>)"
    using assms ds by (auto intro: sent_inv_cong)
  ultimately show ?thesis
    using assms ds
    by (auto simp: poll_load_def Let_def split_beta finish_load_inv split: load_msg.split option.split)
qed

lemma reachable_sent_inv: "history_reachable is_absolute json windows ds \<Longrightarrow> sent_inv (fst ds)"
proof (induction rule: history_reachable.induct)
  case (opened_deferred now writer_spawned loader_spawned p s)
  then show ?case
    by (simp add: open_deferred_def attach_writer_def sent_inv_def Let_def)
next
  case (opened_now now writer_spawned doc rename_ok p s)
  have "sent_inv (attach_writer writer_spawned ((history_in_memory now)\<lparr>db_path := Some p\<rparr>))"
    by (simp add: attach_writer_def sent_inv_def)
  moreover from this have "sent_inv (fst (apply_loaded_file is_absolute parsed rename_ok p
      (attach_writer writer_spawned ((history_in_memory now)\<lparr>db_path := Some p\<rparr>), s)))" for parsed
    by (rule sent_inv_cong [rotated 3]) (simp_all add: apply_loaded_sent)
  ultimately show ?case
    by (simp add: history_open_def Let_def split: option.split)
next
  case (observed db s snap interval_s)
  then show ?case by (auto intro: sent_inv_cong simp: observe_sent)
next
  case (polled ds elapsed_ms msg rename_ok)
  then show ?case by (simp add: poll_load_inv)
next
  case (cleared db s now)
  show ?case
    unfolding history_clear_def fst_conv
    by (rule sent_inv_save, rule sent_inv_cong [of _ db]) (use cleared in simp_all)
next
  case (saved_async db s)
  then show ?case by (simp add: save_async_def sent_inv_save)
next
  case (saved db s)
  then show ?case by (simp add: history_save_def Let_def sent_inv_save sent_inv_flush)
qed

text \<open>
  C28: nothing is written over the saved history before it has been read. Whatever the client
  does after opening the database in the background (observing, saving, polling, in any order),
  as long as the load is pending no message at all has gone to the writer thread.
\<close>

theorem no_save_before_load:
  assumes "history_reachable is_absolute json windows (db, s)" and "db_loading db"
  shows "db_sent db = None \<or> db_sent db = Some []"
  using reachable_sent_inv [OF assms(1)] assms(2)
  by (simp add: sent_inv_def split: option.splits)

definition history_path :: path where
  "history_path = \<lparr>p_dir = [''taskman''], p_name = ''history.json''\<rparr>"

theorem no_save_before_load_witness:
  "db_sent (save_async (open_deferred 5 True True history_path)) = None \<or>
   db_sent (save_async (open_deferred 5 True True history_path)) = Some []"
proof (rule no_save_before_load)
  show "history_reachable (\<lambda>_. False) (\<lambda>_. None) True
      (save_async (open_deferred 5 True True history_path), \<lambda>_. None)"
    by (rule saved_async) (rule opened_deferred)
  show "db_loading (save_async (open_deferred 5 True True history_path))"
    by (simp add: save_async_def open_deferred_def Let_def attach_writer_def)
qed

section \<open>From the database to the disk\<close>

text \<open>The messages a writer thread receives among the events of its loop.\<close>

definition received :: "'m wait_result list \<Rightarrow> 'm list" where
  "received ins = List.map_filter (\<lambda>i. case i of Message m \<Rightarrow> Some m | _ \<Rightarrow> None) ins"

lemma set_received: "m \<in> set (received ins) \<longleftrightarrow> Message m \<in> set ins"
  by (induction ins) (auto simp: received_def map_filter_simps split: wait_result.splits)

lemma hw_queued_received: "hw_queued ins = saves_of (received ins)"
proof (induction ins)
  case Nil
  then show ?case by (simp add: hw_queued_def received_def map_filter_simps)
next
  case (Cons i ins)
  then show ?case
    by (cases i rule: hw_payload.cases)
       (simp_all add: hw_queued_def received_def saves_of_def map_filter_simps)
qed

text \<open>
  C29: the newest history reaches the disk. Take any database the client brought about and the
  messages it sent; however the writer thread's waits interleave with them (any number of
  elapsed windows between the messages), once the database is dropped the last snapshot the
  thread has handed to the atomic file replacement is the last one queued, the snapshots were
  written in the order they were queued, and none is left over.
\<close>

theorem newest_history_written:
  assumes "history_reachable is_absolute json windows (db, s)" and "db_sent db = Some ms"
    and "received ins = ms" and "ChannelGone \<notin> set ins"
  shows "last_opt (hw_written (hw_run hw_start (ins @ [Message HShutdown]))) = last_opt (saves_of ms) \<and>
    subseq (hw_written (hw_run hw_start (ins @ [Message HShutdown]))) (saves_of ms) \<and>
    hw_pending (hw_run hw_start (ins @ [Message HShutdown])) = None"
proof -
  from reachable_sent_inv [OF assms(1)] assms(2)
  have ms: "HShutdown \<notin> set ms" "sorted_wrt (<) (map fst (saves_of ms))"
    by (simp_all add: sent_inv_def)
  have "\<not> hw_ends i" if "i \<in> set ins" for i
  proof -
    have "i \<noteq> Message HShutdown"
      using ms(1) that assms(3) set_received by metis
    with that assms(4) show ?thesis by (cases i rule: hw_ends.cases) auto
  qed
  then have "list_all (\<lambda>i. \<not> hw_ends i) ins" by (simp add: list_all_iff)
  then show ?thesis
    using history_writer_drained [of ins "Message HShutdown"] ms(2) assms(3)
    by (simp add: hw_queued_received)
qed

theorem newest_history_written_witness:
  "let db = history_save (open_deferred 5 True False history_path) in
   last_opt (hw_written (hw_run hw_start
     ([Message (Save 1 (snapshot_file db)), WindowElapsed, Message HFlush] @ [Message HShutdown]))) =
   Some (1, snapshot_file db)"
proof -
  let ?db0 = "open_deferred 5 True False history_path"
  have "history_reachable (\<lambda>_. False) (\<lambda>_. None) True (history_save ?db0, \<lambda>_. None)"
    by (rule saved) (rule opened_deferred)
  moreover have "db_sent (history_save ?db0) = Some [Save 1 (snapshot_file (history_save ?db0)), HFlush]"
    by (simp add: history_save_def enqueue_save_def writer_send_def open_deferred_def attach_writer_def
        history_in_memory_def snapshot_file_def Let_def)
  ultimately show ?thesis
    using newest_history_written [of "\<lambda>_. False" "\<lambda>_. None" True "history_save ?db0" "\<lambda>_. None"
        "[Save 1 (snapshot_file (history_save ?db0)), HFlush]"
        "[Message (Save 1 (snapshot_file (history_save ?db0))), WindowElapsed, Message HFlush]"]
    by (simp add: received_def map_filter_simps saves_of_def last_opt_def Let_def)
qed

section \<open>Loading late, clearing\<close>

definition merged_usage :: "app_usage option \<Rightarrow> app_usage option \<Rightarrow> app_usage option" where
  "merged_usage loaded current =
     (case current of
        None \<Rightarrow> loaded
      | Some c \<Rightarrow> Some (add_usage (unwrap_or loaded default_usage) c))"

lemma get_foldl_usage:
  "distinct (map fst xs) \<Longrightarrow>
     bt_get (foldl (\<lambda>m (key, current).
         bt_upsert key default_usage (\<lambda>loaded. add_usage loaded current) m) m xs) key =
       merged_usage (bt_get m key) (map_of xs key)"
proof (induction xs arbitrary: m)
  case Nil
  then show ?case by (simp add: merged_usage_def)
next
  case (Cons x xs)
  obtain k v where x: "x = (k, v)" by (cases x)
  have none: "map_of xs k = None" using Cons.prems x by (simp add: map_of_eq_None_iff)
  show ?case
    using Cons.IH [of "bt_upsert k default_usage (\<lambda>loaded. add_usage loaded v) m"] Cons.prems none
    by (cases "key = k") (simp_all add: x bt_get_upsert merged_usage_def)
qed

text \<open>
  A load that comes late loses nothing. If the database has been observing meanwhile, every
  application ends with the sum of the saved and the observed usage (network saturating,
  availability by either), applications known to one side only are kept; if it has not, it ends
  with the saved usage.
\<close>

theorem late_load_adds:
  assumes "bt_wf (db_entries db)"
  shows "bt_get (db_entries (fst (apply_loaded_file is_absolute (Some f) rename_ok p (db, s)))) key =
    (if db_observing db
     then merged_usage (bt_get (df_entries (migrate_file is_absolute f)) key) (bt_get (db_entries db) key)
     else bt_get (df_entries (migrate_file is_absolute f)) key)"
proof -
  have map_of: "map_of m k = bt_get m k" for m :: "(string, app_usage) btree" and k
    by (induction m) auto
  show ?thesis
    using get_foldl_usage [OF bt.distinct_keys [OF assms]]
    by (simp add: apply_loaded_file_def Let_def map_of)
qed

theorem late_load_adds_witness:
  "bt_get (db_entries (fst (apply_loaded_file (\<lambda>_. False)
      (Some \<lparr>df_since_epoch_s = 7, df_entries = [(''a'', \<lparr>au_cpu_seconds = 3, au_network_bytes = 10,
        au_network_available = False\<rparr>)], df_names = [], df_icon_paths = []\<rparr>) True history_path
      ((history_in_memory 9)\<lparr>db_observing := True, db_entries := [(''a'', \<lparr>au_cpu_seconds = 2,
        au_network_bytes = 5, au_network_available = False\<rparr>)]\<rparr>, \<lambda>_. None)))) ''a'' =
   Some \<lparr>au_cpu_seconds = 5, au_network_bytes = 15, au_network_available = True\<rparr>"
  using late_load_adds [of "(history_in_memory 9)\<lparr>db_observing := True, db_entries :=
      [(''a'', \<lparr>au_cpu_seconds = 2, au_network_bytes = 5, au_network_available = False\<rparr>)]\<rparr>"
      "\<lambda>_. False" "\<lparr>df_since_epoch_s = 7, df_entries = [(''a'', \<lparr>au_cpu_seconds = 3, au_network_bytes = 10,
        au_network_available = False\<rparr>)], df_names = [], df_icon_paths = []\<rparr>" True history_path "\<lambda>_. None" "''a''"]
  by (simp add: bt_wf_def bt_keys_def merged_usage_def migrate_file_def Let_def add_usage_def
      saturating_add_def)

text \<open>
  A deliberate wipe outranks a load that is still running: afterwards the database is empty
  and no message of the loader, whenever it comes, changes it any more; the empty history is
  queued for the writer.
\<close>

theorem clear_outranks_load:
  "poll_load is_absolute json elapsed_ms msg rename_ok (history_clear now db, s) =
     (False, history_clear now db, s) \<and>
   db_entries (history_clear now db) = [] \<and> db_names (history_clear now db) = [] \<and>
   db_icon_paths (history_clear now db) = [] \<and>
   db_sent (history_clear now db) = map_option (\<lambda>ms. ms @ [Save (Suc (db_generation db))
     \<lparr>df_since_epoch_s = now, df_entries = [], df_names = [], df_icon_paths = []\<rparr>]) (db_sent db)"
  by (simp add: poll_load_def history_clear_def enqueue_save_def writer_send_def Let_def snapshot_file_def)

section \<open>Accounting\<close>

definition usage_amounts :: "app_history \<Rightarrow> string \<Rightarrow> rat \<times> u64" where
  "usage_amounts db key =
     (let u = unwrap_or (bt_get (db_entries db) key) default_usage
      in (au_cpu_seconds u, au_network_bytes u))"

text \<open>
  A first sighting contributes nothing. A process without a reading of itself on the previous
  tick (new, or another program under a recycled pid, or the same program restarted) leaves CPU
  time and traffic of every application as they are, whatever its own counters and rates are.
\<close>

theorem first_sighting_contributes_nothing:
  assumes "\<not> same_process (bt_get old_prev (hp_pid p)) p"
  shows "usage_amounts (fst (observe_one is_absolute windows cores interval_s old_prev p (db, next_prev))) key =
    usage_amounts db key"
  using assms
  by (auto simp: usage_amounts_def observe_one_def Let_def cpu_delta_def net_delta_def bt_get_upsert
      usage_step_def split: option.split)

definition sample_app :: hist_process where
  "sample_app = \<lparr>hp_pid = 7, hp_name = ''app'', hp_display = [], hp_exe_path = Some ''/bin/App'',
     hp_category = App, hp_start_epoch_s = Some 50, hp_cpu_time_s = Some 500, hp_cpu_pct = 45,
     hp_net_recv_total = Some 9, hp_net_sent_total = Some 1, hp_net_recv_bps = Some 1000,
     hp_net_sent_bps = None\<rparr>"

theorem first_sighting_contributes_nothing_witness:
  "usage_amounts (fst (observe_one (\<lambda>_. True) False 4 1
      [(7, \<lparr>pt_start_epoch_s = Some 49, pt_app_identity = ''/bin/app'', pt_cpu_time_s = Some 1,
        pt_net_total_bytes = Some 0\<rparr>)] sample_app (history_in_memory 0, []))) ''/bin/app'' = (0, 0)"
  using first_sighting_contributes_nothing [of "[(7, \<lparr>pt_start_epoch_s = Some 49,
      pt_app_identity = ''/bin/app'', pt_cpu_time_s = Some 1, pt_net_total_bytes = Some 0\<rparr>)]"
      sample_app "\<lambda>_. True" False 4 1 "history_in_memory 0" "[]" "''/bin/app''"]
  by (simp add: same_process_def is_some_and_def sample_app_def usage_amounts_def default_usage_def
      history_in_memory_def Let_def)

text \<open>One process read tick after tick: CPU seconds, bytes received and sent.\<close>

definition reading :: "hist_process \<Rightarrow> nat \<Rightarrow> rat \<times> u64 \<times> u64 \<Rightarrow> hist_snapshot" where
  "reading p cores tick =
     (case tick of (c, r, w) \<Rightarrow>
       \<lparr>hs_logical_count = cores,
        hs_processes = [p\<lparr>hp_cpu_time_s := Some c, hp_net_recv_total := Some r,
                          hp_net_sent_total := Some w\<rparr>]\<rparr>)"

definition observe_readings ::
    "(string \<Rightarrow> bool) \<Rightarrow> bool \<Rightarrow> rat \<Rightarrow> app_history \<Rightarrow> hist_snapshot list \<Rightarrow> app_history" where
  "observe_readings is_absolute windows interval_s db snaps =
     foldl (\<lambda>db snap. history_observe is_absolute windows snap interval_s db) db snaps"

definition growing :: "rat \<times> u64 \<times> u64 \<Rightarrow> rat \<times> u64 \<times> u64 \<Rightarrow> bool" where
  "growing a b \<longleftrightarrow>
     (case (a, b) of ((c, r, w), (c', r', w')) \<Rightarrow> c \<le> c' \<and> r + w \<le> r' + w')"

definition account_inv ::
    "hist_process \<Rightarrow> app_history \<Rightarrow> rat \<Rightarrow> u64 \<Rightarrow> rat \<Rightarrow> u64 \<Rightarrow> nat \<Rightarrow> bool" where
  "account_inv p db c0 n0 c n k \<longleftrightarrow>
     (db_loading db \<longrightarrow> db_observing db) \<and>
     bt_get (db_prev db) (hp_pid p) =
       Some \<lparr>pt_start_epoch_s = hp_start_epoch_s p, pt_app_identity = entry_key p,
             pt_cpu_time_s = Some c, pt_net_total_bytes = Some n\<rparr> \<and>
     (\<exists>u. bt_get (db_entries db) (entry_key p) = Some u \<and> au_network_bytes u = n - n0 \<and>
        au_network_available u \<and>
        c - c0 - of_nat k / 1000000 \<le> au_cpu_seconds u \<and> au_cpu_seconds u \<le> c - c0)"

lemma entry_key_reading [simp]:
  "entry_key (p\<lparr>hp_cpu_time_s := a, hp_net_recv_total := b, hp_net_sent_total := d\<rparr>) = entry_key p"
  by (simp add: entry_key_def Let_def split: option.split)

lemma saturating_sub_le: "a \<le> b \<Longrightarrow> saturating_sub b a = b - (a :: u64)"
  by (simp add: saturating_sub_def)

lemma account_first:
  assumes "history_eligible (hp_category p) windows" "db_loading db \<longrightarrow> db_observing db"
    and "bt_get (db_prev db) (hp_pid p) = None" "bt_get (db_entries db) (entry_key p) = None"
  shows "account_inv p (history_observe is_absolute windows (reading p cores (c, r, w)) i db)
    c (r + w) c (r + w) 0"
  using assms
  by (auto simp: account_inv_def history_observe_def reading_def observe_one_def Let_def cpu_delta_def
      net_delta_def same_process_def is_some_and_def bt_get_upsert usage_step_def default_usage_def
      network_available_def net_total_of_def split: option.split)

lemma account_step:
  assumes el: "history_eligible (hp_category p) windows"
    and inv: "account_inv p db c0 n0 c n k" and grow: "c \<le> c'" "n \<le> r + w"
  shows "account_inv p (history_observe is_absolute windows (reading p cores (c', r, w)) i db)
    c0 n0 c' (r + w) (Suc k)"
proof -
  let ?q = "p\<lparr>hp_cpu_time_s := Some c', hp_net_recv_total := Some r, hp_net_sent_total := Some w\<rparr>"
  from inv obtain u where u: "bt_get (db_entries db) (entry_key p) = Some u"
    "au_network_bytes u = n - n0" "au_network_available u"
    "c - c0 - of_nat k / 1000000 \<le> au_cpu_seconds u" "au_cpu_seconds u \<le> c - c0"
    by (auto simp: account_inv_def)
  from inv have prev: "bt_get (db_prev db) (hp_pid p) =
      Some \<lparr>pt_start_epoch_s = hp_start_epoch_s p, pt_app_identity = entry_key p,
            pt_cpu_time_s = Some c, pt_net_total_bytes = Some n\<rparr>"
    and ready: "db_loading db \<longrightarrow> db_observing db"
    by (simp_all add: account_inv_def)
  have d: "cpu_delta cores i (bt_get (db_prev db) (hp_pid p)) ?q = c' - c"
    "net_delta i (bt_get (db_prev db) (hp_pid p)) ?q = r + w - n"
    using grow by (simp_all add: prev cpu_delta_def net_delta_def same_process_def is_some_and_def
        net_total_of_def saturating_sub_le)
  let ?u = "usage_step True (c' - c) (r + w - n) u"
  have k: "of_nat (Suc k) / 1000000 = of_nat k / 1000000 + 1 / (1000000 :: rat)"
    by (simp add: add_divide_distrib)
  have "au_network_bytes ?u = r + w - n0"
    using u(2) word_gt_0 [of "r + w - n"] by (auto simp: usage_step_def Let_def)
  moreover have "au_cpu_seconds ?u \<le> c' - c0"
    using u(5) grow(1) by (auto simp: usage_step_def Let_def)
  moreover have "c' - c0 - of_nat (Suc k) / 1000000 \<le> au_cpu_seconds ?u"
    unfolding k using u(4) by (auto simp: usage_step_def Let_def)
  moreover have "au_network_available ?u" by (simp add: usage_step_def Let_def)
  moreover have "bt_get (db_entries (history_observe is_absolute windows (reading p cores (c', r, w)) i db))
      (entry_key p) = Some ?u"
    using el ready u(1) d
    by (auto simp: history_observe_def reading_def observe_one_def Let_def bt_get_upsert
        network_available_def net_total_of_def split: option.split)
  moreover have "bt_get (db_prev (history_observe is_absolute windows (reading p cores (c', r, w)) i db))
      (hp_pid p) = Some \<lparr>pt_start_epoch_s = hp_start_epoch_s p, pt_app_identity = entry_key p,
            pt_cpu_time_s = Some c', pt_net_total_bytes = Some (r + w)\<rparr>"
    using el ready
    by (auto simp: history_observe_def reading_def observe_one_def Let_def net_total_of_def
        split: option.split)
  moreover have "db_loading (history_observe is_absolute windows (reading p cores (c', r, w)) i db) \<longrightarrow>
      db_observing (history_observe is_absolute windows (reading p cores (c', r, w)) i db)"
    using el ready
    by (auto simp: history_observe_def reading_def observe_one_def Let_def split: option.split)
  ultimately show ?thesis by (simp add: account_inv_def)
qed

lemma account_run:
  assumes "history_eligible (hp_category p) windows" "account_inv p db c0 n0 c (r + w) k"
    and "sorted_wrt growing ((c, r, w) # ticks)"
  shows "case last ((c, r, w) # ticks) of (c', r', w') \<Rightarrow>
    account_inv p (observe_readings is_absolute windows i db (map (reading p cores) ticks))
      c0 n0 c' (r' + w') (k + length ticks)"
  using assms(2,3)
proof (induction ticks arbitrary: db c r w k)
  case Nil
  then show ?case by (simp add: observe_readings_def)
next
  case (Cons tick ticks)
  obtain c' r' w' where tick: "tick = (c', r', w')" by (metis surj_pair)
  from Cons.prems(2) tick have "c \<le> c'" "r + w \<le> r' + w'"
    by (auto simp: growing_def)
  moreover from Cons.prems(2) tick have "sorted_wrt growing ((c', r', w') # ticks)" by simp
  ultimately have grow: "c \<le> c'" "r + w \<le> r' + w'" "sorted_wrt growing ((c', r', w') # ticks)"
    by blast+
  from Cons.IH [OF account_step [OF assms(1) Cons.prems(1) grow(1,2)] grow(3)] tick
  show ?case by (simp add: observe_readings_def)
qed

text \<open>
  An application is charged what its process used while it was watched. For a process
  whose counters are read on every tick and grow, the traffic of its application is exactly the
  growth of the byte counters since the first reading, and its CPU time is the growth of the CPU
  counter up to one microsecond for each later reading, never more.
\<close>

theorem usage_is_counter_growth:
  assumes "history_eligible (hp_category p) windows" "db_loading db \<longrightarrow> db_observing db"
    and "bt_get (db_prev db) (hp_pid p) = None" "bt_get (db_entries db) (entry_key p) = None"
    and "sorted_wrt growing ((c0, r0, w0) # ticks)" "last ((c0, r0, w0) # ticks) = (c, r, w)"
  shows "case bt_get (db_entries (observe_readings is_absolute windows i db
        (map (reading p cores) ((c0, r0, w0) # ticks)))) (entry_key p) of
      None \<Rightarrow> False
    | Some u \<Rightarrow> au_network_bytes u = (r + w) - (r0 + w0) \<and> au_network_available u \<and>
        c - c0 - of_nat (length ticks) / 1000000 \<le> au_cpu_seconds u \<and> au_cpu_seconds u \<le> c - c0"
proof -
  have "account_inv p (observe_readings is_absolute windows i
      (history_observe is_absolute windows (reading p cores (c0, r0, w0)) i db)
      (map (reading p cores) ticks)) c0 (r0 + w0) c (r + w) (length ticks)"
    using account_run [OF assms(1) account_first [OF assms(1-4)] assms(5)] assms(6) by fastforce
  then show ?thesis by (auto simp: account_inv_def observe_readings_def)
qed

theorem usage_is_counter_growth_witness:
  "case bt_get (db_entries (observe_readings (\<lambda>_. True) True 1 (history_in_memory 0)
        (map (reading sample_app 8) ((500, 1000, 0) # [(501, 1500, 20), (503, 1600, 20)]))))
        (entry_key sample_app) of
      None \<Rightarrow> False
    | Some u \<Rightarrow> au_network_bytes u = (1600 + 20) - (1000 + 0) \<and> au_network_available u \<and>
        503 - 500 - of_nat (length [(501 :: rat, 1500 :: u64, 20 :: u64), (503, 1600, 20)]) / 1000000
          \<le> au_cpu_seconds u \<and> au_cpu_seconds u \<le> 503 - 500"
  by (rule usage_is_counter_growth)
     (simp_all add: history_eligible_def sample_app_def history_in_memory_def growing_def)

text \<open>The key of an application does not distinguish the case of the path.\<close>

lemma entry_key_ignores_case:
  "entry_key (p\<lparr>hp_exe_path := Some ''/opt/App''\<rparr>) = entry_key (p\<lparr>hp_exe_path := Some ''/opt/app''\<rparr>)"
proof -
  have "to_ascii_lowercase ''/opt/App'' = to_ascii_lowercase ''/opt/app''" by code_simp
  then show ?thesis by (simp add: entry_key_def Let_def)
qed

end
