(* ===== verification/Startup_Impact.thy ===== *)
theory Startup_Impact
  imports Settings
begin

text \<open>
  The measured startup impact (crates/tm-core/src/startup_impact.rs): the documented
  classification, the tracker that folds per-tick deltas of the processes' counters into
  per-image totals, and the persisted store. CPU times are rational numbers: the additions
  and comparisons of the code without the rounding of \<open>f64\<close>. Byte counts are 64-bit words,
  epochs integers; hash maps are ordered maps, their order of iteration is never observed.
\<close>

section \<open>Classification\<close>

datatype startup_impact = ImpactUnknown | ImpactNone | ImpactLow | ImpactMedium | ImpactHigh

fun impact_label :: "startup_impact \<Rightarrow> string" where
  "impact_label ImpactUnknown = ''Not measured''"
| "impact_label ImpactNone = ''None''"
| "impact_label ImpactLow = ''Low''"
| "impact_label ImpactMedium = ''Medium''"
| "impact_label ImpactHigh = ''High''"

definition impact_classify :: "rat \<Rightarrow> u64 \<Rightarrow> startup_impact" where
  "impact_classify cpu_ms disk_bytes =
     (if 1000 < cpu_ms \<or> 3 * 1024 * 1024 < disk_bytes then ImpactHigh
      else if cpu_ms < 300 \<and> disk_bytes < 292 * 1024 then ImpactLow
      else ImpactMedium)"

record impact_sample =
  is_cpu_ms :: rat
  is_disk_bytes :: u64
  is_boot_epoch_s :: int

definition sample_classify :: "impact_sample \<Rightarrow> startup_impact" where
  "sample_classify s = impact_classify (is_cpu_ms s) (is_disk_bytes s)"

text \<open>The order of the classes, in which more cost is never less impact.\<close>

instantiation startup_impact :: linorder
begin

fun impact_rank :: "startup_impact \<Rightarrow> nat" where
  "impact_rank ImpactUnknown = 0"
| "impact_rank ImpactNone = 1"
| "impact_rank ImpactLow = 2"
| "impact_rank ImpactMedium = 3"
| "impact_rank ImpactHigh = 4"

definition less_eq_startup_impact :: "startup_impact \<Rightarrow> startup_impact \<Rightarrow> bool" where
  "less_eq_startup_impact a b \<longleftrightarrow> impact_rank a \<le> impact_rank b"

definition less_startup_impact :: "startup_impact \<Rightarrow> startup_impact \<Rightarrow> bool" where
  "less_startup_impact a b \<longleftrightarrow> impact_rank a < impact_rank b"

instance
proof
  fix a b :: startup_impact
  show "a \<le> b \<Longrightarrow> b \<le> a \<Longrightarrow> a = b"
    by (cases a; cases b) (simp_all add: less_eq_startup_impact_def)
qed (auto simp: less_eq_startup_impact_def less_startup_impact_def)

end

section \<open>The tracker\<close>

definition STARTUP_WINDOW_S :: u64 where
  "STARTUP_WINDOW_S = 120"

record prev_counters =
  pc_start_epoch_s :: "int option"
  pc_cpu_s :: rat
  pc_io_bytes :: u64

record startup_tracker =
  st_window_s :: u64
  st_boot_epoch_s :: "int option"
  st_totals :: "(string, impact_sample) btree"
  st_prev :: "(u32, prev_counters) btree"
  st_active :: bool
  st_dirty :: bool

text \<open>What the tracker reads of a process and of a snapshot; the image path is its lossy text.\<close>

record proc_counters =
  pr_pid :: u32
  pr_synthetic :: bool
  pr_exe_path :: "string option"
  pr_cpu_time_s :: "rat option"
  pr_disk_read_total :: u64
  pr_disk_write_total :: u64
  pr_start_epoch_s :: "int option"

record startup_snapshot =
  ss_uptime_s :: u64
  ss_processes :: "proc_counters list"

definition tracker_new :: "u64 \<Rightarrow> int \<Rightarrow> startup_tracker" where
  "tracker_new uptime_s boot_epoch_s =
     \<lparr>st_window_s = STARTUP_WINDOW_S, st_boot_epoch_s = Some boot_epoch_s, st_totals = [],
      st_prev = [], st_active = (uptime_s < STARTUP_WINDOW_S), st_dirty = False\<rparr>"

definition with_window_s :: "u64 \<Rightarrow> startup_tracker \<Rightarrow> startup_tracker" where
  "with_window_s w t = t\<lparr>st_window_s := w\<rparr>"

text \<open>The body of the loop over the processes: totals, the counters seen so far in this tick,
  and whether anything changed.\<close>

definition charge ::
    "int option \<Rightarrow> string \<Rightarrow> rat \<Rightarrow> u64 \<Rightarrow> (string, impact_sample) btree \<Rightarrow>
     (string, impact_sample) btree" where
  "charge boot key cpu_delta_ms io_delta totals =
     bt_upsert key \<lparr>is_cpu_ms = 0, is_disk_bytes = 0, is_boot_epoch_s = unwrap_or boot 0\<rparr>
       (\<lambda>entry. entry\<lparr>is_cpu_ms := is_cpu_ms entry + cpu_delta_ms,
                      is_disk_bytes := saturating_add (is_disk_bytes entry) io_delta\<rparr>)
       totals"

definition previous_of :: "(u32, prev_counters) btree \<Rightarrow> proc_counters \<Rightarrow> prev_counters option" where
  "previous_of prev process =
     option_filter
       (\<lambda>pc. pr_start_epoch_s process = None \<or> pc_start_epoch_s pc = pr_start_epoch_s process)
       (bt_get prev (pr_pid process))"

definition started_after_boot :: "int option \<Rightarrow> proc_counters \<Rightarrow> bool" where
  "started_after_boot boot process =
     (case (pr_start_epoch_s process, boot) of
        (Some start, Some b) \<Rightarrow> b \<le> start
      | _ \<Rightarrow> False)"

definition baseline_of ::
    "int option \<Rightarrow> (u32, prev_counters) btree \<Rightarrow> proc_counters \<Rightarrow> (rat \<times> u64) option" where
  "baseline_of boot prev process =
     (case previous_of prev process of
        Some pc \<Rightarrow> Some (pc_cpu_s pc, pc_io_bytes pc)
      | None \<Rightarrow> if started_after_boot boot process then Some (0, 0) else None)"

definition observe_process ::
    "bool \<Rightarrow> int option \<Rightarrow> (u32, prev_counters) btree \<Rightarrow> proc_counters \<Rightarrow>
     (string, impact_sample) btree \<times> (u32, prev_counters) btree \<times> bool \<Rightarrow>
     (string, impact_sample) btree \<times> (u32, prev_counters) btree \<times> bool" where
  "observe_process windows boot prev process acc =
     (let (totals, live, changed) = acc in
      if pr_synthetic process then acc
      else case pr_exe_path process of
        None \<Rightarrow> acc
      | Some path \<Rightarrow>
          (case (pr_cpu_time_s process,
                 checked_add (pr_disk_read_total process) (pr_disk_write_total process)) of
             (Some cpu_s, Some io_bytes) \<Rightarrow>
               (let key = process_rule_key windows path;
                    baseline = baseline_of boot prev process;
                    (totals, changed) =
                      (case baseline of
                         Some (base_cpu_s, base_io_bytes) \<Rightarrow>
                           (let cpu_delta_ms = max (cpu_s - base_cpu_s) 0 * 1000;
                                io_delta = saturating_sub io_bytes base_io_bytes in
                            if 0 < cpu_delta_ms \<or> 0 < io_delta
                            then (charge boot key cpu_delta_ms io_delta totals, True)
                            else (totals, changed))
                       | None \<Rightarrow> (totals, changed))
                in (totals,
                    bt_insert (pr_pid process)
                      \<lparr>pc_start_epoch_s = pr_start_epoch_s process, pc_cpu_s = cpu_s,
                       pc_io_bytes = io_bytes\<rparr> live,
                    changed))
           | _ \<Rightarrow> acc))"

definition startup_observe :: "bool \<Rightarrow> startup_tracker \<Rightarrow> startup_snapshot \<Rightarrow> bool \<times> startup_tracker" where
  "startup_observe windows t snapshot =
     (if \<not> st_active t then (False, t)
      else if st_window_s t \<le> ss_uptime_s snapshot then (st_dirty t, t\<lparr>st_active := False\<rparr>)
      else
        (let (totals, live, changed) =
               fold (observe_process windows (st_boot_epoch_s t) (st_prev t)) (ss_processes snapshot)
                 (st_totals t, [], False)
         in (changed,
             t\<lparr>st_totals := totals, st_prev := live, st_dirty := (st_dirty t \<or> changed)\<rparr>)))"

section \<open>The store\<close>

record impact_store =
  im_entries :: "(string, impact_sample) btree"
  im_path :: "path option"
  im_dirty :: bool

text \<open>The JSON text of the store file is a function of serde_json; its argument is the
  \<open>entries\<close> field, the version is the constant 1.\<close>

record store_json =
  store_text :: "(string, impact_sample) btree \<Rightarrow> bytes"
  store_parse :: "bytes \<Rightarrow> (string, impact_sample) btree option"

definition open_store ::
    "store_json \<Rightarrow> io_error option \<Rightarrow> bool \<Rightarrow> path \<Rightarrow> fs \<Rightarrow> impact_store \<times> fs" where
  "open_store J fault rename_ok p s =
     (let (entries, s) =
        (case fs_read s p of
           None \<Rightarrow> ([], s)
         | Some content \<Rightarrow>
             (case fault of
                Some e \<Rightarrow> if io_kind e = NotFound then ([], s) else ([], set_aside rename_ok p s)
              | None \<Rightarrow>
                  (case store_parse J content of
                     Some entries \<Rightarrow> (entries, s)
                   | None \<Rightarrow> ([], set_aside rename_ok p s))))
      in (\<lparr>im_entries = entries, im_path = Some p, im_dirty = False\<rparr>, s))"

definition in_memory :: impact_store where
  "in_memory = \<lparr>im_entries = [], im_path = None, im_dirty = False\<rparr>"

definition store_get :: "impact_store \<Rightarrow> string \<Rightarrow> impact_sample option" where
  "store_get st key = bt_get (im_entries st) key"

definition plausible :: "impact_sample \<Rightarrow> bool" where
  "plausible s \<longleftrightarrow> 0 < is_cpu_ms s \<or> 0 < is_disk_bytes s"

definition merge_entry :: "string \<times> impact_sample \<Rightarrow> impact_store \<Rightarrow> impact_store" where
  "merge_entry ks st =
     (if is_none_or (bt_get (im_entries st) (fst ks))
           (\<lambda>existing. is_boot_epoch_s existing \<le> is_boot_epoch_s (snd ks))
      then st\<lparr>im_entries := bt_insert (fst ks) (snd ks) (im_entries st), im_dirty := True\<rparr>
      else st)"

definition store_merge :: "(string, impact_sample) btree \<Rightarrow> impact_store \<Rightarrow> impact_store" where
  "store_merge totals st =
     (let st = fold merge_entry totals st
      in st\<lparr>im_entries := bt_retain (\<lambda>_. plausible) (im_entries st)\<rparr>)"

definition store_is_empty :: "impact_store \<Rightarrow> bool" where
  "store_is_empty st \<longleftrightarrow> im_entries st = []"

text \<open>\<open>save\<close>; \<open>completed\<close> file-system operations succeed.\<close>

definition store_save :: "store_json \<Rightarrow> nat \<Rightarrow> impact_store \<Rightarrow> fs \<Rightarrow> impact_store \<times> fs" where
  "store_save J completed st s =
     (if \<not> im_dirty st then (st, s)
      else case im_path st of
        None \<Rightarrow> (st\<lparr>im_dirty := False\<rparr>, s)
      | Some p \<Rightarrow>
          (let ops = replace_file p ''json.tmp'' [store_text J (im_entries st)] in
           (if length ops \<le> completed then st\<lparr>im_dirty := False\<rparr> else st,
            fs_run s (take completed ops))))"

section \<open>Properties\<close>

text \<open>
  The classification is monotone: more CPU time and more disk traffic never give a lower
  impact, and a measured sample is always one of Low, Medium and High.
\<close>

theorem impact_classify_mono:
  assumes "cpu \<le> cpu'" and "disk \<le> disk'"
  shows "impact_classify cpu disk \<le> impact_classify cpu' disk' \<and> ImpactLow \<le> impact_classify cpu disk"
  using assms by (auto simp: impact_classify_def less_eq_startup_impact_def)

theorem impact_classify_mono_witness:
  "impact_classify 299 1000 \<le> impact_classify 300 (3 * 1024 * 1024)"
  using impact_classify_mono [of 299 300 1000 "3 * 1024 * 1024"] by simp

text \<open>One process seen tick after tick: uptime, CPU seconds, bytes read and written.\<close>

definition sighting :: "proc_counters \<Rightarrow> u64 \<times> rat \<times> u64 \<times> u64 \<Rightarrow> startup_snapshot" where
  "sighting p tick =
     (case tick of (up, c, r, w) \<Rightarrow>
       \<lparr>ss_uptime_s = up,
        ss_processes = [p\<lparr>pr_cpu_time_s := Some c, pr_disk_read_total := r, pr_disk_write_total := w\<rparr>]\<rparr>)"

definition observe_all :: "bool \<Rightarrow> startup_tracker \<Rightarrow> startup_snapshot list \<Rightarrow> startup_tracker" where
  "observe_all windows t ss = foldl (\<lambda>t s. snd (startup_observe windows t s)) t ss"

definition cost_inv ::
    "bool \<Rightarrow> proc_counters \<Rightarrow> string \<Rightarrow> int \<Rightarrow> startup_tracker \<Rightarrow> rat \<Rightarrow> u64 \<Rightarrow> bool" where
  "cost_inv windows p path boot t c io \<longleftrightarrow>
     st_active t \<and> st_window_s t = STARTUP_WINDOW_S \<and> st_boot_epoch_s t = Some boot \<and>
     bt_get (st_totals t) (process_rule_key windows path) =
       option_filter plausible
         (Some \<lparr>is_cpu_ms = 1000 * c, is_disk_bytes = io, is_boot_epoch_s = boot\<rparr>) \<and>
     (case bt_get (st_prev t) (pr_pid p) of
        None \<Rightarrow> c = 0 \<and> io = 0
      | Some pc \<Rightarrow> pc = \<lparr>pc_start_epoch_s = pr_start_epoch_s p, pc_cpu_s = c, pc_io_bytes = io\<rparr>)"

lemma saturating_delta:
  fixes a b :: u64
  assumes "a \<le> b"
  shows "saturating_add a (saturating_sub b a) = b" "0 < saturating_sub b a \<longleftrightarrow> a \<noteq> b"
proof -
  have b: "unat b < 2 ^ LENGTH(64)" by (rule unsigned_less)
  have le: "unat a \<le> unat b" using assms by (simp add: word_le_nat_alt)
  have "unat (saturating_add a (saturating_sub b a)) = unat b"
    using b le by (simp add: rust_arith)
  then show "saturating_add a (saturating_sub b a) = b" by (simp only: word_unat_eq_iff)
  have "0 < saturating_sub b a \<longleftrightarrow> unat a < unat b"
    by (simp add: word_less_nat_alt rust_arith)
  then show "0 < saturating_sub b a \<longleftrightarrow> a \<noteq> b"
    using le by (auto simp: le_less word_unat_eq_iff)
qed

lemma cost_step:
  assumes p: "pr_exe_path p = Some path" "\<not> pr_synthetic p" "started_after_boot (Some boot) p"
    and inv: "cost_inv windows p path boot t c io"
    and up: "up < STARTUP_WINDOW_S" and io': "unat r + unat w < 2 ^ 64"
    and mono: "0 \<le> c" "c \<le> c'" "io \<le> r + w"
  shows "cost_inv windows p path boot (snd (startup_observe windows t (sighting p (up, c', r, w)))) c' (r + w)"
proof -
  let ?q = "p\<lparr>pr_cpu_time_s := Some c', pr_disk_read_total := r, pr_disk_write_total := w\<rparr>"
  have start: "started_after_boot (Some boot) ?q" "pr_start_epoch_s p \<noteq> None"
    using p(3) by (auto simp: started_after_boot_def split: option.splits)
  have add: "checked_add r w = Some (r + w)"
    using io' by (simp add: checked_add_def)
  have base: "baseline_of (Some boot) (st_prev t) ?q = Some (c, io)"
    using inv start
    by (auto simp: baseline_of_def cost_inv_def previous_of_def option_filter_def split: option.splits)
  have window: "\<not> STARTUP_WINDOW_S \<le> up" using up by simp
  have delta: "max (c' - c) 0 * 1000 = 1000 * (c' - c)"
    using mono by simp
  have plausible': "0 < 1000 * c' \<or> 0 < r + w" if "0 < 1000 * (c' - c) \<or> 0 < saturating_sub (r + w) io"
  proof -
    have "io \<noteq> r + w \<Longrightarrow> 0 < r + w" using mono(3) by (metis word_gt_0 word_le_0_iff)
    then show ?thesis using that mono saturating_delta(2) [OF mono(3)] by auto
  qed
  show ?thesis
  proof (cases "0 < 1000 * (c' - c) \<or> 0 < saturating_sub (r + w) io")
    case True
    then have "plausible \<lparr>is_cpu_ms = 1000 * c', is_disk_bytes = r + w, is_boot_epoch_s = boot\<rparr>"
      using plausible' by (simp add: plausible_def)
    moreover have "unwrap_or (bt_get (st_totals t) (process_rule_key windows path))
        \<lparr>is_cpu_ms = 0, is_disk_bytes = 0, is_boot_epoch_s = boot\<rparr> =
        \<lparr>is_cpu_ms = 1000 * c, is_disk_bytes = io, is_boot_epoch_s = boot\<rparr>"
      using inv mono(1) word_gt_0 [of io]
      by (auto simp: cost_inv_def option_filter_def plausible_def)
    ultimately show ?thesis
      using inv p window add base True delta saturating_delta(1) [OF mono(3)]
      by (simp add: startup_observe_def sighting_def observe_process_def cost_inv_def charge_def
          bt_get_upsert bt_get_insert option_filter_def algebra_simps)
  next
    case False
    then have "c' = c" "r + w = io"
      using mono saturating_delta(2) [OF mono(3)] by auto
    with False show ?thesis
      using inv p window add base delta
      by (simp add: startup_observe_def sighting_def observe_process_def cost_inv_def bt_get_insert)
  qed
qed

text \<open>The counters of one process never go back.\<close>

definition counters_grow :: "u64 \<times> rat \<times> u64 \<times> u64 \<Rightarrow> u64 \<times> rat \<times> u64 \<times> u64 \<Rightarrow> bool" where
  "counters_grow a b \<longleftrightarrow>
     (case (a, b) of ((_, c, r, w), (_, c', r', w')) \<Rightarrow> c \<le> c' \<and> r \<le> r' \<and> w \<le> w')"

definition tick_ok :: "u64 \<times> rat \<times> u64 \<times> u64 \<Rightarrow> bool" where
  "tick_ok tick \<longleftrightarrow>
     (case tick of (up, c, r, w) \<Rightarrow> up < STARTUP_WINDOW_S \<and> 0 \<le> c \<and> unat r + unat w < 2 ^ 64)"

lemma sum_mono_word:
  fixes r w r' w' :: u64
  assumes "r \<le> r'" "w \<le> w'" "unat r' + unat w' < 2 ^ 64"
  shows "r + w \<le> r' + w'"
proof -
  have "unat r \<le> unat r'" "unat w \<le> unat w'" using assms by (simp_all add: word_le_nat_alt)
  then show ?thesis using assms(3) by (simp add: word_le_nat_alt unat_word_ariths)
qed

lemma cost_run:
  assumes p: "pr_exe_path p = Some path" "\<not> pr_synthetic p" "started_after_boot (Some boot) p"
    and "cost_inv windows p path boot t c (r + w)" "tick_ok (up, c, r, w)"
    and "sorted_wrt counters_grow ((up, c, r, w) # ticks)" "list_all tick_ok ticks"
  shows "case last ((up, c, r, w) # ticks) of (_, c', r', w') \<Rightarrow>
    cost_inv windows p path boot (observe_all windows t (map (sighting p) ticks)) c' (r' + w')"
  using assms(4-)
proof (induction ticks arbitrary: t up c r w)
  case Nil
  then show ?case by (simp add: observe_all_def)
next
  case (Cons tick ticks)
  obtain up' c' r' w' where tick: "tick = (up', c', r', w')" by (metis surj_pair)
  from Cons.prems tick have ok: "up' < STARTUP_WINDOW_S" "0 \<le> c" "unat r' + unat w' < 2 ^ 64"
    "c \<le> c'" "r \<le> r'" "w \<le> w'" "tick_ok (up', c', r', w')"
    by (auto simp: tick_ok_def counters_grow_def)
  have "cost_inv windows p path boot (snd (startup_observe windows t (sighting p tick))) c' (r' + w')"
    unfolding tick
    by (rule cost_step [OF p Cons.prems(1) ok(1,3,2,4) sum_mono_word [OF ok(5,6,3)]])
  moreover have "sorted_wrt counters_grow ((up', c', r', w') # ticks)" "list_all tick_ok ticks"
    using Cons.prems tick by simp_all
  ultimately show ?case
    using Cons.IH [of "snd (startup_observe windows t (sighting p tick))" c' r' w' up'] ok(7) tick
    by (simp add: observe_all_def)
qed

text \<open>
  What a process costs at startup is charged completely and once. For a process that started
  after boot and is seen on any number of ticks inside the window, whatever it did before the
  first sighting and however its counters grow in between, its image's total is the value of its
  counters at the last sighting: no delta is lost, none is counted twice.
\<close>

theorem startup_cost_charged_once:
  assumes "pr_exe_path p = Some path" "\<not> pr_synthetic p" "started_after_boot (Some boot) p"
    and "sorted_wrt counters_grow ticks" "list_all tick_ok ticks" "ticks \<noteq> []"
    and "last ticks = (up, c, r, w)" "up0 < STARTUP_WINDOW_S"
  shows "bt_get (st_totals (observe_all windows (tracker_new up0 boot) (map (sighting p) ticks)))
      (process_rule_key windows path) =
    option_filter plausible
      (Some \<lparr>is_cpu_ms = 1000 * c, is_disk_bytes = r + w, is_boot_epoch_s = boot\<rparr>)"
proof -
  let ?zero = "(0, 0, 0, 0) :: u64 \<times> rat \<times> u64 \<times> u64"
  have start: "cost_inv windows p path boot (tracker_new up0 boot) 0 (0 + 0)"
    using assms(8) by (simp add: cost_inv_def tracker_new_def option_filter_def plausible_def)
  have "tick_ok ?zero" by (simp add: tick_ok_def STARTUP_WINDOW_S_def)
  moreover have "sorted_wrt counters_grow (?zero # ticks)"
    using assms(4,5) by (auto simp: counters_grow_def tick_ok_def list_all_iff)
  ultimately have "cost_inv windows p path boot
      (observe_all windows (tracker_new up0 boot) (map (sighting p) ticks)) c (r + w)"
    using cost_run [OF assms(1-3) start] assms(5-7) by fastforce
  then show ?thesis by (simp add: cost_inv_def)
qed

definition sample_proc :: proc_counters where
  "sample_proc = \<lparr>pr_pid = 42, pr_synthetic = False, pr_exe_path = Some ''/usr/bin/app'',
     pr_cpu_time_s = None, pr_disk_read_total = 0, pr_disk_write_total = 0,
     pr_start_epoch_s = Some 1005\<rparr>"

theorem startup_cost_charged_once_witness:
  "bt_get (st_totals (observe_all False (tracker_new 3 1000)
      (map (sighting sample_proc) [(4, 1/2, 100, 20), (5, 3/4, 100, 50), (9, 2, 400, 50)])))
     ''/usr/bin/app'' =
   Some \<lparr>is_cpu_ms = 2000, is_disk_bytes = 450, is_boot_epoch_s = 1000\<rparr>"
  using startup_cost_charged_once [of sample_proc "''/usr/bin/app''" 1000
      "[(4, 1/2, 100, 20), (5, 3/4, 100, 50), (9, 2, 400, 50)]" 9 2 400 50 3 False]
  by (simp add: sample_proc_def started_after_boot_def counters_grow_def tick_ok_def
      STARTUP_WINDOW_S_def process_rule_key_def option_filter_def plausible_def)

text \<open>
  A recycled pid never bridges two processes. If every process of a tick has a start time
  that is not the one recorded for its pid, the tick is accounted as if nothing had been
  recorded.
\<close>

theorem recycled_pids_not_bridged:
  assumes "\<forall>p\<in>set (ss_processes snap). pr_start_epoch_s p \<noteq> None \<and>
      (\<forall>pc. bt_get (st_prev t) (pr_pid p) = Some pc \<longrightarrow> pc_start_epoch_s pc \<noteq> pr_start_epoch_s p)"
    and "st_active t" "\<not> st_window_s t \<le> ss_uptime_s snap"
  shows "startup_observe windows t snap = startup_observe windows (t\<lparr>st_prev := []\<rparr>) snap"
proof -
  have "observe_process windows (st_boot_epoch_s t) (st_prev t) p =
      observe_process windows (st_boot_epoch_s t) [] p" if "p \<in> set (ss_processes snap)" for p
  proof -
    have "previous_of (st_prev t) p = None"
      using assms(1) that by (auto simp: previous_of_def option_filter_def split: option.split)
    moreover have "previous_of [] p = None"
      by (simp add: previous_of_def option_filter_def)
    ultimately have eq: "baseline_of (st_boot_epoch_s t) (st_prev t) p = baseline_of (st_boot_epoch_s t) [] p"
      by (simp add: baseline_of_def)
    show ?thesis by (intro ext) (unfold observe_process_def eq, rule refl)
  qed
  then have "fold (observe_process windows (st_boot_epoch_s t) (st_prev t)) (ss_processes snap) acc =
      fold (observe_process windows (st_boot_epoch_s t) []) (ss_processes snap) acc" for acc
    by (intro fold_cong refl) blast
  then show ?thesis
    using assms(2,3) by (simp add: startup_observe_def)
qed

theorem recycled_pids_not_bridged_witness:
  "startup_observe False
     ((tracker_new 3 1000)\<lparr>st_prev :=
        [(42, \<lparr>pc_start_epoch_s = Some 900, pc_cpu_s = 7, pc_io_bytes = 5\<rparr>)]\<rparr>)
     (sighting sample_proc (4, 1, 2, 3)) =
   startup_observe False (tracker_new 3 1000) (sighting sample_proc (4, 1, 2, 3))"
  using recycled_pids_not_bridged [of "sighting sample_proc (4, 1, 2, 3)"
      "(tracker_new 3 1000)\<lparr>st_prev :=
        [(42, \<lparr>pc_start_epoch_s = Some 900, pc_cpu_s = 7, pc_io_bytes = 5\<rparr>)]\<rparr>" False]
  by (simp add: sighting_def sample_proc_def tracker_new_def STARTUP_WINDOW_S_def)

text \<open>A process of unknown start time, however, continues the counters recorded for its pid.\<close>

lemma unknown_start_bridges:
  "previous_of prev (p\<lparr>pr_start_epoch_s := None\<rparr>) = bt_get prev (pr_pid p)"
  by (simp add: previous_of_def option_filter_def split: option.split)

section \<open>The store keeps the most recent startup\<close>

definition newer_sample :: "impact_sample option \<Rightarrow> impact_sample option \<Rightarrow> impact_sample option" where
  "newer_sample old new =
     (case (old, new) of
        (Some e, Some s) \<Rightarrow> if is_boot_epoch_s e \<le> is_boot_epoch_s s then Some s else Some e
      | (None, Some s) \<Rightarrow> Some s
      | (_, None) \<Rightarrow> old)"

lemma fold_merge_entry:
  assumes "bt_wf (im_entries st)" "distinct (map fst totals)"
  shows "bt_wf (im_entries (fold merge_entry totals st)) \<and>
    bt_get (im_entries (fold merge_entry totals st)) key =
      newer_sample (bt_get (im_entries st) key) (map_of totals key)"
  using assms
proof (induction totals arbitrary: st)
  case Nil
  then show ?case by (simp add: newer_sample_def split: option.split)
next
  case (Cons x totals)
  obtain k v where x: "x = (k, v)" by (cases x)
  have wf: "bt_wf (im_entries (merge_entry x st))"
    using Cons.prems by (simp add: merge_entry_def bt_wf_insert)
  have none: "map_of totals k = None" using Cons.prems x by (simp add: map_of_eq_None_iff)
  have "bt_get (im_entries (merge_entry x st)) key =
      newer_sample (bt_get (im_entries st) key) (if key = k then Some v else None)"
    by (auto simp: x merge_entry_def bt_get_insert newer_sample_def is_none_or_def split: option.splits)
  then show ?case
    using Cons.IH [OF wf] Cons.prems none x
    by (auto simp: newer_sample_def split: option.splits)
qed

text \<open>
  Merging the measurements of a boot keeps, for every image, the sample of the most recent
  boot (the new one on a tie), drops what is not a plausible measurement and touches no other
  image.
\<close>

theorem merge_keeps_most_recent:
  assumes "bt_wf (im_entries st)" and "bt_wf totals"
  shows "store_get (store_merge totals st) key =
      option_filter plausible (newer_sample (store_get st key) (bt_get totals key)) \<and>
    bt_wf (im_entries (store_merge totals st))"
proof -
  have map_of: "map_of totals k = bt_get totals k" for k
    by (induction totals) auto
  show ?thesis
    using fold_merge_entry [OF assms(1) bt.distinct_keys [OF assms(2)]] map_of
    by (simp add: store_merge_def store_get_def Let_def bt_wf_retain bt_get_retain)
qed

definition old_store :: impact_store where
  "old_store = \<lparr>im_entries =
     [(''a'', \<lparr>is_cpu_ms = 5, is_disk_bytes = 1, is_boot_epoch_s = 100\<rparr>),
      (''b'', \<lparr>is_cpu_ms = 6, is_disk_bytes = 1, is_boot_epoch_s = 300\<rparr>)],
     im_path = None, im_dirty = False\<rparr>"

theorem merge_keeps_most_recent_witness:
  "store_get (store_merge [(''a'', \<lparr>is_cpu_ms = 9, is_disk_bytes = 0, is_boot_epoch_s = 200\<rparr>),
      (''b'', \<lparr>is_cpu_ms = 1, is_disk_bytes = 0, is_boot_epoch_s = 200\<rparr>)] old_store) ''a'' =
   Some \<lparr>is_cpu_ms = 9, is_disk_bytes = 0, is_boot_epoch_s = 200\<rparr>"
  using merge_keeps_most_recent [of old_store
      "[(''a'', \<lparr>is_cpu_ms = 9, is_disk_bytes = 0, is_boot_epoch_s = 200\<rparr>),
        (''b'', \<lparr>is_cpu_ms = 1, is_disk_bytes = 0, is_boot_epoch_s = 200\<rparr>)]" "''a''"]
  by (simp add: old_store_def bt_wf_def bt_keys_def newer_sample_def store_get_def plausible_def
      option_filter_def)

text \<open>
  Measurements survive a restart. A store that was saved completely is clean, and opening
  the file gives its entries back; a file that does not parse is set aside, not overwritten.
\<close>

theorem store_save_open:
  assumes "store_parse J (store_text J (im_entries st)) = Some (im_entries st)"
    and "im_dirty st" "im_path st = Some p"
    and "length (replace_file p ''json.tmp'' [store_text J (im_entries st)]) \<le> completed"
  shows "fst (store_save J completed st s) = st\<lparr>im_dirty := False\<rparr> \<and>
    open_store J None rename_ok p (snd (store_save J completed st s)) =
      (st\<lparr>im_dirty := False\<rparr>, snd (store_save J completed st s))"
proof -
  have "CHR ''.'' \<in> set ''json.tmp''" by simp
  from replace_file_complete [OF with_extension_neq [OF this]]
  have "fs_read (fs_run s (replace_file p ''json.tmp'' [store_text J (im_entries st)])) p =
      Some (store_text J (im_entries st))"
    by (simp add: fs_read_def)
  then show ?thesis
    using assms by (simp add: store_save_def open_store_def Let_def)
qed

definition counting_json :: store_json where
  "counting_json = \<lparr>store_text = (\<lambda>es. map (\<lambda>_. 0) es),
     store_parse = (\<lambda>b. if b = [] then Some [] else None)\<rparr>"

theorem store_save_open_witness:
  "open_store counting_json None True config_path
     (snd (store_save counting_json 9 (in_memory\<lparr>im_path := Some config_path, im_dirty := True\<rparr>) (\<lambda>_. None))) =
   (in_memory\<lparr>im_path := Some config_path\<rparr>,
    snd (store_save counting_json 9 (in_memory\<lparr>im_path := Some config_path, im_dirty := True\<rparr>) (\<lambda>_. None)))"
  using store_save_open [of counting_json "in_memory\<lparr>im_path := Some config_path, im_dirty := True\<rparr>"
      config_path 9 "\<lambda>_. None" True]
  by (simp add: counting_json_def in_memory_def replace_file_def Let_def)

end
