(* ===== verification/Demand.thy ===== *)
theory Demand
  imports Prelude
begin

text \<open>
  Telemetry demand (crates/tm-core/src/demand.rs): the bit mask by which the visible
  surface tells the sampling engine which expensive providers it needs.
\<close>

type_synonym telemetry_demand = u64

definition CORE_PROCESS :: telemetry_demand where "CORE_PROCESS = push_bit 0 1"
definition DISK_RATE :: telemetry_demand where "DISK_RATE = push_bit 1 1"
definition NET_ADAPTER_RATE :: telemetry_demand where "NET_ADAPTER_RATE = push_bit 2 1"
definition PROCESS_NET :: telemetry_demand where "PROCESS_NET = push_bit 3 1"
definition GPU_ADAPTER :: telemetry_demand where "GPU_ADAPTER = push_bit 4 1"
definition PROCESS_GPU :: telemetry_demand where "PROCESS_GPU = push_bit 5 1"
definition PROCESS_GPU_MEMORY :: telemetry_demand where "PROCESS_GPU_MEMORY = push_bit 6 1"
definition TOKEN_SECURITY :: telemetry_demand where "TOKEN_SECURITY = push_bit 7 1"
definition CPU_SPEED :: telemetry_demand where "CPU_SPEED = push_bit 8 1"
definition PROCESS_DISK :: telemetry_demand where "PROCESS_DISK = push_bit 9 1"
definition WIFI_DETAILS :: telemetry_demand where "WIFI_DETAILS = push_bit 10 1"

lemmas demand_bits [model_defs] =
  CORE_PROCESS_def DISK_RATE_def NET_ADAPTER_RATE_def PROCESS_NET_def GPU_ADAPTER_def
  PROCESS_GPU_def PROCESS_GPU_MEMORY_def TOKEN_SECURITY_def CPU_SPEED_def PROCESS_DISK_def
  WIFI_DETAILS_def

definition demand_union :: "telemetry_demand \<Rightarrow> telemetry_demand \<Rightarrow> telemetry_demand" where
  "demand_union d e = d OR e"

definition wants :: "telemetry_demand \<Rightarrow> telemetry_demand \<Rightarrow> bool" where
  "wants d e = (d AND e \<noteq> 0)"

definition any_gpu :: "telemetry_demand \<Rightarrow> bool" where
  "any_gpu d = (wants d GPU_ADAPTER \<or> wants d PROCESS_GPU \<or> wants d PROCESS_GPU_MEMORY)"

definition demand_core :: telemetry_demand where
  "demand_core = demand_union (demand_union CORE_PROCESS NET_ADAPTER_RATE) TOKEN_SECURITY"

definition demand_hidden :: telemetry_demand where
  "demand_hidden = CORE_PROCESS"

definition demand_all :: telemetry_demand where
  "demand_all =
     demand_union (demand_union (demand_union (demand_union (demand_union (demand_union
       (demand_union demand_core DISK_RATE) PROCESS_NET) GPU_ADAPTER) PROCESS_GPU)
       PROCESS_GPU_MEMORY) CPU_SPEED) PROCESS_DISK"

section \<open>Demand as a set of bits\<close>

text \<open>The abstraction: a demand is the set of the bits it holds.\<close>

definition demand_set :: "telemetry_demand \<Rightarrow> nat set" where
  "demand_set d = {n. bit d n}"

lemma demand_set_union: "demand_set (demand_union d e) = demand_set d \<union> demand_set e"
  by (auto simp: demand_set_def demand_union_def bit_or_iff)

lemma wants_iff_meet: "wants d e \<longleftrightarrow> demand_set d \<inter> demand_set e \<noteq> {}"
proof -
  have "wants d e \<longleftrightarrow> (\<exists>n. bit (d AND e) n)"
  proof
    assume "wants d e"
    then have "\<not> (\<forall>n. \<not> bit (d AND e) n)"
      by (auto simp: wants_def bit_eq_iff)
    then show "\<exists>n. bit (d AND e) n" by blast
  qed (auto simp: wants_def)
  then show ?thesis
    by (auto simp: demand_set_def bit_and_iff)
qed

lemma wants_union:
  "wants (demand_union d e) f \<longleftrightarrow> wants d f \<or> wants e f"
  "wants d (demand_union e f) \<longleftrightarrow> wants d e \<or> wants d f"
  by (auto simp: wants_iff_meet demand_set_union)

text \<open>The declared providers, and the ones a diagnostic run may switch on.\<close>

definition declared_bits :: "telemetry_demand list" where
  "declared_bits = [CORE_PROCESS, DISK_RATE, NET_ADAPTER_RATE, PROCESS_NET, GPU_ADAPTER,
     PROCESS_GPU, PROCESS_GPU_MEMORY, TOKEN_SECURITY, CPU_SPEED, PROCESS_DISK, WIFI_DETAILS]"

lemma demand_set_push_bit: "n < 64 \<Longrightarrow> demand_set (push_bit n 1) = {n}"
  by (auto simp: demand_set_def bit_push_bit_iff bit_1_iff simp del: push_bit_of_1)

lemma demand_set_declared:
  "demand_set CORE_PROCESS = {0}" "demand_set DISK_RATE = {1}"
  "demand_set NET_ADAPTER_RATE = {2}" "demand_set PROCESS_NET = {3}"
  "demand_set GPU_ADAPTER = {4}" "demand_set PROCESS_GPU = {5}"
  "demand_set PROCESS_GPU_MEMORY = {6}" "demand_set TOKEN_SECURITY = {7}"
  "demand_set CPU_SPEED = {8}" "demand_set PROCESS_DISK = {9}"
  "demand_set WIFI_DETAILS = {10}"
  unfolding demand_bits by (rule demand_set_push_bit, simp)+

lemma demand_set_profiles:
  "demand_set demand_hidden = {0}"
  "demand_set demand_core = {0, 2, 7}"
  "demand_set demand_all = {0, 1, 2, 3, 4, 5, 6, 7, 8, 9}"
  by (auto simp: demand_hidden_def demand_core_def demand_all_def demand_set_union
      demand_set_declared)

text \<open>
  Merging demands loses and adds nothing: the union of what several consumers ask for is
  asked of a provider exactly when one of them asked for it, in any order and however often;
  no profile of the program ever asks for the location-gated Wi-Fi provider, and the
  diagnostic profile asks for every other declared one.
\<close>

theorem demand_profiles:
  "(\<forall>d e f. wants (demand_union d e) f \<longleftrightarrow> wants d f \<or> wants e f) \<and>
   filter (wants demand_hidden) declared_bits = [CORE_PROCESS] \<and>
   filter (wants demand_core) declared_bits = [CORE_PROCESS, NET_ADAPTER_RATE, TOKEN_SECURITY] \<and>
   filter (wants demand_all) declared_bits = butlast declared_bits \<and>
   last declared_bits = WIFI_DETAILS \<and> distinct (map demand_set declared_bits)"
  by (intro conjI, simp add: wants_union)
     (simp_all add: declared_bits_def wants_iff_meet demand_set_declared demand_set_profiles)

end
