(* ===== verification/Engine.thy ===== *)
theory Engine
  imports Demand Errors
begin

text \<open>
  The sampling engine (crates/tm-core/src/engine.rs): the thread that owns the platform
  collector, publishes snapshots at a cadence and answers control commands. The collector
  is the trait \<open>SystemCollector\<close>, given here as a record of its operations; the clock
  readings an iteration takes and the outcome of its \<open>recv_timeout\<close> are its inputs.
  Times are milliseconds.
\<close>

section \<open>State\<close>

record ('c, 's) collector_ops =
  op_sample :: "'c \<Rightarrow> nat \<Rightarrow> 'c \<times> (tm_error + 's)"
  op_set_demand :: "'c \<Rightarrow> telemetry_demand \<Rightarrow> 'c"
  op_set_background :: "'c \<Rightarrow> bool \<Rightarrow> 'c"

datatype engine_cmd =
    Start
  | SetDemand telemetry_demand
  | SetBackground bool
  | SetInterval nat
  | Pause
  | Resume
  | Refresh
  | SampleNow
  | Shutdown

datatype engine_state = NotStarted | Starting | Running | Paused | Stopped

text \<open>
  \<open>published\<close> is the history of the \<open>latest\<close> slot and \<open>notified\<close> counts the calls
  of the notifier: neither is stored by the program, both are what it shows outside.
\<close>

record 's shared =
  latest :: "'s option"
  sh_state :: engine_state
  sh_interval :: nat
  tick_count :: u64
  published :: "'s list"
  notified :: nat

record tick_health =
  failures :: nat
  last_report :: "nat option"

definition new_health :: tick_health where
  "new_health = \<lparr>failures = 0, last_report = None\<rparr>"

definition notify :: "'s shared \<Rightarrow> 's shared" where
  "notify sh = sh\<lparr>notified := Suc (notified sh)\<rparr>"

definition initial_shared :: "nat \<Rightarrow> bool \<Rightarrow> 's shared" where
  "initial_shared interval start_immediately =
     \<lparr>latest = None, sh_state = (if start_immediately then Starting else NotStarted),
      sh_interval = interval, tick_count = 0, published = [], notified = 0\<rparr>"

section \<open>Sampling\<close>

text \<open>\<open>sample_and_publish\<close>: publish into the slot, advance the generation, notify.\<close>

definition sample_and_publish ::
    "('c, 's) collector_ops \<Rightarrow> 'c \<Rightarrow> 's shared \<Rightarrow> nat \<Rightarrow> 'c \<times> 's shared \<times> (tm_error + 's)" where
  "sample_and_publish ops c sh started =
     (case op_sample ops c started of
        (c', Inl e) \<Rightarrow> (c', sh, Inl e)
      | (c', Inr snap) \<Rightarrow>
          (c', notify (sh\<lparr>latest := Some snap, tick_count := tick_count sh + 1,
                 published := published sh @ [snap]\<rparr>), Inr snap))"

text \<open>The clock readings of one call of \<open>TickHealth::sample\<close>.\<close>

record tick_clock =
  tk_last :: nat
  tk_started :: nat
  tk_elapsed :: nat
  tk_reported :: nat

text \<open>
  \<open>TickHealth::sample\<close>. An unsupported platform parks the engine; any other failure keeps
  the previous snapshot and is reported at most every 30 seconds (the flag says whether the
  warning was logged).
\<close>

definition health_sample ::
    "('c, 's) collector_ops \<Rightarrow> tick_clock \<Rightarrow> tick_health \<Rightarrow> 'c \<Rightarrow> 's shared \<Rightarrow>
     tick_health \<times> 'c \<times> 's shared \<times> 's option \<times> bool" where
  "health_sample ops tk h c sh =
     (case sample_and_publish ops c sh (tk_started tk) of
        (c', sh', Inr snap) \<Rightarrow>
          (h\<lparr>failures := 0, last_report := None\<rparr>, c', sh', Some snap, False)
      | (c', sh', Inl (Unsupported _)) \<Rightarrow>
          (h, c', notify (sh'\<lparr>sh_state := Paused\<rparr>), None, False)
      | (c', sh', Inl e) \<Rightarrow>
          (let h1 = h\<lparr>failures := Suc (failures h)\<rparr>;
               due = is_none_or (last_report h1) (\<lambda>at. 30000 \<le> tk_elapsed tk - at)
           in (if due then h1\<lparr>last_report := Some (tk_reported tk)\<rparr> else h1,
               c', sh', None, due)))"

section \<open>Before the collector exists\<close>

record parked =
  pending_demand :: "telemetry_demand option"
  pending_background :: "bool option"
  pending_paused :: bool

definition new_parked :: parked where
  "new_parked = \<lparr>pending_demand = None, pending_background = None, pending_paused = False\<rparr>"

datatype recv = Received engine_cmd | SenderGone

datatype 's park_result =
    StillParked parked "'s shared"
  | Begin parked "'s shared"
  | Abandoned "'s shared"

fun parked_step :: "parked \<Rightarrow> 's shared \<Rightarrow> recv \<Rightarrow> 's park_result" where
  "parked_step p sh (Received Start) = Begin p sh"
| "parked_step p sh (Received (SetDemand d)) = StillParked (p\<lparr>pending_demand := Some d\<rparr>) sh"
| "parked_step p sh (Received (SetBackground b)) =
     StillParked (p\<lparr>pending_background := Some b\<rparr>) sh"
| "parked_step p sh (Received (SetInterval i)) = StillParked p (sh\<lparr>sh_interval := i\<rparr>)"
| "parked_step p sh (Received Shutdown) = Abandoned (notify (sh\<lparr>sh_state := Stopped\<rparr>))"
| "parked_step p sh (Received Pause) = StillParked (p\<lparr>pending_paused := True\<rparr>) sh"
| "parked_step p sh (Received Resume) = StillParked (p\<lparr>pending_paused := False\<rparr>) sh"
| "parked_step p sh (Received Refresh) = StillParked p sh"
| "parked_step p sh (Received SampleNow) = StillParked p sh"
| "parked_step p sh SenderGone = Abandoned (sh\<lparr>sh_state := Stopped\<rparr>)"

fun park_run :: "parked \<Rightarrow> 's shared \<Rightarrow> recv list \<Rightarrow> 's park_result" where
  "park_run p sh [] = StillParked p sh"
| "park_run p sh (r # rs) =
     (case parked_step p sh r of
        StillParked p' sh' \<Rightarrow> park_run p' sh' rs
      | res \<Rightarrow> res)"

section \<open>The sampling loop\<close>

record ('c, 's) engine =
  coll :: 'c
  health :: tick_health
  shared :: "'s shared"
  last_tick :: nat
  next_due :: nat
  replies :: "'s list"
  sample_calls :: nat

text \<open>What happens between the factory returning and the first iteration.\<close>

definition begin_running ::
    "('c, 's) collector_ops \<Rightarrow> tick_clock \<Rightarrow> nat \<Rightarrow> 'c \<Rightarrow> parked \<Rightarrow> 's shared \<Rightarrow> ('c, 's) engine" where
  "begin_running ops tk now c p sh =
     (let c1 = (case pending_demand p of None \<Rightarrow> c | Some d \<Rightarrow> op_set_demand ops c d);
          c2 = (case pending_background p of None \<Rightarrow> c1 | Some b \<Rightarrow> op_set_background ops c1 b);
          sh1 = notify (sh\<lparr>sh_state := Running\<rparr>)
      in if pending_paused p then
           (case health_sample ops tk new_health c2 sh1 of
              (h, c3, sh2, _) \<Rightarrow>
                \<lparr>coll = c3, health = h, shared = notify (sh2\<lparr>sh_state := Paused\<rparr>),
                 last_tick = now, next_due = now, replies = [], sample_calls = 1\<rparr>)
         else
           \<lparr>coll = c2, health = new_health, shared = sh1, last_tick = now, next_due = now,
            replies = [], sample_calls = 0\<rparr>)"

text \<open>The readings of one iteration.\<close>

record iter_clock =
  ck_check :: nat
  ck_tick :: tick_clock
  ck_wait :: nat
  ck_cmd :: tick_clock

text \<open>The sampling step shared by the cadence tick, \<open>Refresh\<close> and \<open>SampleNow\<close>.\<close>

definition take_sample ::
    "('c, 's) collector_ops \<Rightarrow> tick_clock \<Rightarrow> ('c, 's) engine \<Rightarrow> ('c, 's) engine \<times> 's option" where
  "take_sample ops tk e =
     (case health_sample ops tk (health e) (coll e) (shared e) of
        (h, c, sh, snap, _) \<Rightarrow>
          (e\<lparr>coll := c, health := h, shared := sh, last_tick := tk_last tk,
             next_due := tk_last tk + sh_interval sh, sample_calls := Suc (sample_calls e)\<rparr>, snap))"

definition tick_due :: "iter_clock \<Rightarrow> ('c, 's) engine \<Rightarrow> bool" where
  "tick_due ck e = (sh_state (shared e) = Running \<and> next_due e \<le> ck_check ck)"

definition loop_top ::
    "('c, 's) collector_ops \<Rightarrow> iter_clock \<Rightarrow> ('c, 's) engine \<Rightarrow> ('c, 's) engine" where
  "loop_top ops ck e = (if tick_due ck e then fst (take_sample ops (ck_tick ck) e) else e)"

definition loop_wait :: "iter_clock \<Rightarrow> ('c, 's) engine \<Rightarrow> nat" where
  "loop_wait ck e =
     (if sh_state (shared e) = Running then max (next_due e - ck_wait ck) 5 else 3600000)"

datatype recv_timeout = Got engine_cmd | TimedOut | Disconnected

datatype ('c, 's) flow = Continue "('c, 's) engine" | Exit "('c, 's) engine"

definition set_state :: "engine_state \<Rightarrow> ('c, 's) engine \<Rightarrow> ('c, 's) engine" where
  "set_state st e = e\<lparr>shared := notify ((shared e)\<lparr>sh_state := st\<rparr>)\<rparr>"

fun loop_event ::
    "('c, 's) collector_ops \<Rightarrow> iter_clock \<Rightarrow> ('c, 's) engine \<Rightarrow> recv_timeout \<Rightarrow> ('c, 's) flow" where
  "loop_event ops ck e (Got (SetInterval i)) =
     Continue (e\<lparr>shared := (shared e)\<lparr>sh_interval := i\<rparr>, next_due := last_tick e + i\<rparr>)"
| "loop_event ops ck e (Got (SetDemand d)) = Continue (e\<lparr>coll := op_set_demand ops (coll e) d\<rparr>)"
| "loop_event ops ck e (Got (SetBackground b)) =
     Continue (e\<lparr>coll := op_set_background ops (coll e) b\<rparr>)"
| "loop_event ops ck e (Got Pause) = Continue (set_state Paused e)"
| "loop_event ops ck e (Got Resume) =
     Continue (if sh_state (shared e) \<noteq> Running
       then (set_state Running e)\<lparr>next_due := tk_last (ck_cmd ck)\<rparr> else e)"
| "loop_event ops ck e (Got Start) = Continue e"
| "loop_event ops ck e (Got Refresh) = Continue (fst (take_sample ops (ck_cmd ck) e))"
| "loop_event ops ck e (Got SampleNow) =
     (case take_sample ops (ck_cmd ck) e of
        (e', Some snap) \<Rightarrow> Continue (e'\<lparr>replies := replies e' @ [snap]\<rparr>)
      | (e', None) \<Rightarrow> Continue e')"
| "loop_event ops ck e (Got Shutdown) = Exit (set_state Stopped e)"
| "loop_event ops ck e TimedOut = Continue e"
| "loop_event ops ck e Disconnected = Exit (set_state Stopped e)"

definition loop_iter ::
    "('c, 's) collector_ops \<Rightarrow> ('c, 's) engine \<Rightarrow> iter_clock \<times> recv_timeout \<Rightarrow> ('c, 's) flow" where
  "loop_iter ops e inp = loop_event ops (fst inp) (loop_top ops (fst inp) e) (snd inp)"

fun engine_run ::
    "('c, 's) collector_ops \<Rightarrow> ('c, 's) engine \<Rightarrow> (iter_clock \<times> recv_timeout) list \<Rightarrow> ('c, 's) flow" where
  "engine_run ops e [] = Continue e"
| "engine_run ops e (i # is) =
     (case loop_iter ops e i of Continue e' \<Rightarrow> engine_run ops e' is | Exit e' \<Rightarrow> Exit e')"

text \<open>The handle writes the interval directly, before it sends the command.\<close>

definition handle_set_interval :: "nat \<Rightarrow> ('c, 's) engine \<Rightarrow> ('c, 's) engine" where
  "handle_set_interval i e = e\<lparr>shared := (shared e)\<lparr>sh_interval := i\<rparr>\<rparr>"

fun flow_engine :: "('c, 's) flow \<Rightarrow> ('c, 's) engine" where
  "flow_engine (Continue e) = e"
| "flow_engine (Exit e) = e"

section \<open>One call of the collector\<close>

lemma health_sample_frame:
  assumes "health_sample ops tk h c sh = (h', c', sh', snap, rep)"
  shows "sh_interval sh' = sh_interval sh"
    and "sh_state sh' \<noteq> sh_state sh \<Longrightarrow> sh_state sh' = Paused"
    and "published sh' = published sh @ (case snap of None \<Rightarrow> [] | Some s \<Rightarrow> [s])"
    and "latest sh' = (case snap of None \<Rightarrow> latest sh | Some s \<Rightarrow> Some s)"
    and "tick_count sh' = tick_count sh + (if snap = None then 0 else 1)"
  using assms
  by (auto simp: health_sample_def sample_and_publish_def notify_def Let_def
      split: prod.splits sum.splits tm_error.splits if_splits)

text \<open>
  The generation counter, the latest slot and the history of publications agree.
\<close>

definition pub_inv :: "'s shared \<Rightarrow> bool" where
  "pub_inv sh \<longleftrightarrow>
     tick_count sh = of_nat (length (published sh)) \<and> latest sh = last_opt (published sh)"

lemma pub_inv_notify [simp]: "pub_inv (notify sh) = pub_inv sh"
  by (simp add: pub_inv_def notify_def)

lemma pub_inv_updates [simp]:
  "pub_inv (sh\<lparr>sh_state := st\<rparr>) = pub_inv sh"
  "pub_inv (sh\<lparr>sh_interval := i\<rparr>) = pub_inv sh"
  by (simp_all add: pub_inv_def)

lemma pub_inv_health_sample:
  assumes "health_sample ops tk h c sh = (h', c', sh', snap, rep)" and "pub_inv sh"
  shows "pub_inv sh'"
  using health_sample_frame(3,4,5) [OF assms(1)] assms(2)
  by (cases snap) (simp_all add: pub_inv_def last_opt_def)

section \<open>One iteration\<close>

lemma take_sample_fields:
  assumes "take_sample ops tk e = (e', snap)"
  shows "sample_calls e' = Suc (sample_calls e)"
    and "last_tick e' = tk_last tk"
    and "next_due e' = tk_last tk + sh_interval (shared e)"
    and "sh_interval (shared e') = sh_interval (shared e)"
    and "sh_state (shared e') = sh_state (shared e) \<or> sh_state (shared e') = Paused"
    and "published (shared e') = published (shared e) @ (case snap of None \<Rightarrow> [] | Some s \<Rightarrow> [s])"
    and "replies e' = replies e"
    and "pub_inv (shared e) \<Longrightarrow> pub_inv (shared e')"
  using assms
  by (auto simp: take_sample_def health_sample_frame split: prod.splits
      dest: health_sample_frame(2) pub_inv_health_sample)

lemmas fst_take_sample_fields = take_sample_fields [OF surjective_pairing]

lemma set_state_fields [simp]:
  "sample_calls (set_state st e) = sample_calls e"
  "published (shared (set_state st e)) = published (shared e)"
  "pub_inv (shared (set_state st e)) = pub_inv (shared e)"
  "sh_state (shared (set_state st e)) = st"
  "sh_interval (shared (set_state st e)) = sh_interval (shared e)"
  "next_due (set_state st e) = next_due e"
  "replies (set_state st e) = replies e"
  by (simp_all add: set_state_def notify_def pub_inv_def)

lemma loop_top_pub_inv: "pub_inv (shared e) \<Longrightarrow> pub_inv (shared (loop_top ops ck e))"
  by (simp add: loop_top_def fst_take_sample_fields)

lemma loop_top_published: "\<exists>xs. published (shared (loop_top ops ck e)) = published (shared e) @ xs"
  by (auto simp: loop_top_def fst_take_sample_fields)

lemma loop_top_replies [simp]: "replies (loop_top ops ck e) = replies e"
  by (simp add: loop_top_def fst_take_sample_fields)

lemma loop_event_pub:
  assumes "pub_inv (shared e)"
  shows "pub_inv (shared (flow_engine (loop_event ops ck e ev)))"
  using assms
  by (induction ops ck e ev rule: loop_event.induct)
    (auto simp: fst_take_sample_fields take_sample_fields split: prod.splits option.splits)

lemma loop_event_published:
  "\<exists>xs. published (shared (flow_engine (loop_event ops ck e ev))) = published (shared e) @ xs"
  by (induction ops ck e ev rule: loop_event.induct)
    (auto simp: fst_take_sample_fields take_sample_fields split: prod.splits option.splits)

lemma loop_event_replies:
  assumes "set (replies e) \<subseteq> set (published (shared e))"
  shows "set (replies (flow_engine (loop_event ops ck e ev)))
     \<subseteq> set (published (shared (flow_engine (loop_event ops ck e ev))))"
  using assms
  by (induction ops ck e ev rule: loop_event.induct)
    (auto simp: fst_take_sample_fields take_sample_fields split: prod.splits option.splits)

text \<open>The invariant of a run: the slot is consistent and every reply was published.\<close>

definition engine_inv :: "('c, 's) engine \<Rightarrow> bool" where
  "engine_inv e \<longleftrightarrow> pub_inv (shared e) \<and> set (replies e) \<subseteq> set (published (shared e))"

lemma engine_inv_iter: "engine_inv e \<Longrightarrow> engine_inv (flow_engine (loop_iter ops e i))"
proof -
  assume inv: "engine_inv e"
  obtain xs where "published (shared (loop_top ops (fst i) e)) = published (shared e) @ xs"
    using loop_top_published by blast
  with inv show ?thesis
    unfolding loop_iter_def engine_inv_def
    by (intro conjI loop_event_pub loop_event_replies loop_top_pub_inv) auto
qed

lemma engine_inv_run: "engine_inv e \<Longrightarrow> engine_inv (flow_engine (engine_run ops e is))"
proof (induction "is" arbitrary: e)
  case Nil
  then show ?case by simp
next
  case (Cons i "is")
  from engine_inv_iter [OF Cons.prems, of ops i] Cons.IH show ?case
    by (cases "loop_iter ops e i") auto
qed

lemma engine_inv_begin:
  assumes "pub_inv sh"
  shows "engine_inv (begin_running ops tk now c p sh)"
  using assms
  by (auto simp: begin_running_def engine_inv_def Let_def split: prod.splits
      dest: pub_inv_health_sample)

lemma pub_inv_initial: "pub_inv (initial_shared i b)"
  by (simp add: pub_inv_def initial_shared_def last_opt_def)

section \<open>Configuration that arrives before the start\<close>

text \<open>The commands that leave the engine parked.\<close>

fun parkable :: "recv \<Rightarrow> bool" where
  "parkable (Received Start) = False"
| "parkable (Received Shutdown) = False"
| "parkable SenderGone = False"
| "parkable _ = True"

fun demand_of :: "recv \<Rightarrow> telemetry_demand option" where
  "demand_of (Received (SetDemand d)) = Some d" | "demand_of _ = None"

fun background_of :: "recv \<Rightarrow> bool option" where
  "background_of (Received (SetBackground b)) = Some b" | "background_of _ = None"

fun interval_of :: "recv \<Rightarrow> nat option" where
  "interval_of (Received (SetInterval i)) = Some i" | "interval_of _ = None"

fun pause_of :: "recv \<Rightarrow> bool option" where
  "pause_of (Received Pause) = Some True"
| "pause_of (Received Resume) = Some False"
| "pause_of _ = None"

text \<open>The value the last command of a kind carried.\<close>

definition latest_of :: "(recv \<Rightarrow> 'a option) \<Rightarrow> recv list \<Rightarrow> 'a option" where
  "latest_of f rs = foldl (\<lambda>acc r. option_or (f r) acc) None rs"

lemma latest_of_snoc [simp]: "latest_of f (rs @ [r]) = option_or (f r) (latest_of f rs)"
  by (simp add: latest_of_def)

lemma latest_of_Nil [simp]: "latest_of f [] = None"
  by (simp add: latest_of_def)

lemma park_run_append:
  "park_run p sh (rs @ ss) =
     (case park_run p sh rs of StillParked p' sh' \<Rightarrow> park_run p' sh' ss | res \<Rightarrow> res)"
proof (induction rs arbitrary: p sh)
  case Nil
  then show ?case by simp
next
  case (Cons r rs)
  then show ?case by (cases "parked_step p sh r") auto
qed

lemma park_run_parkable:
  "list_all parkable rs \<Longrightarrow>
   park_run new_parked sh rs =
     StillParked
       \<lparr>pending_demand = latest_of demand_of rs, pending_background = latest_of background_of rs,
        pending_paused = unwrap_or (latest_of pause_of rs) False\<rparr>
       (sh\<lparr>sh_interval := unwrap_or (latest_of interval_of rs) (sh_interval sh)\<rparr>)"
proof (induction rs rule: rev_induct)
  case Nil
  then show ?case by (simp add: new_parked_def)
next
  case (snoc r rs)
  then have IH: "park_run new_parked sh rs = StillParked
       \<lparr>pending_demand = latest_of demand_of rs, pending_background = latest_of background_of rs,
        pending_paused = unwrap_or (latest_of pause_of rs) False\<rparr>
       (sh\<lparr>sh_interval := unwrap_or (latest_of interval_of rs) (sh_interval sh)\<rparr>)"
    and "parkable r" by auto
  then show ?case
    by (cases "(undefined :: parked, sh, r)" rule: parked_step.cases) (simp_all add: park_run_append)
qed

section \<open>The cadence\<close>

text \<open>Events that neither ask for a sample nor move the cadence.\<close>

fun neutral :: "recv_timeout \<Rightarrow> bool" where
  "neutral TimedOut = True"
| "neutral (Got (SetDemand _)) = True"
| "neutral (Got (SetBackground _)) = True"
| "neutral (Got Start) = True"
| "neutral (Got Pause) = True"
| "neutral _ = False"

text \<open>The times at which cadence ticks begin in a run.\<close>

fun cadence_ticks ::
    "('c, 's) collector_ops \<Rightarrow> ('c, 's) engine \<Rightarrow> (iter_clock \<times> recv_timeout) list \<Rightarrow> nat list" where
  "cadence_ticks ops e [] = []"
| "cadence_ticks ops e (i # is) =
     (if tick_due (fst i) e then [tk_last (ck_tick (fst i))] else []) @
     (case loop_iter ops e i of Continue e' \<Rightarrow> cadence_ticks ops e' is | Exit _ \<Rightarrow> [])"

lemma neutral_event:
  assumes "neutral ev" and "loop_event ops ck e ev = Continue e'"
  shows "sh_interval (shared e') = sh_interval (shared e) \<and> next_due e' = next_due e"
  using assms
proof (cases ev)
  case (Got c)
  with assms show ?thesis by (cases c) auto
qed auto

lemma loop_top_cadence:
  "sh_interval (shared (loop_top ops ck e)) = sh_interval (shared e)"
  "next_due (loop_top ops ck e) =
     (if tick_due ck e then tk_last (ck_tick ck) + sh_interval (shared e) else next_due e)"
  by (simp_all add: loop_top_def fst_take_sample_fields)

lemma neutral_iter:
  assumes "neutral ev" and "loop_iter ops e (ck, ev) = Continue e'"
  shows "sh_interval (shared e') = sh_interval (shared e)"
    and "next_due e' = (if tick_due ck e then tk_last (ck_tick ck) + sh_interval (shared e)
           else next_due e)"
  using neutral_event [OF assms(1), of ops ck "loop_top ops ck e" e'] assms(2)
  by (simp_all add: loop_iter_def loop_top_cadence)

lemma cadence_ticks_spaced:
  assumes "list_all (\<lambda>(ck, ev). ck_check ck \<le> tk_last (ck_tick ck) \<and> neutral ev) ins"
  shows "sorted_wrt (\<lambda>a b. a + sh_interval (shared e) \<le> b) (cadence_ticks ops e ins) \<and>
    (\<forall>t\<in>set (cadence_ticks ops e ins). next_due e \<le> t)"
  using assms
proof (induction ins arbitrary: e)
  case Nil
  then show ?case by simp
next
  case (Cons i ins)
  obtain ck ev where i: "i = (ck, ev)" by (cases i)
  from Cons.prems i have clk: "ck_check ck \<le> tk_last (ck_tick ck)" and ev: "neutral ev"
    and rest: "list_all (\<lambda>(ck, ev). ck_check ck \<le> tk_last (ck_tick ck) \<and> neutral ev) ins"
    by auto
  show ?case
  proof (cases "loop_iter ops e i")
    case (Exit e')
    with i clk show ?thesis by (auto simp: tick_due_def)
  next
    case (Continue e')
    with i ev have e': "sh_interval (shared e') = sh_interval (shared e)"
      "next_due e' = (if tick_due ck e then tk_last (ck_tick ck) + sh_interval (shared e)
         else next_due e)"
      by (auto dest: neutral_iter)
    show ?thesis
      using Cons.IH [OF rest, of e'] Continue i e' clk
      by (auto simp: tick_due_def)
  qed
qed

section \<open>Collectors that support the platform\<close>

text \<open>
  The contract of a collector built for the running platform: it may fail, but never
  reports the platform as unsupported. Under it only the user pauses the engine.
\<close>

locale supported_collector =
  fixes ops :: "('c, 's) collector_ops"
  assumes supported: "snd (op_sample ops c t) \<noteq> Inl (Unsupported what)"
begin

lemma health_sample_state:
  "health_sample ops tk h c sh = (h', c', sh', snap, rep) \<Longrightarrow> sh_state sh' = sh_state sh"
  using supported [of c "tk_started tk"]
  by (auto simp: health_sample_def sample_and_publish_def notify_def Let_def
      split: prod.splits sum.splits tm_error.splits if_splits)

lemma take_sample_state: "sh_state (shared (fst (take_sample ops tk e))) = sh_state (shared e)"
  by (auto simp: take_sample_def split: prod.splits dest: health_sample_state)

lemma loop_top_state: "sh_state (shared (loop_top ops ck e)) = sh_state (shared e)"
  by (simp add: loop_top_def take_sample_state)

lemma loop_event_state:
  assumes "ev \<notin> {Got Pause, Got Shutdown, Disconnected}" and "sh_state (shared e) = Running"
  shows "\<exists>e'. loop_event ops ck e ev = Continue e' \<and> sh_state (shared e') = Running"
proof (cases ev)
  case (Got c)
  have "sh_state (shared e') = Running"
    if "take_sample ops (ck_cmd ck) e = (e', snap)" for e' snap
    using that take_sample_state [of "ck_cmd ck" e] assms(2) by simp
  with Got assms take_sample_state [of "ck_cmd ck" e] show ?thesis
    by (cases c) (auto split: prod.splits option.splits)
qed (use assms in auto)

lemma stays_running:
  assumes "list_all (\<lambda>i. snd i \<notin> {Got Pause, Got Shutdown, Disconnected}) ins"
    and "sh_state (shared e) = Running"
  shows "\<exists>e'. engine_run ops e ins = Continue e' \<and> sh_state (shared e') = Running"
  using assms
proof (induction ins arbitrary: e)
  case Nil
  then show ?case by simp
next
  case (Cons i ins)
  then obtain e' where "loop_iter ops e i = Continue e'" "sh_state (shared e') = Running"
    using loop_event_state [of "snd i" "loop_top ops (fst i) e" "fst i"]
    by (auto simp: loop_iter_def loop_top_state)
  with Cons show ?case by auto
qed

end

text \<open>
  The deterministic collector of crates/tm-core/src/mock.rs: every sample advances the seed
  (wrapping) and is the fixture snapshot of the new seed. The fixture itself is a parameter.
\<close>

definition mock_collector :: "(u32 \<Rightarrow> 's) \<Rightarrow> (u32, 's) collector_ops" where
  "mock_collector snapshot =
     \<lparr>op_sample = (\<lambda>seed now. (seed + 1, Inr (snapshot (seed + 1)))),
      op_set_demand = (\<lambda>seed d. seed), op_set_background = (\<lambda>seed b. seed)\<rparr>"

interpretation mock: supported_collector "mock_collector snapshot" for snapshot
  by unfold_locales (simp add: mock_collector_def)

section \<open>Properties\<close>

definition sample_tick :: "nat \<Rightarrow> tick_clock" where
  "sample_tick t = \<lparr>tk_last = t, tk_started = t, tk_elapsed = t, tk_reported = t\<rparr>"

definition sample_iter :: "nat \<Rightarrow> iter_clock" where
  "sample_iter t = \<lparr>ck_check = t, ck_tick = sample_tick t, ck_wait = t, ck_cmd = sample_tick t\<rparr>"

definition sample_engine :: "(u32, u32) engine" where
  "sample_engine = begin_running (mock_collector id) (sample_tick 0) 0 0 new_parked
     (initial_shared 1000 True)"

lemmas sample_defs = sample_tick_def sample_iter_def sample_engine_def begin_running_def
  mock_collector_def new_parked_def initial_shared_def notify_def

text \<open>A collector that also writes down what it is told and asked, in order.\<close>

datatype collector_call = ToldDemand telemetry_demand | ToldBackground bool | AskedSample

definition recorded :: "('c, 's) collector_ops \<Rightarrow> ('c \<times> collector_call list, 's) collector_ops" where
  "recorded ops =
     \<lparr>op_sample = (\<lambda>(c, calls) now. case op_sample ops c now of (c', res) \<Rightarrow> ((c', calls @ [AskedSample]), res)),
      op_set_demand = (\<lambda>(c, calls) d. (op_set_demand ops c d, calls @ [ToldDemand d])),
      op_set_background = (\<lambda>(c, calls) b. (op_set_background ops c b, calls @ [ToldBackground b]))\<rparr>"

lemma recorded_calls:
  "snd (op_set_demand (recorded ops) c d) = snd c @ [ToldDemand d]"
  "snd (op_set_background (recorded ops) c b) = snd c @ [ToldBackground b]"
  "snd (fst (op_sample (recorded ops) c now)) = snd c @ [AskedSample]"
  by (simp_all add: recorded_def split: prod.split)

lemma health_sample_asks:
  "health_sample (recorded ops) tk h c sh = (h', c', rest) \<Longrightarrow> snd c' = snd c @ [AskedSample]"
  using recorded_calls(3) [of ops c "tk_started tk"]
  by (auto simp: health_sample_def sample_and_publish_def Let_def
      split: prod.splits sum.splits tm_error.splits)

lemma health_sample_interval:
  "health_sample ops tk h c sh = (h', c', sh', rest) \<Longrightarrow> sh_interval sh' = sh_interval sh"
  by (auto simp: health_sample_def sample_and_publish_def notify_def Let_def
      split: prod.splits sum.splits tm_error.splits)

text \<open>What a collector is told and asked when the engine begins.\<close>

definition beginning_calls :: "recv list \<Rightarrow> collector_call list" where
  "beginning_calls rs =
     (case latest_of demand_of rs of None \<Rightarrow> [] | Some d \<Rightarrow> [ToldDemand d]) @
     (case latest_of background_of rs of None \<Rightarrow> [] | Some b \<Rightarrow> [ToldBackground b]) @
     (if latest_of pause_of rs = Some True then [AskedSample] else [])"

text \<open>
  C30: Configuration sent while the engine is parked survives its start. Whatever commands arrive
  before \<open>Start\<close>, and whatever the collector does, when the engine begins it has told the
  collector the last demand and the last visibility that were sent, each once and nothing else; the last
  interval is in force; and it begins paused, after one sample taken under that configuration, exactly
  when the last of the pause and resume commands was a pause, and otherwise runs without having sampled.
\<close>

theorem parked_configuration_survives:
  assumes "list_all parkable rs"
  shows "\<exists>p sh'. park_run new_parked sh (rs @ [Received Start]) = Begin p sh' \<and>
    snd (coll (begin_running (recorded ops) tk now (c, []) p sh')) = beginning_calls rs \<and>
    sh_interval (shared (begin_running (recorded ops) tk now (c, []) p sh')) =
      unwrap_or (latest_of interval_of rs) (sh_interval sh) \<and>
    sh_state (shared (begin_running (recorded ops) tk now (c, []) p sh')) =
      (if latest_of pause_of rs = Some True then Paused else Running)"
proof -
  let ?p = "\<lparr>pending_demand = latest_of demand_of rs, pending_background = latest_of background_of rs,
      pending_paused = unwrap_or (latest_of pause_of rs) False\<rparr>"
  let ?sh = "sh\<lparr>sh_interval := unwrap_or (latest_of interval_of rs) (sh_interval sh)\<rparr>"
  have run: "park_run new_parked sh (rs @ [Received Start]) = Begin ?p ?sh"
    by (simp add: park_run_append park_run_parkable [OF assms])
  have paused: "unwrap_or (latest_of pause_of rs) False \<longleftrightarrow> latest_of pause_of rs = Some True"
    by (cases "latest_of pause_of rs") auto
  let ?e = "begin_running (recorded ops) tk now (c, []) ?p ?sh"
  have "snd (coll ?e) = beginning_calls rs"
    unfolding begin_running_def beginning_calls_def Let_def
    by (auto simp: paused recorded_calls dest!: health_sample_asks split: option.split prod.split)
  moreover have "sh_interval (shared ?e) = unwrap_or (latest_of interval_of rs) (sh_interval sh)"
    unfolding begin_running_def Let_def
    by (auto simp: notify_def dest!: health_sample_interval split: prod.split)
  moreover have "sh_state (shared ?e) = (if latest_of pause_of rs = Some True then Paused else Running)"
    unfolding begin_running_def Let_def by (auto simp: notify_def paused split: prod.split)
  ultimately show ?thesis using run by blast
qed

theorem parked_configuration_survives_witness:
  "\<exists>p sh'. park_run new_parked (initial_shared 1000 False :: u32 shared)
     ([Received (SetDemand 3), Received Pause, Received (SetDemand 5), Received Refresh] @ [Received Start]) =
       Begin p sh' \<and>
     snd (coll (begin_running (recorded (mock_collector id)) (sample_tick 0) 0 (0, []) p sh')) =
       [ToldDemand 5, AskedSample]"
  using parked_configuration_survives [of "[Received (SetDemand 3), Received Pause,
      Received (SetDemand 5), Received Refresh]" "initial_shared 1000 False :: u32 shared"
      "mock_collector id" "sample_tick 0" 0 0]
  by (auto simp: latest_of_def beginning_calls_def)

text \<open>
  The engine samples when it should and only then. An iteration of the loop calls the
  collector once if a cadence tick is due (which takes a running engine) and once more if the
  command it receives asks for a sample; no other command, no timeout and no hang-up makes
  it sample.
\<close>

theorem iteration_sample_calls:
  "sample_calls (flow_engine (loop_iter ops e (ck, ev))) =
     sample_calls e + of_bool (tick_due ck e) + of_bool (ev \<in> {Got Refresh, Got SampleNow})"
proof -
  have "sample_calls (flow_engine (loop_event ops ck e' ev)) =
      sample_calls e' + of_bool (ev \<in> {Got Refresh, Got SampleNow})" for e'
    by (induction ops ck e' ev rule: loop_event.induct)
      (auto simp: fst_take_sample_fields take_sample_fields split: prod.splits option.splits)
  then show ?thesis
    by (simp add: loop_iter_def loop_top_def fst_take_sample_fields)
qed

text \<open>
  A refresh of a paused engine takes exactly one sample, leaves it paused and keeps it
  in the loop, whatever the collector answers.
\<close>

theorem refresh_while_paused:
  assumes "sh_state (shared e) = Paused"
  shows "\<exists>e'. loop_iter ops e (ck, Got Refresh) = Continue e' \<and>
    sh_state (shared e') = Paused \<and> sample_calls e' = Suc (sample_calls e)"
  using assms take_sample_fields(5) [OF surjective_pairing, of ops "ck_cmd ck" e]
  by (auto simp: loop_iter_def loop_top_def tick_due_def fst_take_sample_fields)

theorem refresh_while_paused_witness:
  "\<exists>e'. loop_iter (mock_collector id) (set_state Paused sample_engine) (sample_iter 7, Got Refresh)
      = Continue e' \<and>
    sh_state (shared e') = Paused \<and> sample_calls e' = Suc (sample_calls (set_state Paused sample_engine))"
  by (rule refresh_while_paused) simp

text \<open>
  C40: in every state a run can reach, the generation counter is the number of snapshots
  published so far (modulo its 64 bits), the latest slot holds the last of them, and every
  reply to a blocking request is a published snapshot. A failing collector therefore never
  moves the generation nor replaces the last good snapshot.
\<close>

theorem published_generation:
  "engine_inv (flow_engine (engine_run ops
     (begin_running ops tk now c p (initial_shared interval b)) ins))"
  by (intro engine_inv_run engine_inv_begin pub_inv_initial)

text \<open>
  The interval is a cadence, not a gap after the work: in a run without refreshes,
  resumes or interval changes, two consecutive cadence ticks begin at least one interval
  apart, however long the samples and the waits take.
\<close>

theorem cadence_spacing:
  assumes "list_all (\<lambda>(ck, ev). ck_check ck \<le> tk_last (ck_tick ck) \<and> neutral ev) ins"
  shows "sorted_wrt (\<lambda>a b. a + sh_interval (shared e) \<le> b) (cadence_ticks ops e ins)"
  using cadence_ticks_spaced [OF assms] by blast

lemma mock_timeouts_tick:
  "cadence_ticks (mock_collector id) sample_engine
     [(sample_iter 3, TimedOut), (sample_iter 900, TimedOut), (sample_iter 1010, TimedOut)] =
   [3, 1010]"
  by (simp add: sample_defs loop_iter_def loop_top_def tick_due_def take_sample_def
      health_sample_def sample_and_publish_def new_health_def)

theorem cadence_spacing_witness:
  "sorted_wrt (\<lambda>a b. a + 1000 \<le> b) [3, 1010 :: nat]"
proof -
  have "sh_interval (shared sample_engine) = 1000"
    by (simp add: sample_defs)
  with cadence_spacing [of "[(sample_iter 3, TimedOut), (sample_iter 900, TimedOut),
      (sample_iter 1010, TimedOut)]" sample_engine "mock_collector id"]
  show ?thesis
    unfolding mock_timeouts_tick by (simp add: sample_iter_def sample_tick_def)
qed

text \<open>
  With the mock collector, which supports every platform, only a pause, a shutdown or
  the loss of the last handle takes a running engine out of the running state.
\<close>

theorem mock_stays_running:
  assumes "list_all (\<lambda>i. snd i \<notin> {Got Pause, Got Shutdown, Disconnected}) ins"
    and "sh_state (shared e) = Running"
  shows "\<exists>e'. engine_run (mock_collector snapshot) e ins = Continue e' \<and>
    sh_state (shared e') = Running"
  using assms by (rule mock.stays_running)

theorem mock_stays_running_witness:
  "\<exists>e'. engine_run (mock_collector id) sample_engine
      [(sample_iter 3, Got Refresh), (sample_iter 5, TimedOut)] = Continue e' \<and>
    sh_state (shared e') = Running"
  by (rule mock_stays_running) (simp_all add: sample_defs)

end
