(* ===== verification/Selection.thy ===== *)
theory Selection
  imports Prelude
begin

text \<open>
  Multi-row selection of the process tables (crates/tm-app/src/selection.rs): the rows
  taken, the row single-target commands act on, and the anchor of a range.
\<close>

record process_identity =
  pi_pid :: u32
  pi_start_epoch_s :: "int option"

datatype click_kind = Replace | Toggle | Range

record modifiers =
  m_shift :: bool
  m_command :: bool
  m_ctrl :: bool

definition from_modifiers :: "modifiers \<Rightarrow> click_kind" where
  "from_modifiers m =
     (if m_shift m then Range else if m_command m \<or> m_ctrl m then Toggle else Replace)"

record selection =
  items :: "process_identity list"
  primary :: "process_identity option"
  anchor :: "process_identity option"

definition empty_selection :: selection where
  "empty_selection = \<lparr>items = [], primary = None, anchor = None\<rparr>"

definition contains_pid :: "selection \<Rightarrow> u32 \<Rightarrow> bool" where
  "contains_pid s pid = list_ex (\<lambda>i. pi_pid i = pid) (items s)"

definition sel_clear :: "selection \<Rightarrow> selection" where
  "sel_clear s = s\<lparr>items := [], primary := None, anchor := None\<rparr>"

definition select_single :: "process_identity \<Rightarrow> selection \<Rightarrow> selection" where
  "select_single i s = s\<lparr>items := [i], primary := Some i, anchor := Some i\<rparr>"

definition select_exact :: "process_identity list \<Rightarrow> selection \<Rightarrow> selection" where
  "select_exact is s =
     s\<lparr>items := is, primary := first_opt is, anchor := first_opt is\<rparr>"

text \<open>\<open>usize::MAX\<close> on the 64-bit targets: the rank of a row the view does not hold.\<close>

definition usize_max :: nat where "usize_max = 18446744073709551615"

definition sel_rank :: "process_identity list \<Rightarrow> process_identity \<Rightarrow> nat" where
  "sel_rank order i = unwrap_or (position (\<lambda>c. c = i) order) usize_max"

text \<open>\<open>sort_by_key\<close> is stable, as \<open>sort_key\<close> is.\<close>

definition sort_to :: "process_identity list \<Rightarrow> selection \<Rightarrow> selection" where
  "sort_to order s = s\<lparr>items := sort_key (sel_rank order) (items s)\<rparr>"

definition remove_at :: "nat \<Rightarrow> 'a list \<Rightarrow> 'a list" where
  "remove_at n xs = take n xs @ drop (Suc n) xs"

definition sel_toggle ::
    "process_identity \<Rightarrow> process_identity list \<Rightarrow> selection \<Rightarrow> selection" where
  "sel_toggle i order s =
     (let s' =
        (case position (\<lambda>x. x = i) (items s) of
           Some at \<Rightarrow>
             let s1 = s\<lparr>items := remove_at at (items s)\<rparr> in
             if primary s1 = Some i then s1\<lparr>primary := last_opt (items s1)\<rparr> else s1
         | None \<Rightarrow>
             let s1 = sort_to order (s\<lparr>items := items s @ [i]\<rparr>) in s1\<lparr>primary := Some i\<rparr>)
      in s'\<lparr>anchor := Some i\<rparr>)"

text \<open>The inclusive slice \<open>order[low..=high]\<close>.\<close>

definition slice_incl :: "nat \<Rightarrow> nat \<Rightarrow> 'a list \<Rightarrow> 'a list" where
  "slice_incl low high xs = drop low (take (Suc high) xs)"

definition select_range ::
    "process_identity \<Rightarrow> process_identity list \<Rightarrow> selection \<Rightarrow> selection" where
  "select_range i order s =
     (case anchor s of
        None \<Rightarrow> select_single i s
      | Some a \<Rightarrow>
          (case (position (\<lambda>x. x = a) order, position (\<lambda>x. x = i) order) of
             (Some from_ix, Some to_ix) \<Rightarrow>
               let (low, high) = (if from_ix \<le> to_ix then (from_ix, to_ix) else (to_ix, from_ix))
               in s\<lparr>items := slice_incl low high order, primary := Some i\<rparr>
           | _ \<Rightarrow> select_single i s))"

definition select_all :: "process_identity list \<Rightarrow> selection \<Rightarrow> selection" where
  "select_all order s =
     s\<lparr>items := order, primary := last_opt order, anchor := first_opt order\<rparr>"

definition click ::
    "click_kind \<Rightarrow> process_identity \<Rightarrow> process_identity list \<Rightarrow> selection \<Rightarrow> selection" where
  "click k i order s =
     (case k of
        Replace \<Rightarrow> select_single i s
      | Toggle \<Rightarrow> sel_toggle i order s
      | Range \<Rightarrow> select_range i order s)"

definition retain_live :: "(process_identity \<Rightarrow> bool) \<Rightarrow> selection \<Rightarrow> selection" where
  "retain_live live s =
     (let s1 = s\<lparr>items := filter live (items s)\<rparr>;
          s2 = (if is_some_and (primary s1) (\<lambda>i. \<not> live i)
                then s1\<lparr>primary := last_opt (items s1)\<rparr> else s1)
      in if is_some_and (anchor s2) (\<lambda>i. \<not> live i) then s2\<lparr>anchor := primary s2\<rparr> else s2)"

section \<open>The invariant\<close>

text \<open>
  The primary row is one of the selected rows, and there is one exactly when anything is
  selected.
\<close>

definition sel_inv :: "selection \<Rightarrow> bool" where
  "sel_inv s = (case primary s of None \<Rightarrow> items s = [] | Some p \<Rightarrow> p \<in> set (items s))"

datatype sel_event =
    EvClear
  | EvSingle process_identity
  | EvExact "process_identity list"
  | EvAll "process_identity list"
  | EvClick click_kind process_identity "process_identity list"
  | EvRetain "process_identity \<Rightarrow> bool"

fun sel_step :: "selection \<Rightarrow> sel_event \<Rightarrow> selection" where
  "sel_step s EvClear = sel_clear s"
| "sel_step s (EvSingle i) = select_single i s"
| "sel_step s (EvExact is) = select_exact is s"
| "sel_step s (EvAll order) = select_all order s"
| "sel_step s (EvClick k i order) = click k i order s"
| "sel_step s (EvRetain live) = retain_live live s"

definition sel_run :: "selection \<Rightarrow> sel_event list \<Rightarrow> selection" where
  "sel_run = foldl sel_step"

lemma set_remove_at_position:
  assumes "position (\<lambda>x. x = i) xs = Some n" and "p \<in> set xs" and "p \<noteq> i"
  shows "p \<in> set (remove_at n xs)"
proof -
  from assms(1) have n: "n < length xs" "xs ! n = i" by (auto dest: position_Some)
  then have "xs = take n xs @ i # drop (Suc n) xs" by (metis id_take_nth_drop)
  with assms(2) have "p \<in> set (take n xs @ i # drop (Suc n) xs)" by simp
  with assms(3) show ?thesis by (auto simp: remove_at_def)
qed

lemma slice_incl_member:
  assumes "n < length xs" "low \<le> n" "n \<le> high"
  shows "xs ! n \<in> set (slice_incl low high xs)"
proof -
  have "slice_incl low high xs ! (n - low) = xs ! n"
    using assms by (simp add: slice_incl_def)
  moreover have "n - low < length (slice_incl low high xs)"
    using assms by (simp add: slice_incl_def)
  ultimately show ?thesis by (metis nth_mem)
qed

lemma inv_single: "sel_inv (select_single i s)"
  by (simp add: sel_inv_def select_single_def)

lemma inv_clear: "sel_inv (sel_clear s)"
  by (simp add: sel_inv_def sel_clear_def)

lemma inv_exact: "sel_inv (select_exact is s)"
  by (auto simp: sel_inv_def select_exact_def first_opt_in_set split: option.splits)

lemma inv_all: "sel_inv (select_all order s)"
  by (auto simp: sel_inv_def select_all_def last_opt_in_set split: option.splits)

lemma inv_toggle: "sel_inv s \<Longrightarrow> sel_inv (sel_toggle i order s)"
proof (cases "position (\<lambda>x. x = i) (items s)")
  case None
  then show ?thesis by (simp add: sel_toggle_def sort_to_def sel_inv_def Let_def)
next
  case (Some n)
  assume inv: "sel_inv s"
  show ?thesis
  proof (cases "primary s = Some i")
    case True
    with Some show ?thesis
      by (auto simp: sel_toggle_def sel_inv_def Let_def last_opt_in_set split: option.splits)
  next
    case False
    show ?thesis
    proof (cases "primary s")
      case None
      with inv Some show ?thesis by (simp add: sel_inv_def)
    next
      case (Some p)
      with inv False have "p \<in> set (items s)" "p \<noteq> i" by (auto simp: sel_inv_def)
      with \<open>position (\<lambda>x. x = i) (items s) = Some n\<close> Some show ?thesis
        by (simp add: sel_toggle_def sel_inv_def Let_def set_remove_at_position)
    qed
  qed
qed

lemma range_primary:
  assumes "position (\<lambda>x. x = a) order = Some f" "position (\<lambda>x. x = i) order = Some t"
  shows "i \<in> set (slice_incl (min f t) (max f t) order)"
  using slice_incl_member [of t order "min f t" "max f t"] position_Some [OF assms(2)]
  by simp

lemma select_range_hit:
  assumes "anchor s = Some a"
    and "position (\<lambda>x. x = a) order = Some f" "position (\<lambda>x. x = i) order = Some t"
  shows "select_range i order s =
    s\<lparr>items := slice_incl (min f t) (max f t) order, primary := Some i\<rparr>"
  using assms by (simp add: select_range_def min_def max_def)

lemma inv_range: "sel_inv (select_range i order s)"
proof (cases "anchor s")
  case None
  then show ?thesis by (simp add: select_range_def inv_single)
next
  case (Some a)
  show ?thesis
  proof (cases "position (\<lambda>x. x = a) order = None \<or> position (\<lambda>x. x = i) order = None")
    case True
    with Some show ?thesis
      by (auto simp: select_range_def inv_single split: option.splits)
  next
    case False
    then obtain f t where "position (\<lambda>x. x = a) order = Some f"
        "position (\<lambda>x. x = i) order = Some t" by auto
    with Some show ?thesis by (simp add: select_range_hit sel_inv_def range_primary)
  qed
qed

lemma inv_retain: "sel_inv s \<Longrightarrow> sel_inv (retain_live live s)"
  by (auto simp: retain_live_def sel_inv_def Let_def is_some_and_def filter_empty_conv
      dest: last_opt_in_set split: option.splits)

lemma inv_step: "sel_inv s \<Longrightarrow> sel_inv (sel_step s e)"
  by (cases e) (auto simp: click_def inv_single inv_clear inv_exact inv_all inv_toggle inv_range
      inv_retain split: click_kind.splits)

lemma inv_empty: "sel_inv empty_selection"
  by (simp add: sel_inv_def empty_selection_def)

lemma inv_run: "sel_inv s \<Longrightarrow> sel_inv (sel_run s es)"
  unfolding sel_run_def by (induction es arbitrary: s) (auto simp: inv_step)


text \<open>
  Whatever sequence of clicks, jumps, select-all, clearing and pruning the user and the
  sampler produce, the row single-target commands act on is one of the selected rows, and
  there is such a row exactly when the selection is not empty.
\<close>

theorem selection_primary_selected: "sel_inv (sel_run empty_selection es)"
  by (rule inv_run [OF inv_empty])

text \<open>
  After pruning against the live processes no dead identity is left anywhere in the
  selection: not among the rows, not as the primary row, not as the range anchor.
\<close>

theorem retain_live_only_live:
  "set (items (retain_live live s)) \<union> set_option (primary (retain_live live s))
     \<union> set_option (anchor (retain_live live s)) \<subseteq> Collect live"
  by (auto simp: retain_live_def Let_def is_some_and_def split: option.splits if_splits
      dest: last_opt_in_set)

text \<open>
  A Shift range is determined by the anchor and the last row alone. Extending the range
  to any row of the view first and then to another gives exactly the range selected
  directly, with the anchor unmoved, and that range is the rows of the view from the
  smaller to the larger of the two positions.
\<close>

theorem range_resize:
  assumes "distinct order" and "a < length order" "b < length order" "c < length order"
    and "anchor s = Some (order ! a)"
  shows "select_range (order ! c) order (select_range (order ! b) order s) =
      select_range (order ! c) order s \<and>
    items (select_range (order ! c) order s) = map (nth order) [min a c..<Suc (max a c)] \<and>
    anchor (select_range (order ! c) order s) = Some (order ! a)"
proof -
  note pos = position_nth_distinct [OF assms(1)]
  have hit: "anchor u = Some (order ! a) \<Longrightarrow> k < length order \<Longrightarrow>
      select_range (order ! k) order u =
        u\<lparr>items := slice_incl (min a k) (max a k) order, primary := Some (order ! k)\<rparr>" for u k
    by (rule select_range_hit [OF _ pos [OF assms(2)] pos])
  have "slice_incl (min a c) (max a c) order = map (nth order) [min a c..<Suc (max a c)]"
    using assms(2,4) by (intro nth_equalityI) (auto simp: slice_incl_def simp del: upt_Suc)
  then show ?thesis
    using assms by (simp add: hit)
qed

definition sample_row :: "u32 \<Rightarrow> process_identity" where
  "sample_row p = \<lparr>pi_pid = p, pi_start_epoch_s = None\<rparr>"

theorem range_resize_witness:
  "items (select_range (sample_row 3) (map sample_row [1, 2, 3])
      (select_single (sample_row 2) empty_selection)) = map sample_row [2, 3]"
  using range_resize [of "map sample_row [1, 2, 3]" 1 0 2
      "select_single (sample_row 2) empty_selection"]
  by (simp add: sample_row_def select_single_def empty_selection_def upt_rec)

end
