(* ===== verification/Payload.thy ===== *)
theory Payload
  imports Persist Bytes "HOL-Library.Multiset" "HOL-Library.Product_Lexorder"
begin

text \<open>
  The payload archive of the installer (crates/tm-installer/src/payload.rs): building it,
  parsing it out of the bytes of a setup executable, reading and extracting entries. The
  deflate codec, SHA-256 and the JSON of the manifest are parameters. The error texts name
  the entry or the numbers; paths and the advice to the user are left out of them.
\<close>

section \<open>The format\<close>

definition MAGIC :: u64 where
  "MAGIC = u64_from_le (map (\<lambda>c. of_nat (code c)) ''TMSUPAYL'')"

definition FOOTER_LEN :: nat where "FOOTER_LEN = 16"
definition FORMAT_VERSION :: u32 where "FORMAT_VERSION = 1"

record payload_entry =
  en_name :: string
  en_offset :: u64
  en_compressed :: u64
  en_uncompressed :: u64
  en_sha256 :: string

record payload_manifest =
  mf_version :: u32
  mf_entries :: "payload_entry list"

record archive =
  ar_manifest :: payload_manifest
  ar_blobs :: bytes

text \<open>What inflating a stream yields: the bytes up to its end, or up to where it fails.\<close>

record inflated =
  in_bytes :: bytes
  in_error :: "io_error option"

record payload_lib =
  pl_deflate :: "bytes \<Rightarrow> bytes"
  pl_inflate :: "bytes \<Rightarrow> inflated"
  pl_sha256 :: "bytes \<Rightarrow> bytes"
  pl_to_json :: "payload_manifest \<Rightarrow> bytes"
  pl_from_json :: "bytes \<Rightarrow> string + payload_manifest"

definition payload_err :: "string \<Rightarrow> string \<Rightarrow> tm_error" where
  "payload_err context detail = tm_platform context detail"

definition validate_name :: "string \<Rightarrow> tm_error + unit" where
  "validate_name name =
     (if name = [] \<or> 128 < utf8_len name \<or> contains name ''/'' \<or> contains name [CHR 0x5C] \<or>
         contains name '':'' \<or> contains name ''..'' \<or> starts_with name ''.'' \<or> trim name \<noteq> name
      then Inl (payload_err ''payload entry name'' (''unsafe entry name: '' @ name))
      else Inr ())"

text \<open>\<open>inflate_bounded\<close>: \<open>take(declared + 1)\<close>, then \<open>read_to_end\<close>, which fails only if the
  stream fails before the limit is reached.\<close>

definition read_limited :: "inflated \<Rightarrow> nat \<Rightarrow> io_error + bytes" where
  "read_limited s limit =
     (if limit \<le> length (in_bytes s) then Inr (take limit (in_bytes s))
      else case in_error s of Some e \<Rightarrow> Inl e | None \<Rightarrow> Inr (in_bytes s))"

definition inflate_bounded :: "inflated \<Rightarrow> string \<Rightarrow> u64 \<Rightarrow> tm_error + bytes" where
  "inflate_bounded decoder name declared =
     (case read_limited decoder (unat (saturating_add declared 1)) of
        Inl e \<Rightarrow> Inl (from_io e)
      | Inr out \<Rightarrow>
          if length out \<noteq> unat declared
          then Inl (payload_err ''payload'' (''entry '' @ name @ '' inflates to '' @
            (if unat declared < length out then ''more than '' @ show_nat (unat declared)
             else show_nat (length out)) @ '' bytes, manifest says '' @ show_nat (unat declared)))
          else Inr out)"

definition hex_sha256 :: "payload_lib \<Rightarrow> bytes \<Rightarrow> string" where
  "hex_sha256 L data = hex_string (pl_sha256 L data)"

section \<open>Building\<close>

text \<open>The loop of \<open>write_blobs\<close>: bytes written so far, entries so far, offset.\<close>

fun write_blobs_loop ::
    "payload_lib \<Rightarrow> (string \<times> bytes) list \<Rightarrow> bytes \<Rightarrow> payload_entry list \<Rightarrow> u64 \<Rightarrow>
     tm_error + bytes \<times> payload_entry list" where
  "write_blobs_loop L [] out entries offset = Inr (out, entries)"
| "write_blobs_loop L ((name, data) # files) out entries offset =
     and_then (validate_name name) (\<lambda>_.
       if list_ex (\<lambda>e. en_name e = name) entries
       then Inl (payload_err ''payload entry'' (''duplicate entry name: '' @ name))
       else
         (let compressed = pl_deflate L data;
              entry = \<lparr>en_name = name, en_offset = offset,
                en_compressed = of_nat (length compressed), en_uncompressed = of_nat (length data),
                en_sha256 = hex_sha256 L data\<rparr>
          in write_blobs_loop L files (out @ compressed) (entries @ [entry])
               (offset + of_nat (length compressed))))"

definition write_blobs ::
    "payload_lib \<Rightarrow> (string \<times> bytes) list \<Rightarrow> tm_error + bytes \<times> payload_manifest" where
  "write_blobs L files =
     and_then (write_blobs_loop L files [] [] 0)
       (\<lambda>(out, entries). Inr (out, \<lparr>mf_version = FORMAT_VERSION, mf_entries = entries\<rparr>))"

definition build_payload :: "payload_lib \<Rightarrow> (string \<times> bytes) list \<Rightarrow> tm_error + bytes" where
  "build_payload L files =
     and_then (write_blobs L files) (\<lambda>(blobs, manifest).
       let json = pl_to_json L manifest
       in Inr (blobs @ json @ u64_le (of_nat (length json)) @ u64_le MAGIC))"

text \<open>\<open>embed\<close>, with the contents (or the read errors) of its input files.\<close>

definition embed ::
    "payload_lib \<Rightarrow> io_error + bytes \<Rightarrow> (string \<times> (io_error + bytes)) list \<Rightarrow> tm_error + bytes" where
  "embed L setup_exe files =
     (case setup_exe of
        Inl e \<Rightarrow> Inl (from_io e)
      | Inr setup \<Rightarrow>
          if length setup < 2 \<or> take 2 setup \<noteq> [0x4D, 0x5A]
          then Inl (payload_err ''embed payload'' ''not a Windows executable'')
          else
            and_then
              (try_map (\<lambda>(name, content).
                 and_then (validate_name name) (\<lambda>_.
                   case content of
                     Inl e \<Rightarrow> Inl (payload_err ''embed payload'' (io_text e))
                   | Inr data \<Rightarrow> Inr (name, data))) files)
              (\<lambda>inputs. and_then (build_payload L inputs) (\<lambda>payload. Inr (setup @ payload))))"

section \<open>Parsing\<close>

text \<open>The first loop of \<open>Archive::parse\<close>: each entry is checked and the blob region is
  derived from the largest end.\<close>

fun check_entries :: "payload_entry list \<Rightarrow> u64 \<Rightarrow> tm_error + u64" where
  "check_entries [] blob_len = Inr blob_len"
| "check_entries (e # es) blob_len =
     and_then (validate_name (en_name e)) (\<lambda>_.
       if en_uncompressed e = 0 \<or> en_compressed e = 0
       then Inl (payload_err ''payload'' (''entry '' @ en_name e @ '' is empty''))
       else case checked_add (en_offset e) (en_compressed e) of
         None \<Rightarrow> Inl (payload_err ''payload'' (''entry '' @ en_name e @ '' overflows''))
       | Some end_at \<Rightarrow> check_entries es (max blob_len end_at))"

definition entry_range :: "payload_entry \<Rightarrow> u64 \<times> u64 \<times> string" where
  "entry_range e = (en_offset e, en_offset e + en_compressed e, en_name e)"

fun check_ranges :: "(u64 \<times> u64 \<times> string) list \<Rightarrow> tm_error + unit" where
  "check_ranges (a # b # rs) =
     (if fst b < fst (snd a)
      then Inl (payload_err ''payload''
        (''entries '' @ snd (snd a) @ '' and '' @ snd (snd b) @ '' overlap''))
      else check_ranges (b # rs))"
| "check_ranges _ = Inr ()"

definition parse_archive :: "payload_lib \<Rightarrow> bytes \<Rightarrow> tm_error + archive" where
  "parse_archive L data =
     (if length data < FOOTER_LEN
      then Inl (payload_err ''payload'' ''file is too small to carry a payload'')
      else
        (let footer_at = length data - FOOTER_LEN;
             manifest_len = unat (u64_from_le (take 8 (drop footer_at data)));
             magic = u64_from_le (take 8 (drop (footer_at + 8) data)) in
         if magic \<noteq> MAGIC
         then Inl (payload_err ''payload'' ''no embedded payload found (bad footer magic)'')
         else if manifest_len < 2 \<or> footer_at < manifest_len
         then Inl (payload_err ''payload'' (''implausible manifest length '' @ show_nat manifest_len))
         else
           (let manifest_start = footer_at - manifest_len in
            case pl_from_json L (take manifest_len (drop manifest_start data)) of
              Inl error \<Rightarrow> Inl (payload_err ''payload'' (''manifest is not valid JSON: '' @ error))
            | Inr manifest \<Rightarrow>
                if mf_version manifest \<noteq> FORMAT_VERSION
                then Inl (payload_err ''payload''
                  (''unsupported payload format '' @ show_nat (unat (mf_version manifest)) @
                   '' (this setup understands '' @ show_nat (unat FORMAT_VERSION) @ '')''))
                else if mf_entries manifest = []
                then Inl (payload_err ''payload'' ''payload manifest has no entries'')
                else
                  and_then (check_entries (mf_entries manifest) 0) (\<lambda>blob_len.
                    if manifest_start < unat blob_len
                    then Inl (payload_err ''payload'' ''payload manifest overlaps the blob region'')
                    else
                      (let blob_start = manifest_start - unat blob_len in
                       and_then (check_ranges (sort (map entry_range (mf_entries manifest)))) (\<lambda>_.
                         Inr \<lparr>ar_manifest = manifest,
                              ar_blobs = take (unat blob_len) (drop blob_start data)\<rparr>))))))"

definition open_archive :: "payload_lib \<Rightarrow> io_error + bytes \<Rightarrow> tm_error + archive" where
  "open_archive L file_content =
     (case file_content of Inl e \<Rightarrow> Inl (from_io e) | Inr data \<Rightarrow> parse_archive L data)"

section \<open>Reading and extracting\<close>

definition find_entry :: "archive \<Rightarrow> string \<Rightarrow> tm_error + payload_entry" where
  "find_entry a name =
     (case find (\<lambda>e. en_name e = name) (mf_entries (ar_manifest a)) of
        Some e \<Rightarrow> Inr e
      | None \<Rightarrow> Inl (payload_err ''payload'' (''payload has no entry named '' @ name)))"

text \<open>\<open>slice::get\<close> of a range.\<close>

definition slice_get :: "nat \<Rightarrow> nat \<Rightarrow> bytes \<Rightarrow> bytes option" where
  "slice_get start stop bs =
     (if start \<le> stop \<and> stop \<le> length bs then Some (take (stop - start) (drop start bs)) else None)"

definition read_entry :: "payload_lib \<Rightarrow> archive \<Rightarrow> payload_entry \<Rightarrow> tm_error + bytes" where
  "read_entry L a e =
     (case slice_get (unat (en_offset e)) (unat (en_offset e + en_compressed e)) (ar_blobs a) of
        None \<Rightarrow> Inl (payload_err ''payload'' (''entry '' @ en_name e @ '' out of range''))
      | Some blob \<Rightarrow>
          and_then (inflate_bounded (pl_inflate L blob) (en_name e) (en_uncompressed e)) (\<lambda>out.
            if hex_sha256 L out \<noteq> en_sha256 e
            then Inl (payload_err ''payload'' (''entry '' @ en_name e @ '' fails its SHA-256 check''))
            else Inr out))"

definition verify_all :: "payload_lib \<Rightarrow> archive \<Rightarrow> tm_error + nat" where
  "verify_all L a =
     and_then (try_map (read_entry L a) (mf_entries (ar_manifest a)))
       (\<lambda>_. Inr (length (mf_entries (ar_manifest a))))"

text \<open>\<open>extract_to\<close>: the file-system operations it performs, in order, and the paths.\<close>

definition extract_to ::
    "payload_lib \<Rightarrow> archive \<Rightarrow> string list \<Rightarrow> tm_error + fs_op list \<times> path list" where
  "extract_to L a dir =
     and_then
       (try_map (\<lambda>e. and_then (read_entry L a e) (\<lambda>data. Inr (en_name e, data)))
         (mf_entries (ar_manifest a)))
       (\<lambda>verified.
         Inr (CreateDirAll dir #
                concat (map (\<lambda>(name, data).
                  [CreateFile \<lparr>p_dir = dir, p_name = name\<rparr>,
                   WriteAll \<lparr>p_dir = dir, p_name = name\<rparr> data]) verified),
              map (\<lambda>(name, data). \<lparr>p_dir = dir, p_name = name\<rparr>) verified))"

end
