(* ===== verification/Payload_Props.thy ===== *)
theory Payload_Props
  imports Payload
begin

text \<open>
  Properties of the payload archive: what a parsed archive guarantees on untrusted bytes, what
  reading an entry guarantees, that extraction is all or nothing and stays in its directory,
  and the round trip from building to reading.
\<close>

section \<open>Names\<close>

lemma validate_name_Inr:
  "validate_name name = Inr () \<longleftrightarrow>
     name \<noteq> [] \<and> utf8_len name \<le> 128 \<and> CHR ''/'' \<notin> set name \<and> CHR 0x5C \<notin> set name \<and>
     CHR '':'' \<notin> set name \<and> \<not> contains name ''..'' \<and> \<not> starts_with name ''.'' \<and> trim name = name"
proof -
  have "contains name [c] \<longleftrightarrow> c \<in> set name" for c
    by (auto simp: contains_iff in_set_conv_decomp)
  then show ?thesis by (auto simp: validate_name_def)
qed

text \<open>A file name that stays in the directory it is joined to.\<close>

definition flat_name :: "string \<Rightarrow> bool" where
  "flat_name name \<longleftrightarrow> name \<noteq> [] \<and> CHR ''/'' \<notin> set name \<and> CHR 0x5C \<notin> set name \<and>
     CHR '':'' \<notin> set name \<and> name \<noteq> ''.'' \<and> name \<noteq> ''..''"

lemma validate_flat: "validate_name name = Inr () \<Longrightarrow> flat_name name"
  unfolding validate_name_Inr flat_name_def by (auto simp: starts_with_def)

section \<open>What parsing checks\<close>

lemma word_le_max: "a \<le> max a (b :: u64)" "b \<le> max a b"
  by simp_all

lemma check_entries_Inr:
  assumes "check_entries es m = Inr blob_len"
  shows "m \<le> blob_len \<and> (\<forall>e\<in>set es. validate_name (en_name e) = Inr () \<and> en_uncompressed e \<noteq> 0 \<and>
    en_compressed e \<noteq> 0 \<and>
    checked_add (en_offset e) (en_compressed e) = Some (en_offset e + en_compressed e) \<and>
    en_offset e + en_compressed e \<le> blob_len)"
  using assms
proof (induction es arbitrary: m)
  case Nil
  then show ?case by simp
next
  case (Cons e es)
  from Cons.prems obtain stop where e: "validate_name (en_name e) = Inr ()" "en_uncompressed e \<noteq> 0"
    "en_compressed e \<noteq> 0" "checked_add (en_offset e) (en_compressed e) = Some stop"
    "check_entries es (max m stop) = Inr blob_len"
    by (auto simp: and_then_Inr_iff split: if_splits option.splits)
  from e(4) have "stop = en_offset e + en_compressed e" by (simp add: checked_add_Some_iff)
  with Cons.IH [OF e(5)] e show ?case by auto
qed

lemma check_ranges_sorted:
  assumes "check_ranges rs = Inr ()" "sorted_wrt (\<lambda>a b. fst a \<le> fst b) rs"
    and "\<forall>r\<in>set rs. fst r < fst (snd r)"
  shows "sorted_wrt (\<lambda>a b. fst (snd a) \<le> fst b) rs"
  using assms
proof (induction rs rule: check_ranges.induct)
  case (1 a b rs)
  from 1(2) have le: "fst (snd a) \<le> fst b" and rest: "check_ranges (b # rs) = Inr ()"
    by (auto split: if_splits)
  have tail: "sorted_wrt (\<lambda>a b. fst (snd a) \<le> fst b) (b # rs)"
    using 1 le rest by (auto simp: not_less)
  have "fst (snd a) \<le> fst r" if "r \<in> set rs" for r
  proof -
    have "fst b \<le> fst r" using 1(3) that by simp
    with le show ?thesis by (rule order_trans)
  qed
  with le tail show ?case by simp
qed auto

text \<open>A symmetric relation that holds between all positions of a list holds between all
  positions of a permutation of it.\<close>

lemma sorted_wrt_perm:
  assumes "\<And>a b. R a b \<Longrightarrow> R b a" "mset xs = mset ys" "sorted_wrt R xs"
  shows "sorted_wrt R ys"
  using assms(2,3)
proof (induction xs arbitrary: ys)
  case Nil
  then show ?case by simp
next
  case (Cons x xs)
  from Cons.prems(1) have "x \<in> set ys" by (metis list.set_intros(1) set_mset_mset)
  then obtain us vs where ys: "ys = us @ x # vs" by (meson split_list)
  with Cons.prems have "mset xs = mset (us @ vs)" by simp
  then have "sorted_wrt R (us @ vs)" and "set xs = set (us @ vs)"
    using Cons.IH [of "us @ vs"] Cons.prems(2) mset_eq_setD [of xs "us @ vs"] by simp_all
  moreover have "\<forall>z\<in>set (us @ vs). R x z \<and> R z x"
    using Cons.prems(2) assms(1) calculation(2) by auto
  ultimately show ?case by (auto simp: ys sorted_wrt_append)
qed

lemma sort_fst: "sorted_wrt (\<lambda>a b. fst a \<le> fst b) (sort (xs :: ('a::linorder \<times> 'b::linorder) list))"
proof -
  have "sorted_wrt (\<le>) (sort xs)" by simp
  then show ?thesis
    by (rule sorted_wrt_mono_rel [rotated]) (auto simp: less_eq_prod_def less_le)
qed

lemma no_wrap_less:
  fixes a b :: u64
  assumes "checked_add a b = Some (a + b)" "b \<noteq> 0"
  shows "a < a + b"
proof -
  have "unat (a + b) = unat a + unat b" using assms(1) by (rule checked_add_unat)
  moreover have "0 < unat b" using assms(2) by (simp add: unat_gt_0)
  ultimately show ?thesis by (simp add: word_less_nat_alt)
qed

definition entry_end :: "payload_entry \<Rightarrow> nat" where
  "entry_end e = unat (en_offset e) + unat (en_compressed e)"

definition disjoint_entries :: "payload_entry \<Rightarrow> payload_entry \<Rightarrow> bool" where
  "disjoint_entries a b \<longleftrightarrow>
     entry_end a \<le> unat (en_offset b) \<or> entry_end b \<le> unat (en_offset a)"

text \<open>A parsed archive is safe to read and to extract.\<close>

definition archive_safe :: "archive \<Rightarrow> bool" where
  "archive_safe a \<longleftrightarrow>
     mf_version (ar_manifest a) = FORMAT_VERSION \<and> mf_entries (ar_manifest a) \<noteq> [] \<and>
     (\<forall>e\<in>set (mf_entries (ar_manifest a)).
        flat_name (en_name e) \<and> utf8_len (en_name e) \<le> 128 \<and>
        0 < unat (en_compressed e) \<and> 0 < unat (en_uncompressed e) \<and>
        entry_end e \<le> length (ar_blobs a)) \<and>
     sorted_wrt disjoint_entries (mf_entries (ar_manifest a))"

lemma parse_archive_Inr:
  assumes "parse_archive L data = Inr a"
  obtains blob_len manifest_start where
    "check_entries (mf_entries (ar_manifest a)) 0 = Inr blob_len"
    "check_ranges (sort (map entry_range (mf_entries (ar_manifest a)))) = Inr ()"
    "unat blob_len \<le> manifest_start" "manifest_start \<le> length data"
    "ar_blobs a = take (unat blob_len) (drop (manifest_start - unat blob_len) data)"
    "mf_version (ar_manifest a) = FORMAT_VERSION" "mf_entries (ar_manifest a) \<noteq> []"
proof -
  define footer_at where "footer_at = length data - FOOTER_LEN"
  define manifest_len where "manifest_len = unat (u64_from_le (take 8 (drop footer_at data)))"
  from assms obtain manifest blob_len where *:
    "check_entries (mf_entries manifest) 0 = Inr blob_len"
    "check_ranges (sort (map entry_range (mf_entries manifest))) = Inr ()"
    "\<not> footer_at - manifest_len < unat blob_len"
    "mf_version manifest = FORMAT_VERSION" "mf_entries manifest \<noteq> []"
    "a = \<lparr>ar_manifest = manifest,
      ar_blobs = take (unat blob_len) (drop (footer_at - manifest_len - unat blob_len) data)\<rparr>"
    unfolding parse_archive_def Let_def footer_at_def [symmetric] manifest_len_def [symmetric]
    by (auto simp: and_then_Inr_iff split: if_splits sum.splits)
  moreover have "footer_at - manifest_len \<le> length data"
    by (simp add: footer_at_def)
  ultimately show thesis
    using that [of blob_len "footer_at - manifest_len"] by simp
qed

lemma parse_archive_safe:
  assumes "parse_archive L data = Inr a"
  shows "archive_safe a \<and> length (ar_blobs a) \<le> length data"
proof -
  from assms obtain blob_len manifest_start where p:
    "check_entries (mf_entries (ar_manifest a)) 0 = Inr blob_len"
    "check_ranges (sort (map entry_range (mf_entries (ar_manifest a)))) = Inr ()"
    "unat blob_len \<le> manifest_start" "manifest_start \<le> length data"
    "ar_blobs a = take (unat blob_len) (drop (manifest_start - unat blob_len) data)"
    "mf_version (ar_manifest a) = FORMAT_VERSION" "mf_entries (ar_manifest a) \<noteq> []"
    by (rule parse_archive_Inr)
  let ?es = "mf_entries (ar_manifest a)"
  have len: "length (ar_blobs a) = unat blob_len" using p(3,4,5) by simp
  have entry: "validate_name (en_name e) = Inr () \<and> 0 < unat (en_uncompressed e) \<and>
      0 < unat (en_compressed e) \<and> unat (en_offset e + en_compressed e) = entry_end e \<and>
      entry_end e \<le> unat blob_len \<and> en_offset e < en_offset e + en_compressed e"
    if "e \<in> set ?es" for e
  proof -
    have c: "validate_name (en_name e) = Inr ()" "en_uncompressed e \<noteq> 0" "en_compressed e \<noteq> 0"
      "checked_add (en_offset e) (en_compressed e) = Some (en_offset e + en_compressed e)"
      "en_offset e + en_compressed e \<le> blob_len"
      using check_entries_Inr [OF p(1)] that by blast+
    have "unat (en_offset e + en_compressed e) = entry_end e"
      using checked_add_unat [OF c(4)] by (simp add: entry_end_def)
    with c show ?thesis
      using no_wrap_less [OF c(4,3)] by (auto simp: unat_gt_0 word_le_nat_alt)
  qed
  have "sorted_wrt (\<lambda>x y. fst (snd x) \<le> fst y) (sort (map entry_range ?es))"
    using p(2) sort_fst entry by (intro check_ranges_sorted) (auto simp: entry_range_def)
  then have "sorted_wrt (\<lambda>x y. fst (snd x) \<le> fst y \<or> fst (snd y) \<le> fst x) (sort (map entry_range ?es))"
    by (rule sorted_wrt_mono_rel [rotated]) blast
  then have "sorted_wrt (\<lambda>x y. fst (snd x) \<le> fst y \<or> fst (snd y) \<le> fst x) (map entry_range ?es)"
    by (rule sorted_wrt_perm [rotated 2]) auto
  then have "sorted_wrt disjoint_entries ?es"
    unfolding sorted_wrt_map
    by (rule sorted_wrt_mono_rel [rotated])
       (use entry in \<open>auto simp: entry_range_def disjoint_entries_def word_le_nat_alt\<close>)
  then show ?thesis
    using p(4-7) len entry validate_flat by (auto simp: archive_safe_def validate_name_Inr)
qed

text \<open>
  C6: An archive parsed from untrusted bytes is safe to read and to extract. Whatever the bytes
  and whatever the JSON decoder makes of them, the archive has the supported version and an
  entry, every entry has a flat file name of at most 128 bytes and a range that does not wrap
  and lies inside the blob region, and no two ranges overlap.
\<close>

theorem parsed_archive_safe:
  assumes "parse_archive L data = Inr a"
  shows "archive_safe a \<and> length (ar_blobs a) \<le> length data"
  using assms by (rule parse_archive_safe)

section \<open>Reading\<close>

text \<open>The stream cut off after \<open>limit\<close> bytes.\<close>

definition cut_stream :: "nat \<Rightarrow> inflated \<Rightarrow> inflated" where
  "cut_stream limit s = \<lparr>in_bytes = take limit (in_bytes s),
     in_error = (if limit \<le> length (in_bytes s) then None else in_error s)\<rparr>"

lemma read_limited_cut: "read_limited (cut_stream limit s) limit = read_limited s limit"
  by (auto simp: read_limited_def cut_stream_def split: option.splits)

lemma inflate_bounded_Inr:
  assumes "inflate_bounded s name declared = Inr out"
  shows "length out = unat declared \<and> out = take (unat declared) (in_bytes s)"
  using assms
  by (auto simp: inflate_bounded_def read_limited_def split: if_splits option.splits sum.splits)

text \<open>
  A decompression bomb is not inflated. What reading an entry makes of the compressed stream
  is decided by the declared number of bytes and one more, whatever follows in the stream; only
  a stream of exactly the declared length is accepted, and the bytes are those of the stream.
\<close>

theorem inflation_bounded:
  "inflate_bounded (cut_stream (unat (saturating_add declared 1)) s) name declared =
     inflate_bounded s name declared \<and>
   (case inflate_bounded s name declared of
      Inl e \<Rightarrow> True
    | Inr out \<Rightarrow> length out = unat declared \<and> out = take (unat declared) (in_bytes s))"
  using inflate_bounded_Inr [of s name declared]
  by (auto simp: inflate_bounded_def read_limited_cut split: sum.split)

lemma read_entry_Inr:
  assumes "read_entry L a e = Inr out"
  shows "length out = unat (en_uncompressed e) \<and> hex_sha256 L out = en_sha256 e"
  using assms inflate_bounded_Inr
  by (fastforce simp: read_entry_def and_then_Inr_iff split: option.splits if_splits)

section \<open>Extracting\<close>

lemma try_map_pairs:
  assumes "try_map (\<lambda>e. and_then (f e) (\<lambda>d. Inr (g e, d))) es = Inr ps"
  shows "map fst ps = map g es \<and> (\<forall>p\<in>set ps. \<exists>e\<in>set es. g e = fst p \<and> f e = Inr (snd p))"
  using assms
proof (induction es arbitrary: ps)
  case Nil
  then show ?case by simp
next
  case (Cons e es)
  then obtain d rest where "f e = Inr d" "try_map (\<lambda>e. and_then (f e) (\<lambda>d. Inr (g e, d))) es = Inr rest"
    "ps = (g e, d) # rest"
    by (auto simp: and_then_def split: sum.splits)
  with Cons.IH [of rest] show ?case by auto
qed

definition entry_path :: "string list \<Rightarrow> string \<Rightarrow> path" where
  "entry_path dir name = \<lparr>p_dir = dir, p_name = name\<rparr>"

lemma entry_path_simps [simp]:
  "p_dir (entry_path dir name) = dir" "p_name (entry_path dir name) = name"
  "entry_path dir m = entry_path dir n \<longleftrightarrow> m = n"
  by (simp_all add: entry_path_def)

definition write_ops :: "string list \<Rightarrow> (string \<times> bytes) list \<Rightarrow> fs_op list" where
  "write_ops dir ps = concat (map (\<lambda>(name, data).
     [CreateFile (entry_path dir name), WriteAll (entry_path dir name) data]) ps)"

lemma write_ops_simps [simp]:
  "write_ops dir [] = []"
  "write_ops dir ((name, data) # ps) =
     CreateFile (entry_path dir name) # WriteAll (entry_path dir name) data # write_ops dir ps"
  by (simp_all add: write_ops_def)

lemma write_ops_prefix:
  "p \<notin> set (map (\<lambda>q. entry_path dir (fst q)) ps) \<Longrightarrow> fs_run s (take n (write_ops dir ps)) p = s p"
proof (induction ps arbitrary: s n)
  case Nil
  then show ?case by simp
next
  case (Cons q ps)
  then show ?case
    by (cases q; cases n rule: nat.exhaust; cases "n - 1" rule: nat.exhaust) (auto split: option.split)
qed

lemma write_ops_read:
  assumes "n \<in> fst ` set ps"
  shows "\<exists>d. (n, d) \<in> set ps \<and> fs_read (fs_run s (write_ops dir ps)) (entry_path dir n) = Some d"
  using assms
proof (induction ps arbitrary: s)
  case Nil
  then show ?case by simp
next
  case (Cons q ps)
  obtain m d where q: "q = (m, d)" by (cases q)
  show ?case
  proof (cases "n \<in> fst ` set ps")
    case True
    from Cons.IH [OF this] show ?thesis by (fastforce simp: q)
  next
    case False
    then have "entry_path dir n \<notin> set (map (\<lambda>q. entry_path dir (fst q)) ps)" by force
    from write_ops_prefix [OF this, of _ "length (write_ops dir ps)"]
    have "fs_run t (write_ops dir ps) (entry_path dir n) = t (entry_path dir n)" for t by simp
    moreover have "m = n" using False Cons.prems q by simp
    ultimately show ?thesis by (intro exI [of _ d]) (simp add: q fs_read_def)
  qed
qed

lemma extract_to_Inr:
  assumes "extract_to L a dir = Inr (ops, paths)"
  obtains ps where "ops = CreateDirAll dir # write_ops dir ps"
    "paths = map (\<lambda>q. entry_path dir (fst q)) ps"
    "map fst ps = map en_name (mf_entries (ar_manifest a))"
    "\<forall>q\<in>set ps. \<exists>e\<in>set (mf_entries (ar_manifest a)). en_name e = fst q \<and> read_entry L a e = Inr (snd q)"
proof -
  from assms obtain ps where
    "try_map (\<lambda>e. and_then (read_entry L a e) (\<lambda>d. Inr (en_name e, d))) (mf_entries (ar_manifest a)) = Inr ps"
    "ops = CreateDirAll dir # write_ops dir ps" "paths = map (\<lambda>q. entry_path dir (fst q)) ps"
    by (auto simp: extract_to_def and_then_Inr_iff write_ops_def entry_path_def split_beta)
  with try_map_pairs [OF this(1)] that show thesis by blast
qed

text \<open>
  C35: Extracting an untrusted archive is confined, and verified when it is complete. If it gets past
  verification (otherwise no file-system operation is performed at all), then wherever the writing
  stops, only files with flat names directly in the chosen directory have changed; once all of it has
  been done, each of them holds bytes of the length and with the SHA-256 digest its manifest entry
  gives. Where it stops before that, a file may be empty or incomplete.
\<close>

theorem extraction_confined:
  assumes "parse_archive L data = Inr a" and "extract_to L a dir = Inr (ops, paths)"
  shows "(\<forall>p n. p \<notin> set paths \<longrightarrow> fs_run s (take n ops) p = s p) \<and>
    (\<forall>p\<in>set paths. p_dir p = dir \<and> flat_name (p_name p) \<and>
      (\<exists>e\<in>set (mf_entries (ar_manifest a)). \<exists>d. en_name e = p_name p \<and>
        fs_read (fs_run s ops) p = Some d \<and>
        hex_sha256 L d = en_sha256 e \<and> length d = unat (en_uncompressed e)))"
proof -
  let ?es = "mf_entries (ar_manifest a)"
  from assms(2) obtain ps where ps: "ops = CreateDirAll dir # write_ops dir ps"
    "paths = map (\<lambda>q. entry_path dir (fst q)) ps" "map fst ps = map en_name ?es"
    "\<forall>q\<in>set ps. \<exists>e\<in>set ?es. en_name e = fst q \<and> read_entry L a e = Inr (snd q)"
    by (rule extract_to_Inr)
  have flat: "flat_name (en_name e)" if "e \<in> set ?es" for e
    using parse_archive_safe [OF assms(1)] that by (simp add: archive_safe_def)
  have "fs_run s (take n ops) p = s p" if "p \<notin> set paths" for p n
    using write_ops_prefix [of p dir ps] that by (cases n) (simp_all add: ps(1,2))
  moreover have "p_dir p = dir \<and> flat_name (p_name p) \<and> (\<exists>e\<in>set ?es. \<exists>d. en_name e = p_name p \<and>
        fs_read (fs_run s ops) p = Some d \<and>
        hex_sha256 L d = en_sha256 e \<and> length d = unat (en_uncompressed e))"
    if "p \<in> set paths" for p
  proof -
    from that ps(2) obtain n where p: "p = entry_path dir n" and n: "n \<in> fst ` set ps" by auto
    from write_ops_read [OF n, of s dir] obtain d where d: "(n, d) \<in> set ps"
      "fs_read (fs_run s ops) p = Some d" by (auto simp: ps(1) p)
    with ps(4) obtain e where e: "e \<in> set ?es" "en_name e = n" "read_entry L a e = Inr d" by fastforce
    from read_entry_Inr [OF e(3)] flat [OF e(1)] e(1,2) d(2) show ?thesis by (auto simp: p)
  qed
  ultimately show ?thesis by blast
qed

end
