(* ===== verification/Payload_Roundtrip.thy ===== *)
theory Payload_Roundtrip
  imports Payload_Props
begin

text \<open>
  The round trip of the payload archive: what \<open>build_payload\<close> appends to a setup executable is
  parsed back, and every entry reads as the bytes that were packed. Concrete archives for the
  theorems about parsed archives.
\<close>

section \<open>The entries of a packed archive\<close>

definition entry_of :: "payload_lib \<Rightarrow> nat \<Rightarrow> string \<times> bytes \<Rightarrow> payload_entry" where
  "entry_of L n f = \<lparr>en_name = fst f, en_offset = of_nat n,
     en_compressed = of_nat (length (pl_deflate L (snd f))),
     en_uncompressed = of_nat (length (snd f)), en_sha256 = hex_sha256 L (snd f)\<rparr>"

fun entries_at :: "payload_lib \<Rightarrow> nat \<Rightarrow> (string \<times> bytes) list \<Rightarrow> payload_entry list" where
  "entries_at L n [] = []"
| "entries_at L n (f # fs) = entry_of L n f # entries_at L (n + length (pl_deflate L (snd f))) fs"

definition blobs_of :: "payload_lib \<Rightarrow> (string \<times> bytes) list \<Rightarrow> bytes" where
  "blobs_of L fs = concat (map (\<lambda>f. pl_deflate L (snd f)) fs)"

lemma blobs_of_simps [simp]:
  "blobs_of L [] = []" "blobs_of L (f # fs) = pl_deflate L (snd f) @ blobs_of L fs"
  by (simp_all add: blobs_of_def)

lemma map_name_entries_at [simp]: "map en_name (entries_at L n fs) = map fst fs"
  by (induction fs arbitrary: n) (simp_all add: entry_of_def)

lemma entries_at_Nil_iff [simp]: "entries_at L n fs = [] \<longleftrightarrow> fs = []"
  by (cases fs) simp_all

lemma write_blobs_loop_Inr:
  assumes "write_blobs_loop L fs out es (of_nat (length out)) = Inr (out', es')"
  shows "out' = out @ blobs_of L fs \<and> es' = es @ entries_at L (length out) fs \<and>
    (\<forall>f\<in>set fs. validate_name (fst f) = Inr () \<and> fst f \<notin> en_name ` set es) \<and> distinct (map fst fs)"
  using assms
proof (induction fs arbitrary: out es)
  case Nil
  then show ?case by simp
next
  case (Cons f fs)
  obtain name data where f: "f = (name, data)" by (cases f)
  let ?c = "pl_deflate L data"
  from Cons.prems f have v: "validate_name name = Inr ()" and fresh: "name \<notin> en_name ` set es"
    and rest: "write_blobs_loop L fs (out @ ?c) (es @ [entry_of L (length out) f])
      (of_nat (length (out @ ?c))) = Inr (out', es')"
    by (auto simp: and_then_Inr_iff entry_of_def Let_def list_ex_iff split: if_splits)
  from Cons.IH [OF rest] show ?case
    using v fresh by (auto simp: f entry_of_def)
qed

section \<open>What the parser derives from them\<close>

lemma of_nat_unat: "n < 2 ^ 64 \<Longrightarrow> unat (of_nat n :: u64) = n"
  by (simp add: unat_of_nat take_bit_nat_eq_self_iff)

lemma max_of_nat:
  assumes "a < 2 ^ 64" "b < 2 ^ 64"
  shows "max (of_nat a :: u64) (of_nat b) = of_nat (max a b)"
  using assms by (auto simp: max_def word_le_nat_alt of_nat_unat)

lemma check_entries_at:
  assumes "\<forall>f\<in>set fs. validate_name (fst f) = Inr () \<and> snd f \<noteq> [] \<and> length (snd f) < 2 ^ 64 \<and>
      pl_deflate L (snd f) \<noteq> []"
    and "n + length (blobs_of L fs) < 2 ^ 64" "m \<le> n"
  shows "\<exists>k. check_entries (entries_at L n fs) (of_nat m) = Inr (of_nat k) \<and>
    (fs \<noteq> [] \<longrightarrow> k = n + length (blobs_of L fs)) \<and> (fs = [] \<longrightarrow> k = m)"
  using assms
proof (induction fs arbitrary: n m)
  case Nil
  then show ?case by auto
next
  case (Cons f fs)
  let ?c = "length (pl_deflate L (snd f))"
  from Cons.prems have small: "n < 2 ^ 64" "?c < 2 ^ 64" "n + ?c < 2 ^ 64" "m < 2 ^ 64" "0 < ?c"
    "0 < length (snd f)" "length (snd f) < 2 ^ 64"
    by auto
  then have "(of_nat ?c :: u64) \<noteq> 0" "(of_nat (length (snd f)) :: u64) \<noteq> 0"
    by (metis of_nat_unat unat_0 less_numeral_extra(3))+
  moreover have "checked_add (of_nat n) (of_nat ?c) = Some (of_nat (n + ?c) :: u64)"
    using small by (simp add: checked_add_def of_nat_unat)
  moreover have "max (of_nat m) (of_nat (n + ?c)) = (of_nat (n + ?c) :: u64)"
    using small Cons.prems(3) by (subst max_of_nat) simp_all
  moreover obtain k where
    "check_entries (entries_at L (n + ?c) fs) (of_nat (n + ?c)) = Inr (of_nat k)"
    "fs \<noteq> [] \<longrightarrow> k = n + ?c + length (blobs_of L fs)" "fs = [] \<longrightarrow> k = n + ?c"
    using Cons.IH [of "n + ?c" "n + ?c"] Cons.prems by auto
  ultimately show ?case
    using Cons.prems(1) by (intro exI [of _ k]) (auto simp: entry_of_def)
qed

lemma ranges_at:
  assumes "n + length (blobs_of L fs) < 2 ^ 64" "\<forall>f\<in>set fs. pl_deflate L (snd f) \<noteq> []"
  shows "sorted (map entry_range (entries_at L n fs)) \<and>
    check_ranges (map entry_range (entries_at L n fs)) = Inr () \<and>
    (\<forall>r\<in>set (map entry_range (entries_at L n fs)). n \<le> unat (fst r))"
  using assms
proof (induction fs arbitrary: n)
  case Nil
  then show ?case by simp
next
  case (Cons f fs)
  let ?c = "length (pl_deflate L (snd f))"
  let ?r = "entry_range (entry_of L n f)"
  let ?rs = "map entry_range (entries_at L (n + ?c) fs)"
  from Cons.prems have small: "n < 2 ^ 64" "n + ?c < 2 ^ 64" "0 < ?c" by auto
  then have r: "unat (fst ?r) = n" "unat (fst (snd ?r)) = n + ?c"
    by (simp_all add: entry_range_def entry_of_def of_nat_unat of_nat_add [symmetric] del: of_nat_add)
  have IH: "sorted ?rs" "check_ranges ?rs = Inr ()" "\<forall>r\<in>set ?rs. n + ?c \<le> unat (fst r)"
    using Cons.IH [of "n + ?c"] Cons.prems by auto
  have "?r \<le> r'" if "r' \<in> set ?rs" for r'
  proof -
    have "n + ?c \<le> unat (fst r')" using IH(3) that by blast
    then have "fst ?r < fst r'" using r small(3) unfolding word_less_nat_alt by linarith
    then show ?thesis by (simp add: less_eq_prod_def)
  qed
  moreover have "check_ranges (?r # ?rs) = Inr ()"
  proof (cases ?rs)
    case (Cons b rs)
    then have "n + ?c \<le> unat (fst b)" using IH(3) by simp
    then have "\<not> fst b < fst (snd ?r)" using r unfolding word_less_nat_alt by linarith
    with Cons IH(2) show ?thesis by simp
  qed simp
  ultimately show ?case using IH r by (auto intro: order_trans [rotated])
qed

text \<open>The bytes at the range of an entry are its compressed stream.\<close>

lemma slice_at:
  assumes "f \<in> set fs" "length pre + length (blobs_of L fs) < 2 ^ 64"
  shows "\<exists>k. entry_of L k f \<in> set (entries_at L (length pre) fs) \<and>
    slice_get k (k + length (pl_deflate L (snd f))) (pre @ blobs_of L fs) = Some (pl_deflate L (snd f)) \<and>
    k + length (pl_deflate L (snd f)) < 2 ^ 64"
  using assms
proof (induction fs arbitrary: pre)
  case Nil
  then show ?case by simp
next
  case (Cons g fs)
  show ?case
  proof (cases "f = g")
    case True
    with Cons.prems show ?thesis
      by (intro exI [of _ "length pre"]) (auto simp: slice_get_def)
  next
    case False
    with Cons.prems Cons.IH [of "pre @ pl_deflate L (snd g)"] show ?thesis by auto
  qed
qed

lemma find_entry_at:
  assumes "distinct (map fst fs)" "entry_of L k f \<in> set (entries_at L n fs)"
  shows "find (\<lambda>e. en_name e = fst f) (entries_at L n fs) = Some (entry_of L k f)"
  using assms
proof (induction fs arbitrary: n)
  case Nil
  then show ?case by simp
next
  case (Cons g fs)
  have names: "en_name e \<in> fst ` set fs" if "e \<in> set (entries_at L m fs)" for e m
    using that by (induction fs arbitrary: m) (auto simp: entry_of_def)
  have nm: "en_name (entry_of L j h) = fst h" for j h by (simp add: entry_of_def)
  show ?case
  proof (cases "fst f = fst g")
    case True
    then have "entry_of L k f \<notin> set (entries_at L (n + length (pl_deflate L (snd g))) fs)"
      using names [of "entry_of L k f"] nm Cons.prems(1) by auto
    with Cons.prems(2) True show ?thesis by (simp add: nm)
  next
    case False
    then have "entry_of L k f \<noteq> entry_of L n g" by (auto simp: entry_of_def)
    with Cons False show ?thesis by (simp add: nm)
  qed
qed

section \<open>The round trip\<close>

text \<open>What the code relies on: inflating undoes deflating, and a compressed stream is not empty.\<close>

definition codec_ok :: "payload_lib \<Rightarrow> bool" where
  "codec_ok L \<longleftrightarrow> (\<forall>d. pl_inflate L (pl_deflate L d) = \<lparr>in_bytes = d, in_error = None\<rparr> \<and>
     pl_deflate L d \<noteq> [])"

definition manifest_of :: "payload_lib \<Rightarrow> (string \<times> bytes) list \<Rightarrow> payload_manifest" where
  "manifest_of L fs = \<lparr>mf_version = FORMAT_VERSION, mf_entries = entries_at L 0 fs\<rparr>"

lemma build_payload_Inr:
  assumes "build_payload L fs = Inr payload"
  shows "payload = blobs_of L fs @ pl_to_json L (manifest_of L fs) @
      u64_le (of_nat (length (pl_to_json L (manifest_of L fs)))) @ u64_le MAGIC \<and>
    (\<forall>f\<in>set fs. validate_name (fst f) = Inr ()) \<and> distinct (map fst fs)"
proof -
  from assms obtain out es where loop: "write_blobs_loop L fs [] [] 0 = Inr (out, es)"
    and p: "Inr payload = (Inr (let json = pl_to_json L \<lparr>mf_version = FORMAT_VERSION, mf_entries = es\<rparr>
      in out @ json @ u64_le (of_nat (length json)) @ u64_le MAGIC) :: tm_error + bytes)"
    by (auto simp: build_payload_def write_blobs_def and_then_Inr_iff Let_def)
  from write_blobs_loop_Inr [of L fs "[]" "[]" out es] loop p show ?thesis
    by (simp add: manifest_of_def Let_def)
qed

lemma parse_archive_payload:
  assumes footer: "data = pre @ blobs @ json @ u64_le (of_nat (length json)) @ u64_le MAGIC"
    and len: "length data < 2 ^ 64" "2 \<le> length json"
    and json: "pl_from_json L json = Inr manifest" "mf_version manifest = FORMAT_VERSION"
      "mf_entries manifest \<noteq> []"
  shows "check_entries (mf_entries manifest) 0 = Inl err \<Longrightarrow> parse_archive L data = Inl err"
    and "check_entries (mf_entries manifest) 0 = Inr (of_nat (length blobs)) \<Longrightarrow>
      check_ranges (sort (map entry_range (mf_entries manifest))) = Inr () \<Longrightarrow>
      parse_archive L data = Inr \<lparr>ar_manifest = manifest, ar_blobs = blobs\<rparr>"
proof -
  have sizes: "length data - FOOTER_LEN = length pre + length blobs + length json"
    "FOOTER_LEN \<le> length data"
    by (simp_all add: footer FOOTER_LEN_def)
  have small: "length json < 2 ^ 64" "length blobs < 2 ^ 64" using len(1) by (simp_all add: footer)
  have "take 8 (drop (length data - FOOTER_LEN) data) = u64_le (of_nat (length json))"
    "take 8 (drop (length data - FOOTER_LEN + 8) data) = u64_le MAGIC"
    unfolding sizes by (simp_all add: footer)
  moreover have "take (length json) (drop (length pre + length blobs) data) = json"
    by (simp add: footer)
  moreover have "take (length blobs) (drop (length pre) data) = blobs"
    by (simp add: footer)
  moreover note parse = calculation
  show "check_entries (mf_entries manifest) 0 = Inl err \<Longrightarrow> parse_archive L data = Inl err"
    using parse sizes(2) len(2) json
    by (simp add: parse_archive_def sizes(1) of_nat_unat [OF small(1)] not_less)
  show "check_entries (mf_entries manifest) 0 = Inr (of_nat (length blobs)) \<Longrightarrow>
      check_ranges (sort (map entry_range (mf_entries manifest))) = Inr () \<Longrightarrow>
      parse_archive L data = Inr \<lparr>ar_manifest = manifest, ar_blobs = blobs\<rparr>"
    using parse sizes(2) len(2) json
    by (simp add: parse_archive_def sizes(1) of_nat_unat [OF small(1)] of_nat_unat [OF small(2)] not_less)
qed

lemma read_entry_packed:
  assumes "codec_ok L" "f \<in> set fs" "length (blobs_of L fs) < 2 ^ 64" "length (snd f) < 2 ^ 64"
    "distinct (map fst fs)"
  shows "and_then (find_entry \<lparr>ar_manifest = manifest_of L fs, ar_blobs = blobs_of L fs\<rparr> (fst f))
    (read_entry L \<lparr>ar_manifest = manifest_of L fs, ar_blobs = blobs_of L fs\<rparr>) = Inr (snd f)"
proof -
  let ?c = "length (pl_deflate L (snd f))"
  from slice_at [OF assms(2), of "[]" L] assms(3) obtain k where k:
    "entry_of L k f \<in> set (entries_at L 0 fs)"
    "slice_get k (k + ?c) (blobs_of L fs) = Some (pl_deflate L (snd f))" "k + ?c < 2 ^ 64" by auto
  then have small: "k < 2 ^ 64" by simp
  have offs: "unat (of_nat k + of_nat ?c :: u64) = k + ?c"
    by (simp only: of_nat_add [symmetric] of_nat_unat [OF k(3)])
  have "length (snd f) \<le> unat (saturating_add (of_nat (length (snd f)) :: u64) 1) \<or>
      length (snd f) = 2 ^ 64 - 1"
    using assms(4) by (auto simp: saturating_add_unat of_nat_unat)
  then have "read_limited \<lparr>in_bytes = snd f, in_error = None\<rparr>
      (unat (saturating_add (of_nat (length (snd f)) :: u64) 1)) = Inr (snd f)"
    using assms(4) by (auto simp: read_limited_def saturating_add_unat of_nat_unat)
  then have "inflate_bounded (pl_inflate L (pl_deflate L (snd f))) (fst f) (of_nat (length (snd f))) =
      Inr (snd f)"
    using assms(1,4) by (simp add: codec_ok_def inflate_bounded_def of_nat_unat)
  moreover have "find_entry \<lparr>ar_manifest = manifest_of L fs, ar_blobs = blobs_of L fs\<rparr> (fst f) =
      Inr (entry_of L k f)"
    using find_entry_at [OF assms(5) k(1)] by (simp add: find_entry_def manifest_of_def)
  ultimately show ?thesis
    using k(2) by (simp add: read_entry_def entry_of_def offs of_nat_unat [OF small])
qed

text \<open>
  C8: Packing and unpacking are inverse. What \<open>build_payload\<close> makes of non-empty files, appended
  to any setup executable, is parsed back as an archive with the same names in the same order, and
  looking up and reading each name gives the bytes that were packed.
\<close>

theorem payload_roundtrip:
  assumes "codec_ok L" and "build_payload L fs = Inr payload" and "fs \<noteq> []"
    and "\<forall>f\<in>set fs. snd f \<noteq> [] \<and> length (snd f) < 2 ^ 64" and "length (setup @ payload) < 2 ^ 64"
    and "pl_from_json L (pl_to_json L (manifest_of L fs)) = Inr (manifest_of L fs)"
    and "2 \<le> length (pl_to_json L (manifest_of L fs))"
  shows "\<exists>a. parse_archive L (setup @ payload) = Inr a \<and>
    map en_name (mf_entries (ar_manifest a)) = map fst fs \<and>
    (\<forall>f\<in>set fs. and_then (find_entry a (fst f)) (read_entry L a) = Inr (snd f))"
proof -
  let ?a = "\<lparr>ar_manifest = manifest_of L fs, ar_blobs = blobs_of L fs\<rparr>"
  from build_payload_Inr [OF assms(2)] have payload: "payload = blobs_of L fs @
      pl_to_json L (manifest_of L fs) @
      u64_le (of_nat (length (pl_to_json L (manifest_of L fs)))) @ u64_le MAGIC"
    and names: "\<forall>f\<in>set fs. validate_name (fst f) = Inr ()" "distinct (map fst fs)" by blast+
  have blobs: "length (blobs_of L fs) < 2 ^ 64" using assms(5) by (simp add: payload)
  have nonempty: "\<forall>f\<in>set fs. pl_deflate L (snd f) \<noteq> []" using assms(1) by (simp add: codec_ok_def)
  obtain k where "check_entries (entries_at L 0 fs) (of_nat 0) = Inr (of_nat k)"
    "fs \<noteq> [] \<longrightarrow> k = 0 + length (blobs_of L fs)"
    using check_entries_at [of fs L 0 0] names(1) assms(4) blobs nonempty by auto
  with assms(3) have entries: "check_entries (entries_at L 0 fs) 0 = Inr (of_nat (length (blobs_of L fs)))"
    by simp
  have ranges: "check_ranges (sort (map entry_range (entries_at L 0 fs))) = Inr ()"
    using ranges_at [of 0 L fs] blobs nonempty by (simp add: sorted_sort_id)
  have "parse_archive L (setup @ payload) = Inr ?a"
    by (rule parse_archive_payload(2) [OF _ assms(5) assms(7,6)])
       (simp_all add: payload assms(3) entries ranges manifest_of_def)
  moreover have "and_then (find_entry ?a (fst f)) (read_entry L ?a) = Inr (snd f)" if "f \<in> set fs" for f
    using read_entry_packed [OF assms(1) that blobs _ names(2)] assms(4) that by blast
  ultimately show ?thesis by (intro exI [of _ ?a]) (simp add: manifest_of_def)
qed


lemma empty_entry_rejected:
  "e \<in> set es \<Longrightarrow> en_uncompressed e = 0 \<Longrightarrow> \<exists>error. check_entries es m = Inl error"
proof (induction es arbitrary: m)
  case Nil
  then show ?case by simp
next
  case (Cons e' es)
  then show ?case by (auto simp: and_then_def split: sum.split option.split)
qed

lemma zero_length_entry: "f \<in> set fs \<Longrightarrow> snd f = [] \<Longrightarrow> \<exists>e\<in>set (entries_at L n fs). en_uncompressed e = 0"
  by (induction fs arbitrary: n) (auto simp: entry_of_def)

text \<open>
  An empty file can be packed but not unpacked. \<open>build_payload\<close> accepts an empty input file,
  and the archive it makes of files among which one is empty is rejected as a whole when it is
  parsed, so that the finished setup executable opens none of its files.
\<close>

theorem empty_file_spoils_archive:
  assumes "build_payload L fs = Inr payload" and "f \<in> set fs" and "snd f = []"
    and "length (setup @ payload) < 2 ^ 64"
    and "pl_from_json L (pl_to_json L (manifest_of L fs)) = Inr (manifest_of L fs)"
    and "2 \<le> length (pl_to_json L (manifest_of L fs))"
  shows "\<exists>error. parse_archive L (setup @ payload) = Inl error"
proof -
  from zero_length_entry [OF assms(2,3)] obtain e where "e \<in> set (entries_at L 0 fs)" "en_uncompressed e = 0"
    by blast
  from empty_entry_rejected [OF this] obtain error where "check_entries (entries_at L 0 fs) 0 = Inl error"
    by blast
  moreover from build_payload_Inr [OF assms(1)] have "setup @ payload = setup @ blobs_of L fs @
      pl_to_json L (manifest_of L fs) @
      u64_le (of_nat (length (pl_to_json L (manifest_of L fs)))) @ u64_le MAGIC" by simp
  ultimately have "parse_archive L (setup @ payload) = Inl error"
    using assms(2) by (intro parse_archive_payload(1) [OF _ assms(4) assms(6,5)])
      (auto simp: manifest_of_def)
  then show ?thesis by blast
qed

section \<open>A concrete archive\<close>

text \<open>Stored streams with a one-byte header for the codec, a checksum for the digest, and a JSON
  coder for the one manifest of given files.\<close>

definition store_lib :: "payload_lib" where
  "store_lib = \<lparr>pl_deflate = (\<lambda>d. 0x78 # d),
     pl_inflate = (\<lambda>s. case s of [] \<Rightarrow> \<lparr>in_bytes = [], in_error = Some \<lparr>io_kind = InvalidData, io_text = ''end''\<rparr>\<rparr>
       | _ # d \<Rightarrow> \<lparr>in_bytes = d, in_error = None\<rparr>),
     pl_sha256 = (\<lambda>d. [of_nat (length d), sum_list d]),
     pl_to_json = (\<lambda>m. [0x7B, 0x7D]), pl_from_json = (\<lambda>s. Inl ''not the manifest'')\<rparr>"

definition lib_for :: "(string \<times> bytes) list \<Rightarrow> payload_lib" where
  "lib_for fs = store_lib\<lparr>pl_from_json := (\<lambda>s.
     if s = [0x7B, 0x7D] then Inr (manifest_of store_lib fs) else Inl ''not the manifest'')\<rparr>"

lemma lib_for_simps [simp]:
  "pl_deflate (lib_for fs) d = 0x78 # d" "pl_to_json (lib_for fs) m = [0x7B, 0x7D]"
  "pl_sha256 (lib_for fs) d = [of_nat (length d), sum_list d]"
  "pl_from_json (lib_for fs) [0x7B, 0x7D] = Inr (manifest_of store_lib fs)"
  "pl_inflate (lib_for fs) (b # d) = \<lparr>in_bytes = d, in_error = None\<rparr>"
  by (simp_all add: lib_for_def store_lib_def)

lemma manifest_of_lib_for: "manifest_of (lib_for gs) fs = manifest_of store_lib fs"
proof -
  have "entries_at (lib_for gs) n fs = entries_at store_lib n fs" for n
    by (induction fs arbitrary: n) (simp_all add: entry_of_def store_lib_def hex_sha256_def)
  then show ?thesis by (simp add: manifest_of_def)
qed

lemma codec_ok_lib_for: "codec_ok (lib_for fs)"
  by (simp add: codec_ok_def)

definition packed_files :: "(string \<times> bytes) list" where
  "packed_files = [(''a'', [1, 2, 3]), (''LICENSE'', [7])]"

definition stub :: bytes where "stub = [0x4D, 0x5A, 9]"

definition sample_payload :: bytes where
  "sample_payload = [0x78, 1, 2, 3, 0x78, 7, 0x7B, 0x7D] @ u64_le 2 @ u64_le MAGIC"

lemma sample_names: "validate_name ''a'' = Inr ()" "validate_name ''LICENSE'' = Inr ()"
  by code_simp+

lemma sample_build: "build_payload (lib_for packed_files) packed_files = Inr sample_payload"
  by (simp add: build_payload_def write_blobs_def packed_files_def sample_names sample_payload_def)

theorem payload_roundtrip_witness:
  "\<exists>a. parse_archive (lib_for packed_files) (stub @ sample_payload) = Inr a \<and>
    map en_name (mf_entries (ar_manifest a)) = map fst packed_files \<and>
    (\<forall>f\<in>set packed_files. and_then (find_entry a (fst f)) (read_entry (lib_for packed_files) a) = Inr (snd f))"
  by (rule payload_roundtrip [OF codec_ok_lib_for sample_build])
     (simp_all add: manifest_of_lib_for, simp_all add: packed_files_def stub_def sample_payload_def)

definition spoiled_files :: "(string \<times> bytes) list" where
  "spoiled_files = [(''a'', [1, 2, 3]), (''LICENSE'', [])]"

theorem empty_file_spoils_archive_witness:
  "\<exists>payload error. build_payload (lib_for spoiled_files) spoiled_files = Inr payload \<and>
     parse_archive (lib_for spoiled_files) (stub @ payload) = Inl error"
proof -
  have build: "build_payload (lib_for spoiled_files) spoiled_files =
      Inr ([0x78, 1, 2, 3, 0x78, 0x7B, 0x7D] @ u64_le 2 @ u64_le MAGIC)"
    by (simp add: build_payload_def write_blobs_def spoiled_files_def sample_names)
  have "\<exists>error. parse_archive (lib_for spoiled_files)
      (stub @ [0x78, 1, 2, 3, 0x78, 0x7B, 0x7D] @ u64_le 2 @ u64_le MAGIC) = Inl error"
    by (rule empty_file_spoils_archive [OF build, of "(''LICENSE'', [])"])
       (simp_all add: manifest_of_lib_for, simp_all add: spoiled_files_def stub_def)
  with build show ?thesis by blast
qed

lemma parsed_sample:
  "parse_archive (lib_for packed_files) (stub @ sample_payload) =
     Inr \<lparr>ar_manifest = manifest_of store_lib packed_files, ar_blobs = [0x78, 1, 2, 3, 0x78, 7]\<rparr>"
proof (rule parse_archive_payload(2) [where json = "[0x7B, 0x7D]"])
  have "entries_at store_lib 0 packed_files =
      [\<lparr>en_name = ''a'', en_offset = 0, en_compressed = 4, en_uncompressed = 3, en_sha256 = hex_string [3, 6]\<rparr>,
       \<lparr>en_name = ''LICENSE'', en_offset = 4, en_compressed = 2, en_uncompressed = 1, en_sha256 = hex_string [1, 7]\<rparr>]"
    by (simp add: packed_files_def entry_of_def store_lib_def hex_sha256_def)
  then show "check_entries (mf_entries (manifest_of store_lib packed_files)) 0 =
      Inr (of_nat (length [0x78, 1, 2, 3, 0x78, 7 :: u8]))"
    "check_ranges (sort (map entry_range (mf_entries (manifest_of store_lib packed_files)))) = Inr ()"
    by (simp_all add: manifest_of_def sample_names checked_add_def entry_range_def)
qed (simp_all add: stub_def sample_payload_def manifest_of_def packed_files_def)

theorem parsed_archive_safe_witness:
  "archive_safe \<lparr>ar_manifest = manifest_of store_lib packed_files, ar_blobs = [0x78, 1, 2, 3, 0x78, 7]\<rparr>"
  using parsed_archive_safe [OF parsed_sample] by simp

lemma extracted_sample:
  "extract_to (lib_for packed_files)
     \<lparr>ar_manifest = manifest_of store_lib packed_files, ar_blobs = [0x78, 1, 2, 3, 0x78, 7]\<rparr> [''tm''] =
   Inr (CreateDirAll [''tm''] # write_ops [''tm''] packed_files, map (\<lambda>q. entry_path [''tm''] (fst q)) packed_files)"
  by (simp add: extract_to_def manifest_of_def packed_files_def entry_of_def store_lib_def read_entry_def
      slice_get_def inflate_bounded_def read_limited_def saturating_add_def hex_sha256_def lib_for_def
      write_ops_def entry_path_def)

theorem extraction_confined_witness:
  "fs_run (\<lambda>_. None) (take 3 (CreateDirAll [''tm''] # write_ops [''tm''] packed_files)) (entry_path [''etc''] ''a'') =
     None \<and>
   (\<exists>d. fs_read (fs_run (\<lambda>_. None) (CreateDirAll [''tm''] # write_ops [''tm''] packed_files))
      (entry_path [''tm''] ''LICENSE'') = Some d)"
  using extraction_confined [OF parsed_sample extracted_sample, of "\<lambda>_. None"]
  by (auto simp: packed_files_def entry_path_def)

end
