(* ===== verification/Tree_Walk.thy ===== *)
theory Tree_Walk
  imports Ordered_Map "HOL-Library.Multiset"
begin

text \<open>
  Walks over parent-to-children maps, as the process trees, the family groups and the tree kill
  perform them: with an explicit stack (its top is the head of the list here), a set of visited
  keys, and no assumption that the map is acyclic. What a walk reaches, and what a forest of
  roots covers.
\<close>

section \<open>Children maps and reachability\<close>

text \<open>\<open>children.get(&pid).into_iter().flatten()\<close>.\<close>

definition kids_of :: "('k::linorder, 'n list) btree \<Rightarrow> 'k \<Rightarrow> 'n list" where
  "kids_of children pid = unwrap_or (bt_get children pid) []"

text \<open>\<open>children.entry(parent).or_default().push(node)\<close>.\<close>

definition push_kid :: "'k::linorder \<Rightarrow> 'n \<Rightarrow> ('k, 'n list) btree \<Rightarrow> ('k, 'n list) btree" where
  "push_kid parent node children = bt_upsert parent [] (\<lambda>ns. ns @ [node]) children"

lemma kids_of_Nil [simp]: "kids_of [] pid = []"
  by (simp add: kids_of_def)

lemma kids_of_push [simp]:
  "kids_of (push_kid parent node children) pid =
     (if pid = parent then kids_of children pid @ [node] else kids_of children pid)"
  by (simp add: kids_of_def push_kid_def bt_get_upsert)

lemma kids_of_key: "kids_of children pid \<noteq> [] \<Longrightarrow> pid \<in> fst ` set children"
  by (force simp: kids_of_def unwrap_or_def split: option.splits dest: bt_get_Some_in)

text \<open>Children maps built by pushing the nodes of a list under the parent each of them has.\<close>

definition add_kid :: "('n \<Rightarrow> 'k option) \<Rightarrow> 'n \<Rightarrow> ('k::linorder, 'n list) btree \<Rightarrow> ('k, 'n list) btree" where
  "add_kid parent n children = (case parent n of None \<Rightarrow> children | Some p \<Rightarrow> push_kid p n children)"

definition children_by :: "('n \<Rightarrow> 'k option) \<Rightarrow> 'n list \<Rightarrow> ('k::linorder, 'n list) btree" where
  "children_by parent ns = foldl (\<lambda>m n. add_kid parent n m) [] ns"

lemma kids_of_children_by: "kids_of (children_by parent ns) p = filter (\<lambda>n. parent n = Some p) ns"
  by (induction ns rule: rev_induct) (auto simp: children_by_def add_kid_def split: option.split)

definition edges :: "('n \<Rightarrow> 'k) \<Rightarrow> ('k::linorder, 'n list) btree \<Rightarrow> ('k \<times> 'k) set" where
  "edges key children = {(p, q). q \<in> key ` set (kids_of children p)}"

definition reach :: "('k \<times> 'k) set \<Rightarrow> 'k set \<Rightarrow> 'k set" where
  "reach E S = E\<^sup>* `` S"

lemma reach_mono: "S \<subseteq> T \<Longrightarrow> reach E S \<subseteq> reach E T"
  by (auto simp: reach_def)

lemma reach_Un: "reach E (S \<union> T) = reach E S \<union> reach E T"
  by (simp only: reach_def Image_Un)

lemma reach_insert: "reach E (insert a S) = reach E {a} \<union> reach E S"
  using reach_Un [of E "{a}" S] by simp

lemma reach_refl: "S \<subseteq> reach E S"
  by (auto simp: reach_def)

lemma reach_closed: "E `` S \<subseteq> S \<Longrightarrow> reach E S = S"
  unfolding reach_def by (auto elim!: rtrancl_induct)

lemma reach_add_successors: "reach E (S \<union> E `` T) \<subseteq> reach E (S \<union> T)"
  unfolding reach_def by (auto intro: converse_rtrancl_into_rtrancl)

lemma reach_step:
  assumes "N \<subseteq> E `` {p}" "E `` {p} \<subseteq> N \<union> S" "p \<in> S"
  shows "reach E (S \<union> N) = reach E S"
proof
  show "reach E S \<subseteq> reach E (S \<union> N)" by (rule reach_mono) blast
  have "S \<union> N \<subseteq> S \<union> E `` {p}" using assms(1) by blast
  then have "reach E (S \<union> N) \<subseteq> reach E (S \<union> E `` {p})" by (rule reach_mono)
  also have "\<dots> \<subseteq> reach E (S \<union> {p})" by (rule reach_add_successors)
  also have "S \<union> {p} = S" using assms(3) by blast
  finally show "reach E (S \<union> N) \<subseteq> reach E S" .
qed

section \<open>Marking everything below a stack of keys\<close>

lemma unvisited_less:
  assumes "pid \<notin> covered" "kids_of children pid \<noteq> []"
  shows "card (fst ` set children - insert pid covered) < card (fst ` set children - covered)"
proof (rule psubset_card_mono)
  show "fst ` set children - insert pid covered \<subset> fst ` set children - covered"
    using assms kids_of_key [OF assms(2)] by auto
qed simp

lemma unvisited_le: "card (fst ` set children - insert pid covered) \<le> card (fst ` set children - covered)"
  by (intro card_mono) auto

function mark_below ::
    "('n \<Rightarrow> 'k) \<Rightarrow> ('k::linorder, 'n list) btree \<Rightarrow> 'k list \<Rightarrow> 'k set \<Rightarrow> 'k set" where
  "mark_below key children [] covered = covered"
| "mark_below key children (pid # stack) covered =
     (if pid \<in> covered then mark_below key children stack covered
      else mark_below key children (rev (map key (kids_of children pid)) @ stack) (insert pid covered))"
  by pat_completeness auto

termination
proof (relation "measures [\<lambda>(key, children, stack, covered). card (fst ` set children - covered),
    \<lambda>(key, children, stack, covered). length stack]")
  fix key :: "'n \<Rightarrow> 'k::linorder" and children :: "('k::linorder, 'n list) btree"
    and pid :: "'k::linorder" and stack :: "'k::linorder list" and covered :: "'k::linorder set"
  assume "pid \<notin> covered"
  with unvisited_less [of pid covered children] unvisited_le [of children pid covered]
  show "((key, children, rev (map key (kids_of children pid)) @ stack, insert pid covered),
      key, children, pid # stack, covered) \<in> measures
    [\<lambda>(key, children, stack, covered). card (fst ` set children - covered),
     \<lambda>(key, children, stack, covered). length stack]"
    by (cases "kids_of children pid = []") auto
qed auto

declare mark_below.simps(2) [simp del]

lemma mark_below_reach:
  assumes "edges key children `` covered \<subseteq> covered \<union> set stack"
  shows "mark_below key children stack covered = reach (edges key children) (covered \<union> set stack)"
  using assms
proof (induction key children stack covered rule: mark_below.induct)
  case (1 key children covered)
  then show ?case by (simp add: reach_closed)
next
  case (2 key children pid stack covered)
  let ?E = "edges key children" and ?kids = "key ` set (kids_of children pid)"
  show ?case
  proof (cases "pid \<in> covered")
    case True
    have "?E `` covered \<subseteq> covered \<union> set stack" using 2(3) True by auto
    with 2(1) [OF True] True show ?thesis by (simp add: mark_below.simps insert_absorb)
  next
    case False
    have kids: "?E `` {pid} = ?kids" by (auto simp: edges_def)
    have "?E `` insert pid covered \<subseteq> insert pid covered \<union> set (rev (map key (kids_of children pid)) @ stack)"
      using 2(3) kids by auto
    from 2(2) [OF False this]
    have "mark_below key children (pid # stack) covered =
        reach ?E (insert pid covered \<union> set stack \<union> ?kids)"
      using False by (simp add: mark_below.simps Un_ac)
    also have "\<dots> = reach ?E (insert pid covered \<union> set stack)"
      by (rule reach_step [of _ _ pid]) (auto simp: kids)
    finally show ?thesis by simp
  qed
qed

text \<open>\<open>mark_tree_component\<close>: one root, into a set of whole components.\<close>

lemma mark_below_root:
  assumes "edges key children `` covered \<subseteq> covered"
  shows "mark_below key children [r] covered = covered \<union> reach (edges key children) {r}"
    and "edges key children `` mark_below key children [r] covered \<subseteq> mark_below key children [r] covered"
proof -
  have "edges key children `` covered \<subseteq> covered \<union> set [r]" using assms by auto
  from mark_below_reach [OF this]
  have "mark_below key children [r] covered = reach (edges key children) (covered \<union> {r})"
    by (simp only: list.set)
  moreover have "reach (edges key children) (covered \<union> {r}) = covered \<union> reach (edges key children) {r}"
    using reach_closed [OF assms] by (simp only: reach_def Image_Un)
  ultimately show "mark_below key children [r] covered = covered \<union> reach (edges key children) {r}" by simp
  moreover have "edges key children `` reach (edges key children) {r} \<subseteq> reach (edges key children) {r}"
    by (auto simp: reach_def intro: rtrancl_into_rtrancl)
  ultimately show "edges key children `` mark_below key children [r] covered \<subseteq>
      mark_below key children [r] covered"
    using assms by auto
qed

section \<open>Roots\<close>

text \<open>The nodes without a parent in the map, in order, and then a representative of each
  component that none of them reaches: malformed graphs have cycles.\<close>

definition linked_keys :: "('n \<Rightarrow> 'k) \<Rightarrow> ('k::linorder, 'n list) btree \<Rightarrow> 'k set" where
  "linked_keys key children = key ` set (concat (map snd children))"

fun uncovered_roots ::
    "('n \<Rightarrow> 'k) \<Rightarrow> ('k::linorder, 'n list) btree \<Rightarrow> 'n list \<Rightarrow> 'k set \<Rightarrow> 'n list" where
  "uncovered_roots key children [] covered = []"
| "uncovered_roots key children (n # ns) covered =
     (if key n \<in> covered then uncovered_roots key children ns covered
      else n # uncovered_roots key children ns (mark_below key children [key n] covered))"

lemma uncovered_roots_reach:
  assumes "edges key children `` covered \<subseteq> covered"
  shows "key ` set ns \<subseteq> covered \<union>
      reach (edges key children) (key ` set (uncovered_roots key children ns covered)) \<and>
    set (uncovered_roots key children ns covered) \<subseteq> set ns"
  using assms
proof (induction key children ns covered rule: uncovered_roots.induct)
  case (1 key children covered)
  then show ?case by simp
next
  case (2 key children n ns covered)
  let ?E = "edges key children"
  show ?case
  proof (cases "key n \<in> covered")
    case True
    with 2(1) [OF True 2(3)] show ?thesis by auto
  next
    case False
    define c where "c = mark_below key children [key n] covered"
    define rest where "rest = uncovered_roots key children ns c"
    note m = mark_below_root [OF 2(3), of "key n", folded c_def]
    have IH: "key ` set ns \<subseteq> c \<union> reach ?E (key ` set rest)" "set rest \<subseteq> set ns"
      using 2(2) [OF False] m(2) unfolding c_def rest_def by blast+
    have both: "reach ?E (key ` set (n # rest)) = reach ?E {key n} \<union> reach ?E (key ` set rest)"
      using reach_insert [of ?E "key n" "key ` set rest"] by simp
    have "key n \<in> reach ?E {key n}" using reach_refl [of "{key n}" ?E] by simp
    moreover have "key ` set ns \<subseteq> covered \<union> (reach ?E {key n} \<union> reach ?E (key ` set rest))"
      using IH(1) by (simp only: m(1) Un_assoc)
    ultimately have "insert (key n) (key ` set ns) \<subseteq>
        covered \<union> (reach ?E {key n} \<union> reach ?E (key ` set rest))"
      by (simp only: insert_subset Un_iff) simp
    then have "key ` set (n # ns) \<subseteq> covered \<union> reach ?E (key ` set (n # rest))"
      unfolding both by simp
    moreover have "uncovered_roots key children (n # ns) covered = n # rest"
      using False by (simp add: c_def rest_def)
    ultimately show ?thesis using IH(2) by auto
  qed
qed

definition forest_roots :: "('n \<Rightarrow> 'k) \<Rightarrow> ('k::linorder, 'n list) btree \<Rightarrow> 'n list \<Rightarrow> 'n list" where
  "forest_roots key children members =
     (let roots = filter (\<lambda>n. key n \<notin> linked_keys key children) members;
          covered = foldl (\<lambda>c r. mark_below key children [key r] c) {} roots
      in roots @ uncovered_roots key children members covered)"

lemma mark_roots:
  "edges key children `` covered \<subseteq> covered \<Longrightarrow>
     foldl (\<lambda>c r. mark_below key children [key r] c) covered roots =
       covered \<union> reach (edges key children) (key ` set roots) \<and>
     edges key children `` foldl (\<lambda>c r. mark_below key children [key r] c) covered roots \<subseteq>
       foldl (\<lambda>c r. mark_below key children [key r] c) covered roots"
proof (induction roots arbitrary: covered)
  case Nil
  then show ?case by (simp add: reach_def)
next
  case (Cons r roots)
  let ?E = "edges key children"
  define c where "c = mark_below key children [key r] covered"
  note m = mark_below_root [OF Cons.prems, of "key r", folded c_def]
  have "reach ?E (key ` set (r # roots)) = reach ?E {key r} \<union> reach ?E (key ` set roots)"
    using reach_insert [of ?E "key r" "key ` set roots"] by simp
  then have "c \<union> reach ?E (key ` set roots) = covered \<union> reach ?E (key ` set (r # roots))"
    unfolding m(1) by (simp only: Un_assoc)
  note eq = trans [OF conjunct1 [OF Cons.IH [OF m(2)]] this]
  show ?case
    unfolding foldl.simps c_def [symmetric] by (intro conjI eq conjunct2 [OF Cons.IH [OF m(2)]])
qed

lemma forest_roots_cover:
  "key ` set members \<subseteq> reach (edges key children) (key ` set (forest_roots key children members)) \<and>
   set (forest_roots key children members) \<subseteq> set members"
proof -
  let ?E = "edges key children"
  define roots where "roots = filter (\<lambda>n. key n \<notin> linked_keys key children) members"
  define covered where "covered = foldl (\<lambda>c r. mark_below key children [key r] c) {} roots"
  have c: "covered = reach ?E (key ` set roots)" "?E `` covered \<subseteq> covered"
    using mark_roots [of key children "{}" roots] unfolding covered_def by blast+
  have fr: "forest_roots key children members = roots @ uncovered_roots key children members covered"
    by (simp add: forest_roots_def Let_def roots_def covered_def)
  have "reach ?E (key ` set (forest_roots key children members)) =
      covered \<union> reach ?E (key ` set (uncovered_roots key children members covered))"
    unfolding fr by (simp add: c(1) reach_def image_Un Image_Un)
  with uncovered_roots_reach [OF c(2), of members] show ?thesis
    by (auto simp: fr roots_def)
qed

section \<open>Collecting what is below a stack of nodes\<close>

function collect_below ::
    "('n \<Rightarrow> 'k) \<Rightarrow> ('k::linorder, 'n list) btree \<Rightarrow> 'n list \<Rightarrow> 'k set \<Rightarrow> 'n list" where
  "collect_below key children [] seen = []"
| "collect_below key children (n # stack) seen =
     (if key n \<in> seen then collect_below key children stack seen
      else n # collect_below key children (rev (kids_of children (key n)) @ stack) (insert (key n) seen))"
  by pat_completeness auto

termination
proof (relation "measures [\<lambda>(key, children, stack, seen). card (fst ` set children - seen),
    \<lambda>(key, children, stack, seen). length stack]")
  fix key :: "'n \<Rightarrow> 'k::linorder" and children :: "('k::linorder, 'n list) btree"
    and n :: 'n and stack :: "'n list" and seen :: "'k::linorder set"
  assume "key n \<notin> seen"
  with unvisited_less [of "key n" seen children] unvisited_le [of children "key n" seen]
  show "((key, children, rev (kids_of children (key n)) @ stack, insert (key n) seen),
      key, children, n # stack, seen) \<in> measures
    [\<lambda>(key, children, stack, seen). card (fst ` set children - seen),
     \<lambda>(key, children, stack, seen). length stack]"
    by (cases "kids_of children (key n) = []") auto
qed auto

declare collect_below.simps(2) [simp del]

lemma collect_below_mark:
  "mark_below key children (map key stack) seen = seen \<union> key ` set (collect_below key children stack seen) \<and>
   distinct (map key (collect_below key children stack seen)) \<and>
   key ` set (collect_below key children stack seen) \<inter> seen = {}"
proof (induction key children stack seen rule: collect_below.induct)
  case (1 key children seen)
  then show ?case by simp
next
  case (2 key children n stack seen)
  show ?case
  proof (cases "key n \<in> seen")
    case True
    with 2(1) [OF True] show ?thesis by (simp add: mark_below.simps collect_below.simps)
  next
    case False
    have "map key (rev (kids_of children (key n)) @ stack) =
        rev (map key (kids_of children (key n))) @ map key stack" by (simp add: rev_map)
    with 2(2) [OF False] False show ?thesis
      by (auto simp: mark_below.simps collect_below.simps)
  qed
qed

lemma collect_below_nodes:
  assumes "set stack \<subseteq> N" "\<And>p. set (kids_of children p) \<subseteq> N"
  shows "set (collect_below key children stack seen) \<subseteq> N"
  using assms
proof (induction key children stack seen rule: collect_below.induct)
  case (1 key children seen)
  then show ?case by simp
next
  case (2 key children n stack seen)
  have step: "set (rev (kids_of children (key n)) @ stack) \<subseteq> N" using 2(3,4) by simp
  show ?case
  proof (cases "key n \<in> seen")
    case True
    with 2(1) [OF True _ 2(4)] 2(3) show ?thesis by (simp add: collect_below.simps)
  next
    case False
    with 2(2) [OF False step 2(4)] 2(3) show ?thesis by (simp add: collect_below.simps)
  qed
qed

lemma collect_below_root:
  "key ` set (collect_below key children [r] {}) = reach (edges key children) {key r}"
  "distinct (map key (collect_below key children [r] {}))"
  "r \<in> set (collect_below key children [r] {})"
proof -
  have "edges key children `` {} \<subseteq> {} \<union> set (map key [r])" by simp
  from mark_below_reach [OF this]
  have "mark_below key children (map key [r]) {} = reach (edges key children) {key r}"
    by (simp only: list.set list.map Un_empty_left)
  with collect_below_mark [of key children "[r]" "{}"]
  show "key ` set (collect_below key children [r] {}) = reach (edges key children) {key r}"
    "distinct (map key (collect_below key children [r] {}))" by simp_all
qed (simp add: collect_below.simps)

section \<open>Forests\<close>

lemma key_inj:
  "distinct (map key ns) \<Longrightarrow> m \<in> set ns \<Longrightarrow> n \<in> set ns \<Longrightarrow> key m = key n \<Longrightarrow> m = n"
  by (auto simp: distinct_map inj_on_def)

lemma edges_children_by:
  "edges key (children_by parent ns) = {(p, key n) | p n. n \<in> set ns \<and> parent n = Some p}"
  by (auto simp: edges_def kids_of_children_by)

lemma kids_of_entry: "(k, v) \<in> set m \<Longrightarrow> bt_wf m \<Longrightarrow> kids_of m k = v"
  using bt_wf_get_iff [of m k v] by (simp add: kids_of_def)

lemma linked_children_by:
  "linked_keys key (children_by parent ns) = {key n | n. n \<in> set ns \<and> parent n \<noteq> None}"
proof -
  have wf: "bt_wf (children_by parent ns)"
    by (induction ns rule: rev_induct)
       (auto simp: children_by_def add_kid_def push_kid_def bt_wf_upsert bt_wf_Nil split: option.split)
  have "set (concat (map snd (children_by parent ns))) = (\<Union>p. set (kids_of (children_by parent ns) p))"
  proof (intro set_eqI iffI)
    fix n assume "n \<in> set (concat (map snd (children_by parent ns)))"
    then obtain k v where "(k, v) \<in> set (children_by parent ns)" "n \<in> set v" by auto
    with kids_of_entry [OF this(1) wf] show "n \<in> (\<Union>p. set (kids_of (children_by parent ns) p))" by blast
  next
    fix n assume "n \<in> (\<Union>p. set (kids_of (children_by parent ns) p))"
    then obtain p where "n \<in> set (unwrap_or (bt_get (children_by parent ns) p) [])"
      by (auto simp: kids_of_def)
    then obtain v where "(p, v) \<in> set (children_by parent ns)" "n \<in> set v"
      by (cases "bt_get (children_by parent ns) p") (auto dest: bt_get_Some_in)
    then show "n \<in> set (concat (map snd (children_by parent ns)))" by force
  qed
  then show ?thesis
    unfolding linked_keys_def by (auto simp: kids_of_children_by)
qed

lemma parent_unique:
  assumes "distinct (map key ns)" "(p, q) \<in> edges key (children_by parent ns)"
    "(p', q) \<in> edges key (children_by parent ns)"
  shows "p = p'"
proof -
  from assms(2,3) obtain n n' where "n \<in> set ns" "n' \<in> set ns" "parent n = Some p" "parent n' = Some p'"
    "key n = q" "key n' = q" by (auto simp: edges_children_by)
  moreover from this assms(1) have "n = n'" by (auto simp: distinct_map inj_on_def)
  ultimately show ?thesis by simp
qed

lemma reach_disjoint:
  assumes "\<And>p p' q. (p, q) \<in> E \<Longrightarrow> (p', q) \<in> E \<Longrightarrow> p = p'"
    and "\<And>p. (p, r) \<notin> E" "\<And>p. (p, r') \<notin> E" "r \<noteq> r'"
  shows "reach E {r} \<inter> reach E {r'} = {}"
proof -
  have "single_valued (E\<inverse>)" using assms(1) by (auto simp: single_valued_def)
  have False if "(r, q) \<in> E\<^sup>*" "(r', q) \<in> E\<^sup>*" for q
  proof -
    have "(q, r) \<in> (E\<inverse>)\<^sup>*" "(q, r') \<in> (E\<inverse>)\<^sup>*" using that by (simp_all add: rtrancl_converse)
    with single_valued_confluent [OF \<open>single_valued (E\<inverse>)\<close>]
    have "(r, r') \<in> (E\<inverse>)\<^sup>* \<or> (r', r) \<in> (E\<inverse>)\<^sup>*" by blast
    then have "(r', r) \<in> E\<^sup>* \<or> (r, r') \<in> E\<^sup>*" by (simp add: rtrancl_converse)
    with assms(2-4) show False by (auto elim: rtranclE)
  qed
  then show ?thesis by (auto simp: reach_def)
qed

text \<open>The nodes on a circle or below one.\<close>

definition below_circle :: "('k \<times> 'k) set \<Rightarrow> 'k \<Rightarrow> bool" where
  "below_circle E q \<longleftrightarrow> (\<exists>c. (c, c) \<in> E\<^sup>+ \<and> (c, q) \<in> E\<^sup>*)"

lemma below_circle_step: "below_circle E p \<Longrightarrow> (p, q) \<in> E\<^sup>* \<Longrightarrow> below_circle E q"
  unfolding below_circle_def by (meson rtrancl_trans)

lemma acyclic_below_circle: "acyclic E \<Longrightarrow> \<not> below_circle E q"
  by (simp add: acyclic_def below_circle_def)

text \<open>Every other node is reached from one without a parent.\<close>

lemma natural_roots_cover:
  assumes "\<forall>n\<in>set ns. \<forall>p. parent n = Some p \<longrightarrow> p \<in> key ` set ns"
    and "q \<in> key ` set ns" "\<not> below_circle (edges key (children_by parent ns)) q"
  shows "q \<in> reach (edges key (children_by parent ns)) (key ` set (filter (\<lambda>n. parent n = None) ns))"
proof -
  let ?E = "edges key (children_by parent ns)"
  let ?F = "{(p, q) \<in> ?E. \<not> below_circle ?E q}"
  have "?F \<subseteq> (key ` set ns) \<times> (key ` set ns)" using assms(1) by (auto simp: edges_children_by)
  then have "finite ?F" by (rule finite_subset) simp
  moreover have "acyclic ?F"
  proof (rule acyclicI, intro allI notI)
    fix c assume c: "(c, c) \<in> ?F\<^sup>+"
    then have "(c, c) \<in> ?E\<^sup>+" by (rule trancl_mono) auto
    then have "below_circle ?E c" unfolding below_circle_def by blast
    moreover have "\<exists>b. (b, c) \<in> ?F" using c by (meson tranclD2)
    ultimately show False by blast
  qed
  ultimately have "wf ?F" by (rule finite_acyclic_wf)
  then show ?thesis using assms(2,3)
  proof (induction q rule: wf_induct_rule)
    case (less q)
    then obtain n where n: "n \<in> set ns" "key n = q" by auto
    show ?case
    proof (cases "parent n")
      case None
      with n show ?thesis by (intro subsetD [OF reach_refl]) auto
    next
      case (Some p)
      with n have edge: "(p, q) \<in> ?E" by (auto simp: edges_children_by)
      then have "\<not> below_circle ?E p" using less.prems(2) below_circle_step [of ?E p q] by blast
      moreover have "(p, q) \<in> ?F" using edge less.prems(2) by blast
      ultimately have "p \<in> reach ?E (key ` set (filter (\<lambda>n. parent n = None) ns))"
        using less.IH assms(1) n(1) Some by blast
      with edge show ?thesis by (auto simp: reach_def intro: rtrancl_into_rtrancl)
    qed
  qed
qed

lemma uncovered_new:
  assumes "edges key children `` covered \<subseteq> covered"
  shows "key ` set (uncovered_roots key children ns covered) \<inter> covered = {}"
  using assms
proof (induction key children ns covered rule: uncovered_roots.induct)
  case (2 key children n ns covered)
  show ?case
  proof (cases "key n \<in> covered")
    case False
    from 2(2) [OF False mark_below_root(2) [OF 2(3)]] mark_below_root(1) [OF 2(3), of "key n"] False
    show ?thesis by auto
  qed (use 2 in simp)
qed simp

text \<open>The groups below the roots are a partition of the nodes that are not below a circle.\<close>

lemma forest_partition:
  fixes key :: "'n \<Rightarrow> 'k::linorder"
  assumes "distinct (map key ns)"
    and "\<forall>n\<in>set ns. \<forall>p. parent n = Some p \<longrightarrow> p \<in> key ` set ns"
  defines "children \<equiv> children_by parent ns"
  defines "free \<equiv> \<lambda>n. \<not> below_circle (edges key children) (key n)"
  shows "mset (filter free (concat (map (\<lambda>r. collect_below key children [r] {}) (forest_roots key children ns)))) =
    mset (filter free ns)"
proof -
  let ?E = "edges key children"
  let ?roots = "filter (\<lambda>n. parent n = None) ns"
  let ?group = "\<lambda>r. collect_below key children [r] {}"
  note group = collect_below_root [where key = key and children = children]
  have natural: "filter (\<lambda>n. key n \<notin> linked_keys key children) ns = ?roots"
  proof (rule filter_cong [OF refl])
    fix n assume n: "n \<in> set ns"
    have uniq: "m = n" if "m \<in> set ns" "key m = key n" for m
      using key_inj [OF assms(1) that(1) n that(2)] .
    have "key n \<in> linked_keys key children \<longleftrightarrow> (\<exists>m\<in>set ns. key m = key n \<and> parent m \<noteq> None)"
      unfolding linked_children_by children_def by (simp only: mem_Collect_eq) metis
    also have "\<dots> \<longleftrightarrow> parent n \<noteq> None" using n uniq by metis
    finally show "(key n \<notin> linked_keys key children) = (parent n = None)" by blast
  qed
  have cover: "key n \<in> reach ?E (key ` set ?roots)" if "n \<in> set ns" "free n" for n
    using natural_roots_cover [OF assms(2) imageI [OF that(1)]] that(2) unfolding free_def children_def by blast
  define covered where "covered = foldl (\<lambda>c r. mark_below key children [key r] c) {} ?roots"
  define extra where "extra = uncovered_roots key children ns covered"
  have covered: "covered = reach ?E (key ` set ?roots)" "?E `` covered \<subseteq> covered"
    using mark_roots [of key children "{}" ?roots] unfolding covered_def by blast+
  have roots: "forest_roots key children ns = ?roots @ extra"
    by (simp add: forest_roots_def natural Let_def extra_def covered_def)
  have circular: "filter free (?group r) = []" if "r \<in> set extra" for r
  proof -
    have "key r \<notin> covered" using uncovered_new [OF covered(2), of ns] that unfolding extra_def by blast
    moreover have "r \<in> set ns" using uncovered_roots_reach [OF covered(2), of ns] that unfolding extra_def by blast
    ultimately have "below_circle ?E (key r)" using cover covered(1) by (auto simp: free_def)
    moreover have "(key r, key m) \<in> ?E\<^sup>*" if "m \<in> set (?group r)" for m
    proof -
      have "key m \<in> reach ?E {key r}" using imageI [OF that, of key] unfolding group(1) .
      then show ?thesis by (simp add: reach_def)
    qed
    ultimately show ?thesis using below_circle_step [of ?E "key r"] by (auto simp: filter_empty_conv free_def)
  qed
  then have "filter free (concat (map ?group extra)) = []" by (induction extra) simp_all
  then have whole: "filter free (concat (map ?group (?roots @ extra))) = filter free (concat (map ?group ?roots))"
    by simp
  have kids: "set (kids_of children p) \<subseteq> set ns" for p
    by (auto simp: children_def kids_of_children_by)
  have "set (?group r) \<subseteq> set ns" if "r \<in> set ns" for r
    using collect_below_nodes [of "[r]" "set ns", OF _ kids] that by simp
  then have sub: "set (concat (map ?group ?roots)) \<subseteq> set ns" by auto
  have below: "reach ?E (key ` set rs) = key ` set (concat (map ?group rs))" for rs
  proof (induction rs)
    case (Cons r rs)
    then show ?case using reach_insert [of ?E "key r" "key ` set rs"] by (simp add: group(1) image_Un)
  qed (simp add: reach_def)
  have "distinct (map key (concat (map ?group rs)))" if "distinct (map key rs)" "set rs \<subseteq> set ?roots" for rs
    using that
  proof (induction rs)
    case (Cons r rs)
    have root: "(p, key s) \<notin> ?E" if "s \<in> set ?roots" for s p
      using that assms(1) by (auto simp: children_def edges_children_by distinct_map inj_on_def)
    have "reach ?E {key r} \<inter> reach ?E {key s} = {}" if "s \<in> set rs" for s
    proof (rule reach_disjoint)
      show "key r \<noteq> key s" using Cons.prems(1) that by auto
    qed (use parent_unique [OF assms(1)] root Cons.prems(2) that in \<open>auto simp: children_def\<close>)
    then have "key ` set (?group r) \<inter> key ` set (concat (map ?group rs)) = {}"
      by (auto simp: group(1) [symmetric] image_UN)
    with Cons group(2) show ?case by auto
  qed simp
  from this [of ?roots] assms(1) have dist: "distinct (map key (concat (map ?group ?roots)))"
    by (simp add: distinct_map_filter)
  have "n \<in> set (concat (map ?group ?roots))" if n: "n \<in> set ns" "free n" for n
  proof -
    have "key n \<in> key ` set (concat (map ?group ?roots))"
      using cover [OF n] unfolding below .
    then obtain m where m: "key n = key m" "m \<in> set (concat (map ?group ?roots))" by (rule imageE)
    from key_inj [OF assms(1) n(1) subsetD [OF sub m(2)] m(1)] m(2) show ?thesis by (simp only:)
  qed
  then have "set (filter free (concat (map ?group ?roots))) = set (filter free ns)"
    unfolding set_filter using sub by blast
  moreover have "distinct (filter free (concat (map ?group ?roots)))" "distinct (filter free ns)"
    using dist assms(1) by (auto simp: distinct_map)
  ultimately show ?thesis
    unfolding roots whole by (simp only: set_eq_iff_mset_eq_distinct)
qed

end
