(* ===== verification/Process_Entry.thy ===== *)
theory Process_Entry
  imports Ordered_Map Settings Classify "HOL-Library.Product_Lexorder"
begin

text \<open>
  The process of a snapshot and what the program derives from one or from a group of them
  (crates/tm-core/src/model.rs). Percentages and rates are rationals: of the floating point
  numbers of the code the finite ones are meant, without their rounding. Epoch seconds are
  integers.
\<close>

datatype proc_status = Running | Suspended | NotResponding

datatype uac_virtualization = UacEnabled | UacDisabled | UacNotAllowed | UacUnknown

record disk_active_share =
  ds_disk :: u32
  ds_active_pct :: rat

record gpu_engine_share =
  gs_adapter :: nat
  gs_engine :: u32
  gs_util_pct :: rat

record process_entry =
  pe_pid :: u32
  pe_ppid :: "u32 option"
  pe_name :: string
  pe_display :: string
  pe_company :: "string option"
  pe_description :: "string option"
  pe_category :: proc_category
  pe_status :: proc_status
  pe_user :: "string option"
  pe_user_sid :: "string option"
  pe_session_id :: "u32 option"
  pe_cpu_pct :: rat
  pe_mem_bytes :: u64
  pe_working_set_bytes :: "u64 option"
  pe_commit_bytes :: "u64 option"
  pe_peak_mem_bytes :: "u64 option"
  pe_disk_read_bps :: rat
  pe_disk_write_bps :: rat
  pe_disk_read_total :: u64
  pe_disk_write_total :: u64
  pe_disk_active_pct :: "rat option"
  pe_disk_active_by_disk :: "disk_active_share list"
  pe_disk_phys_read_bps :: "rat option"
  pe_disk_phys_write_bps :: "rat option"
  pe_io_ops_per_s :: "rat option"
  pe_hard_faults_per_s :: "rat option"
  pe_net_recv_bps :: "rat option"
  pe_net_sent_bps :: "rat option"
  pe_net_recv_total :: "u64 option"
  pe_net_sent_total :: "u64 option"
  pe_gpu_util_pct :: "rat option"
  pe_gpu_mem_bytes :: "u64 option"
  pe_gpu_dedicated_bytes :: "u64 option"
  pe_gpu_shared_bytes :: "u64 option"
  pe_gpu_engine_label :: "string option"
  pe_gpu_engines :: "gpu_engine_share list"
  pe_handles :: "u32 option"
  pe_threads :: "u32 option"
  pe_page_faults_per_s :: "u32 option"
  pe_start_epoch_s :: "int option"
  pe_cpu_time_s :: "rat option"
  pe_priority :: priority_class
  pe_exe_path :: "string option"
  pe_command_line :: "string option"
  pe_has_window :: bool
  pe_app_root :: bool
  pe_elevated :: "bool option"
  pe_wow64 :: "bool option"
  pe_service_name :: "string option"
  pe_critical :: "bool option"
  pe_uac_virtualization :: "uac_virtualization option"
  pe_power_throttled :: "bool option"
  pe_synthetic :: bool

definition shown_name_of :: "process_entry \<Rightarrow> string" where
  "shown_name_of p = (if pe_display p = [] then pe_name p else pe_display p)"

definition shared_working_set_bytes :: "process_entry \<Rightarrow> u64 option" where
  "shared_working_set_bytes p =
     map_option (\<lambda>ws. saturating_sub ws (pe_mem_bytes p)) (pe_working_set_bytes p)"

definition uptime_s :: "process_entry \<Rightarrow> int \<Rightarrow> int option" where
  "uptime_s p now_epoch_s = map_option (\<lambda>s. max (now_epoch_s - s) 0) (pe_start_epoch_s p)"

definition default_entry :: process_entry where
  "default_entry = \<lparr>pe_pid = 0, pe_ppid = None, pe_name = [], pe_display = [], pe_company = None,
     pe_description = None, pe_category = Background, pe_status = Running, pe_user = None,
     pe_user_sid = None, pe_session_id = None, pe_cpu_pct = 0, pe_mem_bytes = 0,
     pe_working_set_bytes = None, pe_commit_bytes = None, pe_peak_mem_bytes = None,
     pe_disk_read_bps = 0, pe_disk_write_bps = 0, pe_disk_read_total = 0, pe_disk_write_total = 0,
     pe_disk_active_pct = None, pe_disk_active_by_disk = [], pe_disk_phys_read_bps = None,
     pe_disk_phys_write_bps = None, pe_io_ops_per_s = None, pe_hard_faults_per_s = None,
     pe_net_recv_bps = None, pe_net_sent_bps = None, pe_net_recv_total = None,
     pe_net_sent_total = None, pe_gpu_util_pct = None, pe_gpu_mem_bytes = None,
     pe_gpu_dedicated_bytes = None, pe_gpu_shared_bytes = None, pe_gpu_engine_label = None,
     pe_gpu_engines = [], pe_handles = None, pe_threads = None, pe_page_faults_per_s = None,
     pe_start_epoch_s = None, pe_cpu_time_s = None, pe_priority = PrioUnknown, pe_exe_path = None,
     pe_command_line = None, pe_has_window = False, pe_app_root = False, pe_elevated = None,
     pe_wow64 = None, pe_service_name = None, pe_critical = None, pe_uac_virtualization = None,
     pe_power_throttled = None, pe_synthetic = False\<rparr>"

definition new_entry :: "u32 \<Rightarrow> string \<Rightarrow> process_entry" where
  "new_entry pid name = default_entry\<lparr>pe_pid := pid, pe_name := name, pe_display := name\<rparr>"

definition is_plausible_parent :: "process_entry \<Rightarrow> process_entry \<Rightarrow> bool" where
  "is_plausible_parent parent child =
     (case (pe_start_epoch_s parent, pe_start_epoch_s child) of
        (Some parent_start, Some child_start) \<Rightarrow> parent_start \<le> child_start
      | _ \<Rightarrow> True)"

text \<open>\<open>Snapshot::process\<close>: the first process with a pid.\<close>

definition find_process :: "process_entry list \<Rightarrow> u32 \<Rightarrow> process_entry option" where
  "find_process ps pid = find (\<lambda>p. pe_pid p = pid) ps"

section \<open>The load of a group\<close>

text \<open>\<open>BusiestShare\<close>: the hash map by resource is used through its values only, with an
  operation that does not depend on their order.\<close>

record 'k busiest_share =
  bs_per_resource :: "('k, rat) btree"
  bs_unattributed :: rat
  bs_known :: bool

definition busiest_default :: "'k busiest_share" where
  "busiest_default = \<lparr>bs_per_resource = [], bs_unattributed = 0, bs_known = False\<rparr>"

definition busiest_add ::
    "rat option \<Rightarrow> ('k::linorder \<times> rat) list \<Rightarrow> 'k busiest_share \<Rightarrow> 'k busiest_share" where
  "busiest_add own shares b =
     (case own of None \<Rightarrow> b
      | Some own \<Rightarrow>
          (let b = b\<lparr>bs_known := True\<rparr> in
           if length shares = 0 then b\<lparr>bs_unattributed := bs_unattributed b + own\<rparr>
           else b\<lparr>bs_per_resource :=
             foldl (\<lambda>m (resource, pct). bt_upsert resource 0 (\<lambda>v. v + pct) m) (bs_per_resource b) shares\<rparr>))"

definition busiest_pct :: "'k busiest_share \<Rightarrow> rat option" where
  "busiest_pct b =
     (if bs_known b
      then Some (min 100 (max 0 (foldl max (bs_unattributed b) (map snd (bs_per_resource b)))))
      else None)"

type_synonym gpu_group_load = "(nat \<times> u32) busiest_share"
type_synonym disk_group_load = "u32 busiest_share"

definition gpu_add :: "process_entry \<Rightarrow> gpu_group_load \<Rightarrow> gpu_group_load" where
  "gpu_add p g = busiest_add (pe_gpu_util_pct p)
     (map (\<lambda>s. ((gs_adapter s, gs_engine s), gs_util_pct s)) (pe_gpu_engines p)) g"

definition disk_add :: "process_entry \<Rightarrow> disk_group_load \<Rightarrow> disk_group_load" where
  "disk_add p g = busiest_add (pe_disk_active_pct p)
     (map (\<lambda>s. (ds_disk s, ds_active_pct s)) (pe_disk_active_by_disk p)) g"

section \<open>What a group reads\<close>

text \<open>A member: its own percentage and its breakdown.\<close>

type_synonym 'k member = "rat option \<times> ('k \<times> rat) list"

definition add_members :: "'k::linorder member list \<Rightarrow> 'k busiest_share" where
  "add_members ms = foldl (\<lambda>b (own, shares). busiest_add own shares b) busiest_default ms"

definition share_of :: "'k \<Rightarrow> 'k member \<Rightarrow> rat" where
  "share_of k m = (if fst m = None then 0 else sum_list (map snd (filter (\<lambda>(r, _). r = k) (snd m))))"

definition plain_of :: "'k member \<Rightarrow> rat" where
  "plain_of m = (case fst m of Some own \<Rightarrow> if snd m = [] then own else 0 | None \<Rightarrow> 0)"

lemma get_add_shares:
  "unwrap_or (bt_get (foldl (\<lambda>m (resource, pct). bt_upsert resource 0 (\<lambda>v. v + pct) m) t shares) k) 0 =
     unwrap_or (bt_get t k) 0 + sum_list (map snd (filter (\<lambda>(r, _). r = k) shares))"
proof (induction shares arbitrary: t)
  case Nil
  then show ?case by simp
next
  case (Cons s shares)
  obtain r pct where s: "s = (r, pct)" by (cases s)
  show ?case by (simp add: s Cons.IH bt_get_upsert add.assoc)
qed

lemma keys_add_shares:
  "fst ` set (foldl (\<lambda>m (resource, pct). bt_upsert resource 0 (\<lambda>v. v + pct) m) t shares) =
     fst ` set t \<union> fst ` set shares"
proof (induction shares arbitrary: t)
  case Nil
  then show ?case by simp
next
  case (Cons s shares)
  obtain r pct where s: "s = (r, pct)" by (cases s)
  have "fst ` set (bt_upsert r 0 (\<lambda>v. v + pct) t) = insert r (fst ` set t)"
    using bt_keys_insert [of r _ t] by (simp add: bt_upsert_def bt_keys_def)
  then show ?case by (simp add: s Cons.IH insert_commute)
qed

lemma wf_add_shares:
  "bt_wf t \<Longrightarrow> bt_wf (foldl (\<lambda>m (resource, pct). bt_upsert resource 0 (\<lambda>v. v + pct) m) t shares)"
  by (induction shares arbitrary: t) (auto simp: bt_wf_upsert)

lemma foldl_max: "foldl max (a :: 'a::linorder) xs = Max (insert a (set xs))"
proof -
  have "(\<lambda>x y. max y x) = (max :: 'a \<Rightarrow> 'a \<Rightarrow> 'a)" by (simp add: fun_eq_iff max.commute)
  then show ?thesis using Max.set_eq_fold [of a xs] by (simp add: foldl_conv_fold)
qed

lemma add_members_spec:
  "bs_known (add_members ms) \<longleftrightarrow> (\<exists>m\<in>set ms. fst m \<noteq> None)"
  "bs_unattributed (add_members ms) = sum_list (map plain_of ms)"
  "unwrap_or (bt_get (bs_per_resource (add_members ms)) k) 0 = sum_list (map (share_of k) ms)"
  "fst ` set (bs_per_resource (add_members ms)) =
     (\<Union>m\<in>set ms. if fst m = None then {} else fst ` set (snd m))"
  "bt_wf (bs_per_resource (add_members ms))"
proof (induction ms rule: rev_induct)
  case Nil
  case 1 show ?case by (simp add: add_members_def busiest_default_def)
  case 2 show ?case by (simp add: add_members_def busiest_default_def)
  case 3 show ?case by (simp add: add_members_def busiest_default_def)
  case 4 show ?case by (simp add: add_members_def busiest_default_def)
  case 5 show ?case by (simp add: add_members_def busiest_default_def bt_wf_Nil)
next
  case (snoc m ms)
  obtain own shares where m: "m = (own, shares)" by (cases m)
  have step: "add_members (ms @ [m]) = busiest_add own shares (add_members ms)"
    by (simp add: add_members_def m)
  note facts = m busiest_add_def Let_def plain_of_def share_of_def get_add_shares
    keys_add_shares wf_add_shares snoc
  case 1 show ?case unfolding step by (cases own) (auto simp: facts)
  case 2 show ?case unfolding step by (cases own) (simp_all add: facts)
  case 3 show ?case unfolding step by (cases own) (simp_all add: facts)
  case 4 show ?case unfolding step by (cases own) (auto simp: facts)
  case 5 show ?case unfolding step by (cases own) (simp_all add: facts)
qed

definition group_resources :: "'k member list \<Rightarrow> 'k set" where
  "group_resources ms = (\<Union>m\<in>set ms. if fst m = None then {} else fst ` set (snd m))"

lemma values_add_members:
  "set (map snd (bs_per_resource (add_members ms))) =
     (\<lambda>k. sum_list (map (share_of k) ms)) ` group_resources ms"
proof -
  let ?t = "bs_per_resource (add_members ms)"
  have "v = unwrap_or (bt_get ?t k) 0" if "(k, v) \<in> set ?t" for k v
  proof -
    have "bt_get ?t k = Some v" using bt_wf_get_iff [OF add_members_spec(5) [of ms]] that by blast
    then show ?thesis by simp
  qed
  then have "set (map snd ?t) = (\<lambda>k. unwrap_or (bt_get ?t k) 0) ` fst ` set ?t"
    by (force simp: image_image)
  then show ?thesis by (simp only: add_members_spec group_resources_def)
qed

lemma busiest_pct_spec:
  "busiest_pct (add_members ms) =
     (if \<forall>m\<in>set ms. fst m = None then None
      else Some (min 100 (max 0 (Max (insert (sum_list (map plain_of ms))
        ((\<lambda>k. sum_list (map (share_of k) ms)) ` group_resources ms))))))"
  unfolding busiest_pct_def foldl_max values_add_members add_members_spec by simp

text \<open>Shares of one resource add up, so a group of some of the processes has no more of any.\<close>

lemma share_of_filter:
  assumes "\<forall>m\<in>set ms. \<forall>(k, pct)\<in>set (snd m). 0 \<le> pct"
  shows "sum_list (map (share_of k) (filter p ms)) \<le> sum_list (map (share_of k) ms)"
proof -
  have "0 \<le> share_of k m" if "m \<in> set ms" for m
    using assms that unfolding share_of_def by (fastforce intro!: sum_list_nonneg)
  then show ?thesis by (induction ms) (auto intro: add_increasing add_mono)
qed

text \<open>
  A group never reads more than the machine. If every measured process says which resources
  its load is on, the load shown for any selection of the processes is at most the one shown for
  all of them, and at most 100.
\<close>

theorem group_load_bounded:
  assumes "\<forall>m\<in>set ms. (\<forall>(k, pct)\<in>set (snd m). 0 \<le> pct) \<and> (fst m \<noteq> None \<longrightarrow> snd m \<noteq> [])"
    and "busiest_pct (add_members (filter p ms)) = Some v"
  shows "\<exists>w. busiest_pct (add_members ms) = Some w \<and> 0 \<le> v \<and> v \<le> w \<and> w \<le> 100"
proof -
  let ?S = "\<lambda>xs. insert 0 ((\<lambda>k. sum_list (map (share_of k) xs)) ` group_resources xs)"
  have plain: "sum_list (map plain_of xs) = 0" if "set xs \<subseteq> set ms" for xs
  proof -
    have "map plain_of xs = map (\<lambda>_. 0) xs"
      using assms(1) that by (auto simp: plain_of_def split: option.split)
    then show ?thesis by (simp only: sum_list_0)
  qed
  have fin: "finite (?S xs)" for xs by (simp add: group_resources_def)
  have known: "\<exists>m\<in>set ms. fst m \<noteq> None"
  proof (rule ccontr)
    assume "\<not> (\<exists>m\<in>set ms. fst m \<noteq> None)"
    then have "\<forall>m\<in>set (filter p ms). fst m = None" by auto
    with assms(2) show False by (simp only: busiest_pct_spec) simp
  qed
  have v: "v = min 100 (max 0 (Max (?S (filter p ms))))"
    using assms(2) plain [of "filter p ms"] by (auto simp: busiest_pct_spec split: if_splits)
  have w: "busiest_pct (add_members ms) = Some (min 100 (max 0 (Max (?S ms))))"
    using known plain [of ms] by (auto simp: busiest_pct_spec)
  have "Max (?S (filter p ms)) \<le> Max (?S ms)"
  proof (rule Max.boundedI [OF fin])
    fix a assume "a \<in> ?S (filter p ms)"
    then consider "a = 0" | k where "k \<in> group_resources (filter p ms)"
      "a = sum_list (map (share_of k) (filter p ms))" by auto
    then show "a \<le> Max (?S ms)"
    proof cases
      case 1
      then show ?thesis by (intro Max_ge fin) simp
    next
      case (2 k)
      then have "k \<in> group_resources ms" by (auto simp: group_resources_def)
      then have "sum_list (map (share_of k) ms) \<le> Max (?S ms)" by (intro Max_ge fin) auto
      with 2(2) share_of_filter [of ms k p] assms(1) show ?thesis by fastforce
    qed
  qed simp
  with v w show ?thesis by (auto simp: min_def max_def)
qed

theorem group_load_bounded_witness:
  "\<exists>w. busiest_pct (add_members [(Some 60, [(0 :: u32, 60)]), (Some 50, [(0, 30), (1, 50)])]) = Some w \<and>
     0 \<le> (60 :: rat) \<and> 60 \<le> w \<and> w \<le> 100"
proof (rule group_load_bounded [where p = "\<lambda>m. fst m = Some 60"])
  show "busiest_pct (add_members (filter (\<lambda>m. fst m = Some 60)
      [(Some 60, [(0 :: u32, 60)]), (Some 50, [(0, 30), (1, 50)])])) = Some 60"
    by (simp add: busiest_pct_def add_members_def busiest_add_def busiest_default_def bt_upsert_def)
qed simp

end
