(* ===== verification/Process_Kill.thy ===== *)
theory Process_Kill
  imports Tree_Walk Process_Entry Errors
begin

text \<open>
  Ending a process and its tree (crates/tm-platform/src/win/process_ops.rs): which processes of a
  kernel snapshot are descendants of the selected one, and what is terminated when pids are
  recycled between the user's click, the snapshot and the calls. The system is a parameter: what
  each \<open>OpenProcess\<close> finds behind a pid may be another process every time. Error texts
  are shortened.
\<close>

section \<open>The descendants of a process\<close>

record tree_link =
  tl_pid :: u32
  tl_parent_pid :: u32
  tl_create_time :: u64

definition link_parent :: "tree_link \<Rightarrow> u32 option" where
  "link_parent l = (if tl_pid l \<noteq> tl_parent_pid l then Some (tl_parent_pid l) else None)"

definition link_children :: "tree_link list \<Rightarrow> (u32, tree_link list) btree" where
  "link_children table = children_by link_parent table"

text \<open>The \<open>for\<close> loop over the children of one process: output, queue and seen pids.\<close>

fun visit_kids ::
    "u64 \<Rightarrow> tree_link list \<Rightarrow> tree_link list \<times> (u32 \<times> u64) list \<times> u32 set \<Rightarrow>
     tree_link list \<times> (u32 \<times> u64) list \<times> u32 set" where
  "visit_kids parent_birth [] st = st"
| "visit_kids parent_birth (l # ls) (out, queue, seen) =
     (if tl_create_time l < parent_birth \<or> tl_pid l \<in> seen
      then visit_kids parent_birth ls (out, queue, seen)
      else visit_kids parent_birth ls
        (out @ [l], queue @ [(tl_pid l, tl_create_time l)], insert (tl_pid l) seen))"

text \<open>What it adds: the children that pass, once each.\<close>

fun fresh_kids :: "u64 \<Rightarrow> u32 set \<Rightarrow> tree_link list \<Rightarrow> tree_link list" where
  "fresh_kids parent_birth seen [] = []"
| "fresh_kids parent_birth seen (l # ls) =
     (if tl_create_time l < parent_birth \<or> tl_pid l \<in> seen then fresh_kids parent_birth seen ls
      else l # fresh_kids parent_birth (insert (tl_pid l) seen) ls)"

definition queue_of :: "tree_link list \<Rightarrow> (u32 \<times> u64) list" where
  "queue_of ls = map (\<lambda>l. (tl_pid l, tl_create_time l)) ls"

lemma visit_kids_fresh:
  "visit_kids b ls (out, queue, seen) =
     (out @ fresh_kids b seen ls, queue @ queue_of (fresh_kids b seen ls),
      seen \<union> tl_pid ` set (fresh_kids b seen ls))"
  by (induction ls arbitrary: out queue seen) (auto simp: queue_of_def)

lemma fresh_kids_set:
  "set (fresh_kids b seen ls) \<subseteq> {l \<in> set ls. b \<le> tl_create_time l \<and> tl_pid l \<notin> seen}"
  by (induction b seen ls rule: fresh_kids.induct) auto

lemma fresh_kids_distinct: "distinct (map tl_pid (fresh_kids b seen ls))"
proof (induction b seen ls rule: fresh_kids.induct)
  case (2 b seen l ls)
  have "tl_pid l \<notin> tl_pid ` set (fresh_kids b (insert (tl_pid l) seen) ls)"
    using fresh_kids_set [of b "insert (tl_pid l) seen" ls] by auto
  with 2 show ?case by simp
qed simp

lemma fresh_kids_complete:
  "l \<in> set ls \<Longrightarrow> b \<le> tl_create_time l \<Longrightarrow> tl_pid l \<in> seen \<union> tl_pid ` set (fresh_kids b seen ls)"
  by (induction b seen ls rule: fresh_kids.induct) auto

lemma kids_linked: "set (kids_of children p) \<subseteq> set (concat (map snd children))"
  by (cases "bt_get children p") (auto simp: kids_of_def dest!: bt_get_Some_in)

function descend ::
    "(u32, tree_link list) btree \<Rightarrow> (u32 \<times> u64) list \<Rightarrow> u32 set \<Rightarrow> tree_link list \<Rightarrow> tree_link list" where
  "descend children [] seen out = out"
| "descend children ((parent, parent_birth) # queue) seen out =
     (case visit_kids parent_birth (kids_of children parent) (out, queue, seen) of
        (out', queue', seen') \<Rightarrow> descend children queue' seen' out')"
  by pat_completeness auto

termination
proof (relation "measures [\<lambda>(children, queue, seen, out). card (linked_keys tl_pid children - seen),
    \<lambda>(children, queue, seen, out). length queue]")
  fix children :: "(u32, tree_link list) btree" and parent :: u32 and b :: u64
    and queue :: "(u32 \<times> u64) list" and seen :: "u32 set" and out out' y queue' seen'
  assume "(out', y) = visit_kids b (kids_of children parent) (out, queue, seen)" "(queue', seen') = y"
  then have st: "queue' = queue @ queue_of (fresh_kids b seen (kids_of children parent))"
    "seen' = seen \<union> tl_pid ` set (fresh_kids b seen (kids_of children parent))"
    by (simp_all add: visit_kids_fresh)
  let ?f = "fresh_kids b seen (kids_of children parent)"
  let ?K = "linked_keys tl_pid children"
  have fin: "finite (?K - seen)" by (simp add: linked_keys_def)
  have "card (?K - seen') < card (?K - seen)" if ne: "?f \<noteq> []"
  proof (rule psubset_card_mono [OF fin])
    from ne obtain l where "l \<in> set ?f" by (cases ?f) auto
    moreover have "tl_pid l \<in> ?K - seen"
    proof -
      have "l \<in> set (kids_of children parent)" "tl_pid l \<notin> seen"
        using fresh_kids_set [of b seen "kids_of children parent"] \<open>l \<in> set ?f\<close> by auto
      with kids_linked [of children parent] show ?thesis unfolding linked_keys_def by blast
    qed
    ultimately show "?K - seen' \<subset> ?K - seen" by (auto simp: st)
  qed
  then show "((children, queue', seen', out'), children, (parent, b) # queue, seen, out) \<in> measures
      [\<lambda>(children, queue, seen, out). card (linked_keys tl_pid children - seen),
       \<lambda>(children, queue, seen, out). length queue]"
    by (cases "?f = []") (simp_all add: st queue_of_def)
qed auto

declare descend.simps(2) [simp del]

definition descendants :: "u32 \<Rightarrow> u64 \<Rightarrow> tree_link list \<Rightarrow> tree_link list" where
  "descendants root_pid root_birth table =
     descend (link_children table) [(root_pid, root_birth)] {root_pid} []"

text \<open>What is meant: a chain of parent links in the table, along which nobody is older than the
  process it names as its parent.\<close>

inductive descends :: "u32 \<Rightarrow> u64 \<Rightarrow> tree_link list \<Rightarrow> tree_link \<Rightarrow> bool"
  for root_pid :: u32 and root_birth :: u64 and table :: "tree_link list" where
  child: "l \<in> set table \<Longrightarrow> link_parent l = Some root_pid \<Longrightarrow> root_birth \<le> tl_create_time l \<Longrightarrow>
    tl_pid l \<noteq> root_pid \<Longrightarrow> descends root_pid root_birth table l"
| grandchild: "descends root_pid root_birth table k \<Longrightarrow> l \<in> set table \<Longrightarrow> link_parent l = Some (tl_pid k) \<Longrightarrow>
    tl_create_time k \<le> tl_create_time l \<Longrightarrow> tl_pid l \<noteq> root_pid \<Longrightarrow> descends root_pid root_birth table l"

inductive_cases descendsE: "descends root_pid root_birth table l"

lemma kids_link_children: "set (kids_of (link_children table) p) = {l \<in> set table. link_parent l = Some p}"
  by (simp add: link_children_def kids_of_children_by)

text \<open>The invariant of the breadth-first loop.\<close>

definition bfs_inv ::
    "u32 \<Rightarrow> u64 \<Rightarrow> tree_link list \<Rightarrow> (u32 \<times> u64) list \<Rightarrow> u32 set \<Rightarrow> tree_link list \<Rightarrow> bool" where
  "bfs_inv root_pid birth table queue seen out \<longleftrightarrow>
     seen = insert root_pid (tl_pid ` set out) \<and> distinct (root_pid # map tl_pid out) \<and>
     (\<forall>l\<in>set out. descends root_pid birth table l) \<and>
     set queue \<subseteq> insert (root_pid, birth) (set (queue_of out)) \<and>
     (\<forall>(p, b) \<in> insert (root_pid, birth) (set (queue_of out)) - set queue.
        \<forall>l\<in>set table. link_parent l = Some p \<longrightarrow> b \<le> tl_create_time l \<longrightarrow> tl_pid l \<in> seen)"

lemma bfs_step:
  assumes inv: "bfs_inv root_pid birth table ((p, b) # queue) seen out"
  defines "f \<equiv> fresh_kids b seen (kids_of (link_children table) p)"
  shows "bfs_inv root_pid birth table (queue @ queue_of f) (seen \<union> tl_pid ` set f) (out @ f)"
proof -
  let ?kids = "kids_of (link_children table) p"
  note inv' = inv [unfolded bfs_inv_def]
  note fresh = fresh_kids_set [of b seen ?kids, folded f_def]
    fresh_kids_distinct [of b seen ?kids, folded f_def]
  have seen: "seen = insert root_pid (tl_pid ` set out)" and dist: "distinct (root_pid # map tl_pid out)"
    and out: "\<forall>l\<in>set out. descends root_pid birth table l"
    and queue: "set ((p, b) # queue) \<subseteq> insert (root_pid, birth) (set (queue_of out))"
    and left: "\<forall>(p', b') \<in> insert (root_pid, birth) (set (queue_of out)) - set ((p, b) # queue).
        \<forall>l\<in>set table. link_parent l = Some p' \<longrightarrow> b' \<le> tl_create_time l \<longrightarrow> tl_pid l \<in> seen"
    by (fact conjunct1 [OF inv'] conjunct1 [OF conjunct2 [OF inv']]
        conjunct1 [OF conjunct2 [OF conjunct2 [OF inv']]]
        conjunct1 [OF conjunct2 [OF conjunct2 [OF conjunct2 [OF inv']]]]
        conjunct2 [OF conjunct2 [OF conjunct2 [OF conjunct2 [OF inv']]]])+
  have new: "descends root_pid birth table l" if "l \<in> set f" for l
  proof -
    from that fresh(1) have l: "l \<in> set table" "link_parent l = Some p" "b \<le> tl_create_time l" "tl_pid l \<noteq> root_pid"
      using seen by (auto simp: kids_link_children)
    from queue have "(p, b) = (root_pid, birth) \<or> (\<exists>k\<in>set out. p = tl_pid k \<and> b = tl_create_time k)"
      by (auto simp: queue_of_def)
    then show ?thesis
    proof
      assume "(p, b) = (root_pid, birth)"
      with l show ?thesis by (auto intro: child)
    next
      assume "\<exists>k\<in>set out. p = tl_pid k \<and> b = tl_create_time k"
      with out l show ?thesis by (auto intro: grandchild)
    qed
  qed
  have "tl_pid ` set f \<inter> insert root_pid (tl_pid ` set out) = {}"
    using fresh(1) seen by auto
  then have dist': "distinct (root_pid # map tl_pid (out @ f))"
    using dist fresh(2) by auto
  have done': "tl_pid l \<in> seen \<union> tl_pid ` set f"
    if "(p', b') \<in> insert (root_pid, birth) (set (queue_of (out @ f))) - set (queue @ queue_of f)"
      "l \<in> set table" "link_parent l = Some p'" "b' \<le> tl_create_time l" for p' b' l
  proof (cases "(p', b') = (p, b)")
    case True
    with that show ?thesis
      using fresh_kids_complete [of l ?kids b seen] by (simp add: kids_link_children f_def)
  next
    case False
    with that have "(p', b') \<in> insert (root_pid, birth) (set (queue_of out)) - set ((p, b) # queue)"
      by (auto simp: queue_of_def)
    with left that show ?thesis by blast
  qed
  show ?thesis
    unfolding bfs_inv_def
  proof (intro conjI)
    show "seen \<union> tl_pid ` set f = insert root_pid (tl_pid ` set (out @ f))" using seen by auto
    show "\<forall>l\<in>set (out @ f). descends root_pid birth table l" using out new by auto
    show "set (queue @ queue_of f) \<subseteq> insert (root_pid, birth) (set (queue_of (out @ f)))"
      using queue by (auto simp: queue_of_def)
  qed (use dist' done' in blast)+
qed

lemma bfs_result:
  assumes "bfs_inv root_pid birth table queue seen out"
  shows "\<exists>seen'. bfs_inv root_pid birth table [] seen' (descend (link_children table) queue seen out)"
  using assms
proof (induction "link_children table" queue seen out rule: descend.induct)
  case (1 seen out)
  then show ?case by auto
next
  case (2 p b queue seen out)
  note visit = visit_kids_fresh [of b "kids_of (link_children table) p" out queue seen]
  from 2(1) [OF visit [symmetric] refl bfs_step [OF 2(2)]] show ?case
    by (simp add: descend.simps visit)
qed

text \<open>
  C9: The process tree that is ended is the right one. In a snapshot with one entry per pid, the
  descendants found from the root are, without repetition, exactly the processes connected to it
  by parent links along which no process is older than the parent it names, whatever cycles the
  recorded links form; the root itself is never among them.
\<close>

theorem descendants_exact:
  assumes "distinct (map tl_pid table)"
  shows "set (descendants root_pid birth table) = {l. descends root_pid birth table l} \<and>
    distinct (root_pid # map tl_pid (descendants root_pid birth table))"
proof -
  have "bfs_inv root_pid birth table [(root_pid, birth)] {root_pid} []"
    by (simp add: bfs_inv_def queue_of_def)
  from bfs_result [OF this] obtain seen where
    inv: "bfs_inv root_pid birth table [] seen (descendants root_pid birth table)"
    by (auto simp: descendants_def)
  let ?out = "descendants root_pid birth table"
  have table: "l \<in> set table" if "descends root_pid birth table l" for l
    using that by cases auto
  have "l \<in> set ?out" if "descends root_pid birth table l" for l
    using that
  proof (induction rule: descends.induct)
    case (child l)
    then have "tl_pid l \<in> tl_pid ` set ?out"
      using inv unfolding bfs_inv_def by auto
    then obtain m where "m \<in> set ?out" "tl_pid m = tl_pid l" by auto
    with inv table key_inj [OF assms, of m l] child(1) show ?case by (auto simp: bfs_inv_def)
  next
    case (grandchild k l)
    then have "(tl_pid k, tl_create_time k) \<in> set (queue_of ?out)" by (auto simp: queue_of_def)
    with grandchild have "tl_pid l \<in> tl_pid ` set ?out"
      using inv unfolding bfs_inv_def by fastforce
    then obtain m where "m \<in> set ?out" "tl_pid m = tl_pid l" by auto
    with inv table key_inj [OF assms, of m l] grandchild(2) show ?case by (auto simp: bfs_inv_def)
  qed
  with inv show ?thesis by (auto simp: bfs_inv_def)
qed

section \<open>The system\<close>

datatype os_call =
    Terminate | Suspend | Resume | SetPriority priority_class | SetAffinity u64 | SetEfficiency bool
  | SetVirtualization bool | RemoteThread u64 u64

record process_module =
  md_name :: string
  md_path :: string
  md_base_address :: u64
  md_size_bytes :: u64

text \<open>What a remote thread came to, if it could be created.\<close>

datatype remote_outcome =
    RemoteTimeout | RemoteWaitFailed string | RemoteExitUnknown string | RemoteExited u32

text \<open>A handle keeps referring to the process object it was opened on. What the queries and calls
  through it answer: the creation time if it can be read, whether the process is critical, the
  error text of a call that fails, whether that was a denial, the exit code, the affinity masks of
  the process and of the system, whether its token allows virtualization, its machine type.\<close>

record os_handle =
  oh_creation :: "u64 option"
  oh_critical :: "string + bool"
  oh_error :: "os_call \<Rightarrow> string option"
  oh_denied :: bool
  oh_exit_code :: "u32 option"
  oh_affinity :: "string + (u64 \<times> u64)"
  oh_virtualization :: "tm_error + u32"
  oh_machine :: "tm_error + u16"
  oh_remote :: remote_outcome

datatype open_error = InvalidParameter | OpenFailed string

text \<open>The system as a function of time: time passes with every \<open>OpenProcess\<close> and with every
  snapshot, and any process may have taken any pid in between. \<open>os_suspend_routine\<close> tells
  whether ntdll has \<open>NtSuspendProcess\<close> (for True) and \<open>NtResumeProcess\<close>.\<close>

record os =
  os_self :: u32
  os_open :: "nat \<Rightarrow> u32 \<Rightarrow> open_error + os_handle"
  os_table :: "nat \<Rightarrow> tree_link list option"
  os_modules :: "nat \<Rightarrow> u32 \<Rightarrow> tm_error + process_module list"
  os_machine :: "tm_error + u16"
  os_free_library :: "tm_error + u64"
  os_suspend_routine :: "bool \<Rightarrow> bool"

text \<open>What has been done: the time, the calls made, with the pid the handle was opened by, and the
  processes whose cached attributes are stale.\<close>

record os_state =
  st_time :: nat
  st_calls :: "(os_call \<times> u32 \<times> os_handle) list"
  st_changed :: "u32 list"

type_synonym 'a os_result = "(tm_error + 'a) \<times> os_state"

definition then_do :: "'a os_result \<Rightarrow> ('a \<Rightarrow> os_state \<Rightarrow> 'b os_result) \<Rightarrow> 'b os_result" where
  "then_do r f = (case r of (Inl e, st) \<Rightarrow> (Inl e, st) | (Inr v, st) \<Rightarrow> f v st)"

definition tick :: "os_state \<Rightarrow> os_state" where
  "tick st = st\<lparr>st_time := Suc (st_time st)\<rparr>"

definition record_call :: "os_call \<Rightarrow> u32 \<Rightarrow> os_handle \<Rightarrow> os_state \<Rightarrow> os_state" where
  "record_call c pid h st = st\<lparr>st_calls := st_calls st @ [(c, pid, h)]\<rparr>"

definition note_attrs_changed :: "u32 \<Rightarrow> os_state \<Rightarrow> os_state" where
  "note_attrs_changed pid st =
     (if pid \<in> set (st_changed st) then st else st\<lparr>st_changed := st_changed st @ [pid]\<rparr>)"

definition take_changed_attrs :: "os_state \<Rightarrow> u32 list \<times> os_state" where
  "take_changed_attrs st = (st_changed st, st\<lparr>st_changed := []\<rparr>)"

text \<open>\<open>if r.is_ok() { note_attrs_changed(pid) }\<close>.\<close>

definition noting :: "u32 \<Rightarrow> unit os_result \<Rightarrow> unit os_result" where
  "noting pid r = (case r of (Inr _, st) \<Rightarrow> (Inr (), note_attrs_changed pid st) | (Inl e, st) \<Rightarrow> (Inl e, st))"

lemma noting_calls [simp]: "st_calls (snd (noting pid r)) = st_calls (snd r)"
  by (auto simp: noting_def note_attrs_changed_def split: prod.split sum.split)

section \<open>Identity and protection\<close>

definition open_process :: "os \<Rightarrow> u32 \<Rightarrow> os_state \<Rightarrow> os_handle os_result" where
  "open_process W pid st =
     ((case os_open W (st_time st) pid of
         Inl InvalidParameter \<Rightarrow> Inl (ProcessNotFound pid)
       | Inl (OpenFailed t) \<Rightarrow> Inl (tm_platform ''OpenProcess'' t)
       | Inr h \<Rightarrow> Inr h), tick st)"

definition filetime_to_epoch :: "u64 \<Rightarrow> int option" where
  "filetime_to_epoch raw =
     (let s = unat (saturating_sub raw 116444736000000000) div 10000000
      in if s < 2 ^ 63 then Some (int s) else None)"

definition creation_epoch :: "os_handle \<Rightarrow> int option" where
  "creation_epoch h = (case oh_creation h of None \<Rightarrow> None | Some raw \<Rightarrow> filetime_to_epoch raw)"

definition creation_matches :: "int \<Rightarrow> int option \<Rightarrow> bool" where
  "creation_matches expected actual =
     (case actual of Some actual \<Rightarrow> actual = expected | None \<Rightarrow> False)"

definition refuse_critical_handle :: "u32 \<Rightarrow> os_handle \<Rightarrow> tm_error + unit" where
  "refuse_critical_handle pid h =
     (if pid \<le> 4 then Inl (tm_platform ''process safety'' ''system process is protected'')
      else case oh_critical h of
        Inl t \<Rightarrow> Inl (tm_platform ''IsProcessCritical'' t)
      | Inr critical \<Rightarrow>
          if critical then Inl (tm_platform ''process safety'' ''critical Windows process is protected'')
          else Inr ())"

definition refuse_self :: "os \<Rightarrow> string \<Rightarrow> u32 \<Rightarrow> tm_error + unit" where
  "refuse_self W action pid =
     (if pid \<noteq> os_self W then Inr ()
      else Inl (tm_platform action ''refusing to change TaskMan's own scheduling''))"

definition open_process_verified ::
    "os \<Rightarrow> u32 \<Rightarrow> int option \<Rightarrow> os_state \<Rightarrow> os_handle os_result" where
  "open_process_verified W pid expected st =
     then_do (open_process W pid st) (\<lambda>h st.
       case expected of
         Some e \<Rightarrow> if creation_matches e (creation_epoch h) then (Inr h, st)
           else (Inl (ProcessNotFound pid), st)
       | None \<Rightarrow> (Inr h, st))"

definition open_destructive_process_verified ::
    "os \<Rightarrow> u32 \<Rightarrow> int option \<Rightarrow> os_state \<Rightarrow> os_handle os_result" where
  "open_destructive_process_verified W pid expected st =
     then_do (open_process_verified W pid expected st) (\<lambda>h st.
       case refuse_critical_handle pid h of Inl e \<Rightarrow> (Inl e, st) | Inr _ \<Rightarrow> (Inr h, st))"

definition refuse_critical_process :: "os \<Rightarrow> u32 \<Rightarrow> os_state \<Rightarrow> unit os_result" where
  "refuse_critical_process W pid st =
     then_do (open_process W pid st) (\<lambda>h st. (refuse_critical_handle pid h, st))"

definition verify_pid_still_refers_to :: "os \<Rightarrow> u32 \<Rightarrow> u64 option \<Rightarrow> os_state \<Rightarrow> unit os_result" where
  "verify_pid_still_refers_to W pid opened_creation st =
     then_do (open_process W pid st) (\<lambda>h st.
       case opened_creation of
         None \<Rightarrow> (Inl (ProcessNotFound pid), st)
       | Some c \<Rightarrow> if oh_creation h = Some c then (Inr (), st) else (Inl (ProcessNotFound pid), st))"

section \<open>Termination\<close>

definition terminate_handle :: "u32 \<Rightarrow> os_handle \<Rightarrow> os_state \<Rightarrow> unit os_result" where
  "terminate_handle pid h st =
     ((case oh_error h Terminate of
         None \<Rightarrow> Inr ()
       | Some raw_error \<Rightarrow>
           if is_some_and (oh_exit_code h) (\<lambda>c. c \<noteq> 259) then Inr ()
           else Inl (tm_platform ''TerminateProcess''
             (if oh_denied h then raw_error @ '' (process may be a zombie)'' else raw_error))),
      record_call Terminate pid h st)"

definition terminate_verified :: "os \<Rightarrow> u32 \<Rightarrow> int option \<Rightarrow> os_state \<Rightarrow> unit os_result" where
  "terminate_verified W pid expected st =
     then_do (open_destructive_process_verified W pid expected st) (\<lambda>h. terminate_handle pid h)"

definition collect_children_with_births ::
    "os \<Rightarrow> u32 \<Rightarrow> u64 \<Rightarrow> os_state \<Rightarrow> (u32 \<times> int option) list option \<times> os_state" where
  "collect_children_with_births W root_pid root_birth st =
     (map_option (\<lambda>table. map (\<lambda>l. (tl_pid l, filetime_to_epoch (tl_create_time l)))
        (descendants root_pid root_birth table)) (os_table W (st_time st)), tick st)"

text \<open>The loop over the children: the first error is kept.\<close>

definition kill_child ::
    "os \<Rightarrow> u32 option \<Rightarrow> u32 \<times> int option \<Rightarrow> tm_error option \<times> os_state \<Rightarrow> tm_error option \<times> os_state" where
  "kill_child W protected child acc =
     (case (child, acc) of ((c, birth), (err, st)) \<Rightarrow>
        if c = os_self W \<or> protected = Some c then (err, st)
        else
          (case (case birth of
                   Some birth \<Rightarrow> terminate_verified W c (Some birth) st
                 | None \<Rightarrow> (Inl (tm_platform ''terminate process tree''
                     (''could not establish the creation time of child process '' @ show_nat (unat c))), st)) of
             (Inr _, st) \<Rightarrow> (err, st)
           | (Inl (ProcessNotFound _), st) \<Rightarrow> (err, st)
           | (Inl e, st) \<Rightarrow> (option_or err (Some e), st)))"

text \<open>The descendants, deepest first, and then the root, whose failure is the headline.\<close>

definition kill_members ::
    "os \<Rightarrow> u32 \<Rightarrow> u32 option \<Rightarrow> os_handle \<Rightarrow> (u32 \<times> int option) list \<Rightarrow> os_state \<Rightarrow> unit os_result" where
  "kill_members W pid protected root_handle children st =
     (case fold (kill_child W protected) (rev children) (None, st) of
        (err, st) \<Rightarrow>
          (case terminate_handle pid root_handle st of
             (Inl e, st) \<Rightarrow> (Inl e, st)
           | (Inr _, st) \<Rightarrow> (case err of None \<Rightarrow> Inr () | Some e \<Rightarrow> Inl e, st)))"

definition kill_process_excluding ::
    "os \<Rightarrow> u32 \<Rightarrow> int option \<Rightarrow> bool \<Rightarrow> u32 option \<Rightarrow> os_state \<Rightarrow> unit os_result" where
  "kill_process_excluding W pid expected tree protected st =
     (if \<not> tree then terminate_verified W pid expected st
      else
        then_do (open_destructive_process_verified W pid expected st) (\<lambda>root_handle st.
          case (case oh_creation root_handle of
                  None \<Rightarrow> (None, st)
                | Some birth \<Rightarrow> collect_children_with_births W pid birth st) of
            (children, st) \<Rightarrow>
              then_do (verify_pid_still_refers_to W pid (oh_creation root_handle) st) (\<lambda>_ st.
                case children of
                  None \<Rightarrow> (Inl (tm_platform ''terminate process tree'' ''could not enumerate the process tree''), st)
                | Some children \<Rightarrow> kill_members W pid protected root_handle children st)))"

definition kill_process :: "os \<Rightarrow> u32 \<Rightarrow> int option \<Rightarrow> bool \<Rightarrow> os_state \<Rightarrow> unit os_result" where
  "kill_process W pid expected tree st = kill_process_excluding W pid expected tree None st"

section \<open>Scheduling changes\<close>

definition call_handle :: "os_call \<Rightarrow> string \<Rightarrow> u32 \<Rightarrow> os_handle \<Rightarrow> os_state \<Rightarrow> unit os_result" where
  "call_handle c action pid h st =
     (case oh_error h c of None \<Rightarrow> Inr () | Some t \<Rightarrow> Inl (tm_platform action t), record_call c pid h st)"

definition set_priority_checked ::
    "os \<Rightarrow> u32 \<Rightarrow> int option \<Rightarrow> priority_class \<Rightarrow> os_state \<Rightarrow> unit os_result" where
  "set_priority_checked W pid expected priority st =
     (case refuse_self W ''SetPriorityClass'' pid of
        Inl e \<Rightarrow> (Inl e, st)
      | Inr _ \<Rightarrow>
          if priority = PrioUnknown
          then (Inl (tm_platform ''SetPriorityClass'' ''an explicit priority class is required''), st)
          else noting pid (then_do (open_destructive_process_verified W pid expected st)
            (\<lambda>h. call_handle (SetPriority priority) ''SetPriorityClass'' pid h)))"

definition set_affinity_checked ::
    "os \<Rightarrow> u32 \<Rightarrow> int option \<Rightarrow> u64 \<Rightarrow> os_state \<Rightarrow> unit os_result" where
  "set_affinity_checked W pid expected affinity_mask st =
     (case refuse_self W ''SetProcessAffinityMask'' pid of
        Inl e \<Rightarrow> (Inl e, st)
      | Inr _ \<Rightarrow>
          if affinity_mask = 0 then (Inl (tm_platform ''SetProcessAffinityMask'' ''mask cannot be zero''), st)
          else then_do (open_destructive_process_verified W pid expected st)
            (\<lambda>h. call_handle (SetAffinity affinity_mask) ''SetProcessAffinityMask'' pid h))"

definition set_efficiency_mode_checked :: "os \<Rightarrow> u32 \<Rightarrow> int option \<Rightarrow> bool \<Rightarrow> os_state \<Rightarrow> unit os_result" where
  "set_efficiency_mode_checked W pid expected on st =
     (case (if on then refuse_self W ''SetProcessInformation(EcoQoS)'' pid else Inr ()) of
        Inl e \<Rightarrow> (Inl e, st)
      | Inr _ \<Rightarrow> noting pid (then_do (open_destructive_process_verified W pid expected st)
          (\<lambda>h. call_handle (SetEfficiency on) ''SetProcessInformation(EcoQoS)'' pid h)))"

definition set_uac_virtualization_checked ::
    "os \<Rightarrow> u32 \<Rightarrow> int option \<Rightarrow> bool \<Rightarrow> os_state \<Rightarrow> unit os_result" where
  "set_uac_virtualization_checked W pid expected enabled st =
     noting pid (then_do (open_destructive_process_verified W pid expected st) (\<lambda>h st.
       case oh_virtualization h of
         Inl e \<Rightarrow> (Inl e, st)
       | Inr allowed \<Rightarrow>
           if allowed = 0
           then (Inl (tm_platform ''UAC virtualization'' ''virtualization is not allowed for this process token''), st)
           else call_handle (SetVirtualization enabled) ''SetTokenInformation(virtualization)'' pid h st))"

definition get_affinity_checked :: "os \<Rightarrow> u32 \<Rightarrow> int option \<Rightarrow> os_state \<Rightarrow> u64 os_result" where
  "get_affinity_checked W pid expected st =
     then_do (open_process_verified W pid expected st) (\<lambda>h st.
       (case oh_affinity h of
          Inl t \<Rightarrow> Inl (tm_platform ''GetProcessAffinityMask'' t) | Inr (proc_mask, _) \<Rightarrow> Inr proc_mask, st))"

definition system_affinity :: "os \<Rightarrow> os_state \<Rightarrow> u64 os_result" where
  "system_affinity W st =
     then_do (open_process W (os_self W) st) (\<lambda>h st.
       (case oh_affinity h of
          Inl t \<Rightarrow> Inl (tm_platform ''GetProcessAffinityMask(system)'' t) | Inr (_, sys_mask) \<Rightarrow> Inr sys_mask, st))"

definition suspend_process_checked ::
    "os \<Rightarrow> u32 \<Rightarrow> int option \<Rightarrow> bool \<Rightarrow> os_state \<Rightarrow> unit os_result" where
  "suspend_process_checked W pid expected suspend st =
     (case (if suspend then refuse_self W ''suspend'' pid else Inr ()) of
        Inl e \<Rightarrow> (Inl e, st)
      | Inr _ \<Rightarrow>
          if \<not> os_suspend_routine W suspend then (Inl (Unsupported ''ntdll suspend/resume''), st)
          else then_do (open_destructive_process_verified W pid expected st)
            (\<lambda>h. call_handle (if suspend then Suspend else Resume) ''suspend/resume'' pid h))"

section \<open>Who is acted upon\<close>

text \<open>A process that may be acted upon: not critical, not one of the system's own pids, and the
  process that was meant if one was.\<close>

definition verified_target :: "u32 \<Rightarrow> int option \<Rightarrow> os_handle \<Rightarrow> bool" where
  "verified_target pid expected h \<longleftrightarrow> 4 < pid \<and> oh_critical h = Inr False \<and>
     (\<forall>e. expected = Some e \<longrightarrow> creation_epoch h = Some e)"

text \<open>A process of the tree, by a given snapshot: a descendant, created when the snapshot says.\<close>

definition in_snapshot ::
    "os \<Rightarrow> u32 \<Rightarrow> u32 option \<Rightarrow> u64 \<Rightarrow> tree_link list \<Rightarrow> u32 \<Rightarrow> os_handle \<Rightarrow> bool" where
  "in_snapshot W root_pid protected birth table pid h \<longleftrightarrow>
     (\<exists>l. descends root_pid birth table l \<and> tl_pid l = pid \<and>
        creation_epoch h = filetime_to_epoch (tl_create_time l)) \<and>
     pid \<noteq> os_self W \<and> protected \<noteq> Some pid"

definition member_of_tree :: "os \<Rightarrow> u32 \<Rightarrow> u32 option \<Rightarrow> u32 \<Rightarrow> os_handle \<Rightarrow> os_handle \<Rightarrow> bool" where
  "member_of_tree W root_pid protected pid root_handle h \<longleftrightarrow>
     (\<exists>birth t table. oh_creation root_handle = Some birth \<and> os_table W t = Some table \<and>
        in_snapshot W root_pid protected birth table pid h)"

named_theorems os_steps

lemma then_do_Inr [os_steps]:
  "then_do r f = (Inr v, st') \<longleftrightarrow> (\<exists>u st. r = (Inr u, st) \<and> f u st = (Inr v, st'))"
  by (cases r) (auto simp: then_do_def split: sum.splits)

lemma open_process_calls: "st_calls (snd (open_process W pid st)) = st_calls st"
  by (simp add: open_process_def tick_def)

lemma then_do_calls:
  assumes "st_calls (snd r) = cs" "\<And>v st. r = (Inr v, st) \<Longrightarrow> st_calls (snd (f v st)) = st_calls st"
  shows "st_calls (snd (then_do r f)) = cs"
  using assms by (cases r) (auto simp: then_do_def split: sum.splits)

lemma open_verified_calls: "st_calls (snd (open_process_verified W pid expected st)) = st_calls st"
  unfolding open_process_verified_def
  by (rule then_do_calls) (auto simp: open_process_calls split: option.split)

lemma open_destructive_calls:
  "st_calls (snd (open_destructive_process_verified W pid expected st)) = st_calls st"
  unfolding open_destructive_process_verified_def
  by (rule then_do_calls) (auto simp: open_verified_calls split: sum.split)

lemma verify_pid_calls: "st_calls (snd (verify_pid_still_refers_to W pid c st)) = st_calls st"
  unfolding verify_pid_still_refers_to_def
  by (rule then_do_calls) (auto simp: open_process_calls split: option.split)

lemma open_destructive_verified:
  assumes "open_destructive_process_verified W pid expected st = (Inr h, st')"
  shows "verified_target pid expected h"
  using assms
  by (auto simp: open_destructive_process_verified_def open_process_verified_def os_steps
      verified_target_def refuse_critical_handle_def creation_matches_def not_le
      split: if_splits sum.splits option.splits)


lemma terminate_verified_calls:
  assumes "terminate_verified W pid expected st = (r, st')"
  shows "st_calls st' = st_calls st \<or>
    (\<exists>h. st_calls st' = st_calls st @ [(Terminate, pid, h)] \<and> verified_target pid expected h)"
proof (cases "open_destructive_process_verified W pid expected st")
  case (Pair opened_r st1)
  have calls: "st_calls st1 = st_calls st"
    using open_destructive_calls [of W pid expected st] by (simp add: Pair)
  show ?thesis
  proof (cases opened_r)
    case (Inl e)
    with assms Pair calls show ?thesis by (auto simp: terminate_verified_def then_do_def)
  next
    case (Inr h)
    with open_destructive_verified [of W pid expected st h st1] assms Pair calls show ?thesis
      by (auto simp: terminate_verified_def then_do_def terminate_handle_def record_call_def)
  qed
qed

lemma kill_child_calls:
  assumes "kill_child W protected (c, birth) (err, st) = (err', st')"
  shows "st_calls st' = st_calls st \<or>
    (\<exists>h b. birth = Some b \<and> st_calls st' = st_calls st @ [(Terminate, c, h)] \<and>
      verified_target c birth h \<and> c \<noteq> os_self W \<and> protected \<noteq> Some c)"
proof (cases "c = os_self W \<or> protected = Some c")
  case True
  with assms show ?thesis by (auto simp: kill_child_def)
next
  case False
  show ?thesis
  proof (cases birth)
    case None
    with assms False show ?thesis
      by (auto simp: kill_child_def tm_platform_def split: tm_error.splits)
  next
    case (Some b)
    obtain r st1 where t: "terminate_verified W c (Some b) st = (r, st1)" by fastforce
    have "st' = st1"
      using assms False t by (auto simp: kill_child_def Some split: sum.splits tm_error.splits)
    with terminate_verified_calls [OF t] False Some show ?thesis by auto
  qed
qed

lemma kill_children_calls:
  assumes "fold (kill_child W protected) cs (err, st) = (err', st')"
  shows "\<exists>new. st_calls st' = st_calls st @ new \<and>
    (\<forall>(c, pid, h)\<in>set new. c = Terminate \<and> pid \<noteq> os_self W \<and> protected \<noteq> Some pid \<and>
      (\<exists>birth. (pid, Some birth) \<in> set cs \<and> verified_target pid (Some birth) h))"
  using assms
proof (induction cs arbitrary: err st)
  case Nil
  then show ?case by simp
next
  case (Cons child cs)
  obtain c birth where child: "child = (c, birth)" by (cases child)
  obtain err1 st1 where k: "kill_child W protected (c, birth) (err, st) = (err1, st1)" by fastforce
  from Cons.prems have "fold (kill_child W protected) cs (err1, st1) = (err', st')"
    by (simp add: child k)
  from Cons.IH [OF this] obtain new where new: "st_calls st' = st_calls st1 @ new"
    "\<forall>(c, pid, h)\<in>set new. c = Terminate \<and> pid \<noteq> os_self W \<and> protected \<noteq> Some pid \<and>
      (\<exists>birth. (pid, Some birth) \<in> set cs \<and> verified_target pid (Some birth) h)" by blast
  from kill_child_calls [OF k] show ?case
  proof
    assume "st_calls st1 = st_calls st"
    with new show ?thesis by (intro exI [of _ new]) (fastforce simp: child)
  next
    assume "\<exists>h b. birth = Some b \<and> st_calls st1 = st_calls st @ [(Terminate, c, h)] \<and>
      verified_target c birth h \<and> c \<noteq> os_self W \<and> protected \<noteq> Some c"
    then obtain h b where "birth = Some b" "st_calls st1 = st_calls st @ [(Terminate, c, h)]"
      "verified_target c birth h" "c \<noteq> os_self W" "protected \<noteq> Some c" by blast
    with new show ?thesis by (intro exI [of _ "(Terminate, c, h) # new"]) (fastforce simp: child)
  qed
qed

lemma descendants_sound: "l \<in> set (descendants root_pid birth table) \<Longrightarrow> descends root_pid birth table l"
proof -
  assume l: "l \<in> set (descendants root_pid birth table)"
  have "bfs_inv root_pid birth table [(root_pid, birth)] {root_pid} []"
    by (simp add: bfs_inv_def queue_of_def)
  from bfs_result [OF this] l show ?thesis by (auto simp: descendants_def bfs_inv_def)
qed

lemma open_destructive_time:
  assumes "open_destructive_process_verified W pid expected st = (Inr h, st')"
  shows "st_time st' = Suc (st_time st)"
proof -
  have "st_time (snd (open_destructive_process_verified W pid expected st)) = Suc (st_time st)"
    by (auto simp: open_destructive_process_verified_def open_process_verified_def open_process_def tick_def
        then_do_def split: prod.split sum.split option.split open_error.split)
  with assms show ?thesis by simp
qed

text \<open>The calls an end of a tree may make: on the root through its own handle, last, and before it
  on processes of one snapshot.\<close>

definition tree_calls ::
    "os \<Rightarrow> u32 \<Rightarrow> int option \<Rightarrow> u32 option \<Rightarrow> nat \<Rightarrow> os_handle \<Rightarrow> u64 \<Rightarrow> tree_link list \<Rightarrow>
     (os_call \<times> u32 \<times> os_handle) list \<Rightarrow> bool" where
  "tree_calls W pid expected protected t root_handle birth table new \<longleftrightarrow>
     verified_target pid expected root_handle \<and> oh_creation root_handle = Some birth \<and>
     os_table W t = Some table \<and>
     (\<exists>kids. new = kids @ [(Terminate, pid, root_handle)] \<and>
        (\<forall>(c, p, h)\<in>set kids. c = Terminate \<and> 4 < p \<and> oh_critical h = Inr False \<and>
           in_snapshot W pid protected birth table p h))"

lemma kill_tree_snapshot:
  assumes "kill_process_excluding W pid expected True protected st = (r, st')"
  shows "\<exists>new. st_calls st' = st_calls st @ new \<and>
    (new = [] \<or> (\<exists>root_handle birth table.
      tree_calls W pid expected protected (Suc (st_time st)) root_handle birth table new))"
proof (cases "open_destructive_process_verified W pid expected st")
  case (Pair opened_r st1)
  have calls1: "st_calls st1 = st_calls st"
    using open_destructive_calls [of W pid expected st] by (simp add: Pair)
  show ?thesis
  proof (cases opened_r)
    case (Inl e)
    with assms Pair calls1 show ?thesis by (auto simp: kill_process_excluding_def then_do_def)
  next
    case (Inr rh)
    from open_destructive_verified [of W pid expected st rh st1] have rh: "verified_target pid expected rh"
      by (simp add: Pair Inr)
    obtain children st2 where ch: "(case oh_creation rh of None \<Rightarrow> (None, st1)
        | Some birth \<Rightarrow> collect_children_with_births W pid birth st1) = (children, st2)" by fastforce
    have calls2: "st_calls st2 = st_calls st"
      using ch calls1 by (auto simp: collect_children_with_births_def tick_def split: option.splits)
    obtain v st3 where ver: "verify_pid_still_refers_to W pid (oh_creation rh) st2 = (v, st3)" by fastforce
    have calls3: "st_calls st3 = st_calls st"
      using verify_pid_calls [of W pid "oh_creation rh" st2] calls2 by (simp add: ver)
    show ?thesis
    proof (cases "\<exists>cs. v = Inr () \<and> children = Some cs")
      case False
      then have "st' = st3"
        using assms by (cases v; cases children)
          (simp_all add: kill_process_excluding_def then_do_def Pair Inr ch ver)
      with calls3 show ?thesis by (intro exI [of _ "[]"]) simp
    next
      case True
      then obtain cs where cs: "v = Inr ()" "children = Some cs" by blast
      obtain err st4 where kids: "fold (kill_child W protected) (rev cs) (None, st3) = (err, st4)" by fastforce
      have "kill_members W pid protected rh cs st3 = (r, st')"
        using assms by (simp add: kill_process_excluding_def then_do_def Pair Inr ch ver cs)
      then have "st' = record_call Terminate pid rh st4"
        by (auto simp: kill_members_def kids terminate_handle_def split: sum.splits)
      then have last: "st_calls st' = st_calls st4 @ [(Terminate, pid, rh)]" by (simp add: record_call_def)
      from kill_children_calls [OF kids] calls3 obtain new where new: "st_calls st4 = st_calls st @ new"
        "\<forall>(c, p, h)\<in>set new. c = Terminate \<and> p \<noteq> os_self W \<and> protected \<noteq> Some p \<and>
          (\<exists>birth. (p, Some birth) \<in> set cs \<and> verified_target p (Some birth) h)"
        by auto
      from ch cs(2) obtain birth table where tab: "oh_creation rh = Some birth"
        "os_table W (st_time st1) = Some table"
        "cs = map (\<lambda>l. (tl_pid l, filetime_to_epoch (tl_create_time l))) (descendants pid birth table)"
        by (auto simp: collect_children_with_births_def split: option.splits)
      have kid: "c = Terminate \<and> 4 < p \<and> oh_critical h = Inr False \<and> in_snapshot W pid protected birth table p h"
        if "(c, p, h) \<in> set new" for c p h
      proof -
        from new(2) that obtain b where b: "c = Terminate" "p \<noteq> os_self W" "protected \<noteq> Some p"
          "(p, Some b) \<in> set cs" "verified_target p (Some b) h" by blast
        from b(4) tab(3) obtain l where l: "l \<in> set (descendants pid birth table)" "tl_pid l = p"
          "filetime_to_epoch (tl_create_time l) = Some b" by auto
        have "creation_epoch h = filetime_to_epoch (tl_create_time l)"
          using b(5) l(3) by (simp add: verified_target_def)
        then have "in_snapshot W pid protected birth table p h"
          using descendants_sound [OF l(1)] b(2,3) l(2) unfolding in_snapshot_def by blast
        with b(1,5) show ?thesis by (simp add: verified_target_def)
      qed
      have "st_time st1 = Suc (st_time st)"
        using open_destructive_time [of W pid expected st rh st1] by (simp add: Pair Inr)
      with tab rh kid
      have "tree_calls W pid expected protected (Suc (st_time st)) rh birth table (new @ [(Terminate, pid, rh)])"
        unfolding tree_calls_def by auto
      with last new(1) show ?thesis by (intro exI [of _ "new @ [(Terminate, pid, rh)]"]) auto
    qed
  qed
qed

lemma kill_tree_calls:
  assumes "kill_process_excluding W pid expected True protected st = (r, st')"
  shows "\<exists>new. st_calls st' = st_calls st @ new \<and>
    (\<forall>(c, p, h)\<in>set new. c = Terminate \<and> 4 < p \<and> oh_critical h = Inr False \<and>
      (\<exists>root_handle. verified_target pid expected root_handle \<and>
        (p = pid \<and> h = root_handle \<or> member_of_tree W pid protected p root_handle h)))"
proof -
  from kill_tree_snapshot [OF assms] obtain new where new: "st_calls st' = st_calls st @ new"
    "new = [] \<or> (\<exists>root_handle birth table.
      tree_calls W pid expected protected (Suc (st_time st)) root_handle birth table new)" by blast
  from new(2) show ?thesis
  proof
    assume "new = []"
    with new(1) show ?thesis by auto
  next
    assume "\<exists>root_handle birth table.
      tree_calls W pid expected protected (Suc (st_time st)) root_handle birth table new"
    then obtain rh birth table where
      calls: "tree_calls W pid expected protected (Suc (st_time st)) rh birth table new" by blast
    then obtain kids where kids: "new = kids @ [(Terminate, pid, rh)]" and
      kid: "\<And>c p h. (c, p, h) \<in> set kids \<Longrightarrow> c = Terminate \<and> 4 < p \<and> oh_critical h = Inr False \<and>
        in_snapshot W pid protected birth table p h"
      and rh: "oh_creation rh = Some birth" "os_table W (Suc (st_time st)) = Some table" "verified_target pid expected rh"
      unfolding tree_calls_def by blast
    have "member_of_tree W pid protected p rh h" if "(c, p, h) \<in> set kids" for c p h
      unfolding member_of_tree_def using kid [OF that] rh(1,2) by blast
    with kid rh(3) have "\<forall>(c, p, h)\<in>set new. c = Terminate \<and> 4 < p \<and> oh_critical h = Inr False \<and>
        (p = pid \<and> h = rh \<or> member_of_tree W pid protected p rh h)"
      unfolding kids by (fastforce simp: verified_target_def)
    moreover from calls have "verified_target pid expected rh" by (simp add: tree_calls_def)
    ultimately show ?thesis using new(1) by fast
  qed
qed


text \<open>Other changes of a process go through the same verified handle.\<close>

lemma change_calls:
  assumes "then_do (open_destructive_process_verified W pid expected st) (\<lambda>h. call_handle c action pid h) =
    (r, st')"
  shows "st_calls st' = st_calls st \<or>
    (\<exists>h. st_calls st' = st_calls st @ [(c, pid, h)] \<and> verified_target pid expected h)"
proof (cases "open_destructive_process_verified W pid expected st")
  case (Pair opened_r st1)
  have calls: "st_calls st1 = st_calls st"
    using open_destructive_calls [of W pid expected st] by (simp add: Pair)
  show ?thesis
  proof (cases opened_r)
    case (Inl e)
    with assms Pair calls show ?thesis by (auto simp: then_do_def)
  next
    case (Inr h)
    with open_destructive_verified [of W pid expected st h st1] assms Pair calls show ?thesis
      by (auto simp: then_do_def call_handle_def record_call_def)
  qed
qed

definition changes_only :: "os \<Rightarrow> u32 \<Rightarrow> int option \<Rightarrow> os_call \<Rightarrow> os_state \<Rightarrow> os_state \<Rightarrow> bool" where
  "changes_only W pid expected c st st' \<longleftrightarrow> st_calls st' = st_calls st \<or>
     (\<exists>h. st_calls st' = st_calls st @ [(c, pid, h)] \<and> verified_target pid expected h \<and>
       (c \<notin> {Resume, SetEfficiency False} \<union> range SetVirtualization \<longrightarrow> pid \<noteq> os_self W))"

lemma virtualization_calls:
  "changes_only W pid expected (SetVirtualization enabled) st
     (snd (set_uac_virtualization_checked W pid expected enabled st))"
proof (cases "open_destructive_process_verified W pid expected st")
  case (Pair opened_r st1)
  have calls: "st_calls st1 = st_calls st"
    using open_destructive_calls [of W pid expected st] by (simp add: Pair)
  show ?thesis
  proof (cases opened_r)
    case (Inl e)
    with Pair calls show ?thesis
      by (simp add: changes_only_def set_uac_virtualization_checked_def noting_def then_do_def)
  next
    case (Inr h)
    with open_destructive_verified [of W pid expected st h st1] Pair calls show ?thesis
      by (auto simp: changes_only_def set_uac_virtualization_checked_def then_do_def call_handle_def
          record_call_def split: sum.split)
  qed
qed

lemma scheduling_changes:
  "changes_only W pid expected (SetPriority priority) st (snd (set_priority_checked W pid expected priority st))"
  "changes_only W pid expected (SetAffinity m) st (snd (set_affinity_checked W pid expected m st))"
  "changes_only W pid expected (if s then Suspend else Resume) st (snd (suspend_process_checked W pid expected s st))"
  "changes_only W pid expected (SetEfficiency on) st (snd (set_efficiency_mode_checked W pid expected on st))"
  using change_calls [OF surjective_pairing, of W pid expected st "SetPriority priority" "''SetPriorityClass''"]
    change_calls [OF surjective_pairing, of W pid expected st "SetAffinity m" "''SetProcessAffinityMask''"]
    change_calls [OF surjective_pairing, of W pid expected st Suspend "''suspend/resume''"]
    change_calls [OF surjective_pairing, of W pid expected st Resume "''suspend/resume''"]
    change_calls [OF surjective_pairing, of W pid expected st "SetEfficiency on"
      "''SetProcessInformation(EcoQoS)''"]
  by (auto simp: changes_only_def set_priority_checked_def set_affinity_checked_def
      suspend_process_checked_def set_efficiency_mode_checked_def refuse_self_def)

text \<open>
  TaskMan never slows itself or a critical process down. A change of priority, affinity,
  efficiency mode, virtualization or suspension makes at most one call; it is made on the process
  that was meant, which is not critical, and, except for a resumption, an end of the efficiency
  mode or virtualization, is not TaskMan; a meaningless priority or mask changes nothing at all.
\<close>

theorem scheduling_guarded:
  "changes_only W pid expected (SetPriority priority) st
      (snd (set_priority_checked W pid expected priority st)) \<and>
   changes_only W pid expected (SetAffinity m) st (snd (set_affinity_checked W pid expected m st)) \<and>
   changes_only W pid expected (if s then Suspend else Resume) st
      (snd (suspend_process_checked W pid expected s st)) \<and>
   changes_only W pid expected (SetEfficiency on) st
      (snd (set_efficiency_mode_checked W pid expected on st)) \<and>
   changes_only W pid expected (SetVirtualization v) st
      (snd (set_uac_virtualization_checked W pid expected v st)) \<and>
   snd (set_priority_checked W pid expected PrioUnknown st) = st \<and>
   snd (set_affinity_checked W pid expected 0 st) = st"
  using scheduling_changes virtualization_calls
  by (simp add: set_priority_checked_def set_affinity_checked_def refuse_self_def)

definition refused :: "u32 \<Rightarrow> os_state \<Rightarrow> 'a os_result" where
  "refused pid st = (Inl (ProcessNotFound pid), tick st)"

text \<open>
  C36: A recycled pid is refused. If the process found behind the selected pid was not created at
  the time the user was shown, or its creation time cannot be read, then ending it (alone or with
  its tree), changing its priority, affinity, efficiency mode or virtualization, suspending or
  resuming it fails with \<open>ProcessNotFound\<close>, and nothing has been done to any process and
  no cached attribute is marked as changed. (For the changes: unless the pid is TaskMan's own,
  the priority or mask is meaningless or ntdll has no such routine, which fail without opening the
  process.)
\<close>

theorem recycled_pid_refused:
  assumes "os_open W (st_time st) pid = Inr h" and "creation_epoch h \<noteq> Some e"
    and "priority \<noteq> PrioUnknown" and "m \<noteq> 0"
  shows "kill_process_excluding W pid (Some e) tree protected st = refused pid st \<and>
    set_uac_virtualization_checked W pid (Some e) v st = refused pid st \<and>
    set_efficiency_mode_checked W pid (Some e) False st = refused pid st \<and>
    suspend_process_checked W pid (Some e) False st =
      (if os_suspend_routine W False then refused pid st
       else (Inl (Unsupported ''ntdll suspend/resume''), st)) \<and>
    (if pid = os_self W then set_priority_checked W pid (Some e) priority st =
        (Inl (tm_platform ''SetPriorityClass'' ''refusing to change TaskMan's own scheduling''), st)
     else set_priority_checked W pid (Some e) priority st = refused pid st \<and>
       set_affinity_checked W pid (Some e) m st = refused pid st \<and>
       set_efficiency_mode_checked W pid (Some e) True st = refused pid st \<and>
       suspend_process_checked W pid (Some e) True st =
         (if os_suspend_routine W True then refused pid st
          else (Inl (Unsupported ''ntdll suspend/resume''), st))) \<and>
    st_calls (tick st) = st_calls st \<and> st_changed (tick st) = st_changed st"
proof -
  have "open_destructive_process_verified W pid (Some e) st = refused pid st"
    using assms(1,2) by (auto simp: open_destructive_process_verified_def open_process_verified_def
        open_process_def then_do_def creation_matches_def refused_def split: option.split)
  with assms(3,4) show ?thesis
    by (cases "pid = os_self W") (simp_all add: kill_process_excluding_def terminate_verified_def set_priority_checked_def
        set_affinity_checked_def set_uac_virtualization_checked_def set_efficiency_mode_checked_def
        suspend_process_checked_def noting_def then_do_def tick_def refuse_self_def refused_def)
qed

section \<open>A concrete system\<close>

definition small_handle :: "u64 \<Rightarrow> os_handle" where
  "small_handle birth = \<lparr>oh_creation = Some birth, oh_critical = Inr False, oh_error = (\<lambda>_. None),
     oh_denied = False, oh_exit_code = None, oh_affinity = Inr (3, 15), oh_virtualization = Inr 1,
     oh_machine = Inr 0x8664, oh_remote = RemoteExited 1\<rparr>"

text \<open>Process 10 and its child 11, and 12, whose recorded parent pid 10 was another process.\<close>

definition small_table :: "tree_link list" where
  "small_table = [\<lparr>tl_pid = 10, tl_parent_pid = 11, tl_create_time = 50\<rparr>,
     \<lparr>tl_pid = 11, tl_parent_pid = 10, tl_create_time = 60\<rparr>,
     \<lparr>tl_pid = 12, tl_parent_pid = 10, tl_create_time = 40\<rparr>]"

definition small_os :: os where
  "small_os = \<lparr>os_self = 99, os_open = (\<lambda>t pid. Inr (small_handle 50)), os_table = (\<lambda>t. Some small_table),
     os_modules = (\<lambda>t pid. Inr []), os_machine = Inr 0x8664, os_free_library = Inr 0,
     os_suspend_routine = (\<lambda>_. True)\<rparr>"

theorem descendants_exact_witness:
  "set (descendants 10 50 small_table) = {l. descends 10 50 small_table l} \<and>
   \<lparr>tl_pid = 11, tl_parent_pid = 10, tl_create_time = 60\<rparr> \<in> set (descendants 10 50 small_table)"
proof -
  have "distinct (map tl_pid small_table)" by (simp add: small_table_def)
  from descendants_exact [OF this, of 10 50] show ?thesis
    by (auto simp: small_table_def link_parent_def intro: descends.child)
qed

theorem recycled_pid_refused_witness:
  "kill_process_excluding small_os 10 (Some 7) True None \<lparr>st_time = 0, st_calls = [], st_changed = []\<rparr> =
     (Inl (ProcessNotFound 10), tick \<lparr>st_time = 0, st_calls = [], st_changed = []\<rparr>) \<and>
   set_priority_checked small_os 10 (Some 7) PrioHigh \<lparr>st_time = 0, st_calls = [], st_changed = []\<rparr> =
     (Inl (ProcessNotFound 10), tick \<lparr>st_time = 0, st_calls = [], st_changed = []\<rparr>)"
proof -
  have "os_open small_os (st_time \<lparr>st_time = 0, st_calls = [], st_changed = []\<rparr>) 10 = Inr (small_handle 50)"
    by (simp add: small_os_def)
  moreover have "creation_epoch (small_handle 50) \<noteq> Some 7"
    by (simp add: creation_epoch_def small_handle_def filetime_to_epoch_def saturating_sub_def)
  moreover have self: "os_self small_os \<noteq> 10" by (simp add: small_os_def)
  ultimately show ?thesis
    using recycled_pid_refused [of small_os "\<lparr>st_time = 0, st_calls = [], st_changed = []\<rparr>" 10
        "small_handle 50" 7 PrioHigh 1] self by (simp add: refused_def)
qed

end
