(* ===== verification/List_Nav.thy ===== *)
theory List_Nav
  imports Process_Entry Bytes
begin

text \<open>
  Searching and keyboard navigation shared by the lists (crates/tm-app/src/search.rs): the global
  query, type-ahead, index movement and the search URL. The focus and popup gates of the
  toolkit decide whether any of this runs; they are not modelled. Time is in milliseconds.
\<close>

section \<open>The query\<close>

definition new_query :: "string \<Rightarrow> string" where
  "new_query raw = to_lowercase (trim raw)"

definition matches_any :: "string \<Rightarrow> string list \<Rightarrow> bool" where
  "matches_any q candidates = (q = [] \<or> list_ex (\<lambda>c. contains (to_lowercase c) q) candidates)"

definition matches_process :: "string \<Rightarrow> process_entry \<Rightarrow> bool" where
  "matches_process q p =
     (if q = [] then True
      else if matches_any q [pe_name p, shown_name_of p, unwrap_or (pe_description p) [],
          unwrap_or (pe_company p) [], unwrap_or (pe_user p) [], unwrap_or (pe_service_name p) [],
          show_nat (unat (pe_pid p))] then True
      else matches_any q [unwrap_or (pe_exe_path p) [], unwrap_or (pe_command_line p) []])"

section \<open>Type-ahead\<close>

definition TYPE_AHEAD_TIMEOUT_MS :: int where "TYPE_AHEAD_TIMEOUT_MS = 1000"

datatype type_ahead = Prefix string | Cycle char

definition type_ahead_char :: "char \<Rightarrow> bool" where
  "type_ahead_char c = (is_alphanumeric c \<or> c \<in> {CHR ''.'', CHR ''-'', CHR ''_''})"

definition same_letter :: "char \<Rightarrow> char \<Rightarrow> bool" where
  "same_letter a b = (lower a = lower b)"

text \<open>\<open>list_type_ahead\<close> once the typed characters are known: the stored buffer with its
  time, and the burst to apply.\<close>

definition list_type_ahead ::
    "(string \<times> int) option \<Rightarrow> int \<Rightarrow> string \<Rightarrow> (string \<times> int) option \<times> type_ahead option" where
  "list_type_ahead previous now typed =
     (if typed = [] then (previous, None)
      else
        (let kept = (case previous of
                Some (buffer, since) \<Rightarrow> if now - since \<le> TYPE_AHEAD_TIMEOUT_MS then buffer else []
              | None \<Rightarrow> []);
             buffer = kept @ typed
         in (Some (buffer, now),
             case buffer of
               [] \<Rightarrow> None
             | first # rest \<Rightarrow>
                 if list_all (\<lambda>c. same_letter c first) rest then Some (Cycle first)
                 else Some (Prefix buffer))))"

definition cycle_match :: "('a \<times> string) list \<Rightarrow> 'a option \<Rightarrow> char \<Rightarrow> 'a option" where
  "cycle_match items selected initial =
     (let matches = map fst (filter (\<lambda>(_, name).
          is_some_and (first_opt (trim_start name)) (\<lambda>c. lower c = lower initial)) items) in
      if matches = [] then None
      else case Option.bind selected (\<lambda>sel. position (\<lambda>c. c = sel) matches) of
        None \<Rightarrow> Some (matches ! 0)
      | Some pos \<Rightarrow> Some (matches ! ((pos + 1) mod length matches)))"

definition prefix_match :: "('a \<times> string) list \<Rightarrow> string \<Rightarrow> 'a option" where
  "prefix_match items prefix =
     map_option fst (find (\<lambda>(_, name). starts_with (to_lowercase (trim_start name)) (to_lowercase prefix)) items)"

fun type_ahead_match :: "('a \<times> string) list \<Rightarrow> 'a option \<Rightarrow> type_ahead \<Rightarrow> 'a option" where
  "type_ahead_match items selected (Cycle initial) = cycle_match items selected initial"
| "type_ahead_match items selected (Prefix prefix) = prefix_match items prefix"

section \<open>Moving an index\<close>

datatype list_nav = Previous | Next | First | Last | PageUp | PageDown

definition moved_index :: "nat \<Rightarrow> nat option \<Rightarrow> list_nav \<Rightarrow> nat \<Rightarrow> nat option" where
  "moved_index len current nav page_rows =
     (if len = 0 then None
      else
        (let final = len - 1; page = max page_rows 1; cur = map_option (\<lambda>i. min i final) current in
         Some (case nav of
           Previous \<Rightarrow> (case cur of Some i \<Rightarrow> i - 1 | None \<Rightarrow> final)
         | Next \<Rightarrow> (case cur of Some i \<Rightarrow> min (i + 1) final | None \<Rightarrow> 0)
         | First \<Rightarrow> 0
         | Last \<Rightarrow> final
         | PageUp \<Rightarrow> (case cur of Some i \<Rightarrow> i - page | None \<Rightarrow> final - page)
         | PageDown \<Rightarrow> (case cur of Some i \<Rightarrow> min (i + page) final | None \<Rightarrow> min page final))))"

section \<open>The search URL\<close>

definition hex_digit_upper :: "nat \<Rightarrow> char" where
  "hex_digit_upper d = char_of (if d < 10 then 48 + d else 55 + d)"

definition unreserved :: "u8 \<Rightarrow> bool" where
  "unreserved b = (0x41 \<le> b \<and> b \<le> 0x5A \<or> 0x61 \<le> b \<and> b \<le> 0x7A \<or> 0x30 \<le> b \<and> b \<le> 0x39 \<or>
     b \<in> {0x2D, 0x5F, 0x2E, 0x7E})"

definition encode_byte :: "u8 \<Rightarrow> string" where
  "encode_byte b =
     (if unreserved b then [char_of (unat b)]
      else if b = 0x20 then ''+''
      else [CHR ''%'', hex_digit_upper (unat b div 16), hex_digit_upper (unat b mod 16)])"

text \<open>The term is given as its UTF-8 bytes.\<close>

definition online_search_url :: "u8 list \<Rightarrow> string" where
  "online_search_url term_bytes =
     ''https://www.bing.com/search?q='' @ concat (map encode_byte term_bytes)"

section \<open>Properties\<close>

text \<open>What a server reads from a query string.\<close>

definition hex_value :: "char \<Rightarrow> nat" where
  "hex_value c = (if code c < 58 then code c - 48 else code c - 55)"

fun form_decode :: "string \<Rightarrow> u8 list" where
  "form_decode [] = []"
| "form_decode (c # s) =
     (if c = CHR ''+'' then 0x20 # form_decode s
      else if c = CHR ''%'' then
        (case s of a # b # r \<Rightarrow> of_nat (16 * hex_value a + hex_value b) # form_decode r | _ \<Rightarrow> [])
      else of_nat (code c) # form_decode s)"

lemma hex_value_digit: "d < 16 \<Longrightarrow> hex_value (hex_digit_upper d) = d"
  by (auto simp: hex_value_def hex_digit_upper_def code_def)

lemma word_nat_cast_inverse: "(of_nat (unat b) :: u8) = b"
  by simp

lemma code_char_u8: "code (char_of (unat (b :: u8))) = unat b"
proof -
  have "unat b < 256" using unsigned_less [of b] by simp
  then show ?thesis by (simp add: code_def)
qed

lemma char_of_neq: "(b :: u8) \<noteq> of_nat (code c) \<Longrightarrow> char_of (unat b) \<noteq> c"
  by (metis code_char_u8 word_nat_cast_inverse)

lemma decode_encode_byte: "form_decode (encode_byte b @ s) = b # form_decode s"
proof (cases "unreserved b")
  case True
  then have "b \<noteq> 43" "b \<noteq> 37" by (auto simp: unreserved_def)
  then have "char_of (unat b) \<noteq> CHR ''+''" "char_of (unat b) \<noteq> CHR ''%''"
    by (auto intro!: char_of_neq simp: code_def)
  with True show ?thesis by (simp add: encode_byte_def code_char_u8)
next
  case False
  have "unat b < 256" using unsigned_less [of b] by simp
  then have "hex_value (hex_digit_upper (unat b div 16)) = unat b div 16"
    "hex_value (hex_digit_upper (unat b mod 16)) = unat b mod 16"
    by (simp_all add: hex_value_digit)
  then have "of_nat (16 * hex_value (hex_digit_upper (unat b div 16)) +
      hex_value (hex_digit_upper (unat b mod 16))) = b"
    by (simp only: mult_div_mod_eq word_nat_cast_inverse)
  with False show ?thesis by (simp add: encode_byte_def del: of_nat_add of_nat_mult)
qed

text \<open>
  A search finds exactly what was searched for. Whatever bytes the search term has, the query
  of the URL decodes to them.
\<close>

theorem search_url_decodes:
  "\<exists>query. online_search_url bs = ''https://www.bing.com/search?q='' @ query \<and> form_decode query = bs"
proof -
  have "form_decode (concat (map encode_byte bs)) = bs"
    by (induction bs) (simp_all add: decode_encode_byte)
  then show ?thesis by (simp add: online_search_url_def)
qed

text \<open>
  List navigation stays in the list. In a list with entries every key yields a valid index, in
  an empty one none; from a valid index a key for backwards never goes forwards and the other way
  round; a step moves by one and a page by at least one, unless the edge is reached.
\<close>

theorem moved_index_valid:
  "case moved_index len current nav page_rows of
     None \<Rightarrow> len = 0
   | Some j \<Rightarrow> j < len \<and>
       (case current of None \<Rightarrow> True | Some i \<Rightarrow>
          (i < len \<longrightarrow>
            (nav \<in> {Previous, PageUp, First} \<longrightarrow> j \<le> i) \<and> (nav \<in> {Next, PageDown, Last} \<longrightarrow> i \<le> j) \<and>
            (nav = Previous \<longrightarrow> i = 0 \<or> i = j + 1) \<and> (nav = Next \<longrightarrow> i = len - 1 \<or> j = i + 1) \<and>
            (nav = PageUp \<longrightarrow> i = 0 \<or> j < i) \<and> (nav = PageDown \<longrightarrow> i = len - 1 \<or> i < j)))"
  by (cases nav; cases current) (auto simp: moved_index_def Let_def)

text \<open>Pressing one letter again and again.\<close>

definition initial_matches :: "('a \<times> string) list \<Rightarrow> char \<Rightarrow> 'a list" where
  "initial_matches items initial = map fst (filter (\<lambda>(_, name).
     is_some_and (first_opt (trim_start name)) (\<lambda>c. lower c = lower initial)) items)"

lemma cycle_match_step:
  assumes "distinct (initial_matches items initial)" "k < length (initial_matches items initial)"
  shows "cycle_match items (Some (initial_matches items initial ! k)) initial =
    Some (initial_matches items initial ! (Suc k mod length (initial_matches items initial)))"
  using assms position_nth_distinct [OF assms]
  by (auto simp: cycle_match_def Let_def initial_matches_def [symmetric])

text \<open>
  Type-ahead reaches every match. In a list of distinct entries, pressing a letter \<open>n\<close>
  times from an entry with that initial, it is the one \<open>n\<close> places further, cyclically, that is
  selected: after as many presses as there are matches each has been selected and the first one is
  back; from an unrelated or missing selection the first match is selected.
\<close>

theorem cycling_visits_all:
  assumes "distinct (initial_matches items initial)"
    and "k < length (initial_matches items initial)"
  shows "((\<lambda>sel. cycle_match items sel initial) ^^ n) (Some (initial_matches items initial ! k)) =
      Some (initial_matches items initial ! ((k + n) mod length (initial_matches items initial))) \<and>
    (sel \<notin> Some ` set (initial_matches items initial) \<longrightarrow>
      cycle_match items sel initial = Some (initial_matches items initial ! 0))"
proof
  let ?m = "initial_matches items initial"
  show "((\<lambda>sel. cycle_match items sel initial) ^^ n) (Some (?m ! k)) = Some (?m ! ((k + n) mod length ?m))"
  proof (induction n)
    case 0
    then show ?case using assms(2) by simp
  next
    case (Suc n)
    have "(k + n) mod length ?m < length ?m" using assms(2) by (intro mod_less_divisor) linarith
    from cycle_match_step [OF assms(1) this] Suc show ?case by (simp add: mod_Suc_eq)
  qed
  have ne: "?m \<noteq> []" using assms(2) by auto
  show "sel \<notin> Some ` set ?m \<longrightarrow> cycle_match items sel initial = Some (?m ! 0)"
  proof
    assume sel: "sel \<notin> Some ` set ?m"
    have "Option.bind sel (\<lambda>s. position (\<lambda>c. c = s) ?m) = None"
    proof (cases sel)
      case (Some a)
      with sel have "a \<notin> set ?m" by blast
      then have "position (\<lambda>c. c = a) ?m = None" by (auto simp: position_None_iff)
      with Some show ?thesis by simp
    qed simp
    with ne show "cycle_match items sel initial = Some (?m ! 0)"
      by (simp add: cycle_match_def Let_def initial_matches_def [symmetric])
  qed
qed

definition letters :: "(nat \<times> string) list" where
  "letters = [(7, ''Beta''), (8, ''alpha''), (9, '' bash''), (5, ''b.exe'')]"

theorem cycling_visits_all_witness:
  "((\<lambda>sel. cycle_match letters sel (CHR ''b'')) ^^ 3) (Some 7) = Some 7 \<and>
   cycle_match letters None (CHR ''b'') = Some 7"
proof -
  have m: "initial_matches letters (CHR ''b'') = [7, 9, 5]" by code_simp
  show ?thesis
    using cycling_visits_all [of letters "CHR ''b''" 0 3 None] by (simp add: m)
qed

end
