(* ===== verification/Rust_Order.thy ===== *)
theory Rust_Order
  imports Rust_Text "HOL-Library.Multiset"
begin

text \<open>
  \<open>std::cmp::Ordering\<close> and the stable \<open>sort_by\<close>, with the text order the tables
  share (crates/tm-app/src/widgets/tablekit.rs).
\<close>

datatype ordering = Less | Equal | Greater

definition cmp :: "'a::linorder \<Rightarrow> 'a \<Rightarrow> ordering" where
  "cmp a b = (if a < b then Less else if a = b then Equal else Greater)"

fun ord_reverse :: "ordering \<Rightarrow> ordering" where
  "ord_reverse Less = Greater"
| "ord_reverse Equal = Equal"
| "ord_reverse Greater = Less"

definition then_with :: "ordering \<Rightarrow> ordering \<Rightarrow> ordering" where
  "then_with a b = (if a = Equal then b else a)"

definition directed :: "ordering \<Rightarrow> bool \<Rightarrow> ordering" where
  "directed o1 ascending = (if ascending then o1 else ord_reverse o1)"

fun insert_by :: "('a \<Rightarrow> 'a \<Rightarrow> ordering) \<Rightarrow> 'a \<Rightarrow> 'a list \<Rightarrow> 'a list" where
  "insert_by c x [] = [x]"
| "insert_by c x (y # ys) = (if c x y = Greater then y # insert_by c x ys else x # y # ys)"

definition sort_by :: "('a \<Rightarrow> 'a \<Rightarrow> ordering) \<Rightarrow> 'a list \<Rightarrow> 'a list" where
  "sort_by c xs = foldr (insert_by c) xs []"

text \<open>Comparing the characters lower-cased, without building the lower-cased texts.\<close>

fun cmp_ignore_case :: "string \<Rightarrow> string \<Rightarrow> ordering" where
  "cmp_ignore_case (a # s) (b # t) =
     (if code (lower a) = code (lower b) then cmp_ignore_case s t
      else if code (lower a) < code (lower b) then Less else Greater)"
| "cmp_ignore_case [] [] = Equal"
| "cmp_ignore_case [] (b # t) = Less"
| "cmp_ignore_case (a # s) [] = Greater"

section \<open>Sorting permutes and sorts\<close>

lemma mset_insert_by [simp]: "mset (insert_by c x ys) = add_mset x (mset ys)"
  by (induction ys) auto

lemma mset_sort_by [simp]: "mset (sort_by c xs) = mset xs"
  by (induction xs) (simp_all add: sort_by_def)

lemma set_sort_by [simp]: "set (sort_by c xs) = set xs"
  by (metis mset_sort_by set_mset_mset)

lemma length_sort_by [simp]: "length (sort_by c xs) = length xs"
  by (metis mset_sort_by size_mset)

lemma distinct_sort_by [simp]: "distinct (map f (sort_by c xs)) = distinct (map f xs)"
proof -
  have "mset (map f (sort_by c xs)) = mset (map f xs)" by simp
  then show ?thesis by (rule mset_eq_imp_distinct_iff)
qed

text \<open>A comparison that comes from a total preorder.\<close>

definition total_cmp :: "('a \<Rightarrow> 'a \<Rightarrow> ordering) \<Rightarrow> bool" where
  "total_cmp c \<longleftrightarrow> (\<forall>x y. c y x = ord_reverse (c x y)) \<and>
     (\<forall>x y z. c x y \<noteq> Greater \<longrightarrow> c y z \<noteq> Greater \<longrightarrow> c x z \<noteq> Greater)"

lemma reverse_reverse [simp]: "ord_reverse (ord_reverse c) = c"
  by (cases c) auto

lemma reverse_iff [simp]: "ord_reverse c = Greater \<longleftrightarrow> c = Less" "ord_reverse c = Equal \<longleftrightarrow> c = Equal"
  by (cases c; simp)+

lemma total_cmp_flip: "total_cmp c \<Longrightarrow> c y x = ord_reverse (c x y)"
  unfolding total_cmp_def by blast

lemma total_cmp_trans: "total_cmp c \<Longrightarrow> c x y \<noteq> Greater \<Longrightarrow> c y z \<noteq> Greater \<Longrightarrow> c x z \<noteq> Greater"
  unfolding total_cmp_def by blast

lemma total_cmp_refl: "total_cmp c \<Longrightarrow> c x x = Equal"
  using total_cmp_flip [of c x x] by (cases "c x x") auto

lemma insert_by_sorted:
  assumes "total_cmp c" "sorted_wrt (\<lambda>a b. c a b \<noteq> Greater) ys"
  shows "sorted_wrt (\<lambda>a b. c a b \<noteq> Greater) (insert_by c x ys)"
  using assms(2)
proof (induction ys)
  case Nil
  then show ?case by simp
next
  case (Cons y ys)
  have set: "set (insert_by c x zs) = insert x (set zs)" for zs
    by (metis mset_insert_by set_mset_mset set_mset_add_mset_insert)
  show ?case
  proof (cases "c x y = Greater")
    case True
    with total_cmp_flip [OF assms(1), of y x] have "c y x \<noteq> Greater" by simp
    with True Cons show ?thesis by (auto simp: set)
  next
    case False
    have "c x z \<noteq> Greater" if "z \<in> set ys" for z
      using Cons.prems that by (intro total_cmp_trans [OF assms(1) False]) simp
    with False Cons.prems show ?thesis by simp
  qed
qed

lemma sort_by_sorted: "total_cmp c \<Longrightarrow> sorted_wrt (\<lambda>a b. c a b \<noteq> Greater) (sort_by c xs)"
  by (induction xs) (simp_all add: sort_by_def insert_by_sorted)

lemma total_cmp_cmp: "total_cmp (\<lambda>a b. cmp (f a) (f b))"
  by (auto simp: total_cmp_def cmp_def split: if_splits)

lemma total_cmp_reverse:
  assumes "total_cmp c"
  shows "total_cmp (\<lambda>a b. ord_reverse (c a b))"
  unfolding total_cmp_def
proof (intro conjI allI impI)
  fix x y z assume "ord_reverse (c x y) \<noteq> Greater" "ord_reverse (c y z) \<noteq> Greater"
  then have "c y x \<noteq> Greater" "c z y \<noteq> Greater"
    by (simp_all add: total_cmp_flip [OF assms, of y x] total_cmp_flip [OF assms, of z y])
  then have "c z x \<noteq> Greater" using total_cmp_trans [OF assms, of z y x] by blast
  then show "ord_reverse (c x z) \<noteq> Greater" by (simp add: total_cmp_flip [OF assms, of z x])
next
  show "ord_reverse (c y x) = ord_reverse (ord_reverse (c x y))" for x y
    by (simp only: total_cmp_flip [OF assms, of y x])
qed

lemma total_cmp_directed: "total_cmp c \<Longrightarrow> total_cmp (\<lambda>a b. directed (c a b) asc)"
  by (cases asc) (simp_all add: directed_def total_cmp_reverse)

lemma total_cmp_then:
  assumes "total_cmp c" "total_cmp d"
  shows "total_cmp (\<lambda>a b. then_with (c a b) (d a b))"
proof -
  have rc: "c y x = ord_reverse (c x y)" "d y x = ord_reverse (d x y)" for x y
    by (rule total_cmp_flip [OF assms(1)], rule total_cmp_flip [OF assms(2)])
  have tc: "c x y \<noteq> Greater \<Longrightarrow> c y z \<noteq> Greater \<Longrightarrow> c x z \<noteq> Greater"
    "d x y \<noteq> Greater \<Longrightarrow> d y z \<noteq> Greater \<Longrightarrow> d x z \<noteq> Greater" for x y z
    by (erule (1) total_cmp_trans [OF assms(1)], erule (1) total_cmp_trans [OF assms(2)])
  have "then_with (c x z) (d x z) \<noteq> Greater"
    if "then_with (c x y) (d x y) \<noteq> Greater" "then_with (c y z) (d y z) \<noteq> Greater" for x y z
  proof -
    have xy: "c x y \<noteq> Greater" "c y z \<noteq> Greater"
      using that by (auto simp: then_with_def split: if_splits)
    then have xz: "c x z \<noteq> Greater" by (rule tc)
    show ?thesis
    proof (cases "c x z = Equal")
      case False
      with xz show ?thesis by (simp add: then_with_def)
    next
      case True
      then have zx: "c z x \<noteq> Greater" using rc(1) [of z x] by simp
      have "c y x \<noteq> Greater" by (rule tc(1) [OF xy(2) zx])
      then have "c x y = Equal" using rc(1) [of y x] xy(1) by (cases "c x y") auto
      moreover have "c z y \<noteq> Greater" by (rule tc(1) [OF zx xy(1)])
      then have "c y z = Equal" using rc(1) [of z y] xy(2) by (cases "c y z") auto
      ultimately show ?thesis using that True tc(2) by (simp add: then_with_def)
    qed
  qed
  moreover have "then_with (c y x) (d y x) = ord_reverse (then_with (c x y) (d x y))" for x y
    by (simp add: then_with_def rc(1) [of y x] rc(2) [of y x])
  ultimately show ?thesis unfolding total_cmp_def by blast
qed

lemma cmp_ignore_case_cmp:
  "cmp_ignore_case s t = cmp (map (\<lambda>c. code (lower c)) s) (map (\<lambda>c. code (lower c)) t)"
  by (induction s t rule: cmp_ignore_case.induct) (auto simp: cmp_def)

lemma total_cmp_ignore_case: "total_cmp (\<lambda>a b. cmp_ignore_case (f a) (f b))"
  unfolding cmp_ignore_case_cmp by (rule total_cmp_cmp)

lemma cmp_Equal_iff [simp]: "cmp a b = Equal \<longleftrightarrow> a = b"
  by (simp add: cmp_def)

text \<open>If the comparison distinguishes all elements, the sorted list does not depend on the order the
  elements came in.\<close>

lemma sort_by_unique:
  assumes "total_cmp c" "mset xs = mset ys" "\<And>x y. x \<in> set xs \<Longrightarrow> y \<in> set xs \<Longrightarrow> c x y = Equal \<Longrightarrow> x = y"
  shows "sort_by c xs = sort_by c ys"
proof -
  have "us = vs" if "mset us = mset vs" "sorted_wrt (\<lambda>a b. c a b \<noteq> Greater) us"
    "sorted_wrt (\<lambda>a b. c a b \<noteq> Greater) vs" "set us \<subseteq> set xs" for us vs
    using that
  proof (induction us arbitrary: vs)
    case Nil
    then show ?case by simp
  next
    case (Cons u us)
    then obtain v vs' where vs: "vs = v # vs'" by (cases vs) auto
    have sets: "insert u (set us) = insert v (set vs')"
      using mset_eq_setD [OF Cons.prems(1)] by (simp add: vs)
    have refl: "c x x \<noteq> Greater" for x by (simp add: total_cmp_refl [OF assms(1)])
    have "v \<in> insert u (set us)" "u \<in> insert v (set vs')" using sets by auto
    then have "c u v \<noteq> Greater" "c v u \<noteq> Greater"
      using Cons.prems(2,3) refl by (auto simp: vs)
    then have "c u v = Equal" using total_cmp_flip [OF assms(1), of v u] by (cases "c u v") auto
    with Cons.prems(4) sets assms(3) have "u = v" by auto
    with Cons vs show ?case by auto
  qed
  then show ?thesis using assms(1,2) by (simp add: sort_by_sorted)
qed

end
