(* ===== verification/Value_Columns.thy ===== *)
theory Value_Columns
  imports Rust_Order
begin

text \<open>
  The numeric columns of the process-shaped tables and the order the user drags them into
  (crates/tm-app/src/tabs/value_columns.rs), with the sort state of the simpler tables
  (crates/tm-app/src/widgets/tablekit.rs). Labels, widths and tooltips are left out.
\<close>

definition VALUE_COLS :: nat where "VALUE_COLS = 6"
definition FIXED_COLS :: nat where "FIXED_COLS = 2"
definition NET_VALUE :: nat where "NET_VALUE = 3"
definition DISK_ACT_VALUE :: nat where "DISK_ACT_VALUE = 4"
definition GPU_VALUE :: nat where "GPU_VALUE = 5"

definition VALUE_COLUMN_IDS :: "string list" where
  "VALUE_COLUMN_IDS = [''cpu'', ''mem'', ''disk'', ''net'', ''diskact'', ''gpu'']"

definition column_ids :: "string list \<Rightarrow> string list" where
  "column_ids fixed_ids = fixed_ids @ VALUE_COLUMN_IDS"

definition default_order :: "nat list" where
  "default_order = [0..<VALUE_COLS]"

definition logical_col :: "nat list \<Rightarrow> nat \<Rightarrow> nat" where
  "logical_col order display =
     (if FIXED_COLS \<le> display
      then FIXED_COLS + (let slot = display - FIXED_COLS in
        if slot < length order then order ! slot else slot)
      else display)"

definition display_col :: "nat list \<Rightarrow> nat \<Rightarrow> nat" where
  "display_col order logical =
     (if FIXED_COLS \<le> logical
      then FIXED_COLS + (let li = logical - FIXED_COLS in
        case position (\<lambda>c. c = li) order of Some i \<Rightarrow> i | None \<Rightarrow> li)
      else logical)"

text \<open>\<open>Vec::remove\<close> and \<open>Vec::insert\<close>.\<close>

definition vec_remove :: "nat \<Rightarrow> 'a list \<Rightarrow> 'a list" where
  "vec_remove i xs = take i xs @ drop (Suc i) xs"

definition vec_insert :: "nat \<Rightarrow> 'a \<Rightarrow> 'a list \<Rightarrow> 'a list" where
  "vec_insert i x xs = take i xs @ x # drop i xs"

definition move_column :: "nat list \<Rightarrow> nat \<Rightarrow> nat \<Rightarrow> bool \<times> nat list" where
  "move_column order from_slot to_slot =
     (if from_slot < FIXED_COLS \<or> to_slot < FIXED_COLS then (False, order)
      else
        (let a = from_slot - FIXED_COLS; b = to_slot - FIXED_COLS in
         if a = b \<or> length order \<le> a \<or> length order \<le> b then (False, order)
         else (True, vec_insert b (order ! a) (vec_remove a order))))"

definition saved_ids :: "nat list \<Rightarrow> string list" where
  "saved_ids order = map (\<lambda>li. VALUE_COLUMN_IDS ! li) order"

definition push_new :: "nat list \<Rightarrow> nat \<Rightarrow> nat list" where
  "push_new order li = (if li \<in> set order then order else order @ [li])"

definition apply_saved :: "string list \<Rightarrow> nat list" where
  "apply_saved ids =
     foldl push_new
       (foldl (\<lambda>order i. case position (\<lambda>c. c = i) VALUE_COLUMN_IDS of
          None \<Rightarrow> order | Some li \<Rightarrow> push_new order li) [] ids)
       [0..<VALUE_COLS]"

definition in_display_order :: "nat list \<Rightarrow> 'a list \<Rightarrow> 'a list" where
  "in_display_order order logical = map (\<lambda>li. logical ! li) order"

section \<open>Sort state of the simpler tables\<close>

record sort_state =
  ss_column :: nat
  ss_ascending :: bool

definition sort_clicked :: "nat \<Rightarrow> bool \<Rightarrow> sort_state \<Rightarrow> sort_state" where
  "sort_clicked column numeric s =
     (if ss_column s = column then s\<lparr>ss_ascending := \<not> ss_ascending s\<rparr>
      else s\<lparr>ss_column := column, ss_ascending := \<not> numeric\<rparr>)"

section \<open>Orders are permutations\<close>

definition column_order :: "nat list \<Rightarrow> bool" where
  "column_order order \<longleftrightarrow> distinct order \<and> set order = {..<VALUE_COLS}"

lemma push_new_set [simp]: "set (push_new order li) = insert li (set order)"
  by (auto simp: push_new_def)

lemma push_new_distinct: "distinct order \<Longrightarrow> distinct (push_new order li)"
  by (auto simp: push_new_def)

lemma push_all:
  "set (foldl push_new order ls) = set order \<union> set ls \<and> (distinct order \<longrightarrow> distinct (foldl push_new order ls))"
  by (induction ls arbitrary: order) (auto simp: push_new_distinct)

definition take_saved :: "nat list \<Rightarrow> string \<Rightarrow> nat list" where
  "take_saved order i =
     (case position (\<lambda>c. c = i) VALUE_COLUMN_IDS of None \<Rightarrow> order | Some li \<Rightarrow> push_new order li)"

lemma ids_length [simp]: "length VALUE_COLUMN_IDS = VALUE_COLS"
  by (simp add: VALUE_COLUMN_IDS_def VALUE_COLS_def)

lemma take_saved_ok:
  assumes "distinct order" "set order \<subseteq> {..<VALUE_COLS}"
  shows "distinct (take_saved order i) \<and> set (take_saved order i) \<subseteq> {..<VALUE_COLS}"
  using assms position_Some [of "\<lambda>c. c = i" VALUE_COLUMN_IDS]
  by (auto simp: take_saved_def push_new_distinct split: option.split)

lemma column_order_apply_saved: "column_order (apply_saved ids)"
proof -
  have "distinct order \<and> set order \<subseteq> {..<VALUE_COLS} \<Longrightarrow>
      distinct (foldl take_saved order ids) \<and> set (foldl take_saved order ids) \<subseteq> {..<VALUE_COLS}" for order
  proof (induction ids arbitrary: order)
    case (Cons i ids)
    from Cons.prems have "distinct (take_saved order i) \<and> set (take_saved order i) \<subseteq> {..<VALUE_COLS}"
      by (intro take_saved_ok) auto
    from Cons.IH [OF this] show ?case by simp
  qed simp
  from this [of "[]"] push_all [of "foldl take_saved [] ids" "[0..<VALUE_COLS]"]
  show ?thesis
    by (auto simp: column_order_def apply_saved_def take_saved_def [abs_def] push_new_def)
qed

lemma column_order_move:
  assumes "column_order order"
  shows "column_order (snd (move_column order a b))"
proof -
  have "mset (vec_insert b' (order ! a') (vec_remove a' order)) = mset order" if "a' < length order" for a' b'
  proof -
    have "mset (vec_insert b' x xs) = add_mset x (mset xs)" for x and xs :: "nat list"
      unfolding vec_insert_def
      by (metis append_take_drop_id mset.simps(2) mset_append union_mset_add_mset_right)
    moreover have "add_mset (order ! a') (mset (vec_remove a' order)) = mset order"
      using that unfolding vec_remove_def
      by (metis append_take_drop_id Cons_nth_drop_Suc mset.simps(2) mset_append union_mset_add_mset_right)
    ultimately show ?thesis by simp
  qed
  then have "mset (snd (move_column order a b)) = mset order"
    by (auto simp: move_column_def Let_def)
  with assms show ?thesis unfolding column_order_def
    by (metis mset_eq_imp_distinct_iff mset_eq_setD)
qed

lemma column_order_default: "column_order default_order"
  by (auto simp: column_order_def default_order_def)

text \<open>What the user and the settings file can do to the order.\<close>

inductive column_order_reachable :: "nat list \<Rightarrow> bool" where
  start: "column_order_reachable default_order"
| load: "column_order_reachable (apply_saved ids)"
| move: "column_order_reachable order \<Longrightarrow> column_order_reachable (snd (move_column order a b))"

lemma reachable_column_order: "column_order_reachable order \<Longrightarrow> column_order order"
  by (induction rule: column_order_reachable.induct)
     (simp_all add: column_order_default column_order_apply_saved column_order_move)

lemma ids_distinct: "distinct VALUE_COLUMN_IDS"
  by code_simp

lemma apply_saved_ids:
  assumes "column_order order"
  shows "apply_saved (saved_ids order) = order"
proof -
  have "foldl take_saved acc (saved_ids ls) = acc @ ls"
    if "distinct (acc @ ls)" "set ls \<subseteq> {..<VALUE_COLS}" for acc ls
    using that
  proof (induction ls arbitrary: acc)
    case Nil
    then show ?case by (simp add: saved_ids_def)
  next
    case (Cons l ls)
    then have "position (\<lambda>c. c = VALUE_COLUMN_IDS ! l) VALUE_COLUMN_IDS = Some l"
      by (intro position_nth_distinct ids_distinct) simp
    then have "take_saved acc (VALUE_COLUMN_IDS ! l) = acc @ [l]"
      using Cons.prems(1) by (simp add: take_saved_def push_new_def)
    with Cons.IH [of "acc @ [l]"] Cons.prems show ?case by (simp add: saved_ids_def)
  qed
  from this [of "[]" order] assms
  have "foldl take_saved [] (saved_ids order) = order" by (simp add: column_order_def)
  moreover have "foldl push_new order ls = order" if "set ls \<subseteq> set order" for ls
    using that by (induction ls) (auto simp: push_new_def)
  ultimately show ?thesis
    using assms by (simp add: apply_saved_def take_saved_def [abs_def] column_order_def atLeast0LessThan)
qed

text \<open>
  No dragging and no settings file, old, hand-edited or corrupt, ever loses or doubles a column.
  Every order that can come about is a permutation of the six columns; display slots and logical
  columns translate into each other and back; and the order that is saved is restored exactly.
\<close>

theorem column_order_faithful:
  assumes "column_order_reachable order"
  shows "mset order = mset default_order \<and> apply_saved (saved_ids order) = order \<and>
    (\<forall>logical < FIXED_COLS + VALUE_COLS. logical_col order (display_col order logical) = logical) \<and>
    (\<forall>display < FIXED_COLS + VALUE_COLS. display_col order (logical_col order display) = display)"
proof -
  have ok: "column_order order" by (rule reachable_column_order [OF assms])
  then have dist: "distinct order" and set: "set order = {..<VALUE_COLS}" by (simp_all add: column_order_def)
  have len: "length order = VALUE_COLS" using distinct_card [OF dist] by (simp add: set)
  have "mset order = mset default_order"
    using dist set column_order_default unfolding column_order_def
    by (intro set_eq_iff_mset_eq_distinct [THEN iffD1]) simp_all
  moreover have "logical_col order (display_col order logical) = logical"
    if "logical < FIXED_COLS + VALUE_COLS" for logical
  proof (cases "FIXED_COLS \<le> logical")
    case True
    with that have "logical - FIXED_COLS \<in> set order" by (auto simp: set)
    then have "position (\<lambda>c. c = logical - FIXED_COLS) order \<noteq> None" by (simp add: position_None_iff)
    then obtain i where i: "position (\<lambda>c. c = logical - FIXED_COLS) order = Some i" by blast
    from position_Some [OF i] i True show ?thesis by (simp add: logical_col_def display_col_def)
  qed (simp add: logical_col_def display_col_def)
  moreover have "display_col order (logical_col order display) = display"
    if "display < FIXED_COLS + VALUE_COLS" for display
  proof (cases "FIXED_COLS \<le> display")
    case True
    with that have "display - FIXED_COLS < length order" by (simp add: len)
    with True position_nth_distinct [OF dist this] show ?thesis
      by (simp add: logical_col_def display_col_def)
  qed (simp add: logical_col_def display_col_def)
  ultimately show ?thesis using apply_saved_ids [OF ok] by blast
qed

theorem column_order_faithful_witness:
  "mset (snd (move_column default_order 7 2)) = mset default_order \<and>
   apply_saved (saved_ids (snd (move_column default_order 7 2))) = snd (move_column default_order 7 2) \<and>
   snd (move_column default_order 7 2) = [5, 0, 1, 2, 3, 4]"
proof -
  have "column_order_reachable (snd (move_column default_order 7 2))"
    by (intro column_order_reachable.intros)
  from column_order_faithful [OF this] show ?thesis
    by (simp add: move_column_def FIXED_COLS_def VALUE_COLS_def default_order_def upt_rec
        vec_insert_def vec_remove_def)
qed

end
