(* ===== verification/Process_Groups.thy ===== *)
theory Process_Groups
  imports Process_Entry Tree_Walk Rust_Order
begin

text \<open>
  How the Processes page groups what is running (crates/tm-app/src/tabs/processes.rs): Apps,
  background and Windows processes, the roots of the applications, and who belongs to whom.
  Of hash sets that are walked, the elements come in ascending order here.
\<close>

section \<open>Name rules\<close>

definition HELPER_MARKERS :: "string list" where
  "HELPER_MARKERS = [''helper'', ''renderer'', ''crash'', ''webview'', ''webcore'', ''utility'',
     ''worker'', ''broker'', ''updater'', ''update'', ''service'', ''agent'', ''overlay'', ''daemon'']"

definition looks_like_helper_process :: "string \<Rightarrow> bool" where
  "looks_like_helper_process name =
     (let low = to_ascii_lowercase name in list_ex (\<lambda>marker. contains low marker) HELPER_MARKERS)"

definition CLIENT_LAUNCHERS :: "string list" where
  "CLIENT_LAUNCHERS = [''steam.exe'', ''battle.net.exe'', ''eadesktop.exe'', ''origin.exe'', ''upc.exe'',
     ''ubisoftconnect.exe'', ''galaxyclient.exe'', ''goggalaxy.exe'', ''riotclientservices.exe'',
     ''riotclientux.exe'', ''playnite.desktopapp.exe'', ''playnite.fullscreenapp.exe'',
     ''amazon games.exe'', ''itch.exe'', ''heroic.exe'', ''curseforge.exe'']"

definition is_application_launcher :: "string \<Rightarrow> bool" where
  "is_application_launcher name =
     (ends_with (to_ascii_lowercase name) ''launcher.exe'' \<or>
      list_ex (\<lambda>launcher. eq_ignore_ascii_case name launcher) CLIENT_LAUNCHERS)"

definition launcher_owns_visible_helper :: "string \<Rightarrow> string \<Rightarrow> bool" where
  "launcher_owns_visible_helper launcher kid =
     (if looks_like_helper_process kid then True
      else
        (let kid = to_ascii_lowercase kid; launcher = to_ascii_lowercase launcher in
         starts_with launcher ''riotclient'' \<and> starts_with kid ''riotclient'' \<or>
         (launcher = ''eadesktop.exe'' \<or> launcher = ''origin.exe'') \<and> kid = ''ealocalhostsvc.exe'' \<or>
         (launcher = ''ubisoftconnect.exe'' \<or> launcher = ''upc.exe'') \<and> kid = ''ubisoftwebcore.exe''))"

text \<open>Two known publishers, equal and not empty.\<close>

definition same_publisher :: "process_entry \<Rightarrow> process_entry \<Rightarrow> bool" where
  "same_publisher a b =
     (case (pe_company a, pe_company b) of
        (Some x, Some y) \<Rightarrow> x \<noteq> [] \<and> eq_ignore_ascii_case x y
      | _ \<Rightarrow> False)"

definition plausibly_same_application :: "process_entry \<Rightarrow> process_entry \<Rightarrow> bool" where
  "plausibly_same_application a b =
     (if eq_ignore_ascii_case (pe_name a) (pe_name b) then True
      else if is_application_launcher (pe_name a) then launcher_owns_visible_helper (pe_name a) (pe_name b)
      else if \<not> looks_like_helper_process (pe_name b) then False
      else same_publisher a b)"

definition LAUNCH_BOUNDARIES :: "string list" where
  "LAUNCH_BOUNDARIES = [''explorer.exe'', ''cmd.exe'', ''powershell.exe'', ''pwsh.exe'', ''wsl.exe'',
     ''wt.exe'', ''SearchHost.exe'', ''SearchApp.exe'', ''StartMenuExperienceHost.exe'',
     ''ShellExperienceHost.exe'', ''sihost.exe'', ''RuntimeBroker.exe'', ''dllhost.exe'',
     ''applicationframehost.exe'', ''backgroundtaskhost.exe'', ''textinputhost.exe'',
     ''smartscreen.exe'', ''msedge.exe'', ''chrome.exe'', ''brave.exe'', ''chromium.exe'',
     ''firefox.exe'', ''opera.exe'', ''vivaldi.exe'']"

definition is_launch_boundary :: "string \<Rightarrow> bool" where
  "is_launch_boundary name = list_ex (\<lambda>n. eq_ignore_ascii_case name n) LAUNCH_BOUNDARIES"

definition is_non_owning_shell :: "string \<Rightarrow> bool" where
  "is_non_owning_shell name =
     (eq_ignore_ascii_case name ''explorer.exe'' \<or> eq_ignore_ascii_case name ''explorer'')"

definition is_system_boundary :: "string \<Rightarrow> bool" where
  "is_system_boundary name = is_core_os_image name"

definition PROMOTE_CPU_PCT :: rat where "PROMOTE_CPU_PCT = 1"

definition joins_family :: "process_entry \<Rightarrow> process_entry \<Rightarrow> bool" where
  "joins_family root_proc kid =
     (if eq_ignore_ascii_case (pe_name kid) (pe_name root_proc) then True
      else same_publisher root_proc kid \<and> looks_like_helper_process (pe_name kid) \<and>
        \<not> pe_has_window kid \<and> pe_cpu_pct kid < PROMOTE_CPU_PCT \<and>
        \<not> is_system_boundary (pe_name root_proc) \<and> \<not> is_system_boundary (pe_name kid) \<and>
        \<not> is_launch_boundary (pe_name root_proc))"

section \<open>Climbing to the root of an application\<close>

type_synonym process_map = "(u32, process_entry) btree"

definition processes_by_pid :: "process_entry list \<Rightarrow> process_map" where
  "processes_by_pid all_procs = foldl (\<lambda>m p. bt_insert (pe_pid p) p m) [] all_procs"

lemma unseen_key_less:
  assumes "bt_get m k = Some v" "k \<notin> seen"
  shows "card (fst ` set m - insert k seen) < card (fst ` set m - seen)"
proof (rule psubset_card_mono)
  have "k \<in> fst ` set m" using bt_get_Some_in [OF assms(1)] by force
  with assms(2) show "fst ` set m - insert k seen \<subset> fst ` set m - seen" by auto
qed simp

text \<open>Both upward loops: from a process to its parent as long as the parent is known, has not
  been seen and may be climbed to.\<close>

function climb ::
    "process_map \<Rightarrow> (process_entry \<Rightarrow> process_entry \<Rightarrow> bool) \<Rightarrow> u32 set \<Rightarrow> process_entry \<Rightarrow> process_entry" where
  "climb by_pid may_climb seen cur =
     (case pe_ppid cur of
        None \<Rightarrow> cur
      | Some ppid \<Rightarrow>
          if ppid = pe_pid cur \<or> ppid \<in> seen then cur
          else case bt_get by_pid ppid of
            None \<Rightarrow> cur
          | Some parent \<Rightarrow>
              if may_climb parent cur then climb by_pid may_climb (insert ppid seen) parent else cur)"
  by pat_completeness auto

termination
  by (relation "measure (\<lambda>(by_pid, may_climb, seen, cur). card (fst ` set by_pid - seen))")
     (auto simp: unseen_key_less)

declare climb.simps [simp del]

function external_member ::
    "process_map \<Rightarrow> (u32, proc_category) btree \<Rightarrow> string \<Rightarrow> u32 set \<Rightarrow> process_entry \<Rightarrow> bool" where
  "external_member by_pid categories name seen cur =
     (case pe_ppid cur of
        None \<Rightarrow> True
      | Some ppid \<Rightarrow>
          if ppid = pe_pid cur \<or> ppid \<in> seen then True
          else case bt_get by_pid ppid of
            None \<Rightarrow> True
          | Some parent \<Rightarrow>
              if \<not> is_plausible_parent parent cur then True
              else if bt_get categories (pe_pid parent) \<noteq> Some App then True
              else if eq_ignore_ascii_case (pe_name parent) name then False
              else external_member by_pid categories name (insert ppid seen) parent)"
  by pat_completeness auto

termination
  by (relation "measure (\<lambda>(by_pid, categories, name, seen, cur). card (fst ` set by_pid - seen))")
     (auto simp: unseen_key_less)

declare external_member.simps [simp del]

definition is_external_family_member ::
    "process_entry \<Rightarrow> process_map \<Rightarrow> (u32, proc_category) btree \<Rightarrow> bool" where
  "is_external_family_member p by_pid categories =
     external_member by_pid categories (pe_name p) {pe_pid p} p"

section \<open>Categories and application roots\<close>

record display_groups =
  dg_category :: "(u32, proc_category) btree"
  dg_app_roots :: "u32 set"

definition category_map :: "(process_entry \<Rightarrow> proc_category) \<Rightarrow> process_entry list \<Rightarrow> (u32, proc_category) btree" where
  "category_map f all_procs = foldl (\<lambda>m p. bt_insert (pe_pid p) (f p) m) [] all_procs"

text \<open>Without window ownership the classification of the collector stays.\<close>

definition collector_groups :: "process_entry list \<Rightarrow> display_groups" where
  "collector_groups all_procs =
     (let by_pid = processes_by_pid all_procs;
          roots = pe_pid ` set (filter (\<lambda>p. pe_category p = App \<and> pe_app_root p) all_procs) in
      \<lparr>dg_category = category_map pe_category all_procs,
       dg_app_roots =
         (if roots = {} then
            pe_pid ` set (filter (\<lambda>p. pe_category p = App \<and>
              \<not> is_some_and (Option.bind (option_filter (\<lambda>ppid. ppid \<noteq> pe_pid p) (pe_ppid p)) (bt_get by_pid))
                  (\<lambda>parent. pe_category parent = App)) all_procs)
          else roots)\<rparr>)"

definition initial_category :: "process_entry \<Rightarrow> proc_category" where
  "initial_category p =
     (if pe_category p = System \<or> is_system_boundary (pe_name p) then System else Background)"

definition plausible_ppid :: "process_map \<Rightarrow> process_entry \<Rightarrow> u32 option" where
  "plausible_ppid by_pid p =
     (case pe_ppid p of
        None \<Rightarrow> None
      | Some ppid \<Rightarrow>
          if ppid \<noteq> pe_pid p \<and> is_some_and (bt_get by_pid ppid) (\<lambda>parent. is_plausible_parent parent p)
          then Some ppid else None)"

definition raw_children_of :: "process_entry list \<Rightarrow> (u32, process_entry list) btree" where
  "raw_children_of all_procs = children_by (plausible_ppid (processes_by_pid all_procs)) all_procs"

definition may_fold_into :: "(u32, proc_category) btree \<Rightarrow> process_entry \<Rightarrow> process_entry \<Rightarrow> bool" where
  "may_fold_into categories parent cur =
     (is_plausible_parent parent cur \<and> bt_get categories (pe_pid parent) \<noteq> Some System \<and>
      \<not> is_launch_boundary (pe_name parent) \<and> plausibly_same_application parent cur)"

definition window_roots ::
    "process_entry list \<Rightarrow> process_map \<Rightarrow> (u32, proc_category) btree \<Rightarrow> u32 set" where
  "window_roots all_procs by_pid categories =
     (\<lambda>p. pe_pid (climb by_pid (may_fold_into categories) {pe_pid p} p)) `
       set (filter (\<lambda>p. pe_has_window p \<and> bt_get categories (pe_pid p) \<noteq> Some System) all_procs)"

text \<open>The walk that gives every application its helpers.\<close>

lemma unvisited_step:
  assumes "pid \<notin> seen"
  shows "card (fst ` set children - insert pid seen) < card (fst ` set children - seen) \<or>
    card (fst ` set children - insert pid seen) = card (fst ` set children - seen) \<and> kids_of children pid = []"
  using unvisited_less [OF assms, of children] unvisited_le [of children pid seen]
  by (cases "kids_of children pid = []") auto

function absorb_helpers ::
    "process_map \<Rightarrow> (u32, process_entry list) btree \<Rightarrow> u32 set \<Rightarrow> u32 list \<Rightarrow> u32 set \<Rightarrow>
     (u32, proc_category) btree \<Rightarrow> (u32, proc_category) btree" where
  "absorb_helpers by_pid raw_children app_roots [] seen categories = categories"
| "absorb_helpers by_pid raw_children app_roots (pid # stack) seen categories =
     (if pid \<in> seen then absorb_helpers by_pid raw_children app_roots stack seen categories
      else if bt_get categories pid = Some System then
        absorb_helpers by_pid raw_children app_roots stack (insert pid seen) categories
      else
        (let categories = bt_insert pid App categories in
         case bt_get by_pid pid of
           None \<Rightarrow> absorb_helpers by_pid raw_children app_roots stack (insert pid seen) categories
         | Some proc \<Rightarrow>
             if is_non_owning_shell (pe_name proc)
             then absorb_helpers by_pid raw_children app_roots stack (insert pid seen) categories
             else absorb_helpers by_pid raw_children app_roots
               (rev (map pe_pid (filter (\<lambda>child. \<not> (pe_pid child \<in> app_roots \<or>
                  bt_get categories (pe_pid child) = Some System)) (kids_of raw_children pid))) @ stack)
               (insert pid seen) categories))"
  by pat_completeness auto

termination
proof (relation "measures
    [\<lambda>(by_pid, raw_children, app_roots, stack, seen, categories). card (fst ` set raw_children - seen),
     \<lambda>(by_pid, raw_children, app_roots, stack, seen, categories). length stack]", goal_cases)
  case (3 by_pid raw_children app_roots pid stack seen categories)
  with unvisited_step [of pid seen raw_children] show ?case by auto
next
  case (4 by_pid raw_children app_roots pid stack seen categories x)
  with unvisited_step [of pid seen raw_children] show ?case by auto
next
  case (5 by_pid raw_children app_roots pid stack seen categories x proc)
  with unvisited_step [of pid seen raw_children] show ?case by auto
next
  case (6 by_pid raw_children app_roots pid stack seen categories x proc)
  with unvisited_step [of pid seen raw_children] show ?case by auto
qed auto


declare absorb_helpers.simps(2) [simp del]

text \<open>The walk that lifts busy external tasks out again: without a visited set, each process it
  takes off the stack leaves the category App.\<close>

definition movable_kids ::
    "(u32, process_entry list) btree \<Rightarrow> u32 set \<Rightarrow> (u32, proc_category) btree \<Rightarrow> u32 \<Rightarrow> u32 list" where
  "movable_kids raw_children app_roots categories pid =
     map pe_pid (filter (\<lambda>kid. \<not> pe_has_window kid \<and> bt_get categories (pe_pid kid) = Some App \<and>
       pe_pid kid \<notin> app_roots) (kids_of raw_children pid))"

definition app_pids :: "(u32, proc_category) btree \<Rightarrow> u32 set" where
  "app_pids categories = {pid. bt_get categories pid = Some App}"

lemma finite_app_pids [simp]: "finite (app_pids categories)"
proof (rule finite_subset)
  show "app_pids categories \<subseteq> fst ` set categories"
    by (force simp: app_pids_def dest: bt_get_Some_in)
qed simp

lemma app_pids_background: "app_pids (bt_insert pid Background categories) = app_pids categories - {pid}"
  by (auto simp: app_pids_def bt_get_insert)

definition stack_weight ::
    "(u32, process_entry list) btree \<Rightarrow> u32 set \<Rightarrow> (u32, proc_category) btree \<Rightarrow> u32 \<Rightarrow> nat" where
  "stack_weight raw_children app_roots categories pid =
     (if pid \<in> app_pids categories then 1
      else Suc (length (movable_kids raw_children app_roots categories pid)))"

lemma move_step:
  fixes categories :: "(u32, proc_category) btree"
  assumes "pid \<notin> app_pids categories"
  defines "c \<equiv> bt_insert pid Background categories"
  shows "sum_list (map (stack_weight raw_children app_roots c)
      (rev (movable_kids raw_children app_roots c pid) @ stack)) <
    sum_list (map (stack_weight raw_children app_roots categories) (pid # stack))"
proof -
  have same: "app_pids c = app_pids categories"
    using assms(1) by (simp add: c_def app_pids_background)
  then have "bt_get c k = Some App \<longleftrightarrow> bt_get categories k = Some App" for k
    by (auto simp: app_pids_def)
  then have kids: "movable_kids raw_children app_roots c = movable_kids raw_children app_roots categories"
    by (simp add: movable_kids_def fun_eq_iff)
  then have weight: "stack_weight raw_children app_roots c = stack_weight raw_children app_roots categories"
    by (simp add: stack_weight_def fun_eq_iff same)
  have one: "\<forall>k\<in>set ks. f k = 1 \<Longrightarrow> sum_list (map f ks) = length ks" for f :: "u32 \<Rightarrow> nat" and ks
    by (induction ks) simp_all
  have "sum_list (map (stack_weight raw_children app_roots categories)
      (rev (movable_kids raw_children app_roots categories pid))) =
      length (rev (movable_kids raw_children app_roots categories pid))"
    by (rule one) (auto simp: stack_weight_def movable_kids_def app_pids_def)
  with assms(1) show ?thesis by (simp add: kids weight) (simp add: stack_weight_def)
qed

function move_to_background ::
    "(u32, process_entry list) btree \<Rightarrow> u32 set \<Rightarrow> u32 list \<Rightarrow> (u32, proc_category) btree \<Rightarrow>
     (u32, proc_category) btree" where
  "move_to_background raw_children app_roots [] categories = categories"
| "move_to_background raw_children app_roots (pid # stack) categories =
     (let categories = bt_insert pid Background categories in
      move_to_background raw_children app_roots
        (rev (movable_kids raw_children app_roots categories pid) @ stack) categories)"
  by pat_completeness auto

termination
proof (relation "measures [\<lambda>(raw_children, app_roots, stack, categories). card (app_pids categories),
    \<lambda>(raw_children, app_roots, stack, categories).
      sum_list (map (stack_weight raw_children app_roots categories) stack)]", goal_cases)
  case (2 raw_children app_roots pid stack categories x)
  show ?case
  proof (cases "pid \<in> app_pids categories")
    case True
    then have "card (app_pids x) < card (app_pids categories)"
      using card_Diff1_less [OF finite_app_pids True] by (simp only: 2 app_pids_background if_True)
    then show ?thesis by (simp only: in_measures prod.case less_eq_Suc_le simp_thms)
  next
    case False
    then have "app_pids x = app_pids categories" by (simp add: 2 app_pids_background)
    with move_step [OF False, of raw_children app_roots stack] show ?thesis by (simp add: 2)
  qed
qed simp

declare move_to_background.simps(2) [simp del]

definition promote_busy_external_tasks ::
    "process_entry list \<Rightarrow> process_map \<Rightarrow> (u32, process_entry list) btree \<Rightarrow>
     (u32, proc_category) btree \<Rightarrow> u32 set \<Rightarrow> (u32, proc_category) btree" where
  "promote_busy_external_tasks all_procs by_pid raw_children categories app_roots =
     (let busy_external = map pe_pid (filter (\<lambda>p.
        \<not> pe_has_window p \<and> PROMOTE_CPU_PCT \<le> pe_cpu_pct p \<and>
        bt_get categories (pe_pid p) = Some App \<and> pe_pid p \<notin> app_roots \<and>
        is_external_family_member p by_pid categories) all_procs)
      in move_to_background raw_children app_roots (rev busy_external) categories)"

definition derive_display_groups :: "process_entry list \<Rightarrow> display_groups" where
  "derive_display_groups all_procs =
     (if \<not> list_ex pe_has_window all_procs then collector_groups all_procs
      else
        (let by_pid = processes_by_pid all_procs;
             categories = category_map initial_category all_procs;
             raw_children = raw_children_of all_procs;
             app_roots = window_roots all_procs by_pid categories;
             categories = absorb_helpers by_pid raw_children app_roots
               (rev (sorted_list_of_set app_roots)) {} categories
         in \<lparr>dg_category = promote_busy_external_tasks all_procs by_pid raw_children categories app_roots,
             dg_app_roots = app_roots\<rparr>))"

end
