(* ===== verification/Process_Rows.thy ===== *)
theory Process_Rows
  imports Process_Groups Value_Columns Selection List_Nav
begin

text \<open>
  The rows of the Processes page (crates/tm-app/src/tabs/processes.rs): children and roots of
  every section, the families that fold into one row, the order of the rows, what a row shows,
  and which processes a row stands for. Translated texts come as an argument; floating-point
  values are rationals.
\<close>

section \<open>Names and texts\<close>

record ui_texts =
  tx_service_host :: string
  tx_terminated :: "string \<Rightarrow> string"

definition service_host_label :: "process_entry \<Rightarrow> string option" where
  "service_host_label p =
     (if \<not> eq_ignore_ascii_case (pe_name p) ''svchost.exe'' then None
      else case pe_service_name p of
        None \<Rightarrow> None
      | Some full \<Rightarrow>
          (case filter (\<lambda>part. part \<noteq> []) (map trim (split_on CHR '','' (trim full))) of
             [] \<Rightarrow> None
           | part # rest \<Rightarrow>
               Some (if 0 < length rest then part @ '' (+'' @ show_nat (length rest) @ '')'' else part)))"

definition process_display_name :: "ui_texts \<Rightarrow> process_entry \<Rightarrow> string" where
  "process_display_name tx p =
     (case service_host_label p of
        Some host \<Rightarrow> tx_service_host tx @ '': '' @ host
      | None \<Rightarrow>
          if eq_ignore_ascii_case (shown_name_of p) (pe_name p) then pe_name p
          else shown_name_of p @ '' ('' @ pe_name p @ '')'')"

definition family_label :: "ui_texts \<Rightarrow> process_entry \<Rightarrow> process_entry list \<Rightarrow> string" where
  "family_label tx head members =
     (if list_all (\<lambda>m. eq_ignore_ascii_case (pe_name m) ''svchost.exe'') members
      then tx_service_host tx else process_display_name tx head)"

definition family_tooltip :: "process_entry list \<Rightarrow> string option" where
  "family_tooltip members =
     (let names = List.map_filter pe_service_name members
      in if names = [] then None else Some (join [CHR 0x0A] names))"

definition process_command_line :: "process_entry \<Rightarrow> string option" where
  "process_command_line p =
     (if pe_synthetic p then None
      else option_or (option_or (option_filter (\<lambda>v. v \<noteq> []) (map_option trim (pe_command_line p)))
        (pe_exe_path p)) (Some (pe_name p)))"

definition synthetic_tooltip :: "ui_texts \<Rightarrow> process_entry \<Rightarrow> string option" where
  "synthetic_tooltip tx p =
     (if \<not> pe_synthetic p then None
      else map_option (tx_terminated tx) (option_filter (\<lambda>d. d \<noteq> []) (pe_description p)))"

section \<open>Values\<close>

definition own_values :: "process_entry \<Rightarrow> rat list" where
  "own_values p =
     [pe_cpu_pct p, of_int (uint (pe_mem_bytes p)), pe_disk_read_bps p + pe_disk_write_bps p,
      unwrap_or (pe_net_recv_bps p) 0 + unwrap_or (pe_net_sent_bps p) 0,
      unwrap_or (pe_disk_active_pct p) 0, unwrap_or (pe_gpu_util_pct p) 0]"

definition net_known :: "process_entry \<Rightarrow> bool" where
  "net_known p \<longleftrightarrow> pe_net_recv_bps p \<noteq> None \<or> pe_net_sent_bps p \<noteq> None"

definition disk_known :: "process_entry \<Rightarrow> bool" where
  "disk_known p \<longleftrightarrow> pe_disk_active_pct p \<noteq> None"

definition gpu_known :: "process_entry \<Rightarrow> bool" where
  "gpu_known p \<longleftrightarrow> pe_gpu_util_pct p \<noteq> None"

definition add_values :: "rat list \<Rightarrow> rat list \<Rightarrow> rat list" where
  "add_values acc values = map2 (+) acc values"

definition family_values :: "process_entry list \<Rightarrow> rat list" where
  "family_values members =
     (let acc = foldl (\<lambda>acc m. add_values acc (own_values m)) (replicate VALUE_COLS 0) members;
          disk = foldl (\<lambda>d m. disk_add m d) busiest_default members;
          gpu = foldl (\<lambda>g m. gpu_add m g) busiest_default members
      in (acc[DISK_ACT_VALUE := unwrap_or (busiest_pct disk) 0])
           [GPU_VALUE := unwrap_or (busiest_pct gpu) 0])"

section \<open>Rows\<close>

record row_data =
  rd_pid :: u32
  rd_start_epoch_s :: "int option"
  rd_depth :: nat
  rd_name :: string
  rd_icon_path :: "string option"
  rd_children :: bool
  rd_aggregate :: bool
  rd_termination_targets :: "process_identity list"
  rd_values :: "rat list"
  rd_heat :: "rat list"
  rd_net_available :: bool
  rd_disk_available :: bool
  rd_gpu_available :: bool
  rd_status :: proc_status
  rd_power_throttled :: bool
  rd_synthetic :: bool
  rd_command_line :: "string option"
  rd_tooltip :: "string option"

datatype display_row = GroupHeader nat nat | ProcessRow row_data

definition process_identity_of :: "process_entry \<Rightarrow> process_identity" where
  "process_identity_of p = \<lparr>pi_pid = pe_pid p, pi_start_epoch_s = pe_start_epoch_s p\<rparr>"

definition identity_of :: "row_data \<Rightarrow> process_identity" where
  "identity_of row = \<lparr>pi_pid = rd_pid row, pi_start_epoch_s = rd_start_epoch_s row\<rparr>"

definition make_own_row :: "ui_texts \<Rightarrow> process_entry \<Rightarrow> nat \<Rightarrow> display_row" where
  "make_own_row tx p depth = ProcessRow \<lparr>rd_pid = pe_pid p, rd_start_epoch_s = pe_start_epoch_s p,
     rd_depth = depth, rd_name = process_display_name tx p, rd_icon_path = pe_exe_path p,
     rd_children = False, rd_aggregate = False, rd_termination_targets = [process_identity_of p],
     rd_values = own_values p, rd_heat = replicate VALUE_COLS 0, rd_net_available = net_known p,
     rd_disk_available = disk_known p, rd_gpu_available = gpu_known p, rd_status = pe_status p,
     rd_power_throttled = (pe_power_throttled p = Some True), rd_synthetic = pe_synthetic p,
     rd_command_line = process_command_line p, rd_tooltip = synthetic_tooltip tx p\<rparr>"

definition make_flat_row :: "ui_texts \<Rightarrow> process_entry \<Rightarrow> display_row" where
  "make_flat_row tx p = ProcessRow \<lparr>rd_pid = pe_pid p, rd_start_epoch_s = pe_start_epoch_s p,
     rd_depth = 0, rd_name = process_display_name tx p, rd_icon_path = pe_exe_path p,
     rd_children = False, rd_aggregate = False, rd_termination_targets = [process_identity_of p],
     rd_values = own_values p, rd_heat = replicate VALUE_COLS 0, rd_net_available = net_known p,
     rd_disk_available = disk_known p, rd_gpu_available = gpu_known p, rd_status = pe_status p,
     rd_power_throttled = (pe_power_throttled p = Some True), rd_synthetic = pe_synthetic p,
     rd_command_line = process_command_line p, rd_tooltip = synthetic_tooltip tx p\<rparr>"

definition value_known :: "row_data \<Rightarrow> nat \<Rightarrow> bool" where
  "value_known d i =
     (if i = NET_VALUE then rd_net_available d
      else if i = DISK_ACT_VALUE then rd_disk_available d
      else if i = GPU_VALUE then rd_gpu_available d
      else True)"

definition norm :: "rat \<Rightarrow> rat \<Rightarrow> rat" where
  "norm value most = (if most \<le> 0 then 0 else max 0 (min 1 (value / most)))"

definition raise_max :: "row_data \<Rightarrow> rat list \<Rightarrow> rat list" where
  "raise_max d most =
     map (\<lambda>(i, v). if value_known d i then max (most ! i) v else most ! i) (enumerate 0 (rd_values d))"

fun max_values :: "display_row list \<Rightarrow> rat list \<Rightarrow> rat list" where
  "max_values [] most = most"
| "max_values (GroupHeader g n # rows) most = max_values rows most"
| "max_values (ProcessRow d # rows) most = max_values rows (raise_max d most)"

fun set_heat :: "rat list \<Rightarrow> display_row \<Rightarrow> display_row" where
  "set_heat most (GroupHeader g n) = GroupHeader g n"
| "set_heat most (ProcessRow d) = ProcessRow (d\<lparr>rd_heat :=
     map (\<lambda>i. if value_known d i then norm (rd_values d ! i) (most ! i) else 0) [0..<VALUE_COLS]\<rparr>)"

definition normalize_heat :: "display_row list \<Rightarrow> display_row list" where
  "normalize_heat rows = map (set_heat (max_values rows (replicate VALUE_COLS 0))) rows"

section \<open>Order\<close>

definition process_status_rank :: "process_entry \<Rightarrow> nat \<times> bool" where
  "process_status_rank p =
     (case pe_status p of Running \<Rightarrow> 0 | Suspended \<Rightarrow> 1 | NotResponding \<Rightarrow> 2,
      pe_power_throttled p = Some True)"

definition cmp_status_rank :: "nat \<times> bool \<Rightarrow> nat \<times> bool \<Rightarrow> ordering" where
  "cmp_status_rank a b = then_with (cmp (fst a) (fst b)) (cmp (snd a) (snd b))"

type_synonym value_map = "(u32, rat list) btree"

definition shown_value :: "value_map \<Rightarrow> process_entry \<Rightarrow> nat \<Rightarrow> rat" where
  "shown_value vals p i = (case bt_get vals (pe_pid p) of None \<Rightarrow> 0 | Some s \<Rightarrow> s ! i)"

definition entry_order :: "nat \<Rightarrow> bool \<Rightarrow> value_map \<Rightarrow> process_entry \<Rightarrow> process_entry \<Rightarrow> ordering" where
  "entry_order col asc vals a b =
     then_with
       (directed
         (if FIXED_COLS \<le> col \<and> col - FIXED_COLS < VALUE_COLS
          then cmp (shown_value vals a (col - FIXED_COLS)) (shown_value vals b (col - FIXED_COLS))
          else if col = 1 then cmp_status_rank (process_status_rank a) (process_status_rank b)
          else cmp_ignore_case (shown_name_of a) (shown_name_of b)) asc)
       (cmp (pe_pid a) (pe_pid b))"

definition sort_entries :: "nat \<Rightarrow> bool \<Rightarrow> value_map \<Rightarrow> process_entry list \<Rightarrow> process_entry list" where
  "sort_entries col asc vals v = sort_by (entry_order col asc vals) v"

definition values_by_pid :: "process_entry list \<Rightarrow> value_map" where
  "values_by_pid ps = foldl (\<lambda>m p. bt_insert (pe_pid p) (own_values p) m) [] ps"

section \<open>Children and roots\<close>

definition display_parent ::
    "process_entry list \<Rightarrow> (u32, proc_category) btree \<Rightarrow> u32 set \<Rightarrow> process_entry \<Rightarrow> u32 option" where
  "display_parent ps category app_roots p =
     (let child_cat = unwrap_or (bt_get category (pe_pid p)) (pe_category p) in
      if child_cat = App \<and> pe_pid p \<in> app_roots then None
      else case pe_ppid p of
        None \<Rightarrow> None
      | Some ppid \<Rightarrow>
          if ppid \<noteq> pe_pid p \<and> ppid \<in> pe_pid ` set ps \<and> bt_get category ppid = Some child_cat
          then Some ppid else None)"

definition display_children_map ::
    "process_entry list \<Rightarrow> (u32, proc_category) btree \<Rightarrow> u32 set \<Rightarrow> (u32, process_entry list) btree" where
  "display_children_map ps category app_roots = children_by (display_parent ps category app_roots) ps"

definition tree_roots ::
    "process_entry list \<Rightarrow> (u32, process_entry list) btree \<Rightarrow> process_entry list" where
  "tree_roots members children =
     (let roots = filter (\<lambda>p. pe_pid p \<notin> linked_keys pe_pid children) members;
          covered = mark_below pe_pid children (rev (map pe_pid roots)) {}
      in roots @ uncovered_roots pe_pid children members covered)"

definition tree_group_members ::
    "process_entry \<Rightarrow> (u32, process_entry list) btree \<Rightarrow> process_entry list" where
  "tree_group_members root_proc children = collect_below pe_pid children [root_proc] {}"

text \<open>The connected family of a process: the walk does not go below a process that does not join.\<close>

fun take_kids ::
    "process_entry \<Rightarrow> process_entry list \<Rightarrow> u32 set \<Rightarrow> process_entry list \<times> u32 set" where
  "take_kids head [] seen = ([], seen)"
| "take_kids head (kid # kids) seen =
     (let (joined, seen') = take_kids head kids (insert (pe_pid kid) seen) in
      if pe_pid kid \<in> seen \<or> \<not> joins_family head kid then (joined, seen') else (kid # joined, seen'))"

lemma take_kids_seen [simp]: "snd (take_kids head kids seen) = seen \<union> pe_pid ` set kids"
  by (induction head kids seen rule: take_kids.induct) (auto simp: Let_def split: prod.split)

lemma take_kids_joined: "set (fst (take_kids head kids seen)) \<subseteq> {k \<in> set kids. joins_family head k \<and> pe_pid k \<notin> seen}"
  by (induction head kids seen rule: take_kids.induct) (auto simp: Let_def split: prod.splits if_splits)

lemma take_kids_distinct: "distinct (map pe_pid (fst (take_kids head kids seen)))"
proof (induction head kids seen rule: take_kids.induct)
  case (2 head kid kids seen)
  have "pe_pid kid \<notin> pe_pid ` set (fst (take_kids head kids (insert (pe_pid kid) seen)))"
    using take_kids_joined [of head kids "insert (pe_pid kid) seen"] by auto
  with 2 show ?case by (auto simp: Let_def split: prod.splits)
qed simp

lemma unseen_kids_less:
  assumes "k \<in> set (fst (take_kids head (kids_of children p) seen))"
  shows "card (pe_pid ` set (concat (map snd children)) - snd (take_kids head (kids_of children p) seen)) <
    card (pe_pid ` set (concat (map snd children)) - seen)"
proof (rule psubset_card_mono)
  from assms take_kids_joined have k: "k \<in> set (kids_of children p)" "pe_pid k \<notin> seen" by blast+
  then obtain v where "(p, v) \<in> set children" "k \<in> set v"
    by (cases "bt_get children p") (auto simp: kids_of_def dest: bt_get_Some_in)
  with k show "pe_pid ` set (concat (map snd children)) - snd (take_kids head (kids_of children p) seen) \<subset>
      pe_pid ` set (concat (map snd children)) - seen" by (auto simp: image_UN) force
qed simp

function family_walk ::
    "process_entry \<Rightarrow> (u32, process_entry list) btree \<Rightarrow> process_entry list \<Rightarrow> u32 set \<Rightarrow>
     process_entry list" where
  "family_walk head children [] seen = []"
| "family_walk head children (cur # stack) seen =
     (let (joined, seen) = take_kids head (kids_of children (pe_pid cur)) seen
      in joined @ family_walk head children (rev joined @ stack) seen)"
  by pat_completeness auto

termination
proof (relation "measures
    [\<lambda>(head, children, stack, seen). card (pe_pid ` set (concat (map snd children)) - seen),
     \<lambda>(head, children, stack, seen). length stack]", goal_cases)
  case (2 head children cur stack seen x joined seen')
  let ?t = "take_kids head (kids_of children (pe_pid cur)) seen"
  have j: "joined = fst ?t" "seen' = snd ?t" using 2 by (metis fst_conv snd_conv)+
  show ?case
  proof (cases "joined = []")
    case False
    then have "hd joined \<in> set (fst ?t)" unfolding j(1) [symmetric] by simp
    from unseen_kids_less [OF this] show ?thesis by (simp add: j(2))
  next
    case True
    have "card (pe_pid ` set (concat (map snd children)) - seen') \<le>
        card (pe_pid ` set (concat (map snd children)) - seen)"
      by (rule card_mono) (auto simp: j(2))
    with True show ?thesis by (simp add: le_less)
  qed
qed simp

declare family_walk.simps(2) [simp del]

definition application_family ::
    "process_entry \<Rightarrow> (u32, process_entry list) btree \<Rightarrow> process_entry list" where
  "application_family p children = p # family_walk p children [p] {pe_pid p}"

definition sibling_run_key :: "process_entry \<Rightarrow> (u32 \<times> string) option" where
  "sibling_run_key p =
     (let groupable_service_host = eq_ignore_ascii_case (pe_name p) ''svchost.exe'' in
      if is_system_boundary (pe_name p) \<and> \<not> groupable_service_host \<or> pe_has_window p then None
      else map_option (\<lambda>ppid. (ppid, to_lowercase (pe_name p)))
        (option_filter (\<lambda>ppid. ppid \<noteq> pe_pid p) (pe_ppid p)))"

section \<open>Flat sections\<close>

type_synonym family_map = "(u32, process_entry list) btree"

text \<open>Both loops that look for groups: the connected families, then the runs of siblings.\<close>

definition claim_family ::
    "(u32, process_entry list) btree \<Rightarrow> process_entry \<Rightarrow> family_map \<times> u32 set \<Rightarrow> family_map \<times> u32 set" where
  "claim_family children p state =
     (let (family_heads, swallowed) = state in
      if pe_pid p \<in> swallowed then (family_heads, swallowed)
      else
        (let fam = application_family p children in
         if 1 < length fam
         then (bt_insert (pe_pid p) fam family_heads, swallowed \<union> pe_pid ` set (tl fam))
         else (family_heads, swallowed)))"

definition claim_families ::
    "process_entry list \<Rightarrow> (u32, process_entry list) btree \<Rightarrow> family_map \<times> u32 set" where
  "claim_families members children = fold (claim_family children) members ([], {})"

fun push_run ::
    "u32 \<times> string \<Rightarrow> process_entry \<Rightarrow> ((u32 \<times> string) \<times> process_entry list) list \<Rightarrow>
     ((u32 \<times> string) \<times> process_entry list) list" where
  "push_run key p [] = [(key, [p])]"
| "push_run key p ((k, run) # runs) =
     (if k = key then (k, run @ [p]) # runs else (k, run) # push_run key p runs)"

definition sibling_runs ::
    "process_entry list \<Rightarrow> family_map \<Rightarrow> u32 set \<Rightarrow> ((u32 \<times> string) \<times> process_entry list) list" where
  "sibling_runs members family_heads swallowed =
     foldl (\<lambda>runs p.
        if pe_pid p \<in> swallowed \<or> bt_get family_heads (pe_pid p) \<noteq> None then runs
        else case sibling_run_key p of None \<Rightarrow> runs | Some key \<Rightarrow> push_run key p runs) [] members"

definition claim_run :: "process_entry list \<Rightarrow> family_map \<times> u32 set \<Rightarrow> family_map \<times> u32 set" where
  "claim_run run state =
     (let (family_heads, swallowed) = state in
      if length run < 2 then (family_heads, swallowed)
      else
        (let run = sort_by (\<lambda>a b. cmp (pe_pid a) (pe_pid b)) run
         in (bt_insert (pe_pid (hd run)) run family_heads, swallowed \<union> pe_pid ` set (tl run))))"

definition flat_groups ::
    "process_entry list \<Rightarrow> (u32, process_entry list) btree \<Rightarrow> family_map \<times> u32 set" where
  "flat_groups members children =
     (let (family_heads, swallowed) = claim_families members children
      in fold claim_run (map snd (sibling_runs members family_heads swallowed)) (family_heads, swallowed))"

definition group_status :: "process_entry list \<Rightarrow> proc_status \<Rightarrow> proc_status" where
  "group_status fam own =
     (if list_ex (\<lambda>m. pe_status m = NotResponding) fam then NotResponding
      else if list_ex (\<lambda>m. pe_status m = Suspended) fam then Suspended
      else own)"

definition targets_of :: "process_entry list \<Rightarrow> process_identity list" where
  "targets_of members = map process_identity_of (filter (\<lambda>m. \<not> pe_synthetic m) members)"

definition family_row :: "ui_texts \<Rightarrow> value_map \<Rightarrow> process_entry \<Rightarrow> process_entry list \<Rightarrow> display_row" where
  "family_row tx repr p fam = ProcessRow \<lparr>rd_pid = pe_pid p, rd_start_epoch_s = pe_start_epoch_s p,
     rd_depth = 0, rd_name = family_label tx p fam @ '' ['' @ show_nat (length fam) @ '']'',
     rd_icon_path = pe_exe_path p, rd_children = True, rd_aggregate = True,
     rd_termination_targets = targets_of fam,
     rd_values = unwrap_or (bt_get repr (pe_pid p)) (replicate VALUE_COLS 0),
     rd_heat = replicate VALUE_COLS 0, rd_net_available = list_ex net_known fam,
     rd_disk_available = list_ex disk_known fam, rd_gpu_available = list_ex gpu_known fam,
     rd_status = group_status fam (pe_status p),
     rd_power_throttled = list_ex (\<lambda>m. pe_power_throttled m = Some True) fam,
     rd_synthetic = False, rd_command_line = None, rd_tooltip = family_tooltip fam\<rparr>"

definition flat_values ::
    "process_entry list \<Rightarrow> family_map \<Rightarrow> u32 set \<Rightarrow> value_map" where
  "flat_values members family_heads swallowed =
     foldl (\<lambda>repr p. case bt_get family_heads (pe_pid p) of
         Some fam \<Rightarrow> bt_insert (pe_pid p) (family_values fam) repr
       | None \<Rightarrow> if pe_pid p \<in> swallowed then repr else bt_insert (pe_pid p) (own_values p) repr) [] members"

definition emit_flat_with_family_groups ::
    "ui_texts \<Rightarrow> process_entry list \<Rightarrow> (u32, process_entry list) btree \<Rightarrow> nat \<Rightarrow> bool \<Rightarrow> u32 set \<Rightarrow>
     display_row list" where
  "emit_flat_with_family_groups tx members children sort_col ascending expanded =
     (let (family_heads, swallowed) = flat_groups members children;
          repr = flat_values members family_heads swallowed;
          display = sort_entries sort_col ascending repr (filter (\<lambda>p. pe_pid p \<notin> swallowed) members)
      in concat (map (\<lambda>p.
        case bt_get family_heads (pe_pid p) of
          None \<Rightarrow> [make_own_row tx p 0]
        | Some fam \<Rightarrow>
            family_row tx repr p fam #
            (if pe_pid p \<in> expanded then
               make_own_row tx p 1 #
               (let others = filter (\<lambda>m. pe_pid m \<noteq> pe_pid p) fam
                in map (\<lambda>m. make_own_row tx m 1) (sort_entries sort_col ascending (values_by_pid others) others))
             else [])) display))"

section \<open>What a process and everything below it are doing\<close>

datatype rollup_frame = Enter u32 | Combine u32 "process_entry list" bool proc_status

record rollup =
  ru_eco :: "(u32, bool) btree"
  ru_statuses :: "(u32, proc_status) btree"
  ru_finished :: "u32 set"
  ru_in_progress :: "u32 set"

definition worse_status :: "proc_status \<Rightarrow> proc_status \<Rightarrow> proc_status" where
  "worse_status status child =
     (if child = NotResponding then NotResponding
      else if child = Suspended \<and> status \<noteq> NotResponding then Suspended
      else status)"

definition combine_kid :: "rollup \<Rightarrow> process_entry \<Rightarrow> bool \<times> proc_status \<Rightarrow> bool \<times> proc_status" where
  "combine_kid st k acc =
     (let (throttled, status) = acc in
      if pe_pid k \<in> ru_finished st
      then (throttled \<or> unwrap_or (bt_get (ru_eco st) (pe_pid k)) False,
        case bt_get (ru_statuses st) (pe_pid k) of None \<Rightarrow> status | Some child \<Rightarrow> worse_status status child)
      else (throttled, status))"

definition finish :: "u32 \<Rightarrow> bool \<Rightarrow> proc_status \<Rightarrow> rollup \<Rightarrow> rollup" where
  "finish pid throttled status st =
     st\<lparr>ru_eco := bt_insert pid throttled (ru_eco st), ru_statuses := bt_insert pid status (ru_statuses st),
        ru_finished := insert pid (ru_finished st), ru_in_progress := ru_in_progress st - {pid}\<rparr>"

lemma finish_simps [simp]:
  "ru_finished (finish pid throttled status st) = insert pid (ru_finished st)"
  "ru_in_progress (finish pid throttled status st) = ru_in_progress st - {pid}"
  "ru_eco (finish pid throttled status st) = bt_insert pid throttled (ru_eco st)"
  "ru_statuses (finish pid throttled status st) = bt_insert pid status (ru_statuses st)"
  by (simp_all add: finish_def)

definition untouched :: "process_map \<Rightarrow> rollup \<Rightarrow> nat" where
  "untouched by_pid st = card (fst ` set by_pid - (ru_finished st \<union> ru_in_progress st))"

lemma untouched_finish: "untouched by_pid (finish pid throttled status st) \<le> untouched by_pid st"
  unfolding untouched_def by (rule card_mono) auto

lemma untouched_enter:
  assumes "bt_get by_pid pid = Some p" "pid \<notin> ru_finished st" "pid \<notin> ru_in_progress st"
  shows "untouched by_pid (st\<lparr>ru_in_progress := insert pid (ru_in_progress st)\<rparr>) < untouched by_pid st"
  unfolding untouched_def
proof (rule psubset_card_mono)
  have "pid \<in> fst ` set by_pid" using bt_get_Some_in [OF assms(1)] by force
  with assms(2,3) show "fst ` set by_pid -
      (ru_finished (st\<lparr>ru_in_progress := insert pid (ru_in_progress st)\<rparr>) \<union>
       ru_in_progress (st\<lparr>ru_in_progress := insert pid (ru_in_progress st)\<rparr>)) \<subset>
    fst ` set by_pid - (ru_finished st \<union> ru_in_progress st)" by auto
qed simp

function rollup_walk ::
    "process_map \<Rightarrow> (u32, process_entry list) btree \<Rightarrow> rollup_frame list \<Rightarrow> rollup \<Rightarrow> rollup" where
  "rollup_walk by_pid children [] st = st"
| "rollup_walk by_pid children (Combine pid kids throttled status # stack) st =
     (let (throttled, status) = fold (combine_kid st) kids (throttled, status)
      in rollup_walk by_pid children stack (finish pid throttled status st))"
| "rollup_walk by_pid children (Enter pid # stack) st =
     (if pid \<in> ru_finished st \<or> pid \<in> ru_in_progress st then rollup_walk by_pid children stack st
      else case bt_get by_pid pid of
        None \<Rightarrow> rollup_walk by_pid children stack st
      | Some p \<Rightarrow>
          (let kids = kids_of children pid; st = st\<lparr>ru_in_progress := insert pid (ru_in_progress st)\<rparr>;
               pending = filter (\<lambda>k. pe_pid k \<notin> ru_finished st \<and> pe_pid k \<notin> ru_in_progress st \<and>
                 bt_get by_pid (pe_pid k) \<noteq> None) kids;
               throttled = (pe_power_throttled p = Some True)
           in if kids = [] then rollup_walk by_pid children stack (finish pid throttled (pe_status p) st)
              else rollup_walk by_pid children
                (rev (map (\<lambda>k. Enter (pe_pid k)) pending) @ Combine pid kids throttled (pe_status p) # stack) st))"
  by pat_completeness auto

termination
proof (relation "measures [\<lambda>(by_pid, children, stack, st). untouched by_pid st,
    \<lambda>(by_pid, children, stack, st). length stack]", goal_cases)
  case (2 by_pid children pid kids throttled status stack st x x1 x2)
  show ?case using untouched_finish [of by_pid pid x1 x2 st] by (simp add: le_less)
next
  case (5 by_pid children pid stack st p kids st' pending throttled)
  with untouched_enter [of by_pid pid p st] untouched_finish [of by_pid pid throttled "pe_status p" st']
  show ?case by simp
next
  case (6 by_pid children pid stack st p kids st' pending throttled)
  with untouched_enter [of by_pid pid p st] show ?case by simp
qed auto

declare rollup_walk.simps [simp del]

definition rollup_root ::
    "process_map \<Rightarrow> (u32, process_entry list) btree \<Rightarrow> process_entry \<Rightarrow> rollup \<Rightarrow> rollup" where
  "rollup_root by_pid children root_proc st =
     (if pe_pid root_proc \<in> ru_finished st then st
      else rollup_walk by_pid children [Enter (pe_pid root_proc)] st)"

definition default_rollup :: "process_entry \<Rightarrow> rollup \<Rightarrow> rollup" where
  "default_rollup p st = st\<lparr>ru_eco := bt_or_insert (pe_pid p) (pe_power_throttled p = Some True) (ru_eco st),
     ru_statuses := bt_or_insert (pe_pid p) (pe_status p) (ru_statuses st)\<rparr>"

definition subtree_rollups :: "process_entry list \<Rightarrow> (u32, process_entry list) btree \<Rightarrow> rollup" where
  "subtree_rollups all_procs children =
     fold default_rollup all_procs
       (fold (rollup_root (processes_by_pid all_procs) children) all_procs
         \<lparr>ru_eco = [], ru_statuses = [], ru_finished = {}, ru_in_progress = {}\<rparr>)"

definition subtree_efficiency :: "rollup \<Rightarrow> u32 \<Rightarrow> bool" where
  "subtree_efficiency st pid = unwrap_or (bt_get (ru_eco st) pid) False"

definition subtree_status :: "rollup \<Rightarrow> u32 \<Rightarrow> proc_status" where
  "subtree_status st pid = unwrap_or (bt_get (ru_statuses st) pid) Running"

section \<open>Application groups\<close>

text \<open>The members of an expanded application, nested, siblings in the order of the table.\<close>

definition arranged_kids ::
    "(u32, process_entry list) btree \<Rightarrow> u32 set \<Rightarrow> nat \<Rightarrow> bool \<Rightarrow> value_map \<Rightarrow> u32 \<Rightarrow> process_entry list" where
  "arranged_kids children member_pids sort_col ascending own pid =
     sort_entries sort_col ascending own (filter (\<lambda>k. pe_pid k \<in> member_pids) (kids_of children pid))"

function expand_walk ::
    "ui_texts \<Rightarrow> (u32, process_entry list) btree \<Rightarrow> u32 set \<Rightarrow> nat \<Rightarrow> bool \<Rightarrow> value_map \<Rightarrow>
     (process_entry \<times> nat) list \<Rightarrow> u32 set \<Rightarrow> display_row list" where
  "expand_walk tx children member_pids sort_col ascending own [] seen = []"
| "expand_walk tx children member_pids sort_col ascending own ((p, depth) # stack) seen =
     (if pe_pid p \<in> seen then expand_walk tx children member_pids sort_col ascending own stack seen
      else make_own_row tx p depth #
        expand_walk tx children member_pids sort_col ascending own
          (map (\<lambda>k. (k, depth + 1)) (arranged_kids children member_pids sort_col ascending own (pe_pid p)) @ stack)
          (insert (pe_pid p) seen))"
  by pat_completeness auto

termination
proof (relation "measures
    [\<lambda>(tx, children, member_pids, sort_col, ascending, own, stack, seen). card (fst ` set children - seen),
     \<lambda>(tx, children, member_pids, sort_col, ascending, own, stack, seen). length stack]", goal_cases)
  case (3 tx children member_pids sort_col ascending own p depth stack seen)
  then show ?case
    using unvisited_step [of "pe_pid p" seen children] by (auto simp: arranged_kids_def sort_entries_def sort_by_def)
qed auto

declare expand_walk.simps(2) [simp del]

definition emit_expanded_tree_members ::
    "ui_texts \<Rightarrow> process_entry \<Rightarrow> (u32, process_entry list) btree \<Rightarrow> process_entry list \<Rightarrow> nat \<Rightarrow> bool \<Rightarrow>
     display_row list" where
  "emit_expanded_tree_members tx root_proc children members sort_col ascending =
     expand_walk tx children (pe_pid ` set members) sort_col ascending (values_by_pid members) [(root_proc, 1)] {}"

definition app_row ::
    "ui_texts \<Rightarrow> rollup \<Rightarrow> value_map \<Rightarrow> process_entry \<Rightarrow> process_entry list \<Rightarrow> display_row" where
  "app_row tx subtree shown root_proc members = ProcessRow \<lparr>rd_pid = pe_pid root_proc,
     rd_start_epoch_s = pe_start_epoch_s root_proc, rd_depth = 0,
     rd_name = process_display_name tx root_proc @ '' ['' @ show_nat (length members) @ '']'',
     rd_icon_path = pe_exe_path root_proc, rd_children = True, rd_aggregate = True,
     rd_termination_targets = targets_of members,
     rd_values = unwrap_or (bt_get shown (pe_pid root_proc)) [],
     rd_heat = replicate VALUE_COLS 0, rd_net_available = list_ex net_known members,
     rd_disk_available = list_ex disk_known members, rd_gpu_available = list_ex gpu_known members,
     rd_status = subtree_status subtree (pe_pid root_proc),
     rd_power_throttled = subtree_efficiency subtree (pe_pid root_proc),
     rd_synthetic = False, rd_command_line = None, rd_tooltip = None\<rparr>"

definition app_groups ::
    "process_entry list \<Rightarrow> (u32, process_entry list) btree \<Rightarrow> value_map \<times> family_map" where
  "app_groups roots children =
     foldl (\<lambda>(shown, groups) r.
       (let members = tree_group_members r children;
            values = (if length members \<le> 1 then own_values r else family_values members)
        in (bt_insert (pe_pid r) values shown, bt_insert (pe_pid r) members groups))) ([], []) roots"

fun emit_groups ::
    "ui_texts \<Rightarrow> (u32, process_entry list) btree \<Rightarrow> rollup \<Rightarrow> nat \<Rightarrow> bool \<Rightarrow> u32 set \<Rightarrow> value_map \<Rightarrow>
     process_entry list \<Rightarrow> family_map \<Rightarrow> display_row list" where
  "emit_groups tx children subtree sort_col ascending expanded shown [] groups = []"
| "emit_groups tx children subtree sort_col ascending expanded shown (r # roots) groups =
     (case bt_get groups (pe_pid r) of
        None \<Rightarrow> emit_groups tx children subtree sort_col ascending expanded shown roots groups
      | Some members \<Rightarrow>
          (if length members \<le> 1 then [make_own_row tx r 0]
           else app_row tx subtree shown r members #
             (if pe_pid r \<in> expanded
              then emit_expanded_tree_members tx r children members sort_col ascending else [])) @
          emit_groups tx children subtree sort_col ascending expanded shown roots
            (bt_retain (\<lambda>pid _. pid \<noteq> pe_pid r) groups))"

definition emit_tree ::
    "ui_texts \<Rightarrow> process_entry list \<Rightarrow> (u32, process_entry list) btree \<Rightarrow> rollup \<Rightarrow> nat \<Rightarrow> bool \<Rightarrow> u32 set \<Rightarrow>
     display_row list" where
  "emit_tree tx roots children subtree sort_col ascending expanded =
     (let (shown, groups) = app_groups roots children
      in emit_groups tx children subtree sort_col ascending expanded shown
        (sort_entries sort_col ascending shown roots) groups)"

end
