(* ===== verification/Process_Page.thy ===== *)
theory Process_Page
  imports Process_Rows
begin

text \<open>
  The model of the Processes page as a whole (crates/tm-app/src/tabs/processes.rs): the display
  rows of a snapshot, which processes the rows and the selection stand for, and the keys that
  move through the rows.
\<close>

section \<open>The display model\<close>

definition start_block :: "display_row list list \<Rightarrow> display_row \<Rightarrow> display_row list list" where
  "start_block blocks r =
     (case r of
        GroupHeader g n \<Rightarrow> blocks
      | ProcessRow d \<Rightarrow>
          if rd_depth d = 0 then blocks @ [[ProcessRow d]]
          else if blocks = [] then blocks
          else butlast blocks @ [last blocks @ [ProcessRow d]])"

definition blocks_of :: "display_row list \<Rightarrow> display_row list list" where
  "blocks_of rows = foldl start_block [] rows"

definition block_order :: "nat \<Rightarrow> bool \<Rightarrow> display_row list \<Rightarrow> display_row list \<Rightarrow> ordering" where
  "block_order vi ascending a b =
     (case (a, b) of
        (ProcessRow x # _, ProcessRow y # _) \<Rightarrow>
          then_with (directed (cmp (rd_values x ! vi) (rd_values y ! vi)) ascending)
            (cmp (rd_pid x) (rd_pid y))
      | _ \<Rightarrow> Equal)"

definition sort_blocks_globally :: "nat \<Rightarrow> bool \<Rightarrow> display_row list \<Rightarrow> display_row list" where
  "sort_blocks_globally sort_col ascending rows =
     concat (sort_by (block_order (min (sort_col - FIXED_COLS) (VALUE_COLS - 1)) ascending) (blocks_of rows))"

text \<open>\<open>Option<i64>\<close> as Rust orders it: unknown first.\<close>

fun cmp_option :: "'a::linorder option \<Rightarrow> 'a option \<Rightarrow> ordering" where
  "cmp_option None None = Equal"
| "cmp_option None (Some b) = Less"
| "cmp_option (Some a) None = Greater"
| "cmp_option (Some a) (Some b) = cmp a b"

lemma total_cmp_option: "total_cmp (\<lambda>a b. cmp_option (f a) (f b))"
proof -
  have flip: "cmp_option y x = ord_reverse (cmp_option x y)" for x y :: "'b option"
    by (cases x; cases y) (auto simp: cmp_def)
  have trans: "cmp_option x y \<noteq> Greater \<Longrightarrow> cmp_option y z \<noteq> Greater \<Longrightarrow> cmp_option x z \<noteq> Greater"
    for x y z :: "'b option"
    by (cases x; cases y; cases z) (auto simp: cmp_def split: if_splits)
  show ?thesis unfolding total_cmp_def using flip trans by blast
qed

lemma then_with_Equal: "then_with a b = Equal \<longleftrightarrow> a = Equal \<and> b = Equal"
  by (simp add: then_with_def)

definition by_creation :: "process_entry \<Rightarrow> process_entry \<Rightarrow> ordering" where
  "by_creation a b =
     then_with (cmp_option (pe_start_epoch_s a) (pe_start_epoch_s b)) (cmp (pe_pid a) (pe_pid b))"

definition group_members ::
    "process_entry list \<Rightarrow> (u32, proc_category) btree \<Rightarrow> proc_category \<Rightarrow> process_entry list" where
  "group_members all_procs category cat =
     filter (\<lambda>p. unwrap_or (bt_get category (pe_pid p)) (pe_category p) = cat) all_procs"

definition section_rows ::
    "ui_texts \<Rightarrow> process_entry list \<Rightarrow> display_groups \<Rightarrow> rollup \<Rightarrow> nat \<Rightarrow> bool \<Rightarrow> u32 set \<Rightarrow> bool list \<Rightarrow> nat \<Rightarrow>
     display_row list" where
  "section_rows tx all_procs grouping subtree sort_col ascending expanded collapsed gi =
     (let cat = (if gi = 0 then App else if gi = 1 then Background else System);
          members = group_members all_procs (dg_category grouping) cat;
          children = display_children_map members (dg_category grouping) (dg_app_roots grouping);
          roots = tree_roots members children;
          amount = (if cat = App then length roots else length members);
          header = (if sort_col < FIXED_COLS then [GroupHeader gi amount] else [])
      in if sort_col < FIXED_COLS \<and> collapsed ! gi then header
         else header @
           (if cat = App then emit_tree tx roots children subtree sort_col ascending expanded
            else emit_flat_with_family_groups tx members children sort_col ascending expanded))"

definition build_display_rows ::
    "ui_texts \<Rightarrow> process_entry list \<Rightarrow> string \<Rightarrow> nat \<Rightarrow> bool \<Rightarrow> u32 set \<Rightarrow> bool list \<Rightarrow> display_row list" where
  "build_display_rows tx processes raw_search sort_col ascending expanded collapsed =
     (let q = new_query raw_search;
          all_procs = sort_by by_creation processes;
          grouping = derive_display_groups all_procs;
          children_all = display_children_map all_procs (dg_category grouping) (dg_app_roots grouping);
          subtree = subtree_rollups all_procs children_all
      in if q \<noteq> [] then
           (let matched = filter (matches_process q) all_procs
            in normalize_heat (map (make_flat_row tx)
                 (sort_entries sort_col ascending (values_by_pid matched) matched)))
         else
           (let out = concat (map (section_rows tx all_procs grouping subtree sort_col ascending expanded collapsed) [0, 1, 2])
            in normalize_heat (if FIXED_COLS \<le> sort_col then sort_blocks_globally sort_col ascending out else out)))"

section \<open>What rows and the selection stand for\<close>

definition details_focus_targets :: "row_data \<Rightarrow> process_identity list" where
  "details_focus_targets row =
     (if rd_aggregate row then rd_termination_targets row else [identity_of row])"

definition row_is_selectable :: "row_data \<Rightarrow> u32 set \<Rightarrow> bool" where
  "row_is_selectable row expanded \<longleftrightarrow>
     \<not> rd_synthetic row \<and> (\<not> rd_aggregate row \<or> rd_pid row \<notin> expanded)"

definition identity_is_live :: "process_entry list option \<Rightarrow> process_identity \<Rightarrow> bool" where
  "identity_is_live snapshot i =
     is_some_and (Option.bind snapshot (\<lambda>s. find_process s (pi_pid i)))
       (\<lambda>p. \<not> pe_synthetic p \<and>
         (pe_start_epoch_s p = None \<or> pe_start_epoch_s p = pi_start_epoch_s i))"

fun resolve_targets ::
    "process_entry list \<Rightarrow> process_identity set \<Rightarrow> process_identity list \<Rightarrow> (process_identity \<times> string) list" where
  "resolve_targets snapshot seen [] = []"
| "resolve_targets snapshot seen (i # is) =
     (if i \<in> seen then resolve_targets snapshot seen is
      else if \<not> identity_is_live (Some snapshot) i then resolve_targets snapshot (insert i seen) is
      else case option_filter (\<lambda>p. \<not> pe_synthetic p) (find_process snapshot (pi_pid i)) of
        None \<Rightarrow> resolve_targets snapshot (insert i seen) is
      | Some p \<Rightarrow> (i, shown_name_of p) # resolve_targets snapshot (insert i seen) is)"

definition resolve_termination_targets ::
    "process_entry list option \<Rightarrow> process_identity list \<Rightarrow> (process_identity \<times> string) list" where
  "resolve_termination_targets snapshot is =
     (case snapshot of None \<Rightarrow> [] | Some s \<Rightarrow> resolve_targets s {} is)"

text \<open>The rows a selection matches: which identities, and which processes they stand for.\<close>

definition represent ::
    "u32 set \<Rightarrow> process_identity set \<Rightarrow> display_row \<Rightarrow> process_identity set \<times> process_identity list \<Rightarrow>
     process_identity set \<times> process_identity list" where
  "represent expanded selected r state =
     (case r of
        GroupHeader g n \<Rightarrow> state
      | ProcessRow row \<Rightarrow>
          (let (matched, represented) = state in
           if rd_aggregate row \<and> rd_pid row \<in> expanded then (matched, represented)
           else if identity_of row \<in> selected
           then (insert (identity_of row) matched, represented @ rd_termination_targets row)
           else (matched, represented)))"

text \<open>The selection is collected into a hash set; its elements come in selection order here.\<close>

definition termination_targets_for_selection ::
    "ui_texts \<Rightarrow> process_entry list option \<Rightarrow> string \<Rightarrow> nat \<Rightarrow> bool \<Rightarrow> u32 set \<Rightarrow> bool list \<Rightarrow> selection \<Rightarrow>
     (process_identity \<times> string) list" where
  "termination_targets_for_selection tx snapshot search sort_col ascending expanded collapsed sel =
     (case snapshot of
        None \<Rightarrow> []
      | Some s \<Rightarrow>
          (let rows = build_display_rows tx s search sort_col ascending expanded collapsed;
               (matched, represented) = fold (represent expanded (set (items sel))) rows ({}, [])
           in resolve_termination_targets snapshot
                (represented @ filter (\<lambda>i. i \<notin> matched) (remdups (items sel)))))"

definition first_search_match_in_display_order ::
    "ui_texts \<Rightarrow> process_entry list \<Rightarrow> string \<Rightarrow> nat \<Rightarrow> bool \<Rightarrow> u32 set \<Rightarrow> bool list \<Rightarrow> process_identity option" where
  "first_search_match_in_display_order tx processes raw_search sort_col ascending expanded collapsed =
     first_opt (List.map_filter
       (\<lambda>r. case r of GroupHeader g n \<Rightarrow> None
         | ProcessRow row \<Rightarrow> if row_is_selectable row expanded then Some (identity_of row) else None)
       (build_display_rows tx processes raw_search sort_col ascending expanded collapsed))"

fun selectable_from :: "display_row list \<Rightarrow> process_identity set \<Rightarrow> process_identity list" where
  "selectable_from [] seen = []"
| "selectable_from (GroupHeader g n # rows) seen = selectable_from rows seen"
| "selectable_from (ProcessRow row # rows) seen =
     (if rd_synthetic row \<or> identity_of row \<in> seen then selectable_from rows seen
      else identity_of row # selectable_from rows (insert (identity_of row) seen))"

definition selectable_identities :: "display_row list \<Rightarrow> process_identity list" where
  "selectable_identities rows = selectable_from rows {}"

definition selection_fallback_index :: "nat option \<Rightarrow> nat \<Rightarrow> nat" where
  "selection_fallback_index final len = min (unwrap_or final 0) (len - 1)"

section \<open>Keys\<close>

record page_state =
  pg_selection :: selection
  pg_expanded :: "u32 set"
  pg_scroll_to_pid :: "u32 option"
  pg_view_generation :: nat
  pg_last_selected_pos :: "nat option"
  pg_pending_details :: "process_identity list option"
  pg_details_tab :: bool

text \<open>What the input of a frame comes down to: the gates have been applied to the keys.\<close>

record key_input =
  ki_content_has_focus :: bool
  ki_select_all :: bool
  ki_page_rows :: nat
  ki_nav :: "list_nav option"
  ki_shift :: bool
  ki_row_action_gate :: bool
  ki_space :: bool
  ki_enter :: bool
  ki_nav_gate :: bool
  ki_left :: bool
  ki_right :: bool

definition toggle_expanded :: "u32 \<Rightarrow> page_state \<Rightarrow> page_state" where
  "toggle_expanded pid st =
     st\<lparr>pg_expanded := (if pid \<in> pg_expanded st then pg_expanded st - {pid} else insert pid (pg_expanded st)),
        pg_view_generation := pg_view_generation st + 1\<rparr>"

definition select_row :: "row_data \<Rightarrow> page_state \<Rightarrow> page_state" where
  "select_row row st = st\<lparr>pg_selection := select_single (identity_of row) (pg_selection st),
     pg_scroll_to_pid := Some (rd_pid row)\<rparr>"

definition selectable_rows :: "display_row list \<Rightarrow> u32 set \<Rightarrow> row_data list" where
  "selectable_rows rows expanded = List.map_filter
     (\<lambda>r. case r of GroupHeader g n \<Rightarrow> None
       | ProcessRow row \<Rightarrow> if row_is_selectable row expanded then Some row else None) rows"

definition primary_pid :: "page_state \<Rightarrow> u32 option" where
  "primary_pid st = map_option pi_pid (primary (pg_selection st))"

definition reselect_vanished :: "key_input \<Rightarrow> row_data list \<Rightarrow> page_state \<Rightarrow> page_state" where
  "reselect_vanished ki prows st =
     (if ki_content_has_focus ki \<and> items (pg_selection st) = [] \<and> prows \<noteq> []
      then select_row (prows ! selection_fallback_index (pg_last_selected_pos st) (length prows)) st
      else st)"

definition move_selection :: "key_input \<Rightarrow> row_data list \<Rightarrow> nat option \<Rightarrow> page_state \<Rightarrow> page_state" where
  "move_selection ki prows selected_pos st =
     (case Option.bind (ki_nav ki) (\<lambda>nav. moved_index (length prows) selected_pos nav (ki_page_rows ki)) of
        None \<Rightarrow> st
      | Some target \<Rightarrow>
          if target < length prows then
            (let row = prows ! target in
             if ki_shift ki
             then st\<lparr>pg_selection := select_range (identity_of row) (map identity_of prows) (pg_selection st),
                     pg_scroll_to_pid := Some (rd_pid row)\<rparr>
             else select_row row st)
          else st)"

definition row_action :: "key_input \<Rightarrow> row_data list \<Rightarrow> page_state \<Rightarrow> page_state" where
  "row_action ki prows st =
     (if \<not> ki_row_action_gate ki then st
      else case Option.bind (primary_pid st) (\<lambda>pid. find (\<lambda>row. rd_pid row = pid) prows) of
        None \<Rightarrow> st
      | Some row \<Rightarrow>
          if ki_space ki
          then st\<lparr>pg_selection := sel_toggle (identity_of row) (map identity_of prows) (pg_selection st)\<rparr>
          else if ki_enter ki
          then st\<lparr>pg_pending_details := Some (details_focus_targets row), pg_details_tab := True\<rparr>
          else st)"

text \<open>The row a pid has among the display rows, with its index.\<close>

definition current_row :: "display_row list \<Rightarrow> u32 set \<Rightarrow> u32 \<Rightarrow> (nat \<times> row_data) option" where
  "current_row rows expanded pid =
     (case position (\<lambda>r. case r of GroupHeader g n \<Rightarrow> False
          | ProcessRow p \<Rightarrow> rd_pid p = pid \<and> row_is_selectable p expanded) rows of
        None \<Rightarrow> None
      | Some ix \<Rightarrow> (case rows ! ix of GroupHeader g n \<Rightarrow> None | ProcessRow cur \<Rightarrow> Some (ix, cur)))"

definition parent_row :: "display_row list \<Rightarrow> row_data \<Rightarrow> row_data option" where
  "parent_row before cur = first_opt (List.map_filter
     (\<lambda>r. case r of GroupHeader g n \<Rightarrow> None
       | ProcessRow parent \<Rightarrow>
           if \<not> rd_synthetic parent \<and> rd_depth parent < rd_depth cur then Some parent else None) (rev before))"

definition first_child :: "display_row list \<Rightarrow> nat \<Rightarrow> row_data \<Rightarrow> row_data option" where
  "first_child rows ix cur =
     (if ix + 1 < length rows
      then case rows ! (ix + 1) of
          GroupHeader g n \<Rightarrow> None
        | ProcessRow child \<Rightarrow>
            if rd_depth cur < rd_depth child \<and> \<not> rd_synthetic child then Some child else None
      else None)"

definition arrow_key :: "key_input \<Rightarrow> display_row list \<Rightarrow> page_state \<Rightarrow> page_state" where
  "arrow_key ki rows st =
     (case primary_pid st of
        None \<Rightarrow> st
      | Some pid \<Rightarrow>
          (case current_row rows (pg_expanded st) pid of
             None \<Rightarrow> st
           | Some (ix, cur) \<Rightarrow>
               if ki_right ki \<and> rd_children cur then
                 (if pid \<notin> pg_expanded st then toggle_expanded pid st
                  else case first_child rows ix cur of None \<Rightarrow> st | Some child \<Rightarrow> select_row child st)
               else if ki_left ki then
                 (if rd_children cur \<and> pid \<in> pg_expanded st then toggle_expanded pid st
                  else if 0 < rd_depth cur then
                    (case parent_row (take ix rows) cur of
                       None \<Rightarrow> st
                     | Some parent \<Rightarrow>
                         if rd_aggregate parent then
                           (let st = toggle_expanded (rd_pid parent) st in
                            st\<lparr>pg_selection := select_single (identity_of parent) (pg_selection st),
                               pg_scroll_to_pid := Some (rd_pid parent)\<rparr>)
                         else select_row parent st)
                  else st)
               else st))"

definition handle_keyboard_navigation :: "key_input \<Rightarrow> display_row list \<Rightarrow> page_state \<Rightarrow> page_state" where
  "handle_keyboard_navigation ki rows st =
     (let prows = selectable_rows rows (pg_expanded st);
          st = reselect_vanished ki prows st;
          selected_pos = Option.bind (primary_pid st) (\<lambda>pid. position (\<lambda>row. rd_pid row = pid) prows);
          st = st\<lparr>pg_last_selected_pos := selected_pos\<rparr>;
          st = (if ki_select_all ki
                then st\<lparr>pg_selection := select_all (map identity_of prows) (pg_selection st)\<rparr> else st);
          st = move_selection ki prows selected_pos st;
          st = row_action ki prows st
      in if ki_nav_gate ki then arrow_key ki rows st else st)"

end

