(* ===== verification/Marking_Walk.thy ===== *)
theory Marking_Walk
  imports Tree_Walk
begin

text \<open>
  The contract that the depth-first walks of the tables share: a stack of items, a set of visited
  keys, one row for every new key, and the unvisited successors pushed on the stack. Whatever the
  order of the successors, such a walk emits exactly the keys that can be reached, each once.
\<close>

locale marking_walk =
  fixes E :: "('k \<times> 'k) set"
    and walk :: "'i list \<Rightarrow> 'k set \<Rightarrow> 'r list"
    and item_key :: "'i \<Rightarrow> 'k"
    and row_key :: "'r \<Rightarrow> 'k"
  assumes finite_edges: "finite E"
    and walk_Nil: "walk [] visited = []"
    and walk_visited: "item_key i \<in> visited \<Longrightarrow> walk (i # stack) visited = walk stack visited"
    and walk_new: "item_key i \<notin> visited \<Longrightarrow>
      \<exists>r items. walk (i # stack) visited = r # walk (items @ stack) (insert (item_key i) visited) \<and>
        row_key r = item_key i \<and> item_key ` set items \<subseteq> E `` {item_key i} \<and>
        E `` {item_key i} \<subseteq> item_key ` set items \<union> insert (item_key i) visited"
begin

lemma unvisited_domain:
  "k \<notin> visited \<Longrightarrow> E `` {k} \<noteq> {} \<Longrightarrow> card (Domain E - insert k visited) < card (Domain E - visited)"
proof (rule psubset_card_mono)
  assume "k \<notin> visited" "E `` {k} \<noteq> {}"
  then show "Domain E - insert k visited \<subset> Domain E - visited" by blast
qed (simp add: finite_edges finite_Domain)

lemma walk_reach:
  assumes "E `` visited \<subseteq> visited \<union> item_key ` set stack"
  shows "visited \<union> row_key ` set (walk stack visited) = reach E (visited \<union> item_key ` set stack) \<and>
    distinct (map row_key (walk stack visited)) \<and> row_key ` set (walk stack visited) \<inter> visited = {}"
  using assms
proof (induction "(stack, visited)" arbitrary: stack visited
    rule: wf_induct_rule [OF wf_measures [of "[\<lambda>(stack, visited). card (Domain E - visited), \<lambda>(stack, visited). length stack]"]])
  case (1 stack visited)
  show ?case
  proof (cases stack)
    case Nil
    with 1(2) show ?thesis by (simp add: walk_Nil reach_closed)
  next
    case (Cons i rest)
    show ?thesis
    proof (cases "item_key i \<in> visited")
      case True
      have less: "((rest, visited), (stack, visited)) \<in> measures
          [\<lambda>(stack, visited). card (Domain E - visited), \<lambda>(stack, visited). length stack]"
        by (simp add: Cons)
      have "E `` visited \<subseteq> visited \<union> item_key ` set rest" using 1(2) True by (auto simp: Cons)
      from 1(1) [OF less this] True show ?thesis by (simp add: Cons walk_visited insert_absorb)
    next
      case False
      let ?k = "item_key i" and ?visited = "insert (item_key i) visited"
      from walk_new [OF False] obtain r items where step:
        "walk stack visited = r # walk (items @ rest) ?visited" "row_key r = ?k"
        "item_key ` set items \<subseteq> E `` {?k}" "E `` {?k} \<subseteq> item_key ` set items \<union> ?visited"
        unfolding Cons by blast
      have le: "card (Domain E - ?visited) \<le> card (Domain E - visited)"
        by (intro card_mono) (auto simp: finite_edges finite_Domain)
      have less: "((items @ rest, ?visited), (stack, visited)) \<in> measures
          [\<lambda>(stack, visited). card (Domain E - visited), \<lambda>(stack, visited). length stack]"
      proof (cases "items = []")
        case True
        with le show ?thesis by (simp add: Cons le_less)
      next
        case False
        with step(3) have "E `` {?k} \<noteq> {}" by auto
        with unvisited_domain \<open>?k \<notin> visited\<close> show ?thesis by simp
      qed
      have "E `` ?visited \<subseteq> ?visited \<union> item_key ` set (items @ rest)"
        using 1(2) step(4) by (auto simp: Cons)
      note IH = 1(1) [OF less this]
      have "reach E (?visited \<union> item_key ` set rest \<union> item_key ` set items) =
          reach E (?visited \<union> item_key ` set rest)"
        using step(3,4) by (intro reach_step [of _ _ ?k]) auto
      moreover have "?visited \<union> item_key ` set (items @ rest) =
          ?visited \<union> item_key ` set rest \<union> item_key ` set items"
        by auto
      moreover have "visited \<union> item_key ` set stack = ?visited \<union> item_key ` set rest"
        by (simp add: Cons)
      ultimately have "?visited \<union> row_key ` set (walk (items @ rest) ?visited) = reach E (visited \<union> item_key ` set stack)"
        using IH by simp
      with IH False step(2) show ?thesis by (simp add: step(1))
    qed
  qed
qed

text \<open>From a fresh start.\<close>

lemma walk_roots:
  "row_key ` set (walk stack {}) = reach E (item_key ` set stack)"
  "distinct (map row_key (walk stack {}))"
  using walk_reach [of "{}" stack] by simp_all

end

section \<open>Collecting members\<close>

lemma finite_edges_of [simp]: "finite (edges key children)"
proof (rule finite_subset)
  show "edges key children \<subseteq> fst ` set children \<times> key ` set (concat (map snd children))"
  proof
    fix e assume "e \<in> edges key children"
    then obtain p n where e: "e = (p, key n)" "n \<in> set (kids_of children p)" by (auto simp: edges_def)
    then obtain v where "(p, v) \<in> set children" "n \<in> set v"
      by (cases "bt_get children p") (auto simp: kids_of_def dest: bt_get_Some_in)
    with e show "e \<in> fst ` set children \<times> key ` set (concat (map snd children))" by force
  qed
qed simp

interpretation collect: marking_walk "edges key children" "collect_below key children" key key for key children
proof
  fix i :: 'a and visited and stack :: "'a list"
  assume "key i \<notin> visited"
  then show "\<exists>r items. collect_below key children (i # stack) visited =
      r # collect_below key children (items @ stack) (insert (key i) visited) \<and> key r = key i \<and>
      key ` set items \<subseteq> edges key children `` {key i} \<and>
      edges key children `` {key i} \<subseteq> key ` set items \<union> insert (key i) visited"
    by (intro exI [of _ i] exI [of _ "rev (kids_of children (key i))"])
       (auto simp: collect_below.simps edges_def)
qed (simp_all add: collect_below.simps)

end
