(* ===== verification/Process_Page_Props.thy ===== *)
theory Process_Page_Props
  imports Process_Page Marking_Walk
begin

text \<open>
  What the Processes page shows: every process of the application section in exactly one group, an
  expanded group shows its members once each, rows that do not depend on the order of the sample,
  system processes that no application takes, and an End task that only reaches live processes.
\<close>

section \<open>Roots and groups\<close>

lemma mark_below_empty:
  "mark_below key children ks {} = reach (edges key children) (set ks)"
  using mark_below_reach [of key children "{}" ks] by simp

lemma tree_roots_forest: "tree_roots members children = forest_roots pe_pid children members"
proof -
  define roots where "roots = filter (\<lambda>p. pe_pid p \<notin> linked_keys pe_pid children) members"
  have "mark_below pe_pid children (rev (map pe_pid roots)) {} =
      foldl (\<lambda>c r. mark_below pe_pid children [pe_pid r] c) {} roots"
    using mark_roots [of pe_pid children "{}" roots] by (simp add: mark_below_empty)
  then show ?thesis by (simp add: tree_roots_def forest_roots_def Let_def roots_def)
qed

lemma display_parent_in: "display_parent ps category app_roots p = Some q \<Longrightarrow> q \<in> pe_pid ` set ps"
  by (auto simp: display_parent_def Let_def split: if_splits option.splits)

lemma kids_of_app: "set (kids_of (display_children_map ps category app_roots) q) \<subseteq> set ps"
  by (auto simp: display_children_map_def kids_of_children_by)

lemma group_of_root:
  "distinct (map pe_pid (tree_group_members r children)) \<and> r \<in> set (tree_group_members r children)"
  by (simp add: tree_group_members_def collect_below_root)

lemma group_in_section:
  "r \<in> set members \<Longrightarrow> set (tree_group_members r (display_children_map members category app_roots)) \<subseteq> set members"
  unfolding tree_group_members_def using collect_below_nodes [of "[r]" "set members", OF _ kids_of_app] by simp

text \<open>Whatever the parent pids say, circles included, every process is in the group of a root.\<close>

lemma no_app_lost:
  "pe_pid ` set members \<subseteq> (\<Union>r\<in>set (tree_roots members children). pe_pid ` set (tree_group_members r children)) \<and>
   set (tree_roots members children) \<subseteq> set members"
proof -
  have "reach E (pe_pid ` set rs) = (\<Union>r\<in>set rs. reach E {pe_pid r})" for E rs
    by (auto simp: reach_def)
  note split = this [of "edges pe_pid children" "forest_roots pe_pid children members"]
  show ?thesis
    using forest_roots_cover [of pe_pid members children]
    unfolding split tree_roots_forest tree_group_members_def collect_below_root .
qed

lemma in_some_group:
  assumes "distinct (map pe_pid members)" "p \<in> set members"
  shows "\<exists>r\<in>set (tree_roots members (display_children_map members category app_roots)).
    p \<in> set (tree_group_members r (display_children_map members category app_roots))"
proof -
  let ?children = "display_children_map members category app_roots"
  obtain r where r: "r \<in> set (tree_roots members ?children)" "pe_pid p \<in> pe_pid ` set (tree_group_members r ?children)"
    using no_app_lost [of members ?children] assms(2) by blast
  then have "set (tree_group_members r ?children) \<subseteq> set members"
    using no_app_lost [of members ?children] by (intro group_in_section) blast
  with r(2) key_inj [OF assms(1) assms(2)] have "p \<in> set (tree_group_members r ?children)"
    by (metis imageE subsetD)
  with r(1) show ?thesis by blast
qed

text \<open>The processes that descend from a circle of display parents.\<close>

definition circular ::
    "process_entry list \<Rightarrow> (u32, proc_category) btree \<Rightarrow> u32 set \<Rightarrow> process_entry \<Rightarrow> bool" where
  "circular members category app_roots p \<longleftrightarrow>
     below_circle (edges pe_pid (display_children_map members category app_roots)) (pe_pid p)"

text \<open>
  C23: The application groups cover the section, and but for circles they are a partition. A group
  holds its root and only processes of the section, each once; every process of the section, whatever
  the parent pids are, is in the group of some root; and the processes that do not descend from a
  circle of parents are in exactly one group, once: without circles, that is every process.
\<close>

theorem app_groups_partition:
  assumes "distinct (map pe_pid members)"
  shows "(\<forall>r\<in>set (tree_roots members (display_children_map members category app_roots)).
      r \<in> set (tree_group_members r (display_children_map members category app_roots)) \<and>
      set (tree_group_members r (display_children_map members category app_roots)) \<subseteq> set members \<and>
      distinct (tree_group_members r (display_children_map members category app_roots))) \<and>
    (\<forall>p\<in>set members. \<exists>r\<in>set (tree_roots members (display_children_map members category app_roots)).
      p \<in> set (tree_group_members r (display_children_map members category app_roots))) \<and>
    mset (filter (\<lambda>p. \<not> circular members category app_roots p)
      (concat (map (\<lambda>r. tree_group_members r (display_children_map members category app_roots))
        (tree_roots members (display_children_map members category app_roots))))) =
    mset (filter (\<lambda>p. \<not> circular members category app_roots p) members)"
proof (intro conjI ballI)
  let ?children = "display_children_map members category app_roots"
  fix r assume "r \<in> set (tree_roots members ?children)"
  then have "r \<in> set members" using no_app_lost [of members ?children] by blast
  then show "set (tree_group_members r ?children) \<subseteq> set members" by (rule group_in_section)
  show "r \<in> set (tree_group_members r ?children)" "distinct (tree_group_members r ?children)"
    using group_of_root [of r ?children] by (simp_all add: distinct_map)
next
  have "\<forall>n\<in>set members. \<forall>p. display_parent members category app_roots n = Some p \<longrightarrow> p \<in> pe_pid ` set members"
    by (simp add: display_parent_in)
  from forest_partition [OF assms this]
  show "mset (filter (\<lambda>p. \<not> circular members category app_roots p)
      (concat (map (\<lambda>r. tree_group_members r (display_children_map members category app_roots))
        (tree_roots members (display_children_map members category app_roots))))) =
    mset (filter (\<lambda>p. \<not> circular members category app_roots p) members)"
    unfolding circular_def tree_group_members_def tree_roots_forest display_children_map_def .
qed (rule in_some_group [OF assms])

text \<open>With a circle a process can be in two groups: 16 comes before the circle of 8 and 12 that it
  descends from, and is taken as a root of its own.\<close>

definition circle_entry :: "u32 \<Rightarrow> u32 \<Rightarrow> process_entry" where
  "circle_entry pid parent = (new_entry pid ''a.exe'')\<lparr>pe_ppid := Some parent\<rparr>"

lemma circle_in_two_groups:
  "(let members = [circle_entry 16 12, circle_entry 8 12, circle_entry 12 8];
        children = display_children_map members [(8, App), (12, App), (16, App)] {}
    in map (\<lambda>r. sort (map pe_pid (tree_group_members r children))) (tree_roots members children)) = [[16], [8, 12, 16]]"
  by code_simp

section \<open>An expanded group\<close>

fun row_pid :: "display_row \<Rightarrow> u32" where
  "row_pid (ProcessRow d) = rd_pid d"
| "row_pid (GroupHeader g n) = 0"

lemma row_pid_own [simp]: "row_pid (make_own_row tx p depth) = pe_pid p"
  by (simp add: make_own_row_def)

lemma set_arranged [simp]:
  "set (arranged_kids children member_pids col asc own pid) = {k \<in> set (kids_of children pid). pe_pid k \<in> member_pids}"
  by (simp add: arranged_kids_def sort_entries_def)

text \<open>The walk below an expanded head follows the edges to members of its group.\<close>

definition member_edges :: "(u32, process_entry list) btree \<Rightarrow> u32 set \<Rightarrow> (u32 \<times> u32) set" where
  "member_edges children member_pids = {(p, q) \<in> edges pe_pid children. q \<in> member_pids}"

interpretation expand: marking_walk "member_edges children member_pids"
    "expand_walk tx children member_pids col asc own" "pe_pid \<circ> fst" row_pid
  for children member_pids tx col asc own
proof
  show "finite (member_edges children member_pids)"
    by (rule finite_subset [OF _ finite_edges_of [of pe_pid children]]) (auto simp: member_edges_def)
next
  fix i :: "process_entry \<times> nat" and stack and visited
  assume "(pe_pid \<circ> fst) i \<in> visited"
  then show "expand_walk tx children member_pids col asc own (i # stack) visited =
      expand_walk tx children member_pids col asc own stack visited"
    by (cases i) (simp add: expand_walk.simps)
next
  fix i :: "process_entry \<times> nat" and stack and visited
  assume new: "(pe_pid \<circ> fst) i \<notin> visited"
  obtain p depth where i: "i = (p, depth)" by (cases i)
  let ?items = "map (\<lambda>k. (k, depth + 1)) (arranged_kids children member_pids col asc own (pe_pid p))"
  have "(pe_pid \<circ> fst) ` set ?items = member_edges children member_pids `` {pe_pid p}"
    by (auto simp: member_edges_def edges_def image_image)
  then show "\<exists>r items. expand_walk tx children member_pids col asc own (i # stack) visited =
      r # expand_walk tx children member_pids col asc own (items @ stack) (insert ((pe_pid \<circ> fst) i) visited) \<and>
      row_pid r = (pe_pid \<circ> fst) i \<and>
      (pe_pid \<circ> fst) ` set items \<subseteq> member_edges children member_pids `` {(pe_pid \<circ> fst) i} \<and>
      member_edges children member_pids `` {(pe_pid \<circ> fst) i} \<subseteq>
        (pe_pid \<circ> fst) ` set items \<union> insert ((pe_pid \<circ> fst) i) visited"
    using new
    by (intro exI [of _ "make_own_row tx p depth"] exI [of _ ?items])
       (simp add: i expand_walk.simps, blast)
qed simp

lemma reach_member_edges:
  assumes "reach (edges pe_pid children) {a} \<subseteq> member_pids"
  shows "reach (member_edges children member_pids) {a} = reach (edges pe_pid children) {a}"
proof
  show "reach (member_edges children member_pids) {a} \<subseteq> reach (edges pe_pid children) {a}"
    unfolding reach_def by (rule Image_mono [OF rtrancl_mono]) (auto simp: member_edges_def)
  have "(a, q) \<in> (member_edges children member_pids)\<^sup>*" if "(a, q) \<in> (edges pe_pid children)\<^sup>*" for q
    using that
  proof (induction rule: rtrancl_induct)
    case (step p q)
    then have "(a, q) \<in> (edges pe_pid children)\<^sup>*" by simp
    with assms have "q \<in> member_pids" by (auto simp: reach_def)
    with step show ?case by (auto simp: member_edges_def intro: rtrancl_into_rtrancl)
  qed simp
  then show "reach (edges pe_pid children) {a} \<subseteq> reach (member_edges children member_pids) {a}"
    by (auto simp: reach_def)
qed

text \<open>
  Expanding an application shows its group. The rows below the head are the members the group
  counts and ends, each once, in whatever order and nesting the walk emits them.
\<close>

theorem expansion_shows_group:
  "mset (map row_pid (emit_expanded_tree_members tx root_proc children
      (tree_group_members root_proc children) col asc)) =
    mset (map pe_pid (tree_group_members root_proc children))"
proof -
  let ?E = "edges pe_pid children" and ?members = "tree_group_members root_proc children"
  have pids: "pe_pid ` set ?members = reach ?E {pe_pid root_proc}"
    by (simp add: tree_group_members_def collect_below_root)
  have "row_pid ` set (emit_expanded_tree_members tx root_proc children ?members col asc) =
      reach ?E {pe_pid root_proc} \<and>
    distinct (map row_pid (emit_expanded_tree_members tx root_proc children ?members col asc))"
    unfolding emit_expanded_tree_members_def
    using expand.walk_roots [of tx children "pe_pid ` set ?members" col asc _ "[(root_proc, 1)]"]
      reach_member_edges [of children "pe_pid root_proc" "pe_pid ` set ?members"]
    by (simp add: pids)
  moreover have "distinct (map pe_pid ?members)"
    by (simp add: tree_group_members_def collect_below_root)
  ultimately show ?thesis
    using pids by (subst set_eq_iff_mset_eq_distinct [symmetric]) simp_all
qed

section \<open>Rows do not depend on the order of the sample\<close>

lemma total_cmp_by_creation: "total_cmp by_creation"
  unfolding by_creation_def [abs_def] by (intro total_cmp_then total_cmp_option total_cmp_cmp)

text \<open>
  The rows are a function of which processes there are. Two samples with the same processes in
  a different order, as a hash map yields them, give the same rows in the same order, for every
  search, sort column and set of expanded groups.
\<close>

theorem rows_ignore_sample_order:
  assumes "mset ps = mset qs" "distinct (map pe_pid ps)"
  shows "build_display_rows tx ps search col asc expanded collapsed =
    build_display_rows tx qs search col asc expanded collapsed"
proof -
  have "sort_by by_creation ps = sort_by by_creation qs"
  proof (rule sort_by_unique [OF total_cmp_by_creation assms(1)])
    fix x y assume "x \<in> set ps" "y \<in> set ps" "by_creation x y = Equal"
    then show "x = y" using key_inj [OF assms(2)] by (simp add: by_creation_def then_with_Equal)
  qed
  then show ?thesis by (simp add: build_display_rows_def)
qed

theorem rows_ignore_sample_order_witness:
  "build_display_rows \<lparr>tx_service_host = ''Service Host'', tx_terminated = id\<rparr>
      [new_entry 8 ''a.exe'', new_entry 4 ''b.exe''] [] 2 True {} [False, False, False] =
   build_display_rows \<lparr>tx_service_host = ''Service Host'', tx_terminated = id\<rparr>
      [new_entry 4 ''b.exe'', new_entry 8 ''a.exe''] [] 2 True {} [False, False, False]"
  by (rule rows_ignore_sample_order) (simp_all add: new_entry_def)

theorem app_groups_partition_witness:
  "\<exists>r\<in>set (tree_roots [circle_entry 16 12, circle_entry 8 12, circle_entry 12 8]
      (display_children_map [circle_entry 16 12, circle_entry 8 12, circle_entry 12 8] [(8, App), (12, App), (16, App)] {})).
    circle_entry 12 8 \<in> set (tree_group_members r
      (display_children_map [circle_entry 16 12, circle_entry 8 12, circle_entry 12 8] [(8, App), (12, App), (16, App)] {}))"
  using app_groups_partition [of "[circle_entry 16 12, circle_entry 8 12, circle_entry 12 8]"
      "[(8, App), (12, App), (16, App)]" "{}"]
  by (simp add: circle_entry_def new_entry_def)

section \<open>Categories\<close>

lemma absorb_keeps_system:
  "bt_get (absorb_helpers by_pid raw_children app_roots stack seen categories) q = Some System \<longleftrightarrow>
   bt_get categories q = Some System"
proof (induction by_pid raw_children app_roots stack seen categories rule: absorb_helpers.induct)
  case (1 by_pid raw_children app_roots seen categories)
  then show ?case by simp
next
  case (2 by_pid raw_children app_roots pid stack seen categories)
  show ?case
  proof (cases "pid \<in> seen \<or> bt_get categories pid = Some System")
    case True
    with 2(1,2) show ?thesis by (cases "pid \<in> seen") (simp_all add: absorb_helpers.simps)
  next
    case False
    then have same: "bt_get (bt_insert pid App categories) q = Some System \<longleftrightarrow> bt_get categories q = Some System"
      by (auto simp: bt_get_insert)
    show ?thesis
    proof (cases "bt_get by_pid pid")
      case None
      with 2(3) [OF _ _ refl None] False show ?thesis
        by (simp only: absorb_helpers.simps Let_def option.case same) simp
    next
      case (Some p)
      with 2(4) [OF _ _ refl Some] 2(5) [OF _ _ refl Some] False show ?thesis
        by (cases "is_non_owning_shell (pe_name p)")
          (simp only: absorb_helpers.simps Let_def option.case same if_True if_False; simp)+
    qed
  qed
qed

lemma move_keeps_system:
  "\<forall>pid\<in>set stack. bt_get categories pid \<noteq> Some System \<Longrightarrow>
   bt_get (move_to_background raw_children app_roots stack categories) q = Some System \<longleftrightarrow>
   bt_get categories q = Some System"
proof (induction raw_children app_roots stack categories rule: move_to_background.induct)
  case (1 raw_children app_roots categories)
  then show ?case by simp
next
  case (2 raw_children app_roots pid stack categories)
  have "\<forall>k\<in>set (rev (movable_kids raw_children app_roots (bt_insert pid Background categories) pid) @ stack).
      bt_get (bt_insert pid Background categories) k \<noteq> Some System"
    using 2(2) by (auto simp: movable_kids_def bt_get_insert)
  from 2(1) [OF refl this] 2(2) show ?case
    by (auto simp: move_to_background.simps Let_def bt_get_insert)
qed

lemma promote_keeps_system:
  "bt_get (promote_busy_external_tasks ps by_pid raw_children categories app_roots) q = Some System \<longleftrightarrow>
   bt_get categories q = Some System"
  unfolding promote_busy_external_tasks_def Let_def by (rule move_keeps_system) auto

lemma get_category_map:
  assumes "distinct (map pe_pid ps)" "p \<in> set ps"
  shows "bt_get (category_map f ps) (pe_pid p) = Some (f p)"
  using assms
proof (induction ps rule: rev_induct)
  case (snoc x ps)
  then show ?case by (auto simp: category_map_def bt_get_insert) (metis image_eqI)
qed simp

text \<open>
  Which processes the Windows section holds. Grouping moves helpers into applications and busy
  tasks out of them, but a process the collector classified as a system process stays one, with
  window data the core system images are added, and no other process becomes one.
\<close>

theorem system_section_exact:
  assumes "distinct (map pe_pid ps)" "p \<in> set ps"
  shows "bt_get (dg_category (derive_display_groups ps)) (pe_pid p) = Some System \<longleftrightarrow>
    pe_category p = System \<or> (\<exists>w\<in>set ps. pe_has_window w) \<and> is_core_os_image (pe_name p)"
proof (cases "list_ex pe_has_window ps")
  case True
  then show ?thesis
    by (simp add: derive_display_groups_def Let_def promote_keeps_system absorb_keeps_system
        get_category_map [OF assms] initial_category_def is_system_boundary_def list_ex_iff)
next
  case False
  then show ?thesis
    by (auto simp: derive_display_groups_def collector_groups_def Let_def get_category_map [OF assms] list_ex_iff)
qed

theorem system_section_exact_witness:
  "bt_get (dg_category (derive_display_groups
      [(new_entry 4 ''csrss.exe'')\<lparr>pe_has_window := True\<rparr>, new_entry 8 ''a.exe''])) 8 \<noteq> Some System"
proof -
  have "\<not> is_core_os_image ''a.exe''" by code_simp
  then show ?thesis
    using system_section_exact [of "[(new_entry 4 ''csrss.exe'')\<lparr>pe_has_window := True\<rparr>, new_entry 8 ''a.exe'']"
      "new_entry 8 ''a.exe''"]
    by (simp add: new_entry_def default_entry_def)
qed

section \<open>Heat\<close>

definition known_value :: "nat \<Rightarrow> display_row \<Rightarrow> rat option" where
  "known_value i r =
     (case r of GroupHeader g n \<Rightarrow> None
      | ProcessRow d \<Rightarrow> if value_known d i then Some (rd_values d ! i) else None)"

definition full_rows :: "display_row list \<Rightarrow> bool" where
  "full_rows rows \<longleftrightarrow> (\<forall>d. ProcessRow d \<in> set rows \<longrightarrow> length (rd_values d) = VALUE_COLS)"

lemma raise_max_nth:
  "length (rd_values d) = VALUE_COLS \<Longrightarrow> length (raise_max d most) = VALUE_COLS \<and>
   (i < VALUE_COLS \<longrightarrow> raise_max d most ! i =
     (if value_known d i then max (most ! i) (rd_values d ! i) else most ! i))"
  by (simp add: raise_max_def nth_enumerate_eq)

lemma max_values_spec:
  assumes "full_rows rows" "i < VALUE_COLS"
  shows "max_values rows most ! i \<in> insert (most ! i) {v. Some v \<in> known_value i ` set rows} \<and>
    (\<forall>v\<in>insert (most ! i) {v. Some v \<in> known_value i ` set rows}. v \<le> max_values rows most ! i)"
  using assms(1)
proof (induction rows most rule: max_values.induct)
  case (1 most)
  then show ?case by simp
next
  case (2 g n rows most)
  then show ?case by (auto simp: full_rows_def known_value_def)
next
  case (3 d rows most)
  have d: "length (rd_values d) = VALUE_COLS" "full_rows rows" using 3(2) by (auto simp: full_rows_def)
  let ?rest = "{v. Some v \<in> known_value i ` set rows}"
  note IH = 3(1) [OF d(2)]
  show ?case
  proof (cases "value_known d i")
    case True
    then have "{v. Some v \<in> known_value i ` set (ProcessRow d # rows)} = insert (rd_values d ! i) ?rest"
      by (auto simp: known_value_def)
    with IH raise_max_nth [OF d(1), of most i] assms(2) True show ?thesis
      by (auto simp: max_def split: if_splits)
  next
    case False
    then have "{v. Some v \<in> known_value i ` set (ProcessRow d # rows)} = ?rest"
      by (auto simp: known_value_def)
    with IH raise_max_nth [OF d(1), of most i] assms(2) False show ?thesis by simp
  qed
qed

lemma norm_range: "0 \<le> norm v m \<and> norm v m \<le> 1"
  by (simp add: norm_def)

lemma norm_top: "v \<le> m \<Longrightarrow> norm v m = 1 \<longleftrightarrow> v = m \<and> 0 < v"
  by (auto simp: norm_def min_def max_def divide_simps split: if_splits)

text \<open>
  The heat of a cell. It lies between 0 and 1, is 0 where the value is unknown, and is 1 exactly
  for the known positive values that no known value of the column in the whole model exceeds.
\<close>

theorem heat_marks_top_consumer:
  assumes "full_rows rows" "i < VALUE_COLS" "ProcessRow d \<in> set rows"
  shows "\<exists>heat. set_heat (max_values rows (replicate VALUE_COLS 0)) (ProcessRow d) = ProcessRow (d\<lparr>rd_heat := heat\<rparr>) \<and>
    ProcessRow (d\<lparr>rd_heat := heat\<rparr>) \<in> set (normalize_heat rows) \<and>
    0 \<le> heat ! i \<and> heat ! i \<le> 1 \<and> (\<not> value_known d i \<longrightarrow> heat ! i = 0) \<and>
    (heat ! i = 1 \<longleftrightarrow> value_known d i \<and> 0 < rd_values d ! i \<and>
      (\<forall>d'. ProcessRow d' \<in> set rows \<and> value_known d' i \<longrightarrow> rd_values d' ! i \<le> rd_values d ! i))"
proof -
  let ?most = "max_values rows (replicate VALUE_COLS 0)"
  let ?heat = "map (\<lambda>i. if value_known d i then norm (rd_values d ! i) (?most ! i) else 0) [0..<VALUE_COLS]"
  let ?vs = "{v. Some v \<in> known_value i ` set rows}"
  have vs: "v \<in> ?vs \<longleftrightarrow> (\<exists>d'. ProcessRow d' \<in> set rows \<and> value_known d' i \<and> v = rd_values d' ! i)" for v
  proof -
    have "Some v = known_value i r \<longleftrightarrow> (\<exists>d'. r = ProcessRow d' \<and> value_known d' i \<and> v = rd_values d' ! i)" for r
      by (cases r) (simp_all add: known_value_def)
    then show ?thesis unfolding image_iff mem_Collect_eq by metis
  qed
  have top: "?most ! i \<in> insert 0 ?vs" "\<forall>v\<in>?vs. v \<le> ?most ! i"
    using max_values_spec [OF assms(1,2), of "replicate VALUE_COLS 0"] assms(2) by auto
  have one: "norm (rd_values d ! i) (?most ! i) = 1 \<longleftrightarrow>
      0 < rd_values d ! i \<and> (\<forall>v\<in>?vs. v \<le> rd_values d ! i)" if "value_known d i"
  proof -
    have mem: "rd_values d ! i \<in> ?vs" using vs assms(3) that by blast
    with top(2) have "rd_values d ! i \<le> ?most ! i" by blast
    from norm_top [OF this] mem top show ?thesis by (auto simp: antisym)
  qed
  have top_value: "(\<forall>v\<in>?vs. v \<le> rd_values d ! i) \<longleftrightarrow>
      (\<forall>d'. ProcessRow d' \<in> set rows \<and> value_known d' i \<longrightarrow> rd_values d' ! i \<le> rd_values d ! i)"
    unfolding Ball_def vs by (simp only: imp_ex imp_conjL conj_imp_eq_imp_imp) metis
  have hi: "?heat ! i = (if value_known d i then norm (rd_values d ! i) (?most ! i) else 0)"
    using assms(2) by simp
  show ?thesis
  proof (intro exI [of _ ?heat] conjI)
    show "set_heat ?most (ProcessRow d) = ProcessRow (d\<lparr>rd_heat := ?heat\<rparr>)" by simp
    then show "ProcessRow (d\<lparr>rd_heat := ?heat\<rparr>) \<in> set (normalize_heat rows)"
      using assms(3) unfolding normalize_heat_def by (metis image_eqI set_map)
    show "0 \<le> ?heat ! i" "?heat ! i \<le> 1" "\<not> value_known d i \<longrightarrow> ?heat ! i = 0"
      unfolding hi by (simp_all add: norm_range)
    show "?heat ! i = 1 \<longleftrightarrow> value_known d i \<and> 0 < rd_values d ! i \<and>
      (\<forall>d'. ProcessRow d' \<in> set rows \<and> value_known d' i \<longrightarrow> rd_values d' ! i \<le> rd_values d ! i)"
    proof (cases "value_known d i")
      case True
      from one [OF True] show ?thesis
        unfolding hi top_value [symmetric] by (simp only: True if_True simp_thms)
    next
      case False
      then show ?thesis unfolding hi by simp
    qed
  qed
qed

section \<open>End task\<close>

lemma resolve_targets_ok:
  "set (map fst (resolve_targets snapshot seen is)) \<subseteq> set is - seen \<and>
   distinct (map fst (resolve_targets snapshot seen is)) \<and>
   (\<forall>i\<in>set (map fst (resolve_targets snapshot seen is)). identity_is_live (Some snapshot) i)"
proof (induction snapshot seen "is" rule: resolve_targets.induct)
  case (2 snapshot seen i "is")
  show ?case
  proof (cases "i \<in> seen \<or> \<not> identity_is_live (Some snapshot) i")
    case True
    with 2(1,2) show ?thesis by (cases "i \<in> seen") (simp_all, blast)
  next
    case False
    then have live: "i \<notin> seen" "identity_is_live (Some snapshot) i" by simp_all
    show ?thesis
    proof (cases "option_filter (\<lambda>p. \<not> pe_synthetic p) (find_process snapshot (pi_pid i))")
      case None
      with live 2(3) [OF live(1) _ None] show ?thesis by (simp, blast)
    next
      case (Some p)
      let ?rest = "map fst (resolve_targets snapshot (insert i seen) is)"
      have "map fst (resolve_targets snapshot seen (i # is)) = i # ?rest" using live Some by simp
      moreover have "set ?rest \<subseteq> set is - insert i seen" "distinct ?rest"
        "\<forall>i\<in>set ?rest. identity_is_live (Some snapshot) i"
        using live 2(4) [OF live(1) _ Some] by blast+
      ultimately show ?thesis using live by (simp only: list.set distinct.simps) blast
    qed
  qed
qed simp

lemma fold_represent:
  "set (snd (fold (represent expanded selected) rows (matched, represented))) \<subseteq>
     set represented \<union> {i. \<exists>d. ProcessRow d \<in> set rows \<and> i \<in> set (rd_termination_targets d) \<and>
       identity_of d \<in> selected \<and> \<not> (rd_aggregate d \<and> rd_pid d \<in> expanded)}"
proof (induction rows arbitrary: matched represented)
  case (Cons r rows)
  obtain m' r' where s: "represent expanded selected r (matched, represented) = (m', r')" by fastforce
  have "set r' \<subseteq> set represented \<union> {i. \<exists>d. r = ProcessRow d \<and> i \<in> set (rd_termination_targets d) \<and>
       identity_of d \<in> selected \<and> \<not> (rd_aggregate d \<and> rd_pid d \<in> expanded)}"
    using s by (auto simp: represent_def split: display_row.splits if_splits)
  with Cons.IH [of m' r'] show ?case by (simp add: s) blast
qed simp

text \<open>
  What End task reaches from the Processes page. Every target is a live process of the snapshot
  that is not a pseudo row, is listed once, and either is itself selected or is among the
  processes that a selected row, not an expanded head, stands for.
\<close>

theorem end_task_confined:
  "distinct (map fst (termination_targets_for_selection tx snapshot search col asc expanded collapsed sel)) \<and>
   set (map fst (termination_targets_for_selection tx snapshot search col asc expanded collapsed sel)) \<subseteq>
     {i. identity_is_live snapshot i \<and>
      (i \<in> set (items sel) \<or>
       (\<exists>s d. snapshot = Some s \<and> ProcessRow d \<in> set (build_display_rows tx s search col asc expanded collapsed) \<and>
         identity_of d \<in> set (items sel) \<and> \<not> (rd_aggregate d \<and> rd_pid d \<in> expanded) \<and>
         i \<in> set (rd_termination_targets d)))}"
proof (cases snapshot)
  case None
  then show ?thesis by (simp add: termination_targets_for_selection_def)
next
  case (Some s)
  define rows where "rows = build_display_rows tx s search col asc expanded collapsed"
  obtain m r where mr: "fold (represent expanded (set (items sel))) rows ({}, []) = (m, r)" by fastforce
  define wanted where "wanted = r @ filter (\<lambda>i. i \<notin> m) (remdups (items sel))"
  have "termination_targets_for_selection tx snapshot search col asc expanded collapsed sel =
      resolve_targets s {} wanted"
    by (simp add: termination_targets_for_selection_def Some rows_def [symmetric] mr wanted_def
        resolve_termination_targets_def)
  moreover have "i \<in> set (items sel) \<or> (\<exists>d. ProcessRow d \<in> set rows \<and> identity_of d \<in> set (items sel) \<and>
      \<not> (rd_aggregate d \<and> rd_pid d \<in> expanded) \<and> i \<in> set (rd_termination_targets d))" if "i \<in> set wanted" for i
    using fold_represent [of expanded "set (items sel)" rows "{}" "[]"] that by (auto simp: mr wanted_def)
  ultimately show ?thesis
    using resolve_targets_ok [of s "{}" wanted] by (simp add: Some rows_def) blast
qed

definition heat_sample :: "nat \<Rightarrow> rat \<Rightarrow> row_data" where
  "heat_sample pid cpu = (case make_own_row \<lparr>tx_service_host = [], tx_terminated = id\<rparr>
     ((new_entry (of_nat pid) ''a.exe'')\<lparr>pe_cpu_pct := cpu\<rparr>) 0 of ProcessRow d \<Rightarrow> d)"

theorem heat_marks_top_consumer_witness:
  "\<exists>heat. ProcessRow ((heat_sample 4 30)\<lparr>rd_heat := heat\<rparr>) \<in>
      set (normalize_heat [ProcessRow (heat_sample 4 30), ProcessRow (heat_sample 8 20)]) \<and> heat ! 0 = 1"
proof -
  let ?rows = "[ProcessRow (heat_sample 4 30), ProcessRow (heat_sample 8 20)]"
  have sample: "length (rd_values (heat_sample pid cpu)) = VALUE_COLS" "rd_values (heat_sample pid cpu) ! 0 = cpu"
    "value_known (heat_sample pid cpu) 0" for pid cpu
    by (simp_all add: heat_sample_def make_own_row_def own_values_def VALUE_COLS_def value_known_def
        NET_VALUE_def DISK_ACT_VALUE_def GPU_VALUE_def)
  have "full_rows ?rows" by (simp add: full_rows_def sample)
  moreover have "0 < VALUE_COLS" "ProcessRow (heat_sample 4 30) \<in> set ?rows" by (simp_all add: VALUE_COLS_def)
  ultimately obtain heat
    where "ProcessRow ((heat_sample 4 30)\<lparr>rd_heat := heat\<rparr>) \<in> set (normalize_heat ?rows)"
      "heat ! 0 = 1 \<longleftrightarrow> value_known (heat_sample 4 30) 0 \<and> 0 < rd_values (heat_sample 4 30) ! 0 \<and>
        (\<forall>d'. ProcessRow d' \<in> set ?rows \<and> value_known d' 0 \<longrightarrow> rd_values d' ! 0 \<le> rd_values (heat_sample 4 30) ! 0)"
    using heat_marks_top_consumer [of ?rows 0 "heat_sample 4 30"] by blast
  moreover have "rd_values d' ! 0 \<le> 30" if "ProcessRow d' \<in> set ?rows" for d'
    using that by (auto simp: sample)
  ultimately have "heat ! 0 = 1" by (simp only: sample) simp
  then show ?thesis
    using \<open>ProcessRow ((heat_sample 4 30)\<lparr>rd_heat := heat\<rparr>) \<in> set (normalize_heat ?rows)\<close> by blast
qed

section \<open>Keys\<close>

definition real_rows :: "display_row list \<Rightarrow> process_identity set" where
  "real_rows rows = {identity_of d | d. ProcessRow d \<in> set rows \<and> \<not> rd_synthetic d}"

text \<open>A selection of rows that exist, with its primary row among them.\<close>

definition selects_within :: "process_identity set \<Rightarrow> selection \<Rightarrow> bool" where
  "selects_within R s \<longleftrightarrow> set (items s) \<subseteq> R \<and> sel_inv s"

lemma selects_single: "i \<in> R \<Longrightarrow> selects_within R (select_single i s)"
  by (simp add: selects_within_def inv_single) (simp add: select_single_def)

lemma selects_all: "set order \<subseteq> R \<Longrightarrow> selects_within R (select_all order s)"
  by (simp add: selects_within_def inv_all) (simp add: select_all_def)

lemma slice_incl_subset: "set (slice_incl low high xs) \<subseteq> set xs"
  unfolding slice_incl_def by (meson order_trans set_drop_subset set_take_subset)

lemma selects_range:
  assumes "set order \<subseteq> R" "i \<in> set order"
  shows "selects_within R (select_range i order s)"
proof -
  have "set (items (select_range i order s)) \<subseteq> insert i (set order)"
    using slice_incl_subset [of _ _ order]
    by (auto simp: select_range_def select_single_def split: option.splits if_splits)
  with assms show ?thesis unfolding selects_within_def by (auto simp: inv_range)
qed

lemma selects_toggle:
  assumes "selects_within R s" "i \<in> R"
  shows "selects_within R (sel_toggle i order s)"
proof -
  have "set (remove_at n xs) \<subseteq> set xs" for n and xs :: "process_identity list"
    unfolding remove_at_def by (auto dest: in_set_takeD in_set_dropD)
  then have "set (items (sel_toggle i order s)) \<subseteq> insert i (set (items s))"
    by (auto simp: sel_toggle_def sort_to_def Let_def split: option.splits)
  with assms show ?thesis unfolding selects_within_def by (auto simp: inv_toggle)
qed

lemma map_filter_in: "x \<in> set (List.map_filter f xs) \<Longrightarrow> \<exists>y\<in>set xs. f y = Some x"
  by (induction xs) (auto simp: List.map_filter_def split: if_splits)

lemma case_row_Some:
  "(case r of GroupHeader g n \<Rightarrow> None | ProcessRow row \<Rightarrow> if P row then Some row else None) = Some d \<longleftrightarrow>
   r = ProcessRow d \<and> P d"
  by (cases r) auto

lemma selectable_real: "d \<in> set (selectable_rows rows expanded) \<Longrightarrow> identity_of d \<in> real_rows rows"
  unfolding selectable_rows_def real_rows_def
  by (drule map_filter_in) (auto simp: case_row_Some row_is_selectable_def)

definition page_ok :: "display_row list \<Rightarrow> page_state \<Rightarrow> bool" where
  "page_ok rows st \<longleftrightarrow> selects_within (real_rows rows) (pg_selection st)"

lemma ok_select_row: "identity_of d \<in> real_rows rows \<Longrightarrow> page_ok rows (select_row d st)"
  by (simp add: page_ok_def select_row_def selects_single)

lemma pg_select_row [simp]: "pg_selection (select_row d st) = select_single (identity_of d) (pg_selection st)"
  by (simp add: select_row_def)

lemma ok_toggle [simp]: "page_ok rows (toggle_expanded pid st) = page_ok rows st"
  by (simp add: page_ok_def toggle_expanded_def)

lemma ok_arrow:
  assumes "page_ok rows st"
  shows "page_ok rows (arrow_key ki rows st)"
proof -
  have child: "identity_of d \<in> real_rows rows" if "first_child rows ix cur = Some d" for ix cur d
  proof -
    from that have "Suc ix < length rows" "rows ! Suc ix = ProcessRow d" "\<not> rd_synthetic d"
      by (auto simp: first_child_def split: if_splits display_row.splits)
    then show ?thesis unfolding real_rows_def by (metis (mono_tags, lifting) mem_Collect_eq nth_mem)
  qed
  have parent: "identity_of d \<in> real_rows rows" if "parent_row (take ix rows) cur = Some d" for ix cur d
  proof -
    from that have "d \<in> set (List.map_filter
        (\<lambda>r. case r of GroupHeader g n \<Rightarrow> None
          | ProcessRow parent \<Rightarrow>
              if \<not> rd_synthetic parent \<and> rd_depth parent < rd_depth cur then Some parent else None)
        (rev (take ix rows)))"
      unfolding parent_row_def by (rule first_opt_in_set)
    from map_filter_in [OF this] have "ProcessRow d \<in> set (take ix rows)" "\<not> rd_synthetic d"
      by (auto simp: case_row_Some)
    then show ?thesis unfolding real_rows_def by (auto dest: in_set_takeD)
  qed
  show ?thesis
    unfolding arrow_key_def
    using assms child parent
    by (auto simp: Let_def page_ok_def selects_single toggle_expanded_def
        split: option.splits prod.splits)
qed

lemma ok_move:
  assumes "page_ok rows st"
  shows "page_ok rows (move_selection ki (selectable_rows rows expanded) pos st)"
proof -
  let ?prows = "selectable_rows rows expanded"
  have order: "set (map identity_of ?prows) \<subseteq> real_rows rows" using selectable_real by auto
  have row: "page_ok rows (if ki_shift ki
      then st\<lparr>pg_selection := select_range (identity_of (?prows ! n)) (map identity_of ?prows) (pg_selection st),
              pg_scroll_to_pid := Some (rd_pid (?prows ! n))\<rparr>
      else select_row (?prows ! n) st)" if "n < length ?prows" for n
  proof -
    have "?prows ! n \<in> set ?prows" using that by simp
    then have "identity_of (?prows ! n) \<in> set (map identity_of ?prows)"
      "identity_of (?prows ! n) \<in> real_rows rows" using selectable_real by auto
    then show ?thesis using selects_range [OF order] by (simp add: selects_single page_ok_def)
  qed
  with assms show ?thesis by (auto simp: move_selection_def Let_def split: option.split)
qed

lemma ok_action:
  assumes "page_ok rows st"
  shows "page_ok rows (row_action ki (selectable_rows rows expanded) st)"
proof -
  have "identity_of d \<in> real_rows rows"
    if "Option.bind (primary_pid st) (\<lambda>pid. find (\<lambda>row. rd_pid row = pid) (selectable_rows rows expanded)) = Some d" for d
    using that selectable_real [of d rows expanded] nth_mem
    by (cases "primary_pid st") (auto simp: find_Some_iff)
  with assms show ?thesis
    by (auto simp: row_action_def page_ok_def intro!: selects_toggle split: option.splits)
qed

lemma ok_reselect: "page_ok rows st \<Longrightarrow> page_ok rows (reselect_vanished ki (selectable_rows rows expanded) st)"
proof -
  have "selection_fallback_index x (length ps) < length ps" if "ps \<noteq> []" for x and ps :: "row_data list"
    using that by (cases ps) (auto simp: selection_fallback_index_def)
  then show "page_ok rows st \<Longrightarrow> page_ok rows (reselect_vanished ki (selectable_rows rows expanded) st)"
    using selectable_real [of _ rows expanded]
    by (auto simp: reselect_vanished_def intro!: ok_select_row)
qed

text \<open>
  Whatever keys are pressed, the selection stays inside the table. If it held only rows that are
  shown and stand for real processes, then so it does after a frame of keyboard input, and its
  primary row is one of the selected ones; it never reaches a group header or a pseudo row.
\<close>

theorem keys_select_real_rows:
  assumes "set (items (pg_selection st)) \<subseteq> real_rows rows" "sel_inv (pg_selection st)"
  shows "set (items (pg_selection (handle_keyboard_navigation ki rows st))) \<subseteq> real_rows rows \<and>
    sel_inv (pg_selection (handle_keyboard_navigation ki rows st))"
proof -
  let ?prows = "selectable_rows rows (pg_expanded st)"
  have "page_ok rows st" using assms by (simp add: page_ok_def selects_within_def)
  define st1 where "st1 = reselect_vanished ki ?prows st"
  define pos where "pos = Option.bind (primary_pid st1) (\<lambda>pid. position (\<lambda>row. rd_pid row = pid) ?prows)"
  define st2 where "st2 = st1\<lparr>pg_last_selected_pos := pos\<rparr>"
  define st3 where "st3 = (if ki_select_all ki
    then st2\<lparr>pg_selection := select_all (map identity_of ?prows) (pg_selection st2)\<rparr> else st2)"
  have "page_ok rows st1" using ok_reselect [OF \<open>page_ok rows st\<close>] by (simp add: st1_def)
  then have "page_ok rows st2" by (simp add: st2_def page_ok_def)
  moreover have "set (map identity_of ?prows) \<subseteq> real_rows rows" using selectable_real by auto
  ultimately have "page_ok rows st3" by (simp add: st3_def page_ok_def selects_all)
  then have "page_ok rows (row_action ki ?prows (move_selection ki ?prows pos st3))"
    by (intro ok_action ok_move)
  moreover have "handle_keyboard_navigation ki rows st =
      (let st4 = row_action ki ?prows (move_selection ki ?prows pos st3)
       in if ki_nav_gate ki then arrow_key ki rows st4 else st4)"
    by (simp add: handle_keyboard_navigation_def Let_def st3_def st2_def st1_def pos_def)
  ultimately have "page_ok rows (handle_keyboard_navigation ki rows st)"
    by (simp add: Let_def ok_arrow)
  then show ?thesis by (simp add: page_ok_def selects_within_def)
qed

definition sample_page :: page_state where
  "sample_page = \<lparr>pg_selection = empty_selection, pg_expanded = {}, pg_scroll_to_pid = None,
     pg_view_generation = 0, pg_last_selected_pos = None, pg_pending_details = None, pg_details_tab = False\<rparr>"

definition sample_keys :: key_input where
  "sample_keys = \<lparr>ki_content_has_focus = True, ki_select_all = False, ki_page_rows = 10, ki_nav = Some Next,
     ki_shift = True, ki_row_action_gate = True, ki_space = False, ki_enter = False, ki_nav_gate = True,
     ki_left = False, ki_right = True\<rparr>"

theorem keys_select_real_rows_witness:
  "set (items (pg_selection (handle_keyboard_navigation sample_keys
      [ProcessRow (heat_sample 4 30), ProcessRow (heat_sample 8 20)] sample_page))) \<subseteq>
    real_rows [ProcessRow (heat_sample 4 30), ProcessRow (heat_sample 8 20)] \<and>
   sel_inv (pg_selection (handle_keyboard_navigation sample_keys
      [ProcessRow (heat_sample 4 30), ProcessRow (heat_sample 8 20)] sample_page))"
  by (rule keys_select_real_rows) (simp_all add: sample_page_def empty_selection_def sel_inv_def)

section \<open>The promotion loop\<close>

text \<open>One iteration of the loop of \<open>promote_busy_external_tasks\<close>, which keeps no set of visited pids.\<close>

inductive promote_step ::
    "(u32, process_entry list) btree \<Rightarrow> u32 set \<Rightarrow> u32 list \<times> (u32, proc_category) btree \<Rightarrow>
     u32 list \<times> (u32, proc_category) btree \<Rightarrow> bool"
  for raw_children :: "(u32, process_entry list) btree" and app_roots :: "u32 set" where
  pop: "c = bt_insert pid Background categories \<Longrightarrow>
    promote_step raw_children app_roots (pid # stack, categories)
      (rev (movable_kids raw_children app_roots c pid) @ stack, c)"

inductive_cases promote_stepE: "promote_step raw_children app_roots s t"

lemma promote_step_less:
  assumes "promote_step raw_children app_roots s t"
  shows "(t, s) \<in> measures [\<lambda>(stack, categories). card (app_pids categories),
    \<lambda>(stack, categories). sum_list (map (stack_weight raw_children app_roots categories) stack)]"
proof -
  from assms obtain c pid categories stack where st: "c = bt_insert pid Background categories"
    "s = (pid # stack, categories)" "t = (rev (movable_kids raw_children app_roots c pid) @ stack, c)"
    by (auto elim: promote_stepE)
  show ?thesis
  proof (cases "pid \<in> app_pids categories")
    case True
    then have "card (app_pids c) < card (app_pids categories)"
      using card_Diff1_less [OF finite_app_pids True] by (simp only: st app_pids_background)
    then show ?thesis by (simp add: st)
  next
    case False
    then have "app_pids c = app_pids categories" by (simp add: st app_pids_background)
    with move_step [OF False, of raw_children app_roots stack] show ?thesis by (simp add: st)
  qed
qed

text \<open>
  The promotion loop ends. It keeps no set of visited processes; still it has no infinite run
  from any stack and categories, even where parent pids run in a circle, and its run from the busy
  tasks ends with an empty stack and the categories of the model.
\<close>

theorem promotion_terminates:
  "wf {(t, s). promote_step raw_children app_roots s t} \<and>
   (promote_step raw_children app_roots)\<^sup>*\<^sup>* (stack, categories)
     ([], move_to_background raw_children app_roots stack categories)"
proof
  let ?R = "measures [\<lambda>(stack, categories). card (app_pids categories),
    \<lambda>(stack, categories). sum_list (map (stack_weight raw_children app_roots categories) stack)]"
  have "{(t, s). promote_step raw_children app_roots s t} \<subseteq> ?R"
    using promote_step_less by blast
  then show "wf {(t, s). promote_step raw_children app_roots s t}" by (rule wf_subset [OF wf_measures])
  show "(promote_step raw_children app_roots)\<^sup>*\<^sup>* (stack, categories)
     ([], move_to_background raw_children app_roots stack categories)"
  proof (induction raw_children app_roots stack categories rule: move_to_background.induct)
    case (1 raw_children app_roots categories)
    then show ?case by simp
  next
    case (2 raw_children app_roots pid stack categories)
    let ?c = "bt_insert pid Background categories"
    have "promote_step raw_children app_roots (pid # stack, categories)
        (rev (movable_kids raw_children app_roots ?c pid) @ stack, ?c)"
      by (rule promote_step.pop [OF refl])
    also have "(promote_step raw_children app_roots)\<^sup>*\<^sup>* (rev (movable_kids raw_children app_roots ?c pid) @ stack, ?c)
        ([], move_to_background raw_children app_roots (pid # stack) categories)"
      using 2 [OF refl] by (simp add: move_to_background.simps Let_def)
    finally (converse_rtranclp_into_rtranclp) show ?case .
  qed
qed

end
