(* ===== verification/Process_Sections.thy ===== *)
theory Process_Sections
  imports Process_Page
begin

text \<open>
  The flat sections of the Processes page: which processes the family groups and the runs of
  siblings leave without a row, and when there are none.
\<close>

section \<open>Families\<close>

lemma family_walk_members:
  "(\<And>p. set (kids_of children p) \<subseteq> N) \<Longrightarrow> set (family_walk head children stack seen) \<subseteq> N \<and>
   pe_pid ` set (family_walk head children stack seen) \<inter> seen = {}"
proof (induction head children stack seen rule: family_walk.induct)
  case (1 head children seen)
  then show ?case by simp
next
  case (2 head children cur stack seen)
  obtain joined seen' where t: "take_kids head (kids_of children (pe_pid cur)) seen = (joined, seen')"
    by fastforce
  have joined: "set joined \<subseteq> N" "pe_pid ` set joined \<inter> seen = {}"
    using take_kids_joined [of head "kids_of children (pe_pid cur)" seen] 2(2) [of "pe_pid cur"] by (auto simp: t)
  have "seen \<subseteq> seen'" using take_kids_seen [of head "kids_of children (pe_pid cur)" seen] by (auto simp: t)
  with joined 2(1) [OF t [symmetric] refl 2(2)] show ?case
    by (auto simp: family_walk.simps(2) t)
qed

lemma application_family_members:
  assumes "\<And>q. set (kids_of children q) \<subseteq> N" "p \<in> N"
  shows "set (application_family p children) \<subseteq> N \<and> pe_pid p \<notin> pe_pid ` set (tl (application_family p children))"
  using family_walk_members [of children N p "[p]" "{pe_pid p}", OF assms(1)] assms(2)
  by (auto simp: application_family_def)

section \<open>Who is represented\<close>

text \<open>
  No head of a group has been swallowed by another group, and every process that was swallowed is
  in the group of a head.
\<close>

definition groups_hold :: "process_entry list \<Rightarrow> family_map \<Rightarrow> u32 set \<Rightarrow> bool" where
  "groups_hold members family_heads swallowed \<longleftrightarrow>
     (\<forall>h fam. bt_get family_heads h = Some fam \<longrightarrow>
        set fam \<subseteq> set members \<and> h \<in> pe_pid ` set fam \<and> h \<notin> swallowed) \<and>
     (\<forall>q\<in>swallowed. \<exists>h fam. bt_get family_heads h = Some fam \<and> q \<in> pe_pid ` set fam)"

lemma groups_hold_add:
  assumes "groups_hold members family_heads swallowed" "bt_get family_heads h = None"
    and "set fam \<subseteq> set members" "fam \<noteq> []" "pe_pid (hd fam) = h" "h \<notin> swallowed"
    and "pe_pid ` set (tl fam) \<inter> insert h {k. bt_get family_heads k \<noteq> None} = {}"
  shows "groups_hold members (bt_insert h fam family_heads) (swallowed \<union> pe_pid ` set (tl fam))"
proof -
  obtain m rest where fam: "fam = m # rest" using assms(4) by (cases fam) auto
  have "\<exists>g f. bt_get (bt_insert h fam family_heads) g = Some f \<and> q \<in> pe_pid ` set f"
    if "q \<in> swallowed \<union> pe_pid ` set (tl fam)" for q
  proof (cases "q \<in> swallowed")
    case True
    with assms(1) obtain g f where "bt_get family_heads g = Some f" "q \<in> pe_pid ` set f"
      unfolding groups_hold_def by blast
    moreover from this(1) assms(2) have "g \<noteq> h" by auto
    ultimately show ?thesis by (auto simp: bt_get_insert)
  next
    case False
    with that fam show ?thesis by (intro exI [of _ h] exI [of _ fam]) (auto simp: bt_get_insert)
  qed
  moreover have "set f \<subseteq> set members \<and> g \<in> pe_pid ` set f \<and> g \<notin> swallowed \<union> pe_pid ` set (tl fam)"
    if "bt_get (bt_insert h fam family_heads) g = Some f" for g f
  proof (cases "g = h")
    case True
    with that assms(3,5,6,7) fam show ?thesis by (auto simp: bt_get_insert)
  next
    case False
    with that have "bt_get family_heads g = Some f" by (simp add: bt_get_insert)
    with assms(1,7) show ?thesis unfolding groups_hold_def by blast
  qed
  ultimately show ?thesis unfolding groups_hold_def by blast
qed

text \<open>
  Parents first: no process of the section joins the family of one that comes later.
\<close>

definition parents_first :: "(u32, process_entry list) btree \<Rightarrow> process_entry list \<Rightarrow> bool" where
  "parents_first children members \<longleftrightarrow>
     sorted_wrt (\<lambda>p q. pe_pid p \<notin> pe_pid ` set (tl (application_family q children))) members"

lemma claim_families_hold:
  assumes "\<And>p. set (kids_of children p) \<subseteq> set members"
    and "distinct (map pe_pid ns)" "parents_first children ns" "set ns \<subseteq> set members"
  shows "groups_hold members (fst (claim_families ns children)) (snd (claim_families ns children)) \<and>
    {h. bt_get (fst (claim_families ns children)) h \<noteq> None} \<subseteq> pe_pid ` set ns"
  using assms(2-4)
proof (induction ns rule: rev_induct)
  case Nil
  show ?case by (simp add: claim_families_def groups_hold_def)
next
  case (snoc p ns)
  obtain heads sw where state: "claim_families ns children = (heads, sw)" by fastforce
  have first: "parents_first children ns" "\<forall>q\<in>set ns. pe_pid q \<notin> pe_pid ` set (tl (application_family p children))"
    using snoc.prems(2) by (auto simp: parents_first_def sorted_wrt_append)
  have IH: "groups_hold members heads sw" "{h. bt_get heads h \<noteq> None} \<subseteq> pe_pid ` set ns"
    using snoc.IH first(1) snoc.prems(1,3) by (auto simp: state)
  let ?fam = "application_family p children"
  have fam: "set ?fam \<subseteq> set members" "pe_pid p \<notin> pe_pid ` set (tl ?fam)"
    using application_family_members [of children "set members" p] assms(1) snoc.prems(3) by auto
  have new: "pe_pid p \<notin> pe_pid ` set ns" using snoc.prems(1) by simp
  have step: "claim_families (ns @ [p]) children = claim_family children p (heads, sw)"
    using state by (simp add: claim_families_def)
  show ?case
  proof (cases "pe_pid p \<in> sw \<or> length ?fam \<le> 1")
    case True
    then have "claim_family children p (heads, sw) = (heads, sw)" by (auto simp: claim_family_def)
    moreover have "pe_pid ` set ns \<subseteq> pe_pid ` set (ns @ [p])" by auto
    ultimately show ?thesis using IH unfolding step by (simp only: fst_conv snd_conv) blast
  next
    case False
    have fresh: "bt_get heads (pe_pid p) = None" using IH(2) new by blast
    have heads: "h \<notin> pe_pid ` set (tl ?fam)" if "bt_get heads h \<noteq> None" for h
    proof -
      from that IH(2) have "h \<in> pe_pid ` set ns" by blast
      with first(2) show ?thesis by auto
    qed
    have "pe_pid ` set (tl ?fam) \<inter> insert (pe_pid p) {h. bt_get heads h \<noteq> None} = {}"
    proof (rule equals0I)
      fix h assume "h \<in> pe_pid ` set (tl ?fam) \<inter> insert (pe_pid p) {h. bt_get heads h \<noteq> None}"
      with fam(2) have "bt_get heads h \<noteq> None" "h \<in> pe_pid ` set (tl ?fam)" by auto
      with heads show False by blast
    qed
    with fresh have "groups_hold members (bt_insert (pe_pid p) ?fam heads) (sw \<union> pe_pid ` set (tl ?fam))"
      using groups_hold_add [OF IH(1), of "pe_pid p" ?fam] fam(1) False by (simp add: application_family_def)
    moreover have "claim_family children p (heads, sw) =
        (bt_insert (pe_pid p) ?fam heads, sw \<union> pe_pid ` set (tl ?fam))"
      using False by (simp add: claim_family_def Let_def)
    moreover have "{h. bt_get (bt_insert (pe_pid p) ?fam heads) h \<noteq> None} =
        insert (pe_pid p) {h. bt_get heads h \<noteq> None}"
      by (auto simp: bt_get_insert)
    ultimately show ?thesis using IH(2) unfolding step by (simp only: fst_conv snd_conv) auto
  qed
qed

section \<open>Runs of siblings\<close>

lemma distinct_submset:
  assumes "mset xs \<subseteq># mset ys" "distinct ys"
  shows "distinct xs"
  unfolding distinct_count_atmost_1
proof
  fix a
  have "count (mset xs) a \<le> count (mset ys) a" using assms(1) by (rule mset_subset_eq_count)
  moreover have "count (mset ys) a \<le> 1" using assms(2) by (simp add: distinct_count_atmost_1)
  moreover have "count (mset xs) a = 0 \<longleftrightarrow> a \<notin> set xs" by (rule count_mset_0_iff)
  ultimately have "count (mset xs) a = 1" if "a \<in> set xs" using that by linarith
  then show "count (mset xs) a = (if a \<in> set xs then 1 else 0)" by simp
qed

lemma mset_push_run: "mset (concat (map snd (push_run key p runs))) = add_mset p (mset (concat (map snd runs)))"
  by (induction key p runs rule: push_run.induct) auto

lemma sibling_runs_members:
  "mset (concat (map snd (sibling_runs members heads sw))) \<subseteq>#
     mset (filter (\<lambda>p. pe_pid p \<notin> sw \<and> bt_get heads (pe_pid p) = None) members)"
proof (induction members rule: rev_induct)
  case Nil
  show ?case by (simp add: sibling_runs_def)
next
  case (snoc p members)
  have step: "sibling_runs (members @ [p]) heads sw =
      (if pe_pid p \<in> sw \<or> bt_get heads (pe_pid p) \<noteq> None then sibling_runs members heads sw
       else case sibling_run_key p of None \<Rightarrow> sibling_runs members heads sw
         | Some key \<Rightarrow> push_run key p (sibling_runs members heads sw))"
    by (simp only: sibling_runs_def foldl_append foldl.simps)
  show ?case
  proof (cases "pe_pid p \<in> sw \<or> bt_get heads (pe_pid p) \<noteq> None")
    case True
    with snoc show ?thesis unfolding step by (auto simp del: mset_filter)
  next
    case False
    then have "mset (filter (\<lambda>p. pe_pid p \<notin> sw \<and> bt_get heads (pe_pid p) = None) (members @ [p])) =
        add_mset p (mset (filter (\<lambda>p. pe_pid p \<notin> sw \<and> bt_get heads (pe_pid p) = None) members))"
      by (simp del: mset_filter)
    with False snoc show ?thesis
      unfolding step
      by (auto simp: mset_push_run simp del: mset_filter mset_concat split: option.split
          intro: subset_mset.order_trans [OF snoc])
  qed
qed

lemma claim_runs_hold:
  assumes "groups_hold members heads sw" "distinct (map pe_pid (concat runs))" "set (concat runs) \<subseteq> set members"
    and "\<forall>p\<in>set (concat runs). pe_pid p \<notin> sw \<and> bt_get heads (pe_pid p) = None"
  shows "groups_hold members (fst (fold claim_run runs (heads, sw))) (snd (fold claim_run runs (heads, sw)))"
  using assms
proof (induction runs arbitrary: heads sw)
  case Nil
  then show ?case by simp
next
  case (Cons run runs)
  show ?case
  proof (cases "length run < 2")
    case True
    then have "claim_run run (heads, sw) = (heads, sw)" by (simp add: claim_run_def)
    moreover have "\<forall>p\<in>set (concat runs). pe_pid p \<notin> sw \<and> bt_get heads (pe_pid p) = None"
      using Cons.prems(4) by simp
    ultimately show ?thesis using Cons.IH [OF Cons.prems(1)] Cons.prems(2,3) by simp
  next
    case False
    define sorted where "sorted = sort_by (\<lambda>a b. cmp (pe_pid a) (pe_pid b)) run"
    have same: "set sorted = set run" "distinct (map pe_pid sorted)" "sorted \<noteq> []"
      using Cons.prems(2) False by (auto simp: sorted_def simp flip: length_0_conv)
    then obtain m rest where s: "sorted = m # rest" by (cases sorted) auto
    have m: "m \<in> set run" "set rest \<subseteq> set run" "pe_pid m \<notin> pe_pid ` set rest"
      using same by (auto simp: s)
    have hold: "groups_hold members (bt_insert (pe_pid m) sorted heads) (sw \<union> pe_pid ` set (tl sorted))"
    proof (rule groups_hold_add [OF Cons.prems(1)])
      show "bt_get heads (pe_pid m) = None" "pe_pid m \<notin> sw" using Cons.prems(4) m(1) by auto
      show "set sorted \<subseteq> set members" "sorted \<noteq> []" "pe_pid (hd sorted) = pe_pid m"
        using Cons.prems(3) same by (auto simp: s)
      show "pe_pid ` set (tl sorted) \<inter> insert (pe_pid m) {k. bt_get heads k \<noteq> None} = {}"
        using Cons.prems(4) m(2,3) by (auto simp: s)
    qed
    have step: "claim_run run (heads, sw) =
        (bt_insert (pe_pid m) sorted heads, sw \<union> pe_pid ` set (tl sorted))"
      using False s by (simp add: claim_run_def sorted_def Let_def)
    have fresh: "pe_pid p \<notin> sw \<union> pe_pid ` set (tl sorted) \<and> bt_get (bt_insert (pe_pid m) sorted heads) (pe_pid p) = None"
      if "p \<in> set (concat runs)" for p
    proof -
      have "pe_pid p \<notin> pe_pid ` set run" using Cons.prems(2) that by (auto simp: disjoint_iff)
      with Cons.prems(4) that m show ?thesis by (auto simp: s bt_get_insert)
    qed
    have "distinct (map pe_pid (concat runs))" "set (concat runs) \<subseteq> set members"
      using Cons.prems(2,3) by simp_all
    from Cons.IH [OF hold this] fresh show ?thesis by (simp only: fold_simps step) blast
  qed
qed

lemma flat_groups_hold:
  assumes "\<And>p. set (kids_of children p) \<subseteq> set members"
    and "distinct (map pe_pid members)" "parents_first children members"
  shows "groups_hold members (fst (flat_groups members children)) (snd (flat_groups members children))"
proof -
  obtain heads sw where state: "claim_families members children = (heads, sw)" by fastforce
  let ?runs = "map snd (sibling_runs members heads sw)"
  have "groups_hold members heads sw"
    using claim_families_hold [OF assms subset_refl] by (simp add: state)
  note sub = sibling_runs_members [of members heads sw]
  have "set (concat ?runs) \<subseteq> set (filter (\<lambda>p. pe_pid p \<notin> sw \<and> bt_get heads (pe_pid p) = None) members)"
    using set_mset_mono [OF sub] by (simp only: set_mset_mset)
  moreover have "distinct (map pe_pid (concat ?runs))"
  proof -
    have "image_mset pe_pid (mset (concat ?runs)) \<subseteq># image_mset pe_pid (mset members)"
      by (rule image_mset_subseteq_mono [OF subset_mset.order_trans [OF sub]]) (simp add: multiset_filter_subset)
    then have "mset (map pe_pid (concat ?runs)) \<subseteq># mset (map pe_pid members)" by (simp only: mset_map)
    then show ?thesis using assms(2) by (rule distinct_submset)
  qed
  ultimately have "groups_hold members (fst (fold claim_run ?runs (heads, sw))) (snd (fold claim_run ?runs (heads, sw)))"
    by (intro claim_runs_hold [OF \<open>groups_hold members heads sw\<close>]) auto
  then show ?thesis by (simp add: flat_groups_def state)
qed

section \<open>Every process has a row\<close>

lemma kids_of_display: "set (kids_of (display_children_map ps category app_roots) q) \<subseteq> set ps"
  by (auto simp: display_children_map_def kids_of_children_by)

text \<open>
  C21: A flat section hides nobody, while parents come first. If no process of the section joins the
  family of one that comes later in the order of creation, which the code does not ensure, then every
  process of the section that is no pseudo process is what one of the rows at the top level stands
  for: its own row, or the row of its family or run, whose End task includes it.
\<close>

theorem flat_section_shows_everyone:
  assumes "distinct (map pe_pid members)"
    and "parents_first (display_children_map members category app_roots) members"
    and "p \<in> set members" "\<not> pe_synthetic p"
  shows "\<exists>d. ProcessRow d \<in> set (emit_flat_with_family_groups tx members
      (display_children_map members category app_roots) col asc expanded) \<and>
    rd_depth d = 0 \<and> process_identity_of p \<in> set (rd_termination_targets d)"
proof -
  let ?children = "display_children_map members category app_roots"
  obtain heads sw where state: "flat_groups members ?children = (heads, sw)" by fastforce
  have hold: "groups_hold members heads sw"
    using flat_groups_hold [OF kids_of_display assms(1,2)] by (simp add: state)
  have in_targets: "process_identity_of p \<in> set (targets_of fam)" if "p \<in> set fam" for fam
    using that assms(4) by (auto simp: targets_of_def)
  have head_row: ?thesis
    if h: "h \<in> set members" "pe_pid h \<notin> sw" "bt_get heads (pe_pid h) = Some fam" "p \<in> set fam" for h fam
    using h in_targets [OF h(4)]
    by (intro exI [of _ "case family_row tx (flat_values members heads sw) h fam of ProcessRow d \<Rightarrow> d"])
       (auto simp: emit_flat_with_family_groups_def state Let_def sort_entries_def family_row_def intro!: bexI [of _ h])
  have in_fam: "p \<in> set fam" if "pe_pid p \<in> pe_pid ` set fam" "set fam \<subseteq> set members" for fam
    using that key_inj [OF assms(1) assms(3)] by (metis imageE subsetD)
  show ?thesis
  proof (cases "pe_pid p \<in> sw")
    case True
    with hold obtain k fam where k: "bt_get heads k = Some fam" "pe_pid p \<in> pe_pid ` set fam"
      unfolding groups_hold_def by blast
    with hold have fam: "set fam \<subseteq> set members" "k \<in> pe_pid ` set fam" "k \<notin> sw"
      unfolding groups_hold_def by blast+
    then obtain h where "h \<in> set members" "k = pe_pid h" by blast
    with head_row [of h fam] k fam in_fam [OF k(2) fam(1)] show ?thesis by simp
  next
    case False
    show ?thesis
    proof (cases "bt_get heads (pe_pid p)")
      case (Some fam)
      with hold have "set fam \<subseteq> set members" "pe_pid p \<in> pe_pid ` set fam"
        unfolding groups_hold_def by blast+
      with head_row [OF assms(3) False Some] in_fam show ?thesis by blast
    next
      case None
      with False assms(3) show ?thesis
        by (intro exI [of _ "case make_own_row tx p 0 of ProcessRow d \<Rightarrow> d"])
           (auto simp: emit_flat_with_family_groups_def state Let_def sort_entries_def make_own_row_def
             intro!: bexI [of _ p])
    qed
  qed
qed

text \<open>A busy helper of a helper that was created before its vendor's main process.\<close>

definition vendor_main :: process_entry where
  "vendor_main = (new_entry 9000 ''vendor.exe'')\<lparr>pe_company := Some ''Vendor'', pe_start_epoch_s := Some 5\<rparr>"

definition vendor_helper :: process_entry where
  "vendor_helper = (new_entry 4500 ''vendorhelper.exe'')\<lparr>pe_ppid := Some 9000,
     pe_company := Some ''Vendor'', pe_start_epoch_s := Some 5\<rparr>"

definition vendor_busy :: process_entry where
  "vendor_busy = (new_entry 4600 ''vendorhelper.exe'')\<lparr>pe_ppid := Some 4500,
     pe_company := Some ''Vendor'', pe_start_epoch_s := Some 5, pe_cpu_pct := 5\<rparr>"

definition plain_texts :: ui_texts where
  "plain_texts = \<lparr>tx_service_host = ''Service Host'', tx_terminated = (\<lambda>s. s)\<rparr>"

theorem flat_section_shows_everyone_witness:
  "\<exists>d. ProcessRow d \<in> set (emit_flat_with_family_groups plain_texts [vendor_main, vendor_helper, vendor_busy]
      (display_children_map [vendor_main, vendor_helper, vendor_busy]
        [(4500, Background), (4600, Background), (9000, Background)] {}) 0 True {}) \<and>
    rd_depth d = 0 \<and> process_identity_of vendor_busy \<in> set (rd_termination_targets d)"
proof (rule flat_section_shows_everyone)
  show "distinct (map pe_pid [vendor_main, vendor_helper, vendor_busy])" by code_simp
  show "parents_first (display_children_map [vendor_main, vendor_helper, vendor_busy]
      [(4500, Background), (4600, Background), (9000, Background)] {}) [vendor_main, vendor_helper, vendor_busy]"
    by code_simp
  show "\<not> pe_synthetic vendor_busy" by code_simp
qed simp

text \<open>The rows that show or stand for a process, and the headers that announce any.\<close>

definition speaks_of :: "process_entry \<Rightarrow> display_row \<Rightarrow> bool" where
  "speaks_of p r =
     (case r of GroupHeader g n \<Rightarrow> 0 < n
      | ProcessRow d \<Rightarrow> rd_pid d = pe_pid p \<or> process_identity_of p \<in> set (rd_termination_targets d))"

text \<open>
  The condition is needed. Three processes of one vendor started in the same second, the main
  one with the highest pid: the page announces three background processes, and whatever is
  expanded no row shows the busy one or includes it in its End task. The helper's family claimed
  it first, then the main process swallowed the helper with its own family.
\<close>

theorem busy_helper_vanishes:
  "filter (speaks_of vendor_busy)
     (build_display_rows plain_texts [vendor_main, vendor_helper, vendor_busy] [] 0 True
       {4500, 4600, 9000} [False, False, False]) = [GroupHeader 1 3]"
  by code_simp

end
