(* ===== verification/Details.thy ===== *)
theory Details
  imports Process_Page
begin

text \<open>
  The Details page (crates/tm-app/src/tabs/details.rs): its columns and how each compares two
  processes, the state of the table with its saved preferences, and the rows it lists, flat or as
  the tree of processes. A row is the process it is made from with its depth and whether it can be
  expanded; the texts of its cells are left out.
\<close>

section \<open>Columns\<close>

datatype column_id =
    ColName | ColPid | ColStatus | ColUser | ColUserSid | ColCpu | ColMemory
  | ColNetwork | ColNetworkReceive | ColNetworkSend | ColPlatform | ColElevated | ColUac | ColGpuUtil
  | ColGpuEngine | ColPriority | ColThreads | ColHandles | ColCpuTime | ColCommit | ColPeakMemory
  | ColWorkingSet | ColSharedWorkingSet | ColGpuDedicated | ColGpuShared | ColDescription | ColPublisher | ColParentPid
  | ColSessionId | ColImagePath | ColPageFaults | ColIoTotal | ColIoRead | ColIoWrite | ColDiskActivity
  | ColIoOps | ColHardFaults | ColCommandLine

definition COLUMNS :: "(column_id \<times> string \<times> bool) list" where
  "COLUMNS =
    [(ColName, ''name'', True), (ColPid, ''pid'', True), (ColStatus, ''status'', True),
     (ColUser, ''user'', True), (ColUserSid, ''usersid'', False), (ColCpu, ''cpu'', True),
     (ColMemory, ''mem'', True), (ColNetwork, ''net'', False), (ColNetworkReceive, ''netrecv'', False),
     (ColNetworkSend, ''netsend'', False), (ColPlatform, ''platform'', True), (ColElevated, ''elevated'', True),
     (ColUac, ''uac'', True), (ColGpuUtil, ''gpu'', True), (ColGpuEngine, ''gpuengine'', True),
     (ColPriority, ''priority'', False), (ColThreads, ''threads'', False), (ColHandles, ''handles'', False),
     (ColCpuTime, ''cputime'', False), (ColCommit, ''commit'', False), (ColPeakMemory, ''peakmem'', False),
     (ColWorkingSet, ''workingset'', False), (ColSharedWorkingSet, ''sharedworkingset'', False), (ColGpuDedicated, ''gpudedicated'', False),
     (ColGpuShared, ''gpushared'', False), (ColDescription, ''description'', False), (ColPublisher, ''publisher'', False),
     (ColParentPid, ''ppid'', False), (ColSessionId, ''session'', False), (ColImagePath, ''imagepath'', False),
     (ColPageFaults, ''pagefaults'', False), (ColIoTotal, ''iototal'', False), (ColIoRead, ''ioread'', False),
     (ColIoWrite, ''iowrite'', False), (ColDiskActivity, ''diskactivity'', False), (ColIoOps, ''ioops'', False),
     (ColHardFaults, ''hardfaults'', False), (ColCommandLine, ''commandline'', False)]"

definition all_columns :: "column_id list" where "all_columns = map fst COLUMNS"

definition id_of :: "column_id \<Rightarrow> string" where
  "id_of cid = (case map_of COLUMNS cid of Some (i, _) \<Rightarrow> i | None \<Rightarrow> [])"

definition cid_from_id :: "string \<Rightarrow> column_id option" where
  "cid_from_id i = map_option fst (find (\<lambda>(_, j, _). j = i) COLUMNS)"

definition default_order_ids :: "string list" where
  "default_order_ids = map (\<lambda>(_, i, _). i) COLUMNS"

definition default_visible :: "column_id set" where
  "default_visible = set (map fst (filter (\<lambda>(_, _, on). on) COLUMNS))"

definition cid_is_numeric :: "column_id \<Rightarrow> bool" where
  "cid_is_numeric cid \<longleftrightarrow> cid \<in> {ColPid, ColCpu, ColMemory, ColNetwork, ColNetworkReceive, ColNetworkSend, ColGpuUtil, ColThreads,
     ColHandles, ColCpuTime, ColCommit, ColPeakMemory, ColWorkingSet, ColSharedWorkingSet, ColGpuDedicated, ColGpuShared,
     ColParentPid, ColSessionId, ColPageFaults, ColIoTotal, ColIoRead, ColIoWrite, ColDiskActivity, ColIoOps,
     ColHardFaults}"

section \<open>Comparing processes\<close>

definition status_rank :: "proc_status \<Rightarrow> nat" where
  "status_rank s = (case s of Running \<Rightarrow> 0 | Suspended \<Rightarrow> 1 | NotResponding \<Rightarrow> 2)"

definition uac_rank :: "uac_virtualization option \<Rightarrow> nat" where
  "uac_rank v = (case v of None \<Rightarrow> 3 | Some UacDisabled \<Rightarrow> 0 | Some UacEnabled \<Rightarrow> 1
     | Some UacNotAllowed \<Rightarrow> 2 | Some UacUnknown \<Rightarrow> 3)"

text \<open>Both helpers that put a missing value last.\<close>

fun cmp_option_by :: "('a \<Rightarrow> 'a \<Rightarrow> ordering) \<Rightarrow> 'a option \<Rightarrow> 'a option \<Rightarrow> ordering" where
  "cmp_option_by c (Some x) (Some y) = c x y"
| "cmp_option_by c (Some x) None = Less"
| "cmp_option_by c None (Some y) = Greater"
| "cmp_option_by c None None = Equal"

definition cmp_option_str :: "string option \<Rightarrow> string option \<Rightarrow> ordering" where
  "cmp_option_str = cmp_option_by cmp_ignore_case"

definition cmp_option_f64 :: "rat option \<Rightarrow> rat option \<Rightarrow> ordering" where
  "cmp_option_f64 = cmp_option_by cmp"

definition process_network_rate :: "process_entry \<Rightarrow> rat option" where
  "process_network_rate p =
     (if pe_net_recv_bps p = None \<and> pe_net_sent_bps p = None then None
      else Some (unwrap_or (pe_net_recv_bps p) 0 + unwrap_or (pe_net_sent_bps p) 0))"

definition process_io_total_rate :: "process_entry \<Rightarrow> rat" where
  "process_io_total_rate p = pe_disk_read_bps p + pe_disk_write_bps p"

text \<open>The derived order of \<open>PriorityClass\<close>: the order of its declaration.\<close>

fun priority_rank :: "priority_class \<Rightarrow> nat" where
  "priority_rank PrioRealtime = 0"
| "priority_rank PrioHigh = 1"
| "priority_rank PrioAboveNormal = 2"
| "priority_rank PrioNormal = 3"
| "priority_rank PrioBelowNormal = 4"
| "priority_rank PrioLow = 5"
| "priority_rank PrioUnknown = 6"

instantiation priority_class :: linorder
begin

definition less_eq_priority_class :: "priority_class \<Rightarrow> priority_class \<Rightarrow> bool" where
  "less_eq_priority_class a b \<longleftrightarrow> priority_rank a \<le> priority_rank b"

definition less_priority_class :: "priority_class \<Rightarrow> priority_class \<Rightarrow> bool" where
  "less_priority_class a b \<longleftrightarrow> priority_rank a < priority_rank b"

instance
proof
  fix a b :: priority_class
  assume "a \<le> b" "b \<le> a"
  then show "a = b" by (cases a; cases b) (simp_all add: less_eq_priority_class_def)
qed (auto simp: less_eq_priority_class_def less_priority_class_def)

end

fun compare :: "column_id \<Rightarrow> process_entry \<Rightarrow> process_entry \<Rightarrow> ordering" where
  "compare ColName a b = cmp_ignore_case (pe_name a) (pe_name b)"
| "compare ColPid a b = cmp (pe_pid a) (pe_pid b)"
| "compare ColStatus a b = cmp (status_rank (pe_status a)) (status_rank (pe_status b))"
| "compare ColUser a b = cmp_option_str (pe_user a) (pe_user b)"
| "compare ColUserSid a b = cmp_option_str (pe_user_sid a) (pe_user_sid b)"
| "compare ColCpu a b = cmp (pe_cpu_pct a) (pe_cpu_pct b)"
| "compare ColMemory a b = cmp (pe_mem_bytes a) (pe_mem_bytes b)"
| "compare ColNetwork a b = cmp_option_f64 (process_network_rate a) (process_network_rate b)"
| "compare ColNetworkReceive a b = cmp_option_f64 (pe_net_recv_bps a) (pe_net_recv_bps b)"
| "compare ColNetworkSend a b = cmp_option_f64 (pe_net_sent_bps a) (pe_net_sent_bps b)"
| "compare ColPlatform a b = cmp_option (pe_wow64 a) (pe_wow64 b)"
| "compare ColElevated a b = cmp_option (pe_elevated a) (pe_elevated b)"
| "compare ColUac a b = cmp (uac_rank (pe_uac_virtualization a)) (uac_rank (pe_uac_virtualization b))"
| "compare ColGpuUtil a b = cmp_option (pe_gpu_util_pct a) (pe_gpu_util_pct b)"
| "compare ColGpuEngine a b = cmp_option_str (pe_gpu_engine_label a) (pe_gpu_engine_label b)"
| "compare ColPriority a b = cmp (pe_priority a) (pe_priority b)"
| "compare ColThreads a b = cmp_option (pe_threads a) (pe_threads b)"
| "compare ColHandles a b = cmp_option (pe_handles a) (pe_handles b)"
| "compare ColCpuTime a b = cmp_option_f64 (pe_cpu_time_s a) (pe_cpu_time_s b)"
| "compare ColCommit a b = cmp_option (pe_commit_bytes a) (pe_commit_bytes b)"
| "compare ColPeakMemory a b = cmp_option (pe_peak_mem_bytes a) (pe_peak_mem_bytes b)"
| "compare ColWorkingSet a b = cmp_option (pe_working_set_bytes a) (pe_working_set_bytes b)"
| "compare ColSharedWorkingSet a b = cmp_option (shared_working_set_bytes a) (shared_working_set_bytes b)"
| "compare ColGpuDedicated a b = cmp_option (pe_gpu_dedicated_bytes a) (pe_gpu_dedicated_bytes b)"
| "compare ColGpuShared a b = cmp_option (pe_gpu_shared_bytes a) (pe_gpu_shared_bytes b)"
| "compare ColDescription a b =
     cmp_option_str (option_or (pe_description a) (Some (pe_display a)))
       (option_or (pe_description b) (Some (pe_display b)))"
| "compare ColPublisher a b = cmp_option_str (pe_company a) (pe_company b)"
| "compare ColParentPid a b = cmp_option (pe_ppid a) (pe_ppid b)"
| "compare ColSessionId a b = cmp_option (pe_session_id a) (pe_session_id b)"
| "compare ColImagePath a b = cmp_option_str (pe_exe_path a) (pe_exe_path b)"
| "compare ColPageFaults a b = cmp_option (pe_page_faults_per_s a) (pe_page_faults_per_s b)"
| "compare ColIoTotal a b = cmp (process_io_total_rate a) (process_io_total_rate b)"
| "compare ColIoRead a b = cmp (pe_disk_read_total a) (pe_disk_read_total b)"
| "compare ColIoWrite a b = cmp (pe_disk_write_total a) (pe_disk_write_total b)"
| "compare ColDiskActivity a b = cmp_option_f64 (pe_disk_active_pct a) (pe_disk_active_pct b)"
| "compare ColIoOps a b = cmp_option_f64 (pe_io_ops_per_s a) (pe_io_ops_per_s b)"
| "compare ColHardFaults a b = cmp_option_f64 (pe_hard_faults_per_s a) (pe_hard_faults_per_s b)"
| "compare ColCommandLine a b = cmp_option_str (pe_command_line a) (pe_command_line b)"

section \<open>Sort order\<close>

datatype sort_order = Ascending | Descending | Hierarchical

definition order_ascending :: "sort_order \<Rightarrow> bool" where
  "order_ascending o1 \<longleftrightarrow> o1 \<noteq> Descending"

definition order_arrow :: "sort_order \<Rightarrow> bool option" where
  "order_arrow o1 = (case o1 of Ascending \<Rightarrow> Some True | Descending \<Rightarrow> Some False | Hierarchical \<Rightarrow> None)"

fun next_order :: "sort_order \<Rightarrow> bool \<Rightarrow> sort_order" where
  "next_order Ascending offers_hierarchy = Descending"
| "next_order Descending True = Hierarchical"
| "next_order Descending False = Ascending"
| "next_order Hierarchical offers_hierarchy = Ascending"

definition offered_by :: "column_id \<Rightarrow> bool" where
  "offered_by cid \<longleftrightarrow> cid = ColName"

definition from_saved :: "column_id \<Rightarrow> bool \<Rightarrow> bool \<Rightarrow> sort_order" where
  "from_saved cid ascending hierarchical =
     (if hierarchical \<and> offered_by cid then Hierarchical
      else if ascending then Ascending else Descending)"

section \<open>The state of the table\<close>

record details_state =
  det_sort_col :: column_id
  det_sort_order :: sort_order
  det_filter :: string
  det_cached :: bool
  det_visible :: "column_id set"
  det_order :: "column_id list"
  det_collapsed :: "u32 set"
  det_view_generation :: u64

definition default_details :: details_state where
  "default_details = \<lparr>det_sort_col = ColName, det_sort_order = Ascending, det_filter = [], det_cached = False,
     det_visible = default_visible, det_order = all_columns, det_collapsed = {}, det_view_generation = 0\<rparr>"

definition requires_gpu_telemetry :: "details_state \<Rightarrow> bool" where
  "requires_gpu_telemetry st \<longleftrightarrow>
     det_visible st \<inter> {ColGpuUtil, ColGpuEngine, ColGpuDedicated, ColGpuShared} \<noteq> {}"

definition requires_disk_telemetry :: "details_state \<Rightarrow> bool" where
  "requires_disk_telemetry st \<longleftrightarrow> ColDiskActivity \<in> det_visible st"

definition requires_network_telemetry :: "details_state \<Rightarrow> bool" where
  "requires_network_telemetry st \<longleftrightarrow>
     det_visible st \<inter> {ColNetwork, ColNetworkReceive, ColNetworkSend} \<noteq> {}"

definition invalidate :: "details_state \<Rightarrow> details_state" where
  "invalidate st = st\<lparr>det_cached := False\<rparr>"

text \<open>The first visible column in display order takes over the sort.\<close>

definition resort :: "details_state \<Rightarrow> details_state" where
  "resort st = st\<lparr>det_sort_col := unwrap_or (find (\<lambda>c. c \<in> det_visible st) (det_order st)) ColName,
     det_sort_order := Ascending\<rparr>"

definition set_visible :: "column_id \<Rightarrow> bool \<Rightarrow> details_state \<Rightarrow> details_state" where
  "set_visible cid on st =
     (if \<not> on \<and> card (det_visible st) \<le> 1 \<and> cid \<in> det_visible st then st
      else if on then invalidate (st\<lparr>det_visible := insert cid (det_visible st)\<rparr>)
      else
        (let st = st\<lparr>det_visible := det_visible st - {cid}\<rparr>
         in invalidate (if det_sort_col st = cid then resort st else st)))"

definition push_column :: "column_id list \<Rightarrow> column_id \<Rightarrow> column_id list" where
  "push_column order cid = (if cid \<in> set order then order else order @ [cid])"

definition saved_column_order :: "string list \<Rightarrow> column_id list" where
  "saved_column_order ids =
     foldl push_column
       (foldl (\<lambda>order i. case cid_from_id i of None \<Rightarrow> order | Some cid \<Rightarrow> push_column order cid) [] ids)
       all_columns"

definition override_visible :: "column_id set \<Rightarrow> string \<times> bool \<Rightarrow> column_id set" where
  "override_visible vis entry =
     (case cid_from_id (fst entry) of
        None \<Rightarrow> vis
      | Some cid \<Rightarrow> if snd entry then insert cid vis else vis - {cid})"

definition apply_saved_prefs ::
    "(string \<times> bool) list option \<Rightarrow> string list option \<Rightarrow> details_state \<Rightarrow> details_state" where
  "apply_saved_prefs vis order st =
     (let st = (case order of None \<Rightarrow> st | Some ids \<Rightarrow> st\<lparr>det_order := saved_column_order ids\<rparr>);
          st = (case vis of None \<Rightarrow> st
            | Some entries \<Rightarrow>
                (let shown = foldl override_visible default_visible entries
                 in if shown \<noteq> {} then st\<lparr>det_visible := shown\<rparr> else st));
          st = (if det_sort_col st \<in> det_visible st then st else resort st)
      in invalidate st)"

definition saved_visibility :: "details_state \<Rightarrow> (string \<times> bool) list" where
  "saved_visibility st =
     map (\<lambda>(cid, i, _). (i, cid \<in> det_visible st))
       (filter (\<lambda>(cid, _, on). (cid \<in> det_visible st) \<noteq> on) COLUMNS)"

definition saved_order :: "details_state \<Rightarrow> string list" where
  "saved_order st = map id_of (det_order st)"

definition ordered_visible :: "details_state \<Rightarrow> column_id list" where
  "ordered_visible st = filter (\<lambda>c. c \<in> det_visible st) (det_order st)"

definition visible_rank :: "details_state \<Rightarrow> column_id \<Rightarrow> nat option" where
  "visible_rank st cid = position (\<lambda>c. c = cid) (ordered_visible st)"

definition visible_count :: "details_state \<Rightarrow> nat" where
  "visible_count st = length (ordered_visible st)"

definition list_swap :: "nat \<Rightarrow> nat \<Rightarrow> 'a list \<Rightarrow> 'a list" where
  "list_swap a b xs = (xs[a := xs ! b])[b := xs ! a]"

definition move_visible :: "column_id \<Rightarrow> int \<Rightarrow> details_state \<Rightarrow> bool \<times> details_state" where
  "move_visible cid delta st =
     (let shown = ordered_visible st in
      case position (\<lambda>c. c = cid) shown of
        None \<Rightarrow> (False, st)
      | Some pos \<Rightarrow>
          (let target = int pos + delta in
           if target < 0 \<or> int (length shown) \<le> target then (False, st)
           else
             (case (position (\<lambda>c. c = cid) (det_order st),
                    position (\<lambda>c. c = shown ! nat target) (det_order st)) of
                (Some a, Some b) \<Rightarrow> (True, invalidate (st\<lparr>det_order := list_swap a b (det_order st)\<rparr>))
              | _ \<Rightarrow> (False, st))))"

definition is_expanded :: "u32 \<Rightarrow> details_state \<Rightarrow> bool" where
  "is_expanded pid st \<longleftrightarrow> pid \<notin> det_collapsed st"

definition toggle_collapsed :: "u32 \<Rightarrow> details_state \<Rightarrow> details_state" where
  "toggle_collapsed pid st =
     invalidate (st\<lparr>det_collapsed := (if pid \<in> det_collapsed st then det_collapsed st - {pid}
         else insert pid (det_collapsed st)),
       det_view_generation := det_view_generation st + 1\<rparr>)"

definition apply_saved_sort :: "string \<Rightarrow> bool \<Rightarrow> bool \<Rightarrow> details_state \<Rightarrow> details_state" where
  "apply_saved_sort column ascending hierarchical st =
     (case cid_from_id column of
        None \<Rightarrow> st
      | Some cid \<Rightarrow>
          if cid \<in> det_visible st
          then invalidate (st\<lparr>det_sort_col := cid, det_sort_order := from_saved cid ascending hierarchical\<rparr>)
          else st)"

definition is_tree :: "details_state \<Rightarrow> bool" where
  "is_tree st \<longleftrightarrow> det_sort_order st = Hierarchical"

definition clicked_column :: "column_id \<Rightarrow> details_state \<Rightarrow> details_state" where
  "clicked_column cid st =
     invalidate
       (if det_sort_col st = cid
        then st\<lparr>det_sort_order := next_order (det_sort_order st) (offered_by cid)\<rparr>
        else st\<lparr>det_sort_col := cid,
          det_sort_order := (if cid_is_numeric cid then Descending else Ascending)\<rparr>)"

end
