(* ===== verification/Details_Columns.thy ===== *)
theory Details_Columns
  imports Details
begin

text \<open>
  What the column preferences of the Details page guarantee: a usable table after any operation
  and any saved file, and preferences that survive being saved and restored.
\<close>

section \<open>The catalogue\<close>

lemma columns_complete [simp]: "set all_columns = UNIV"
proof -
  have "c \<in> set all_columns" for c
    by (cases c) (simp_all add: all_columns_def COLUMNS_def)
  then show ?thesis by blast
qed

lemma columns_distinct [simp]: "distinct all_columns" "distinct default_order_ids"
  by code_simp+

lemma finite_columns [simp]: "finite (S :: column_id set)"
proof -
  have "finite (set all_columns)" by (rule List.finite_set)
  then show ?thesis by (simp only: columns_complete) (rule finite_subset [OF subset_UNIV])
qed

lemma ids_resolve: "\<forall>(cid, i, on)\<in>set COLUMNS. cid_from_id i = Some cid \<and> id_of cid = i"
  by code_simp

lemma columns_have_ids: "(c, i, on) \<in> set COLUMNS \<Longrightarrow> cid_from_id i = Some c \<and> id_of c = i"
  by (drule bspec [OF ids_resolve]) simp

lemma columns_listed: "\<exists>on. (c, id_of c, on) \<in> set COLUMNS"
proof -
  have "c \<in> set all_columns" by simp
  then obtain i on where "(c, i, on) \<in> set COLUMNS" by (auto simp: all_columns_def)
  with columns_have_ids [OF this] show ?thesis by auto
qed

lemma cid_of_id [simp]: "cid_from_id (id_of c) = Some c"
  using columns_listed [of c] columns_have_ids by blast

lemma column_unique:
  assumes "(c, i, on) \<in> set COLUMNS" "(d, i, on') \<in> set COLUMNS"
  shows "d = c \<and> on' = on"
proof -
  have "cid_from_id i = Some c" "cid_from_id i = Some d"
    using columns_have_ids [OF assms(1)] columns_have_ids [OF assms(2)] by simp_all
  then have "d = c" by simp
  moreover from this assms have "(i, on') = (i, on)"
    using columns_distinct(1) unfolding all_columns_def by (metis eq_key_imp_eq_value)
  ultimately show ?thesis by simp
qed

section \<open>Usable tables\<close>

definition details_ok :: "details_state \<Rightarrow> bool" where
  "details_ok st \<longleftrightarrow>
     distinct (det_order st) \<and> set (det_order st) = UNIV \<and> det_sort_col st \<in> det_visible st \<and>
     (det_sort_order st = Hierarchical \<longrightarrow> det_sort_col st = ColName)"

datatype details_event =
    SetVisible column_id bool
  | ApplyPrefs "(string \<times> bool) list option" "string list option"
  | MoveVisible column_id int
  | ToggleExpanded u32
  | ApplySort string bool bool
  | ClickHeader nat

text \<open>A click reaches the columns the header shows.\<close>

fun details_step :: "details_state \<Rightarrow> details_event \<Rightarrow> details_state" where
  "details_step st (SetVisible cid on) = set_visible cid on st"
| "details_step st (ApplyPrefs vis order) = apply_saved_prefs vis order st"
| "details_step st (MoveVisible cid delta) = snd (move_visible cid delta st)"
| "details_step st (ToggleExpanded pid) = toggle_collapsed pid st"
| "details_step st (ApplySort column asc hierarchical) = apply_saved_sort column asc hierarchical st"
| "details_step st (ClickHeader n) =
     (if n < length (ordered_visible st) then clicked_column (ordered_visible st ! n) st else st)"

lemma invalidate_simps [simp]:
  "det_order (invalidate st) = det_order st" "det_visible (invalidate st) = det_visible st"
  "det_sort_col (invalidate st) = det_sort_col st" "det_sort_order (invalidate st) = det_sort_order st"
  by (simp_all add: invalidate_def)

lemma ok_invalidate [simp]: "details_ok (invalidate st) = details_ok st"
  by (simp add: details_ok_def)

lemma ok_toggle_collapsed: "details_ok st \<Longrightarrow> details_ok (toggle_collapsed pid st)"
  by (simp add: toggle_collapsed_def) (simp add: details_ok_def)

lemma ok_resort:
  assumes "distinct (det_order st)" "set (det_order st) = UNIV" "det_visible st \<noteq> {}"
  shows "details_ok (resort st)"
proof -
  obtain c where "c \<in> det_visible st" using assms(3) by blast
  with assms(2) have "\<exists>d. find (\<lambda>c. c \<in> det_visible st) (det_order st) = Some d"
    by (cases "find (\<lambda>c. c \<in> det_visible st) (det_order st)") (auto simp: find_None_iff)
  then obtain d where "find (\<lambda>c. c \<in> det_visible st) (det_order st) = Some d" "d \<in> det_visible st"
    by (auto simp: find_Some_iff)
  with assms show ?thesis by (simp add: details_ok_def resort_def)
qed

lemma push_column_set [simp]: "set (push_column order cid) = insert cid (set order)"
  by (auto simp: push_column_def)

lemma push_column_distinct: "distinct order \<Longrightarrow> distinct (push_column order cid)"
  by (auto simp: push_column_def)

lemma push_columns:
  "distinct order \<Longrightarrow> distinct (foldl push_column order cs) \<and> set (foldl push_column order cs) = set order \<union> set cs"
  by (induction cs arbitrary: order) (auto simp: push_column_distinct)

lemma saved_column_order_ok: "distinct (saved_column_order ids) \<and> set (saved_column_order ids) = UNIV"
proof -
  have "distinct order \<Longrightarrow>
      distinct (foldl (\<lambda>order i. case cid_from_id i of None \<Rightarrow> order | Some cid \<Rightarrow> push_column order cid) order ids)" for order
    by (induction ids arbitrary: order) (auto simp: push_column_distinct split: option.split)
  from push_columns [OF this [of "[]"], of all_columns] show ?thesis
    by (simp add: saved_column_order_def)
qed

lemma swap_perm: "a < length xs \<Longrightarrow> b < length xs \<Longrightarrow> mset (list_swap a b xs) = mset xs"
  by (simp add: list_swap_def mset_swap)

lemma ok_set_visible:
  assumes "details_ok st"
  shows "details_ok (set_visible cid on st)"
proof (cases "\<not> on \<and> det_sort_col st = cid \<and> \<not> card (det_visible st) \<le> 1")
  case True
  have "det_visible st - {cid} \<noteq> {}"
  proof
    assume "det_visible st - {cid} = {}"
    then have "det_visible st \<subseteq> {cid}" by blast
    then have "card (det_visible st) \<le> card {cid}" by (intro card_mono) simp_all
    with True show False by simp
  qed
  with assms have "details_ok (resort (st\<lparr>det_visible := det_visible st - {cid}\<rparr>))"
    by (intro ok_resort) (simp_all add: details_ok_def)
  with True show ?thesis by (simp add: set_visible_def Let_def details_ok_def)
next
  case False
  with assms show ?thesis by (auto simp: set_visible_def Let_def details_ok_def)
qed

lemma ok_prefs:
  assumes "details_ok st"
  shows "details_ok (apply_saved_prefs vis order st)"
proof -
  define st1 where "st1 = (case order of None \<Rightarrow> st | Some ids \<Rightarrow> st\<lparr>det_order := saved_column_order ids\<rparr>)"
  define st2 where "st2 = (case vis of None \<Rightarrow> st1
    | Some entries \<Rightarrow> (let shown = foldl override_visible default_visible entries
        in if shown \<noteq> {} then st1\<lparr>det_visible := shown\<rparr> else st1))"
  have order: "distinct (det_order st2)" "set (det_order st2) = UNIV"
    using assms saved_column_order_ok
    by (auto simp: st2_def st1_def details_ok_def Let_def split: option.split)
  have keep: "det_visible st2 \<noteq> {}" "det_sort_order st2 = Hierarchical \<longrightarrow> det_sort_col st2 = ColName"
    using assms by (auto simp: st2_def st1_def details_ok_def Let_def split: option.split)
  have "details_ok (if det_sort_col st2 \<in> det_visible st2 then st2 else resort st2)"
    using ok_resort [OF order keep(1)] order keep(2) by (simp add: details_ok_def)
  moreover have "apply_saved_prefs vis order st =
      invalidate (if det_sort_col st2 \<in> det_visible st2 then st2 else resort st2)"
    unfolding apply_saved_prefs_def st2_def st1_def by (simp only: Let_def)
  ultimately show ?thesis by simp
qed

lemma ok_move_visible:
  assumes "details_ok st"
  shows "details_ok (snd (move_visible cid delta st))"
proof -
  have swap: "distinct (list_swap a b (det_order st)) \<and> set (list_swap a b (det_order st)) = UNIV"
    if "a < length (det_order st)" "b < length (det_order st)" for a b
    using swap_perm [OF that] assms mset_eq_setD [OF swap_perm [OF that]] mset_eq_imp_distinct_iff [OF swap_perm [OF that]]
    by (simp add: details_ok_def)
  show ?thesis
    unfolding move_visible_def Let_def
    using assms swap position_Some [of _ "det_order st"]
    by (auto simp: details_ok_def split: option.split)
qed

lemma ok_clicked:
  assumes "details_ok st" "cid \<in> det_visible st"
  shows "details_ok (clicked_column cid st)"
proof -
  have "next_order o1 (offered_by cid) = Hierarchical \<longrightarrow> cid = ColName" for o1
    by (cases o1; cases "offered_by cid") (auto simp: offered_by_def)
  with assms show ?thesis by (auto simp: clicked_column_def details_ok_def)
qed

lemma ok_step: "details_ok st \<Longrightarrow> details_ok (details_step st e)"
proof (cases e)
  case (ClickHeader n)
  have "ordered_visible st ! n \<in> det_visible st" if "n < length (ordered_visible st)"
    using nth_mem [OF that] by (simp add: ordered_visible_def)
  with ClickHeader show "details_ok st \<Longrightarrow> details_ok (details_step st e)" by (simp add: ok_clicked)
next
  case (ApplySort column asc hierarchical)
  then show "details_ok st \<Longrightarrow> details_ok (details_step st e)"
    by (auto simp: apply_saved_sort_def from_saved_def offered_by_def details_ok_def split: option.split)
qed (simp_all add: ok_set_visible ok_prefs ok_move_visible ok_toggle_collapsed)

lemma ok_default: "details_ok default_details"
  by (simp add: details_ok_def default_details_def) code_simp

text \<open>
  The Details table stays usable. After any sequence of column changes, saved preferences (even
  hand-edited ones), saved sorts and header clicks, every column is in the order exactly once, some
  column is visible and the sort column is among the visible ones, and the table is a tree only
  while it is sorted by name.
\<close>

theorem details_table_usable:
  "distinct (det_order (foldl details_step default_details es)) \<and>
   set (det_order (foldl details_step default_details es)) = set all_columns \<and>
   det_sort_col (foldl details_step default_details es) \<in> det_visible (foldl details_step default_details es) \<and>
   (is_tree (foldl details_step default_details es) \<longrightarrow>
      det_sort_col (foldl details_step default_details es) = ColName)"
proof -
  have "details_ok st \<Longrightarrow> details_ok (foldl details_step st es)" for st
    by (induction es arbitrary: st) (simp_all add: ok_step)
  from this [OF ok_default] show ?thesis by (simp add: details_ok_def is_tree_def)
qed

theorem details_table_usable_witness:
  "is_tree (foldl details_step default_details [ApplySort ''name'' True True]) \<and>
   det_sort_col (foldl details_step default_details [ApplySort ''name'' True True]) = ColName"
proof -
  have tree: "is_tree (foldl details_step default_details [ApplySort ''name'' True True])" by code_simp
  with details_table_usable [of "[ApplySort ''name'' True True]"] show ?thesis by blast
qed

section \<open>Saved and restored\<close>

lemma override_fold:
  "\<forall>e\<in>set es. fst e \<in> id_of ` UNIV \<Longrightarrow> distinct (map fst es) \<Longrightarrow>
   c \<in> foldl override_visible vis es \<longleftrightarrow>
     (case map_of es (id_of c) of None \<Rightarrow> c \<in> vis | Some on \<Rightarrow> on)"
proof (induction es arbitrary: vis)
  case (Cons e es)
  obtain d on where e: "e = (id_of d, on)" using Cons.prems(1) by (cases e) auto
  have inj: "id_of c = id_of d \<longleftrightarrow> c = d" by (metis cid_of_id option.inject)
  have new: "id_of d \<notin> fst ` set es" using Cons.prems(2) e by simp
  then have none: "map_of es (id_of d) = None" by (simp add: map_of_eq_None_iff)
  have "c \<in> foldl override_visible vis (e # es) \<longleftrightarrow>
      (case map_of es (id_of c) of None \<Rightarrow> c \<in> override_visible vis e | Some b \<Rightarrow> b)"
    using Cons.IH [of "override_visible vis e"] Cons.prems by simp
  moreover have "override_visible vis e = (if on then insert d vis else vis - {d})"
    by (simp add: e override_visible_def)
  ultimately show ?case using inj none by (auto simp: e split: option.splits)
qed simp

lemma saved_visibility_entry:
  "(i, b) \<in> set (saved_visibility st) \<longleftrightarrow>
   (\<exists>cid on. (cid, i, on) \<in> set COLUMNS \<and> b = (cid \<in> det_visible st) \<and> b \<noteq> on)"
  by (force simp: saved_visibility_def)

lemma saved_order_restored:
  assumes "distinct (det_order st)" "set (det_order st) = set all_columns"
  shows "saved_column_order (saved_order st) = det_order st"
proof -
  have push: "foldl (\<lambda>order i. case cid_from_id i of None \<Rightarrow> order | Some cid \<Rightarrow> push_column order cid)
      pre (map id_of cs) = pre @ cs" if "distinct (pre @ cs)" for pre cs
    using that by (induction cs arbitrary: pre) (auto simp: push_column_def)
  have nothing_new: "foldl push_column cs ds = cs" if "set ds \<subseteq> set cs" for cs ds
    using that by (induction ds) (auto simp: push_column_def)
  show ?thesis
    using push [of "[]" "det_order st"] nothing_new [of all_columns "det_order st"] assms
    by (simp add: saved_column_order_def saved_order_def)
qed

lemma saved_visibility_keys: "distinct (map fst (saved_visibility st))"
proof -
  have "map fst (saved_visibility st) =
      map (\<lambda>(cid, i, _). i) (filter (\<lambda>(cid, _, on). (cid \<in> det_visible st) \<noteq> on) COLUMNS)"
    by (simp add: saved_visibility_def case_prod_beta o_def)
  then show ?thesis
    using columns_distinct(2) unfolding default_order_ids_def by (simp only: distinct_map_filter)
qed

lemma default_visible_iff:
  assumes "(c, id_of c, on) \<in> set COLUMNS"
  shows "c \<in> default_visible \<longleftrightarrow> on"
  unfolding default_visible_def
proof
  assume "c \<in> set (map fst (filter (\<lambda>(_, _, on). on) COLUMNS))"
  then obtain i where "(c, i, True) \<in> set COLUMNS" by auto
  with columns_have_ids column_unique [OF assms] show on by blast
qed (use assms in force)

lemma saved_visibility_restored:
  assumes "mset entries = mset (saved_visibility st)"
  shows "foldl override_visible default_visible entries = det_visible st"
proof (intro set_eqI)
  fix c
  have "mset (map fst entries) = mset (map fst (saved_visibility st))" using assms by simp
  then have dist: "distinct (map fst entries)"
    using saved_visibility_keys [of st] by (metis mset_eq_imp_distinct_iff)
  have entry: "(i, b) \<in> set entries \<longleftrightarrow>
      (\<exists>cid on. (cid, i, on) \<in> set COLUMNS \<and> b = (cid \<in> det_visible st) \<and> b \<noteq> on)" for i b
    using mset_eq_setD [OF assms] by (simp add: saved_visibility_entry)
  obtain on where c: "(c, id_of c, on) \<in> set COLUMNS" using columns_listed by blast
  have "fst e \<in> id_of ` UNIV" if e: "e \<in> set entries" for e
  proof -
    obtain cid on' where "(cid, fst e, on') \<in> set COLUMNS" using iffD1 [OF entry, of "fst e" "snd e"] e by auto
    then have "fst e = id_of cid" using columns_have_ids by simp
    then show ?thesis by simp
  qed
  then have val: "c \<in> foldl override_visible default_visible entries \<longleftrightarrow>
      (case map_of entries (id_of c) of None \<Rightarrow> c \<in> default_visible | Some b \<Rightarrow> b)"
    by (intro override_fold dist) blast
  show "c \<in> foldl override_visible default_visible entries \<longleftrightarrow> c \<in> det_visible st"
  proof (cases "map_of entries (id_of c)")
    case None
    then have "(id_of c, c \<in> det_visible st) \<notin> set entries"
      by (metis map_of_eq_None_iff fst_conv image_eqI)
    with entry c have "(c \<in> det_visible st) = on" by blast
    with val None default_visible_iff [OF c] show ?thesis by simp
  next
    case (Some b)
    then have "(id_of c, b) \<in> set entries" by (rule map_of_SomeD)
    with entry column_unique [OF c] have "b = (c \<in> det_visible st)" by blast
    with val Some show ?thesis by simp
  qed
qed

text \<open>
  The column layout survives a restart. The visibility overrides and the order that a usable
  table saves, read back in whatever order the map of overrides lists them, give a fresh table
  the same visible columns in the same order.
\<close>

theorem column_prefs_roundtrip:
  assumes "distinct (det_order st)" "set (det_order st) = set all_columns" "det_visible st \<noteq> {}"
    and "mset entries = mset (saved_visibility st)"
  shows "det_order (apply_saved_prefs (Some entries) (Some (saved_order st)) default_details) = det_order st \<and>
    det_visible (apply_saved_prefs (Some entries) (Some (saved_order st)) default_details) = det_visible st"
  using assms(3) saved_order_restored [OF assms(1,2)] saved_visibility_restored [OF assms(4)]
  by (simp add: apply_saved_prefs_def Let_def resort_def)

theorem column_prefs_roundtrip_witness:
  "det_visible (apply_saved_prefs
      (Some (saved_visibility (set_visible ColHandles True (set_visible ColPid False default_details))))
      (Some (saved_order (set_visible ColHandles True (set_visible ColPid False default_details)))) default_details) =
    det_visible (set_visible ColHandles True (set_visible ColPid False default_details))"
proof -
  let ?st = "set_visible ColHandles True (set_visible ColPid False default_details)"
  have "details_ok ?st" by (intro ok_set_visible ok_default)
  then have "distinct (det_order ?st)" "set (det_order ?st) = set all_columns" "det_visible ?st \<noteq> {}"
    by (auto simp: details_ok_def)
  from column_prefs_roundtrip [OF this refl] show ?thesis by blast
qed

end
