(* ===== verification/Details_Tree.thy ===== *)
theory Details_Tree
  imports Details Marking_Walk
begin

text \<open>
  The rows of the Details page (crates/tm-app/src/tabs/details.rs): the flat list in the order of a
  column, and the tree of processes. Both are complete, the tree even where parent pids run in a
  circle.
\<close>

section \<open>Order\<close>

definition creation_order :: "process_entry \<Rightarrow> process_entry \<Rightarrow> ordering" where
  "creation_order a b =
     then_with (cmp_option (pe_start_epoch_s a) (pe_start_epoch_s b)) (cmp (pe_pid a) (pe_pid b))"

definition sort_processes :: "column_id \<Rightarrow> sort_order \<Rightarrow> process_entry list \<Rightarrow> process_entry list" where
  "sort_processes sort_col order ps =
     (if order = Hierarchical then sort_by creation_order ps
      else sort_by (\<lambda>a b. directed (then_with (compare sort_col a b) (cmp (pe_pid a) (pe_pid b)))
        (order_ascending order)) ps)"

section \<open>Rows\<close>

record detail_row =
  dr_process :: process_entry
  dr_depth :: nat
  dr_children :: bool

definition row_from_process :: "process_entry \<Rightarrow> nat \<Rightarrow> bool \<Rightarrow> detail_row" where
  "row_from_process p depth children = \<lparr>dr_process = p, dr_depth = depth, dr_children = children\<rparr>"

definition detail_identity :: "detail_row \<Rightarrow> process_identity" where
  "detail_identity row = process_identity_of (dr_process row)"

text \<open>The pids added on the way from a match to its ancestors.\<close>

function ancestors :: "process_map \<Rightarrow> u32 \<Rightarrow> u32 set \<Rightarrow> u32 set" where
  "ancestors by_pid cursor seen =
     (if cursor \<in> seen then {}
      else case Option.bind (Option.bind (bt_get by_pid cursor) pe_ppid) (bt_get by_pid) of
        None \<Rightarrow> {}
      | Some parent \<Rightarrow>
          insert (pe_pid parent) (ancestors by_pid (pe_pid parent) (insert cursor seen)))"
  by pat_completeness auto

termination
proof (relation "measure (\<lambda>(by_pid, cursor, seen). card (fst ` set by_pid - seen))", goal_cases)
  case (2 by_pid cursor seen parent)
  then obtain p where "bt_get by_pid cursor = Some p" by (auto simp: bind_eq_Some_conv)
  from unseen_key_less [OF this 2(1)] show ?case by simp
qed simp

declare ancestors.simps [simp del]

definition tree_visible :: "string \<Rightarrow> process_entry list \<Rightarrow> u32 set" where
  "tree_visible q all_procs =
     (let by_pid = processes_by_pid all_procs;
          matched = pe_pid ` set (filter (matches_process q) all_procs)
      in if q = [] then matched else matched \<union> (\<Union>m\<in>matched. ancestors by_pid m {}))"

definition tree_parent :: "process_map \<Rightarrow> u32 set \<Rightarrow> process_entry \<Rightarrow> u32 option" where
  "tree_parent by_pid visible p =
     (case pe_ppid p of
        None \<Rightarrow> None
      | Some parent \<Rightarrow>
          if parent \<noteq> pe_pid p \<and> parent \<in> visible \<and>
             is_some_and (bt_get by_pid parent) (\<lambda>q. is_plausible_parent q p)
          then Some parent else None)"

function tree_walk ::
    "(u32, process_entry list) btree \<Rightarrow> u32 set \<Rightarrow> bool \<Rightarrow> (process_entry \<times> nat) list \<Rightarrow> u32 set \<Rightarrow>
     detail_row list" where
  "tree_walk children collapsed q_empty [] visited = []"
| "tree_walk children collapsed q_empty ((p, depth) # stack) visited =
     (if pe_pid p \<in> visited then tree_walk children collapsed q_empty stack visited
      else
        (let visited = insert (pe_pid p) visited;
             kids = filter (\<lambda>k. pe_pid k \<notin> visited) (kids_of children (pe_pid p))
         in row_from_process p depth (kids \<noteq> []) #
            tree_walk children collapsed q_empty
              ((if kids \<noteq> [] \<and> (pe_pid p \<notin> collapsed \<or> \<not> q_empty) then map (\<lambda>k. (k, depth + 1)) kids else []) @ stack)
              visited))"
  by pat_completeness auto

termination
proof (relation "measures [\<lambda>(children, collapsed, q_empty, stack, visited). card (fst ` set children - visited),
    \<lambda>(children, collapsed, q_empty, stack, visited). length stack]", goal_cases)
  case (3 children collapsed q_empty p depth stack visited visited' kids)
  with unvisited_step [of "pe_pid p" visited children] show ?case by auto
qed auto

declare tree_walk.simps(2) [simp del]

definition build_rows ::
    "process_entry list \<Rightarrow> string \<Rightarrow> column_id \<Rightarrow> sort_order \<Rightarrow> u32 set \<Rightarrow> detail_row list" where
  "build_rows processes raw_search sort_col order collapsed =
     (let q = new_query raw_search in
      if order \<noteq> Hierarchical then
        map (\<lambda>p. row_from_process p 0 False)
          (sort_processes sort_col order (filter (\<lambda>p. \<not> pe_synthetic p \<and> matches_process q p) processes))
      else
        (let all_procs = filter (\<lambda>p. \<not> pe_synthetic p) processes;
             by_pid = processes_by_pid all_procs;
             visible = tree_visible q all_procs;
             members = filter (\<lambda>p. pe_pid p \<in> visible) all_procs;
             children = map (\<lambda>(pid, siblings). (pid, sort_processes sort_col order siblings))
               (children_by (tree_parent by_pid visible) members);
             roots = sort_processes sort_col order (forest_roots pe_pid children members)
         in tree_walk children collapsed (q = []) (map (\<lambda>r. (r, 0)) roots) {}))"

definition first_detail_match ::
    "process_entry list \<Rightarrow> string \<Rightarrow> column_id \<Rightarrow> sort_order \<Rightarrow> u32 set \<Rightarrow> process_identity option" where
  "first_detail_match processes raw_search sort_col order collapsed =
     map_option detail_identity (first_opt (build_rows processes raw_search sort_col order collapsed))"

definition effective_search :: "string \<Rightarrow> string \<Rightarrow> string" where
  "effective_search page_filter global_search = (if page_filter \<noteq> [] then page_filter else global_search)"

section \<open>The tree is complete\<close>

lemma set_sort_processes [simp]: "set (sort_processes col order ps) = set ps"
  by (simp add: sort_processes_def)

lemma kids_of_sorted:
  "kids_of (map (\<lambda>(pid, siblings). (pid, sort_processes col order siblings)) children) p =
     sort_processes col order (kids_of children p)"
  by (induction children) (auto simp: kids_of_def sort_processes_def sort_by_def)

lemma edges_sorted:
  "edges pe_pid (map (\<lambda>(pid, siblings). (pid, sort_processes col order siblings)) children) = edges pe_pid children"
  by (simp add: edges_def kids_of_sorted)

text \<open>The walk follows the edges out of the processes it expands.\<close>

definition shown_edges :: "(u32, process_entry list) btree \<Rightarrow> u32 set \<Rightarrow> bool \<Rightarrow> (u32 \<times> u32) set" where
  "shown_edges children collapsed q_empty =
     {(p, q) \<in> edges pe_pid children. p \<notin> collapsed \<or> \<not> q_empty}"

interpretation tree: marking_walk "shown_edges children collapsed q_empty"
    "tree_walk children collapsed q_empty" "pe_pid \<circ> fst" "pe_pid \<circ> dr_process"
  for children collapsed q_empty
proof
  show "finite (shown_edges children collapsed q_empty)"
    by (rule finite_subset [OF _ finite_edges_of [of pe_pid children]]) (auto simp: shown_edges_def)
next
  fix i :: "process_entry \<times> nat" and stack and visited
  assume "(pe_pid \<circ> fst) i \<in> visited"
  then show "tree_walk children collapsed q_empty (i # stack) visited = tree_walk children collapsed q_empty stack visited"
    by (cases i) (simp add: tree_walk.simps)
next
  fix i :: "process_entry \<times> nat" and stack and visited
  assume new: "(pe_pid \<circ> fst) i \<notin> visited"
  obtain p depth where i: "i = (p, depth)" by (cases i)
  let ?visited = "insert (pe_pid p) visited"
  let ?fresh = "filter (\<lambda>k. pe_pid k \<notin> ?visited) (kids_of children (pe_pid p))"
  let ?items = "(if ?fresh \<noteq> [] \<and> (pe_pid p \<notin> collapsed \<or> \<not> q_empty) then map (\<lambda>k. (k, depth + 1)) ?fresh else [])"
  have "(pe_pid \<circ> fst) ` set ?items = (if pe_pid p \<notin> collapsed \<or> \<not> q_empty then pe_pid ` set ?fresh else {})"
    by (cases "?fresh = []") (auto simp: image_image)
  moreover have "pe_pid ` set ?fresh \<subseteq> edges pe_pid children `` {pe_pid p}"
    "edges pe_pid children `` {pe_pid p} \<subseteq> pe_pid ` set ?fresh \<union> ?visited"
    by (auto simp: edges_def)
  ultimately have "(pe_pid \<circ> fst) ` set ?items \<subseteq> shown_edges children collapsed q_empty `` {pe_pid p}"
    "shown_edges children collapsed q_empty `` {pe_pid p} \<subseteq> (pe_pid \<circ> fst) ` set ?items \<union> ?visited"
    unfolding shown_edges_def by auto
  moreover have "tree_walk children collapsed q_empty (i # stack) visited =
      row_from_process p depth (?fresh \<noteq> []) # tree_walk children collapsed q_empty (?items @ stack) ?visited"
    using new by (simp only: i tree_walk.simps o_apply fst_conv if_False Let_def)
  ultimately show "\<exists>r items. tree_walk children collapsed q_empty (i # stack) visited =
      r # tree_walk children collapsed q_empty (items @ stack) (insert ((pe_pid \<circ> fst) i) visited) \<and>
      (pe_pid \<circ> dr_process) r = (pe_pid \<circ> fst) i \<and>
      (pe_pid \<circ> fst) ` set items \<subseteq> shown_edges children collapsed q_empty `` {(pe_pid \<circ> fst) i} \<and>
      shown_edges children collapsed q_empty `` {(pe_pid \<circ> fst) i} \<subseteq>
        (pe_pid \<circ> fst) ` set items \<union> insert ((pe_pid \<circ> fst) i) visited"
    by (intro exI [of _ "row_from_process p depth (?fresh \<noteq> [])"] exI [of _ ?items])
       (simp only: i o_apply fst_conv row_from_process_def detail_row.select_convs simp_thms)
qed simp

lemma tree_walk_members:
  assumes "\<And>p. set (kids_of children p) \<subseteq> N"
  shows "fst ` set stack \<subseteq> N \<Longrightarrow> dr_process ` set (tree_walk children collapsed q_empty stack visited) \<subseteq> N"
  using assms
proof (induction children collapsed q_empty stack visited rule: tree_walk.induct)
  case (2 children collapsed q_empty p depth stack visited)
  let ?visited = "insert (pe_pid p) visited"
  let ?fresh = "filter (\<lambda>k. pe_pid k \<notin> ?visited) (kids_of children (pe_pid p))"
  let ?later = "(if ?fresh \<noteq> [] \<and> (pe_pid p \<notin> collapsed \<or> \<not> q_empty)
      then map (\<lambda>k. (k, depth + 1)) ?fresh else []) @ stack"
  have "fst ` set ?later \<subseteq> N" using 2(3) 2(4) [of "pe_pid p"] by auto
  from 2(1) [OF _ _ 2(4)] 2(2) [OF _ refl refl this 2(4)] 2(3)
  show ?case by (auto simp: tree_walk.simps Let_def row_from_process_def)
qed simp

text \<open>A walk that skips nothing, from roots that reach every member.\<close>

lemma tree_walk_complete:
  assumes kids: "\<And>p. set (kids_of children p) \<subseteq> set members"
    and cover: "pe_pid ` set members \<subseteq> reach (edges pe_pid children) (pe_pid ` set roots)" "set roots \<subseteq> set members"
    and dist: "distinct (map pe_pid members)" and shown: "collapsed = {} \<or> \<not> q_empty"
  shows "mset (map dr_process (tree_walk children collapsed q_empty (map (\<lambda>r. (r, 0)) roots) {})) = mset members"
proof -
  define rows where "rows = tree_walk children collapsed q_empty (map (\<lambda>r. (r, 0)) roots) {}"
  have sub: "dr_process ` set rows \<subseteq> set members"
    unfolding rows_def using cover(2) by (intro tree_walk_members kids) auto
  have "(pe_pid \<circ> fst) ` set (map (\<lambda>r. (r, 0 :: nat)) roots) = pe_pid ` set roots" by (simp add: image_image)
  moreover have "shown_edges children collapsed q_empty = edges pe_pid children"
    using shown by (auto simp: shown_edges_def)
  ultimately have marks: "(pe_pid \<circ> dr_process) ` set rows = reach (edges pe_pid children) (pe_pid ` set roots)"
    "distinct (map (pe_pid \<circ> dr_process) rows)"
    using tree.walk_roots [of children collapsed q_empty "map (\<lambda>r. (r, 0)) roots"]
    by (simp_all add: rows_def)
  have "set members \<subseteq> dr_process ` set rows"
  proof
    fix m assume m: "m \<in> set members"
    with cover(1) marks(1) obtain r where "r \<in> set rows" "pe_pid m = pe_pid (dr_process r)" by fastforce
    with key_inj [OF dist m] sub show "m \<in> dr_process ` set rows" by blast
  qed
  with sub have "set (map dr_process rows) = set members" by auto
  moreover have "distinct (map dr_process rows)" "distinct members"
    using marks(2) dist by (auto simp: distinct_map o_def inj_on_def)
  ultimately show ?thesis unfolding rows_def by (simp only: set_eq_iff_mset_eq_distinct)
qed

text \<open>
  C22: The tree shows every process. Without a search and with nothing collapsed, or with a search,
  which ignores what is collapsed, the rows are exactly the visible processes, each once: all of
  them without a search, the matches and their ancestors with one. Parent pids that run in a
  circle, or name processes that started later, lose nobody and repeat nobody.
\<close>

theorem details_tree_complete:
  assumes "distinct (map pe_pid ps)" "collapsed = {} \<or> new_query search \<noteq> []"
  shows "mset (map dr_process (build_rows ps search col Hierarchical collapsed)) =
      mset (filter (\<lambda>p. \<not> pe_synthetic p \<and>
        pe_pid p \<in> tree_visible (new_query search) (filter (\<lambda>p. \<not> pe_synthetic p) ps)) ps) \<and>
    pe_pid ` set (filter (\<lambda>p. \<not> pe_synthetic p \<and> matches_process (new_query search) p) ps) \<subseteq>
      tree_visible (new_query search) (filter (\<lambda>p. \<not> pe_synthetic p) ps)"
proof -
  let ?q = "new_query search" and ?all = "filter (\<lambda>p. \<not> pe_synthetic p) ps"
  let ?visible = "tree_visible ?q ?all"
  define members where "members = filter (\<lambda>p. pe_pid p \<in> ?visible) ?all"
  define children where "children = map (\<lambda>(pid, siblings). (pid, sort_processes col Hierarchical siblings))
    (children_by (tree_parent (processes_by_pid ?all) ?visible) members)"
  define roots where "roots = sort_processes col Hierarchical (forest_roots pe_pid children members)"
  have rows: "build_rows ps search col Hierarchical collapsed =
      tree_walk children collapsed (?q = []) (map (\<lambda>r. (r, 0)) roots) {}"
    by (simp add: build_rows_def Let_def roots_def children_def members_def)
  have kids: "set (kids_of children p) \<subseteq> set members" for p
    by (auto simp: children_def kids_of_sorted kids_of_children_by)
  have cover: "pe_pid ` set members \<subseteq> reach (edges pe_pid children) (pe_pid ` set roots)" "set roots \<subseteq> set members"
    using forest_roots_cover [of pe_pid members children] by (simp_all add: roots_def)
  have "distinct (map pe_pid members)" using assms(1) by (simp add: members_def distinct_map_filter)
  from tree_walk_complete [OF kids cover this assms(2)]
  have "mset (map dr_process (build_rows ps search col Hierarchical collapsed)) = mset members"
    by (simp only: rows)
  moreover have "filter (\<lambda>p. \<not> pe_synthetic p \<and> pe_pid p \<in> ?visible) ps = members"
    by (simp add: members_def conj_commute)
  moreover have "pe_pid ` set (filter (\<lambda>p. \<not> pe_synthetic p \<and> matches_process ?q p) ps) \<subseteq> ?visible"
    by (auto simp: tree_visible_def Let_def)
  ultimately show ?thesis by (simp only: simp_thms)
qed

definition loop_a :: process_entry where "loop_a = (new_entry 4 ''a.exe'')\<lparr>pe_ppid := Some 8\<rparr>"
definition loop_b :: process_entry where "loop_b = (new_entry 8 ''b.exe'')\<lparr>pe_ppid := Some 4\<rparr>"

theorem details_tree_complete_witness:
  "mset (map dr_process (build_rows [loop_a, loop_b] [] ColName Hierarchical {})) = {#loop_a, loop_b#}"
proof -
  have "distinct (map pe_pid [loop_a, loop_b])" by (simp add: loop_a_def loop_b_def new_entry_def)
  from details_tree_complete [OF this, of "{}" "[]" ColName]
  have "mset (map dr_process (build_rows [loop_a, loop_b] [] ColName Hierarchical {})) =
      mset (filter (\<lambda>p. \<not> pe_synthetic p \<and>
        pe_pid p \<in> tree_visible (new_query []) (filter (\<lambda>p. \<not> pe_synthetic p) [loop_a, loop_b])) [loop_a, loop_b])"
    by blast
  moreover have "filter (\<lambda>p. \<not> pe_synthetic p \<and>
      pe_pid p \<in> tree_visible (new_query []) (filter (\<lambda>p. \<not> pe_synthetic p) [loop_a, loop_b])) [loop_a, loop_b] =
      [loop_a, loop_b]"
  proof -
    have "list_all (\<lambda>p. \<not> pe_synthetic p \<and>
      pe_pid p \<in> tree_visible (new_query []) (filter (\<lambda>p. \<not> pe_synthetic p) [loop_a, loop_b])) [loop_a, loop_b]"
      by code_simp
    then show ?thesis by (simp only: list_all_iff filter_id_conv)
  qed
  ultimately show ?thesis by simp
qed

section \<open>The flat list\<close>

lemma total_cmp_by_option:
  assumes "total_cmp c"
  shows "total_cmp (\<lambda>a b. cmp_option_by c (f a) (f b))"
proof -
  have flip: "cmp_option_by c y x = ord_reverse (cmp_option_by c x y)" for x y
    by (cases x; cases y; simp; rule total_cmp_flip [OF assms])
  have trans: "cmp_option_by c x y \<noteq> Greater \<Longrightarrow> cmp_option_by c y z \<noteq> Greater \<Longrightarrow> cmp_option_by c x z \<noteq> Greater"
    for x y z
    using total_cmp_trans [OF assms] by (cases x; cases y; cases z) auto
  show ?thesis unfolding total_cmp_def using flip trans by blast
qed

lemma total_cmp_compare: "total_cmp (compare cid)"
proof -
  note opt = total_cmp_option
  have str: "total_cmp (\<lambda>a b. cmp_option_str (f a) (f b))" for f :: "process_entry \<Rightarrow> string option"
    unfolding cmp_option_str_def by (rule total_cmp_by_option) (rule total_cmp_ignore_case [of "\<lambda>x. x"])
  have f64: "total_cmp (\<lambda>a b. cmp_option_f64 (f a) (f b))" for f :: "process_entry \<Rightarrow> rat option"
    unfolding cmp_option_f64_def by (rule total_cmp_by_option) (rule total_cmp_cmp [of "\<lambda>x. x"])
  have ext: "(\<And>a b. c a b = d a b) \<Longrightarrow> total_cmp d \<Longrightarrow> total_cmp c" for c d :: "process_entry \<Rightarrow> process_entry \<Rightarrow> ordering"
    by presburger
  show ?thesis
    by (cases cid; hypsubst; rule ext, rule compare.simps, rule str f64 opt total_cmp_cmp total_cmp_ignore_case)
qed

text \<open>
  The flat list. For every column and direction it holds exactly the real processes that match
  the search, sorted by the column with the pid breaking ties, and does not depend on the order
  the sample lists the processes in.
\<close>

theorem details_list_sorted:
  assumes "distinct (map pe_pid ps)" "mset qs = mset ps" "order \<noteq> Hierarchical"
  shows "mset (map dr_process (build_rows ps search col order collapsed)) =
      mset (filter (\<lambda>p. \<not> pe_synthetic p \<and> matches_process (new_query search) p) ps) \<and>
    sorted_wrt (\<lambda>a b. directed (then_with (compare col a b) (cmp (pe_pid a) (pe_pid b))) (order = Ascending) \<noteq> Greater)
      (map dr_process (build_rows ps search col order collapsed)) \<and>
    build_rows qs search col order collapsed = build_rows ps search col order collapsed"
proof -
  let ?match = "\<lambda>p. \<not> pe_synthetic p \<and> matches_process (new_query search) p"
  let ?cmp = "\<lambda>a b. directed (then_with (compare col a b) (cmp (pe_pid a) (pe_pid b))) (order = Ascending)"
  have total: "total_cmp ?cmp"
    by (intro total_cmp_directed total_cmp_then total_cmp_compare total_cmp_cmp)
  have asc: "order_ascending order = (order = Ascending)"
    using assms(3) by (cases order) (auto simp: order_ascending_def)
  have rows: "build_rows rs search col order collapsed =
      map (\<lambda>p. row_from_process p 0 False) (sort_by ?cmp (filter ?match rs))" for rs
    using assms(3) by (simp add: build_rows_def sort_processes_def asc)
  have procs: "map dr_process (build_rows rs search col order collapsed) = sort_by ?cmp (filter ?match rs)" for rs
    unfolding rows by (simp add: row_from_process_def o_def)
  have "sort_by ?cmp (filter ?match qs) = sort_by ?cmp (filter ?match ps)"
  proof (rule sort_by_unique [OF total])
    show "mset (filter ?match qs) = mset (filter ?match ps)" using assms(2) by simp
    fix x y assume mem: "x \<in> set (filter ?match qs)" "y \<in> set (filter ?match qs)" and eq: "?cmp x y = Equal"
    have "set qs = set ps" using assms(2) by (rule mset_eq_setD)
    moreover have "pe_pid x = pe_pid y"
      using eq by (auto simp: directed_def then_with_Equal split: if_splits)
    ultimately show "x = y" using key_inj [OF assms(1)] mem by auto
  qed
  then show ?thesis
    by (simp only: procs mset_sort_by) (simp add: rows sort_by_sorted [OF total])
qed

theorem details_list_sorted_witness:
  "build_rows [loop_b, loop_a] [] ColCpu Descending {} = build_rows [loop_a, loop_b] [] ColCpu Descending {}"
proof -
  have "distinct (map pe_pid [loop_a, loop_b])" by (simp add: loop_a_def loop_b_def new_entry_def)
  from details_list_sorted [OF this, of "[loop_b, loop_a]" Descending "[]" ColCpu "{}"]
  show ?thesis by simp
qed

end
