(* ===== verification/Broker_Protocol.thy ===== *)
theory Broker_Protocol
  imports Bytes Errors Rust_Text
begin

text \<open>
  The wire protocol and the installation checks of the core service
  (crates/tm-platform/src/win/core_service.rs): length-prefixed frames, the text of a SID and the
  access rule of the pipe built from it, the manifest that pins the installed binaries, the states
  the GUI tells apart. The file system, SHA-256 and JSON are a record of functions; error texts are shortened.
\<close>

section \<open>Frames\<close>

definition PROTOCOL_VERSION :: u16 where "PROTOCOL_VERSION = 9"
definition FRAME_MAGIC :: "u8 list" where "FRAME_MAGIC = [0x54, 0x4D, 0x42, 0x31]"
definition FRAME_REQUEST :: u16 where "FRAME_REQUEST = 1"
definition FRAME_RESPONSE :: u16 where "FRAME_RESPONSE = 2"
definition FRAME_HEADER_LEN :: nat where "FRAME_HEADER_LEN = 12"
definition MAX_REQUEST_BYTES :: nat where "MAX_REQUEST_BYTES = 64 * 1024"
definition MAX_RESPONSE_BYTES :: nat where "MAX_RESPONSE_BYTES = 512 * 1024"
definition MAX_MODULES_PER_RESPONSE :: nat where "MAX_MODULES_PER_RESPONSE = 1024"
definition MAX_THREAD_DETAILS_PER_RESPONSE :: nat where "MAX_THREAD_DETAILS_PER_RESPONSE = 4096"
definition MANIFEST_SCHEMA :: u32 where "MANIFEST_SCHEMA = 1"

definition invalid_data :: "string \<Rightarrow> io_error" where
  "invalid_data t = \<lparr>io_kind = InvalidData, io_text = t\<rparr>"

definition u16_le :: "u16 \<Rightarrow> u8 list" where "u16_le w = le_bytes 2 (unat w)"
definition u16_from_le :: "u8 list \<Rightarrow> u16" where "u16_from_le bs = of_nat (le_value bs)"

text \<open>The bytes written.\<close>

definition write_frame :: "u16 \<Rightarrow> u8 list \<Rightarrow> nat \<Rightarrow> io_error + u8 list" where
  "write_frame kind payload maximum =
     (if maximum < length payload \<or> 2 ^ 32 - 1 < length payload
      then Inl (invalid_data ''broker frame exceeds limit'')
      else Inr (FRAME_MAGIC @ u16_le PROTOCOL_VERSION @ u16_le kind @
        u32_le (of_nat (length payload)) @ payload))"

definition read_exact :: "nat \<Rightarrow> u8 list \<Rightarrow> io_error + (u8 list \<times> u8 list)" where
  "read_exact n stream =
     (if n \<le> length stream then Inr (take n stream, drop n stream)
      else Inl \<lparr>io_kind = OtherKind, io_text = ''failed to fill whole buffer''\<rparr>)"

text \<open>The payload and what is left of the stream.\<close>

definition read_frame :: "u16 \<Rightarrow> nat \<Rightarrow> u8 list \<Rightarrow> io_error + (u8 list \<times> u8 list)" where
  "read_frame expected_kind maximum stream =
     and_then (read_exact FRAME_HEADER_LEN stream) (\<lambda>(header, stream).
       if take 4 header \<noteq> FRAME_MAGIC then Inl (invalid_data ''invalid broker frame magic'')
       else if u16_from_le (take 2 (drop 4 header)) \<noteq> PROTOCOL_VERSION
       then Inl (invalid_data ''unsupported broker protocol version'')
       else if u16_from_le (take 2 (drop 6 header)) \<noteq> expected_kind
       then Inl (invalid_data ''unexpected broker frame kind'')
       else
         (let len = unat (u32_from_le (take 4 (drop 8 header))) in
          if maximum < len then Inl (invalid_data ''broker frame exceeds limit'')
          else read_exact len stream))"

lemma u16_from_le_le [simp]: "u16_from_le (u16_le w) = w"
proof -
  have "unat w < 256 ^ 2" using unsigned_less [of w] by simp
  then show ?thesis by (simp add: u16_from_le_def u16_le_def le_value_bytes)
qed

lemma length_u16_le [simp]: "length (u16_le w) = 2"
  by (simp add: u16_le_def)

lemma le_decoded:
  "length bs = 2 \<Longrightarrow> u16_le (u16_from_le bs) = bs"
  "length cs = 4 \<Longrightarrow> u32_le (u32_from_le cs) = cs"
proof -
  have "unat (of_nat (le_value bs) :: u16) = le_value bs" if "length bs = 2"
    using le_value_bound [of bs] that by (simp add: unat_of_nat)
  then show "length bs = 2 \<Longrightarrow> u16_le (u16_from_le bs) = bs"
    using le_bytes_value [of bs] by (simp add: u16_le_def u16_from_le_def)
  have "unat (of_nat (le_value cs) :: u32) = le_value cs" if "length cs = 4"
    using le_value_bound [of cs] that by (simp add: unat_of_nat)
  then show "length cs = 4 \<Longrightarrow> u32_le (u32_from_le cs) = cs"
    using le_bytes_value [of cs] by (simp add: u32_le_def u32_from_le_def)
qed

lemma read_exact_Inr: "read_exact n s = Inr (a, b) \<longleftrightarrow> s = a @ b \<and> length a = n"
  by (auto simp: read_exact_def)

lemma header_parts:
  assumes "length header = FRAME_HEADER_LEN"
  shows "header = take 4 header @ take 2 (drop 4 header) @ take 2 (drop 6 header) @ take 4 (drop 8 header)"
proof -
  have "drop 8 header = take 4 (drop 8 header)" using assms by (simp add: FRAME_HEADER_LEN_def)
  moreover have "drop 6 header = take 2 (drop 6 header) @ drop 8 header"
    using append_take_drop_id [of 2 "drop 6 header"] by simp
  moreover have "drop 4 header = take 2 (drop 4 header) @ drop 6 header"
    using append_take_drop_id [of 2 "drop 4 header"] by simp
  ultimately show ?thesis using append_take_drop_id [of 4 header] by metis
qed

lemma read_frame_written:
  assumes "write_frame kind payload maximum = Inr frame"
  shows "read_frame kind maximum (frame @ rest) = Inr (payload, rest)"
proof -
  have len: "length payload \<le> maximum" "length payload < 2 ^ 32"
    and frame: "frame = FRAME_MAGIC @ u16_le PROTOCOL_VERSION @ u16_le kind @
      u32_le (of_nat (length payload)) @ payload"
    using assms by (auto simp: write_frame_def split: if_splits)
  define header where
    "header = FRAME_MAGIC @ u16_le PROTOCOL_VERSION @ u16_le kind @ u32_le (of_nat (length payload))"
  have magic: "length FRAME_MAGIC = 4" by (simp add: FRAME_MAGIC_def)
  have read: "read_exact FRAME_HEADER_LEN (frame @ rest) = Inr (header, payload @ rest)"
    by (simp add: read_exact_Inr frame header_def FRAME_HEADER_LEN_def magic)
  have parts: "take 4 header = FRAME_MAGIC" "take 2 (drop 4 header) = u16_le PROTOCOL_VERSION"
    "take 2 (drop 6 header) = u16_le kind" "take 4 (drop 8 header) = u32_le (of_nat (length payload))"
    by (simp_all add: header_def magic)
  have "unat (of_nat (length payload) :: u32) = length payload"
    using len(2) by (simp add: unat_of_nat)
  then show ?thesis
    using len(1) by (simp add: read_frame_def read parts read_exact_Inr)
qed

lemma read_frame_only_written:
  assumes "read_frame kind maximum stream = Inr (payload, rest)"
  shows "\<exists>frame. write_frame kind payload maximum = Inr frame \<and> stream = frame @ rest"
proof -
  from assms obtain header more where h: "read_exact FRAME_HEADER_LEN stream = Inr (header, more)"
    and c: "take 4 header = FRAME_MAGIC" "u16_from_le (take 2 (drop 4 header)) = PROTOCOL_VERSION"
      "u16_from_le (take 2 (drop 6 header)) = kind"
      "unat (u32_from_le (take 4 (drop 8 header))) \<le> maximum"
      "read_exact (unat (u32_from_le (take 4 (drop 8 header)))) more = Inr (payload, rest)"
    by (auto simp: read_frame_def and_then_Inr_iff Let_def not_less split: if_splits)
  then have len: "length header = FRAME_HEADER_LEN" "stream = header @ more" "more = payload @ rest"
    "length payload = unat (u32_from_le (take 4 (drop 8 header)))"
    by (auto simp: read_exact_Inr)
  have "u16_le PROTOCOL_VERSION = take 2 (drop 4 header)" "u16_le kind = take 2 (drop 6 header)"
    "u32_le (of_nat (length payload)) = take 4 (drop 8 header)"
    using len(1) le_decoded(1) [of "take 2 (drop 4 header)"] le_decoded(1) [of "take 2 (drop 6 header)"]
      le_decoded(2) [of "take 4 (drop 8 header)"] c(2,3)
    by (simp_all add: len(4) FRAME_HEADER_LEN_def)
  with header_parts [OF len(1)] c(1) have
    "header = FRAME_MAGIC @ u16_le PROTOCOL_VERSION @ u16_le kind @ u32_le (of_nat (length payload))"
    by simp
  moreover have "length payload < 2 ^ 32"
    unfolding len(4) using unsigned_less [of "u32_from_le (take 4 (drop 8 header))"] by simp
  ultimately show ?thesis
    using c(4) len(2-4) by (auto simp: write_frame_def)
qed

text \<open>
  A frame is read exactly when it was written so. On any stream of bytes the reader returns a
  payload if and only if the stream starts with the frame that the writer makes of that payload
  under the same limit, and it leaves the rest of the stream unread. No other magic, version, kind
  or length passes, and no payload above the limit is ever allocated for.
\<close>

theorem frames_exact:
  "read_frame kind maximum stream = Inr (payload, rest) \<longleftrightarrow>
     (\<exists>frame. write_frame kind payload maximum = Inr frame \<and> stream = frame @ rest)"
  using read_frame_written read_frame_only_written by blast

section \<open>Access to the pipe\<close>

definition MANIFEST_CONTEXT :: string where "MANIFEST_CONTEXT = ''broker manifest''"

definition manifest_err :: "string \<Rightarrow> tm_error" where
  "manifest_err t = tm_platform MANIFEST_CONTEXT t"

definition valid_sid_text :: "string \<Rightarrow> bool" where
  "valid_sid_text value =
     (if 184 < utf8_len value then False
      else case strip_prefix ''S-'' value of
        None \<Rightarrow> False
      | Some parts \<Rightarrow>
          (case split_on (CHR ''-'') parts of
             [] \<Rightarrow> False
           | first # rest \<Rightarrow> first = ''1'' \<and> 1 \<le> length rest \<and>
               list_all (\<lambda>part. part \<noteq> [] \<and> list_all is_ascii_digit part) rest))"

text \<open>\<open>format!(\"{USER_PIPE_ACCESS:#08x}\")\<close> of \<open>0x0010_0083\<close>.\<close>

definition USER_PIPE_ACCESS_text :: string where "USER_PIPE_ACCESS_text = ''0x100083''"

definition pipe_sddl :: "string \<Rightarrow> tm_error + string" where
  "pipe_sddl authorized_sid =
     (if \<not> valid_sid_text authorized_sid then Inl (manifest_err ''authorized user SID is malformed'')
      else Inr (''D:P(D;;GA;;;NU)(A;;GA;;;SY)(A;;GA;;;BA)(A;;'' @ USER_PIPE_ACCESS_text @ '';;;'' @
        authorized_sid @ '')''))"

lemma set_join: "set (join sep ws) \<subseteq> set sep \<union> \<Union> (set ` set ws)"
  by (induction sep ws rule: join.induct) auto

lemma valid_sid_chars:
  assumes "valid_sid_text sid" "c \<in> set sid"
  shows "c = CHR ''S'' \<or> c = CHR ''-'' \<or> is_ascii_digit c"
proof -
  from assms(1) obtain parts first rest where p: "sid = ''S-'' @ parts" "split_on (CHR ''-'') parts = first # rest"
    "first = ''1''" "\<forall>part\<in>set rest. list_all is_ascii_digit part"
    by (auto simp: valid_sid_text_def strip_prefix_Some_iff list_all_iff split: if_splits option.splits list.splits)
  have "parts = join ''-'' (first # rest)" using join_split_on [of "CHR ''-''" parts] p(2) by simp
  then have "set parts \<subseteq> {CHR ''-''} \<union> \<Union> (set ` set (first # rest))"
    using set_join [of "''-''" "first # rest"] by simp
  moreover have "is_ascii_digit c" if "c \<in> \<Union> (set ` set (first # rest))" for c
    using that p(3,4) by (auto simp: list_all_iff is_ascii_digit_def code_def)
  ultimately show ?thesis using assms(2) p(1) by auto
qed

text \<open>
  The access rule of the pipe cannot be extended by the identity that is put into it. If a
  rule is made at all, it is the fixed one with the identity in the place of the trustee: the
  identity has at most 184 bytes and no character but digits, hyphens and the letter S, so that
  it can close neither the entry nor add another.
\<close>

theorem pipe_access_not_extended:
  assumes "pipe_sddl sid = Inr sddl"
  shows "sddl = ''D:P(D;;GA;;;NU)(A;;GA;;;SY)(A;;GA;;;BA)(A;;0x100083;;;'' @ sid @ '')'' \<and>
    length sid \<le> 184 \<and> set sid \<inter> set ''();:'' = {} \<and>
    set sid \<subseteq> {CHR ''S'', CHR ''-''} \<union> Collect is_ascii_digit"
proof -
  from assms have valid: "valid_sid_text sid"
    and sddl: "sddl = ''D:P(D;;GA;;;NU)(A;;GA;;;SY)(A;;GA;;;BA)(A;;0x100083;;;'' @ sid @ '')''"
    by (auto simp: pipe_sddl_def USER_PIPE_ACCESS_text_def split: if_splits)
  have "utf8_len sid \<le> 184" using valid by (simp add: valid_sid_text_def split: if_splits)
  then have "length sid \<le> 184" using utf8_len_ge [of sid] by simp
  moreover have chars: "set sid \<subseteq> {CHR ''S'', CHR ''-''} \<union> Collect is_ascii_digit"
    using valid_sid_chars [OF valid] by auto
  moreover have "set ''();:'' \<inter> ({CHR ''S'', CHR ''-''} \<union> Collect is_ascii_digit) = {}"
    by (auto simp: is_ascii_digit_def code_def)
  then have "set sid \<inter> set ''();:'' = {}" using chars by blast
  ultimately show ?thesis using sddl chars by (intro conjI)
qed

theorem pipe_access_not_extended_witness:
  "\<exists>sddl. pipe_sddl ''S-1-5-21-7'' = Inr sddl \<and> length ''S-1-5-21-7'' \<le> 184 \<and>
     sddl = ''D:P(D;;GA;;;NU)(A;;GA;;;SY)(A;;GA;;;BA)(A;;0x100083;;;S-1-5-21-7)''"
proof -
  have "pipe_sddl ''S-1-5-21-7'' =
      Inr ''D:P(D;;GA;;;NU)(A;;GA;;;SY)(A;;GA;;;BA)(A;;0x100083;;;S-1-5-21-7)''" by code_simp
  note conjunct1 [OF conjunct2 [OF pipe_access_not_extended [OF this]]]
  with \<open>pipe_sddl _ = _\<close> show ?thesis by (intro exI conjI) (assumption, assumption, rule refl)
qed

definition valid_service_name :: "string \<Rightarrow> bool" where
  "valid_service_name name \<longleftrightarrow> name \<noteq> [] \<and> utf8_len name \<le> 256 \<and>
     list_all (\<lambda>c. is_ascii_alpha c \<or> is_ascii_digit c \<or> c \<in> {CHR ''_'', CHR ''-'', CHR ''.'', CHR '' ''}) name"

definition SERVICE_NAME :: string where "SERVICE_NAME = ''TaskmanCore''"
definition SERVICE_LOG_FILE_PREFIX :: string where "SERVICE_LOG_FILE_PREFIX = ''taskman-service.log''"

text \<open>The name of a log file is valid Unicode or \<open>None\<close>.\<close>

definition owned_service_log_name :: "string option \<Rightarrow> bool" where
  "owned_service_log_name name =
     (case Option.bind name (strip_prefix (SERVICE_LOG_FILE_PREFIX @ ''.'')) of
        None \<Rightarrow> False
      | Some date \<Rightarrow> utf8_len date = 10 \<and>
          list_all (\<lambda>(index, c). if index \<in> {4, 7} then c = CHR ''-'' else is_ascii_digit c) (enumerate 0 date))"

section \<open>The manifest\<close>

record broker_manifest =
  bm_schema_version :: u32
  bm_protocol_version :: u16
  bm_authorized_user_sid :: string
  bm_gui_path :: string
  bm_gui_sha256 :: string
  bm_service_path :: string
  bm_service_sha256 :: string

text \<open>The machine: the path of the running image, \<open>canonicalize\<close>, the protected install
  locations, the hash of a file, the manifest file (its length and contents, opened so that nobody
  writes to it) and its JSON.\<close>

record broker_host =
  bh_current_exe :: "io_error + string"
  bh_canonicalize :: "string \<Rightarrow> io_error + string"
  bh_installed_gui :: "tm_error + string"
  bh_installed_service :: "tm_error + string"
  bh_sha256_file :: "string \<Rightarrow> io_error + string"
  bh_manifest_file :: "tm_error + (u64 \<times> (io_error + u8 list))"
  bh_manifest_json :: "u8 list \<Rightarrow> string + broker_manifest"

definition io_try :: "io_error + 'a \<Rightarrow> tm_error + 'a" where
  "io_try r = (case r of Inl e \<Rightarrow> Inl (from_io e) | Inr v \<Rightarrow> Inr v)"

definition verbatim_prefix :: string where
  "verbatim_prefix = [CHR 0x5C, CHR 0x5C, CHR ''?'', CHR 0x5C]"

definition normalized_path :: "broker_host \<Rightarrow> string \<Rightarrow> io_error + string" where
  "normalized_path H path =
     and_then (bh_canonicalize H path) (\<lambda>value.
       Inr (to_lowercase (replace_char (CHR ''/'') [CHR 0x5C] (unwrap_or (strip_prefix verbatim_prefix value) value))))"

definition paths_match :: "broker_host \<Rightarrow> string \<Rightarrow> string \<Rightarrow> bool" where
  "paths_match H left right =
     (case and_then (normalized_path H left) (\<lambda>l. and_then (normalized_path H right) (\<lambda>r. Inr (l = r))) of
        Inl _ \<Rightarrow> False | Inr b \<Rightarrow> b)"

definition hash_fingerprint :: "string \<Rightarrow> string" where
  "hash_fingerprint hash = (if 12 \<le> length hash then take 12 hash else hash)"

definition verify_pinned_hash :: "string \<Rightarrow> string \<Rightarrow> string \<Rightarrow> tm_error + unit" where
  "verify_pinned_hash label expected actual =
     (if eq_ignore_ascii_case actual expected then Inr ()
      else Inl (manifest_err (''installed '' @ label @ '' binary does not match the manifest (expected sha256 '' @
        hash_fingerprint expected @ '', found '' @ hash_fingerprint actual @ '')'')))"

definition validate_manifest :: "broker_host \<Rightarrow> broker_manifest \<Rightarrow> tm_error + unit" where
  "validate_manifest H m =
     (if bm_schema_version m \<noteq> MANIFEST_SCHEMA \<or> bm_protocol_version m \<noteq> PROTOCOL_VERSION \<or>
         \<not> valid_sid_text (bm_authorized_user_sid m)
      then Inl (manifest_err ''unsupported schema/protocol or invalid SID'')
      else
        and_then (io_try (bh_current_exe H)) (\<lambda>own_exe.
          if \<not> paths_match H own_exe (bm_service_path m)
          then Inl (manifest_err ''service is not running from its protected installed path'')
          else
            and_then (bh_installed_gui H) (\<lambda>gui.
              let wrong = Inl (manifest_err ''binary paths do not match the protected install location'') in
              if \<not> paths_match H gui (bm_gui_path m) then wrong
              else
                and_then (bh_installed_service H) (\<lambda>service.
                  if \<not> paths_match H service (bm_service_path m) then wrong
                  else
                    and_then (io_try (bh_sha256_file H (bm_service_path m))) (\<lambda>service_hash.
                    and_then (verify_pinned_hash ''service'' (bm_service_sha256 m) service_hash) (\<lambda>_.
                    and_then (io_try (bh_sha256_file H (bm_gui_path m))) (\<lambda>gui_hash.
                      verify_pinned_hash ''GUI'' (bm_gui_sha256 m) gui_hash)))))))"

definition load_manifest :: "broker_host \<Rightarrow> tm_error + broker_manifest" where
  "load_manifest H =
     and_then (bh_manifest_file H) (\<lambda>(len, content).
       if 64 * 1024 < len then Inl (manifest_err ''manifest is too large'')
       else
         and_then (io_try content) (\<lambda>bytes.
           case bh_manifest_json H bytes of
             Inl error \<Rightarrow> Inl (manifest_err (''manifest is unreadable: '' @ error))
           | Inr manifest \<Rightarrow> and_then (validate_manifest H manifest) (\<lambda>_. Inr manifest)))"

section \<open>Errors and states the GUI tells apart\<close>

definition SERVICE_EXIT_FAILURE :: u32 where "SERVICE_EXIT_FAILURE = 1"
definition SERVICE_EXIT_INSTALL_INTEGRITY :: u32 where "SERVICE_EXIT_INSTALL_INTEGRITY = 2"

definition is_install_integrity_failure :: "tm_error \<Rightarrow> bool" where
  "is_install_integrity_failure error =
     (case error of Platform context detail \<Rightarrow> context = MANIFEST_CONTEXT | _ \<Rightarrow> False)"

definition service_exit_code :: "tm_error \<Rightarrow> u32" where
  "service_exit_code error =
     (if is_install_integrity_failure error then SERVICE_EXIT_INSTALL_INTEGRITY else SERVICE_EXIT_FAILURE)"

datatype service_exit = Win32Exit u32 | ServiceSpecific u32

datatype core_service_state =
    ServiceUnsupported | ServiceNotInstalled | ServiceStopped | ServiceStarting
  | ServiceRunning string | ServiceDegraded string | ServiceIntegrityFailed | ServiceForeignClient

definition classify_stopped_state :: "service_exit \<Rightarrow> core_service_state" where
  "classify_stopped_state exit_code =
     (if exit_code = ServiceSpecific SERVICE_EXIT_INSTALL_INTEGRITY then ServiceIntegrityFailed
      else ServiceStopped)"

definition foreign_client_session :: "broker_host \<Rightarrow> string option \<Rightarrow> string option \<Rightarrow> bool" where
  "foreign_client_session H current_exe installed_gui =
     (case (current_exe, installed_gui) of
        (Some current, Some installed) \<Rightarrow> \<not> paths_match H current installed
      | _ \<Rightarrow> False)"

section \<open>What a manifest that loads guarantees\<close>

lemma paths_match_iff:
  "paths_match H l r \<longleftrightarrow> (\<exists>p. normalized_path H l = Inr p \<and> normalized_path H r = Inr p)"
  by (cases "normalized_path H l"; cases "normalized_path H r") (auto simp: paths_match_def)

lemma io_try_Inr: "io_try r = Inr v \<longleftrightarrow> r = Inr v"
  by (cases r) (simp_all add: io_try_def)

lemma verify_pinned_hash_Inr: "verify_pinned_hash label e a = Inr () \<longleftrightarrow> eq_ignore_ascii_case a e"
  by (simp add: verify_pinned_hash_def)

lemma validate_manifest_Inr:
  "validate_manifest H m = Inr () \<longleftrightarrow>
     bm_schema_version m = MANIFEST_SCHEMA \<and> bm_protocol_version m = PROTOCOL_VERSION \<and>
     valid_sid_text (bm_authorized_user_sid m) \<and>
     (\<exists>exe gui service service_hash gui_hash.
        bh_current_exe H = Inr exe \<and> paths_match H exe (bm_service_path m) \<and>
        bh_installed_gui H = Inr gui \<and> paths_match H gui (bm_gui_path m) \<and>
        bh_installed_service H = Inr service \<and> paths_match H service (bm_service_path m) \<and>
        bh_sha256_file H (bm_service_path m) = Inr service_hash \<and>
        eq_ignore_ascii_case service_hash (bm_service_sha256 m) \<and>
        bh_sha256_file H (bm_gui_path m) = Inr gui_hash \<and>
        eq_ignore_ascii_case gui_hash (bm_gui_sha256 m))"
  by (cases "bh_current_exe H"; cases "bh_installed_gui H"; cases "bh_installed_service H";
      cases "bh_sha256_file H (bm_service_path m)"; cases "bh_sha256_file H (bm_gui_path m)")
    (auto simp: validate_manifest_def and_then_Inr_iff io_try_def verify_pinned_hash_Inr Let_def)


definition sample_host :: broker_host where
  "sample_host = \<lparr>bh_current_exe = Inr ''C:/TaskMan/service.exe'', bh_canonicalize = Inr,
     bh_installed_gui = Inr ''C:/TaskMan/taskman.exe'', bh_installed_service = Inr ''c:/taskman/SERVICE.exe'',
     bh_sha256_file = (\<lambda>p. Inr (if p = ''C:/TaskMan/taskman.exe'' then ''AB'' else ''cd'')),
     bh_manifest_file = Inr (7, Inr [1]),
     bh_manifest_json = (\<lambda>_. Inr \<lparr>bm_schema_version = 1, bm_protocol_version = 9,
       bm_authorized_user_sid = ''S-1-5-21-7'', bm_gui_path = ''C:/TaskMan/taskman.exe'', bm_gui_sha256 = ''ab'',
       bm_service_path = ''C:/TaskMan/service.exe'', bm_service_sha256 = ''cd''\<rparr>)\<rparr>"


end
