(* ===== verification/Broker_Traces.thy ===== *)
theory Broker_Traces
  imports Prelude
begin

text \<open>
  The traces the core service hosts for the network and disk columns
  (crates/tm-platform/src/win/core_service.rs): a session is started by the first request,
  replaced when it ended underneath, and stopped by its watchdog when nobody has asked for 30
  seconds. The sessions of the system are a record of functions; times are in milliseconds; the
  totals of a session are listed in the order of its map.
\<close>

section \<open>Samples\<close>

record network_entry =
  ne_pid :: u32
  ne_received :: u64
  ne_sent :: u64

record network_sample =
  ns_active :: bool
  ns_entries :: "network_entry list"

record disk_time =
  dt_disk :: u32
  dt_service_time :: u64

record disk_entry =
  de_pid :: u32
  de_service_time :: u64
  de_disks :: "disk_time list"
  de_read_bytes :: u64
  de_write_bytes :: u64
  de_ops :: u64

record disk_sample =
  ds_active :: bool
  ds_window_ms :: u64
  ds_total_service_time :: u64
  ds_events_seen :: u64
  ds_events_decoded :: u64
  ds_disk_totals :: "disk_time list"
  ds_entries :: "disk_entry list"

definition default_network_sample :: network_sample where
  "default_network_sample = \<lparr>ns_active = False, ns_entries = []\<rparr>"

definition default_disk_sample :: disk_sample where
  "default_disk_sample = \<lparr>ds_active = False, ds_window_ms = 0, ds_total_service_time = 0,
     ds_events_seen = 0, ds_events_decoded = 0, ds_disk_totals = [], ds_entries = []\<rparr>"

definition NET_TRACE_IDLE :: nat where "NET_TRACE_IDLE = 30000"
definition NET_MAX_ENTRIES :: nat where "NET_MAX_ENTRIES = 5000"
definition DISK_MAX_ENTRIES :: nat where "DISK_MAX_ENTRIES = 1800"
definition DISK_MAX_DISK_TIMES :: nat where "DISK_MAX_DISK_TIMES = 3600"

section \<open>Sessions\<close>

text \<open>A drained window of the disk session: what it covers, the time served by each disk, and for
  each live process its time, the disks that served it, bytes read and written, operations.\<close>

record disk_window =
  dw_since_ms :: u64
  dw_total_service_time :: u64
  dw_events_seen :: u64
  dw_events_decoded :: u64
  dw_disk_totals :: "disk_time list"
  dw_procs :: "disk_entry list"

text \<open>The system at one moment: whether a session can be started and which one that is, whether a
  session still runs, what it has counted for the live processes, and whether a thread can be
  spawned.\<close>

record trace_system =
  ts_net_start :: "nat option"
  ts_net_running :: "nat \<Rightarrow> bool"
  ts_net_totals :: "nat \<Rightarrow> network_entry list"
  ts_disk_start :: "nat option"
  ts_disk_running :: "nat \<Rightarrow> bool"
  ts_disk_window :: "nat \<Rightarrow> disk_window"
  ts_spawns :: bool

text \<open>A slot: the session and the time of the last request.\<close>

record trace =
  tr_session :: nat
  tr_last_request :: nat

definition network_answer :: "network_entry list \<Rightarrow> network_sample" where
  "network_answer totals =
     (let entries = filter (\<lambda>e. ne_received e \<noteq> 0 \<or> ne_sent e \<noteq> 0) totals in
      if NET_MAX_ENTRIES < length entries then default_network_sample
      else \<lparr>ns_active = True, ns_entries = entries\<rparr>)"

definition process_network_sample ::
    "trace_system \<Rightarrow> nat \<Rightarrow> trace option \<Rightarrow> network_sample \<times> trace option" where
  "process_network_sample S now slot =
     (let ask = (\<lambda>t. (network_answer (ts_net_totals S (tr_session t)), Some (t\<lparr>tr_last_request := now\<rparr>)))
      in case slot of
        Some t \<Rightarrow>
          if ts_net_running S (tr_session t) then ask t
          else (case ts_net_start S of
                  Some usage \<Rightarrow> ask (t\<lparr>tr_session := usage\<rparr>)
                | None \<Rightarrow> (default_network_sample, slot))
      | None \<Rightarrow>
          (case ts_net_start S of
             Some usage \<Rightarrow> ask \<lparr>tr_session = usage, tr_last_request = now\<rparr>
           | None \<Rightarrow> (default_network_sample, None)))"

definition disk_answer :: "disk_window \<Rightarrow> disk_sample" where
  "disk_answer w =
     (let entries = filter (\<lambda>e. de_ops e \<noteq> 0) (dw_procs w);
          disk_times = length (dw_disk_totals w) + sum_list (map (\<lambda>e. length (de_disks e)) entries)
      in if DISK_MAX_ENTRIES < length entries \<or> DISK_MAX_DISK_TIMES < disk_times then default_disk_sample
         else \<lparr>ds_active = True, ds_window_ms = dw_since_ms w, ds_total_service_time = dw_total_service_time w,
           ds_events_seen = dw_events_seen w, ds_events_decoded = dw_events_decoded w,
           ds_disk_totals = dw_disk_totals w, ds_entries = entries\<rparr>)"

definition process_disk_sample ::
    "trace_system \<Rightarrow> nat \<Rightarrow> trace option \<Rightarrow> disk_sample \<times> trace option" where
  "process_disk_sample S now slot =
     (case slot of
        Some t \<Rightarrow>
          if ts_disk_running S (tr_session t)
          then (disk_answer (ts_disk_window S (tr_session t)), Some (t\<lparr>tr_last_request := now\<rparr>))
          else (default_disk_sample,
            Some (case ts_disk_start S of Some usage \<Rightarrow> t\<lparr>tr_session := usage\<rparr> | None \<Rightarrow> t))
      | None \<Rightarrow>
          (default_disk_sample,
            map_option (\<lambda>usage. \<lparr>tr_session = usage, tr_last_request = now\<rparr>) (ts_disk_start S)))"

section \<open>The watchdog\<close>

datatype watchdog = WatchdogDone | WatchdogSleeps nat

text \<open>One wake-up of the watchdog of a slot.\<close>

definition watchdog_wake :: "nat \<Rightarrow> trace option \<Rightarrow> watchdog \<times> trace option" where
  "watchdog_wake now slot =
     (case slot of
        None \<Rightarrow> (WatchdogDone, None)
      | Some t \<Rightarrow>
          (let idle = now - tr_last_request t in
           if NET_TRACE_IDLE \<le> idle then (WatchdogDone, None)
           else (WatchdogSleeps (NET_TRACE_IDLE - idle), slot)))"

text \<open>A slot and its watchdog: when it wakes up, if it runs.\<close>

record hosted =
  ho_slot :: "trace option"
  ho_wakes :: "nat option"

text \<open>\<open>spawn_trace_watchdog\<close> ignores a thread that could not be spawned. The caller starts a
  session and its watchdog under the lock of the slot.\<close>

definition spawn_trace_watchdog :: "trace_system \<Rightarrow> nat \<Rightarrow> nat option" where
  "spawn_trace_watchdog S now = (if ts_spawns S then Some now else None)"

definition net_request :: "trace_system \<Rightarrow> nat \<Rightarrow> hosted \<Rightarrow> network_sample \<times> hosted" where
  "net_request S now h =
     (case process_network_sample S now (ho_slot h) of
        (sample, slot) \<Rightarrow>
          (sample, \<lparr>ho_slot = slot,
             ho_wakes = (if ho_slot h = None \<and> slot \<noteq> None then spawn_trace_watchdog S now else ho_wakes h)\<rparr>))"

definition disk_request :: "trace_system \<Rightarrow> nat \<Rightarrow> hosted \<Rightarrow> disk_sample \<times> hosted" where
  "disk_request S now h =
     (case process_disk_sample S now (ho_slot h) of
        (sample, slot) \<Rightarrow>
          (sample, \<lparr>ho_slot = slot,
             ho_wakes = (if ho_slot h = None \<and> slot \<noteq> None then spawn_trace_watchdog S now else ho_wakes h)\<rparr>))"

definition watchdog_step :: "nat \<Rightarrow> hosted \<Rightarrow> hosted" where
  "watchdog_step now h =
     (case watchdog_wake now (ho_slot h) of
        (WatchdogDone, slot) \<Rightarrow> \<lparr>ho_slot = slot, ho_wakes = None\<rparr>
      | (WatchdogSleeps wait, slot) \<Rightarrow> \<lparr>ho_slot = slot, ho_wakes = Some (now + wait)\<rparr>)"

text \<open>The service over time: requests of either kind at any time, answered by systems that are
  \<open>allowed\<close>, and wake-ups, each when it is due or at any later time.\<close>

definition idle_host :: hosted where
  "idle_host = \<lparr>ho_slot = None, ho_wakes = None\<rparr>"

inductive host_step :: "(trace_system \<Rightarrow> bool) \<Rightarrow> nat \<times> hosted \<Rightarrow> nat \<times> hosted \<Rightarrow> bool"
  for allowed :: "trace_system \<Rightarrow> bool" where
  net: "allowed S \<Longrightarrow> t \<le> now \<Longrightarrow> host_step allowed (t, h) (now, snd (net_request S now h))"
| disk: "allowed S \<Longrightarrow> t \<le> now \<Longrightarrow> host_step allowed (t, h) (now, snd (disk_request S now h))"
| wake: "ho_wakes h = Some w \<Longrightarrow> w \<le> now \<Longrightarrow> t \<le> now \<Longrightarrow> host_step allowed (t, h) (now, watchdog_step now h)"

inductive_cases host_stepE: "host_step allowed (t, h) (now, h')"

section \<open>Properties\<close>

text \<open>The slot after a request: the time of the last request only moves on.\<close>

lemma net_slot:
  "(case ho_slot (snd (net_request S now h)) of
      None \<Rightarrow> ho_slot h = None \<and> ho_wakes (snd (net_request S now h)) = ho_wakes h
    | Some s \<Rightarrow>
        (case ho_slot h of
           None \<Rightarrow> tr_last_request s = now \<and> ho_wakes (snd (net_request S now h)) = spawn_trace_watchdog S now
         | Some s' \<Rightarrow> tr_last_request s \<in> {tr_last_request s', now} \<and>
             ho_wakes (snd (net_request S now h)) = ho_wakes h))"
  by (auto simp: net_request_def process_network_sample_def Let_def split: option.split)

lemma disk_slot:
  "(case ho_slot (snd (disk_request S now h)) of
      None \<Rightarrow> ho_slot h = None \<and> ho_wakes (snd (disk_request S now h)) = ho_wakes h
    | Some s \<Rightarrow>
        (case ho_slot h of
           None \<Rightarrow> tr_last_request s = now \<and> ho_wakes (snd (disk_request S now h)) = spawn_trace_watchdog S now
         | Some s' \<Rightarrow> tr_last_request s \<in> {tr_last_request s', now} \<and>
             ho_wakes (snd (disk_request S now h)) = ho_wakes h))"
  by (auto simp: disk_request_def process_disk_sample_def split: option.split)

lemma request_step:
  assumes "host_step allowed (t, h) (now, h')"
  shows "t \<le> now \<and>
    ((\<exists>w. ho_wakes h = Some w \<and> w \<le> now \<and> h' = watchdog_step now h) \<or>
     (case ho_slot h' of
        None \<Rightarrow> ho_slot h = None \<and> ho_wakes h' = ho_wakes h
      | Some s \<Rightarrow>
          (case ho_slot h of
             None \<Rightarrow> tr_last_request s = now \<and> (\<exists>S. allowed S \<and> ho_wakes h' = spawn_trace_watchdog S now)
           | Some s' \<Rightarrow> tr_last_request s \<in> {tr_last_request s', now} \<and> ho_wakes h' = ho_wakes h)))"
proof (rule host_stepE [OF assms])
  fix S assume S: "allowed S" "t \<le> now" "h' = snd (net_request S now h)"
  show ?thesis using net_slot [of h S now] S(1,2) unfolding S(3) [symmetric] by (auto split: option.splits)
next
  fix S assume S: "allowed S" "t \<le> now" "h' = snd (disk_request S now h)"
  show ?thesis using disk_slot [of h S now] S(1,2) unfolding S(3) [symmetric] by (auto split: option.splits)
qed blast

text \<open>One wake-up with a session: it stops it when the last request is 30 seconds old, and otherwise
  is due again at that very moment.\<close>

lemma watchdog_stops:
  "ho_slot h = Some s \<Longrightarrow> tr_last_request s + NET_TRACE_IDLE \<le> now \<Longrightarrow> watchdog_step now h = idle_host"
  by (simp add: watchdog_step_def watchdog_wake_def idle_host_def Let_def)

lemma watchdog_waits:
  assumes "ho_slot h = Some s" "tr_last_request s \<le> now" "now < tr_last_request s + NET_TRACE_IDLE"
  shows "watchdog_step now h = h\<lparr>ho_wakes := Some (tr_last_request s + NET_TRACE_IDLE)\<rparr>"
  using assms by (cases h) (simp add: watchdog_step_def watchdog_wake_def Let_def)

text \<open>The invariant: a watchdog has a session, and is due no later than when its session may have
  been idle for long enough; a session lacks one only if a system is allowed that cannot spawn it.\<close>

definition watched :: "(trace_system \<Rightarrow> bool) \<Rightarrow> nat \<Rightarrow> hosted \<Rightarrow> bool" where
  "watched allowed now h \<longleftrightarrow>
     (case ho_slot h of
        None \<Rightarrow> ho_wakes h = None
      | Some s \<Rightarrow> tr_last_request s \<le> now \<and>
          (case ho_wakes h of
             None \<Rightarrow> \<exists>S. allowed S \<and> \<not> ts_spawns S
           | Some w \<Rightarrow> w \<le> tr_last_request s + NET_TRACE_IDLE))"

lemma watched_step:
  assumes "watched allowed t h" "host_step allowed (t, h) (now, h')"
  shows "watched allowed now h'"
proof -
  from request_step [OF assms(2)] have "t \<le> now" by blast
  from request_step [OF assms(2)] consider
    (wake) w where "ho_wakes h = Some w" "w \<le> now" "h' = watchdog_step now h"
  | (request) "case ho_slot h' of
        None \<Rightarrow> ho_slot h = None \<and> ho_wakes h' = ho_wakes h
      | Some s \<Rightarrow>
          (case ho_slot h of
             None \<Rightarrow> tr_last_request s = now \<and> (\<exists>S. allowed S \<and> ho_wakes h' = spawn_trace_watchdog S now)
           | Some s' \<Rightarrow> tr_last_request s \<in> {tr_last_request s', now} \<and> ho_wakes h' = ho_wakes h)"
    by blast
  then show ?thesis
  proof cases
    case wake
    with assms(1) obtain s where s: "ho_slot h = Some s" "tr_last_request s \<le> t"
      by (auto simp: watched_def split: option.splits)
    show ?thesis
    proof (cases "tr_last_request s + NET_TRACE_IDLE \<le> now")
      case True
      with watchdog_stops [OF s(1)] show ?thesis by (simp add: wake(3) watched_def idle_host_def)
    next
      case False
      with watchdog_waits [OF s(1)] s \<open>t \<le> now\<close> show ?thesis by (simp add: wake(3) watched_def)
    qed
  next
    case request
    with assms(1) \<open>t \<le> now\<close> show ?thesis
      by (cases "ho_slot h'"; cases "ho_slot h"; cases "ho_wakes h")
        (auto simp: watched_def spawn_trace_watchdog_def split: if_splits)
  qed
qed

lemma hosts_watched: "(host_step allowed)\<^sup>*\<^sup>* (0, idle_host) (now, h) \<Longrightarrow> watched allowed now h"
proof (induction rule: rtranclp_induct2)
  case refl
  show ?case by (simp add: watched_def idle_host_def)
next
  case (step t h now h')
  then show ?case by (elim watched_step)
qed

text \<open>A session without a watchdog goes on.\<close>

lemma unwatched_step:
  "host_step allowed (t, h) (now, h') \<Longrightarrow> ho_slot h \<noteq> None \<Longrightarrow> ho_wakes h = None \<Longrightarrow>
   ho_slot h' \<noteq> None \<and> ho_wakes h' = None"
  by (drule request_step) (auto split: option.splits)

lemma unwatched_stays:
  "(host_step allowed)\<^sup>*\<^sup>* (t, h) (now, h') \<Longrightarrow> ho_slot h \<noteq> None \<Longrightarrow> ho_wakes h = None \<Longrightarrow>
   ho_slot h' \<noteq> None \<and> ho_wakes h' = None"
  by (induction rule: rtranclp_induct2) (auto dest: unwatched_step)

text \<open>
  C32: A watched trace runs only while somebody asks, and an unwatched one for ever. Whatever requests
  and wake-ups there have been, however late: without a session there is no watchdog; a session has
  one unless its thread could not be spawned, which the code ignores. The watchdog is due at most 30
  seconds after the last request; whenever it then wakes up it stops the session if that request is 30
  seconds old, and otherwise is due again at that very moment. No step of any kind stops a session
  sooner. A session without a watchdog is never stopped.
\<close>

theorem trace_idles_out:
  assumes "(host_step allowed)\<^sup>*\<^sup>* (0, idle_host) (now, h)"
  shows "case ho_slot h of
      None \<Rightarrow> ho_wakes h = None
    | Some s \<Rightarrow>
        (case ho_wakes h of
           None \<Rightarrow> (\<exists>S. allowed S \<and> \<not> ts_spawns S) \<and>
             (\<forall>later h'. (host_step allowed)\<^sup>*\<^sup>* (now, h) (later, h') \<longrightarrow> ho_slot h' \<noteq> None)
         | Some w \<Rightarrow> w \<le> tr_last_request s + NET_TRACE_IDLE \<and>
             (\<forall>woken\<ge>max w now. watchdog_step woken h =
                (if tr_last_request s + NET_TRACE_IDLE \<le> woken then idle_host
                 else h\<lparr>ho_wakes := Some (tr_last_request s + NET_TRACE_IDLE)\<rparr>))) \<and>
        (\<forall>later h'. host_step allowed (now, h) (later, h') \<and> ho_slot h' = None \<longrightarrow>
           tr_last_request s + NET_TRACE_IDLE \<le> later)"
proof (cases "ho_slot h")
  case None
  with hosts_watched [OF assms] show ?thesis by (simp add: watched_def)
next
  case (Some s)
  with hosts_watched [OF assms] have s: "tr_last_request s \<le> now"
    "case ho_wakes h of None \<Rightarrow> \<exists>S. allowed S \<and> \<not> ts_spawns S | Some w \<Rightarrow> w \<le> tr_last_request s + NET_TRACE_IDLE"
    by (simp_all add: watched_def)
  have early: "tr_last_request s + NET_TRACE_IDLE \<le> later"
    if "host_step allowed (now, h) (later, h')" "ho_slot h' = None" for later h'
  proof (rule ccontr)
    assume "\<not> ?thesis"
    moreover have "now \<le> later" "h' = watchdog_step later h"
      using request_step [OF that(1)] that(2) Some by auto
    ultimately have "h' = h\<lparr>ho_wakes := Some (tr_last_request s + NET_TRACE_IDLE)\<rparr>"
      using watchdog_waits [OF Some] s(1) by simp
    with that(2) Some show False by simp
  qed
  have woken: "watchdog_step woken h =
      (if tr_last_request s + NET_TRACE_IDLE \<le> woken then idle_host
       else h\<lparr>ho_wakes := Some (tr_last_request s + NET_TRACE_IDLE)\<rparr>)" if "now \<le> woken" for woken
    using watchdog_stops [OF Some] watchdog_waits [OF Some] s(1) that by simp
  have stays: "ho_slot h' \<noteq> None"
    if "ho_wakes h = None" "(host_step allowed)\<^sup>*\<^sup>* (now, h) (later, h')" for later h'
    using unwatched_stays [OF that(2)] that(1) Some by simp
  show ?thesis
    unfolding Some option.case
  proof (intro conjI allI impI)
    show "case ho_wakes h of
        None \<Rightarrow> (\<exists>S. allowed S \<and> \<not> ts_spawns S) \<and>
          (\<forall>later h'. (host_step allowed)\<^sup>*\<^sup>* (now, h) (later, h') \<longrightarrow> ho_slot h' \<noteq> None)
      | Some w \<Rightarrow> w \<le> tr_last_request s + NET_TRACE_IDLE \<and>
          (\<forall>woken\<ge>max w now. watchdog_step woken h =
             (if tr_last_request s + NET_TRACE_IDLE \<le> woken then idle_host
              else h\<lparr>ho_wakes := Some (tr_last_request s + NET_TRACE_IDLE)\<rparr>))"
      using s(2) woken stays by (cases "ho_wakes h") auto
  qed (use early in blast)
qed

definition sample_traces :: trace_system where
  "sample_traces = \<lparr>ts_net_start = Some 1, ts_net_running = (\<lambda>_. True), ts_net_totals = (\<lambda>_. []),
     ts_disk_start = None, ts_disk_running = (\<lambda>_. False), ts_disk_window = undefined, ts_spawns = True\<rparr>"

theorem trace_idles_out_witness:
  "watchdog_step 30010 (snd (net_request sample_traces 5 idle_host)) = idle_host"
proof -
  have "(host_step ts_spawns)\<^sup>*\<^sup>* (0, idle_host) (5, snd (net_request sample_traces 5 idle_host))"
    by (intro r_into_rtranclp host_step.net) (simp_all add: sample_traces_def)
  from trace_idles_out [OF this] show ?thesis
    by (simp add: net_request_def process_network_sample_def sample_traces_def idle_host_def
        spawn_trace_watchdog_def NET_TRACE_IDLE_def Let_def)
qed

text \<open>An active answer leaves nobody out: what it does not list has moved nothing.\<close>

lemma active_sample_complete:
  assumes "ns_active (fst (process_network_sample S now slot))"
  shows "\<exists>usage. ns_entries (fst (process_network_sample S now slot)) =
      filter (\<lambda>e. ne_received e \<noteq> 0 \<or> ne_sent e \<noteq> 0) (ts_net_totals S usage) \<and>
    length (ns_entries (fst (process_network_sample S now slot))) \<le> NET_MAX_ENTRIES"
  using assms
  by (auto simp: process_network_sample_def network_answer_def default_network_sample_def Let_def
      split: option.splits if_splits)

end
