(* ===== verification/Process_Ops.thy ===== *)
theory Process_Ops
  imports Process_Kill
begin

text \<open>
  The rest of what TaskMan does to and reads from a process through a handle
  (crates/tm-platform/src/win/process_ops.rs): the inventory of its modules and the release of one
  of them, its priority, and the names of accounts, services and commands. Error texts are
  shortened; \<open>usize\<close> has 64 bits.
\<close>

section \<open>Modules\<close>

definition module_snapshot :: "os \<Rightarrow> u32 \<Rightarrow> os_state \<Rightarrow> process_module list os_result" where
  "module_snapshot W pid st = (os_modules W (st_time st) pid, tick st)"

definition list_process_modules ::
    "os \<Rightarrow> u32 \<Rightarrow> int option \<Rightarrow> os_state \<Rightarrow> process_module list os_result" where
  "list_process_modules W pid expected st =
     then_do (open_process_verified W pid expected st) (\<lambda>h st.
       then_do (module_snapshot W pid st) (\<lambda>modules st.
         then_do (verify_pid_still_refers_to W pid (oh_creation h) st) (\<lambda>_ st. (Inr modules, st))))"

definition module_path_eq :: "string \<Rightarrow> string \<Rightarrow> bool" where
  "module_path_eq left right \<longleftrightarrow> left = right \<or> to_lowercase left = to_lowercase right"

definition MODULE_UNLOAD_SINGLE_RELEASE_MARKER :: string where
  "MODULE_UNLOAD_SINGLE_RELEASE_MARKER = CHR 0x00 # ''taskman-single-release-v1''"

definition is_selected :: "u64 \<Rightarrow> string \<Rightarrow> process_module \<Rightarrow> bool" where
  "is_selected base_address expected_path m \<longleftrightarrow>
     md_base_address m = base_address \<and> module_path_eq (md_path m) expected_path"

definition owns_address :: "u64 \<Rightarrow> process_module \<Rightarrow> bool" where
  "owns_address a m \<longleftrightarrow>
     md_base_address m \<le> a \<and> a < saturating_add (md_base_address m) (md_size_bytes m)"

definition same_image :: "process_module \<Rightarrow> process_module \<Rightarrow> bool" where
  "same_image own m \<longleftrightarrow> eq_ignore_ascii_case (md_name m) (md_name own) \<and>
     md_size_bytes m = md_size_bytes own \<and> module_path_eq (md_path m) (md_path own)"

definition unload_err :: "string \<Rightarrow> tm_error" where
  "unload_err t = tm_platform ''unload module'' t"

text \<open>Where \<open>FreeLibrary\<close> is in the target.\<close>

definition remote_routine ::
    "u64 \<Rightarrow> process_module list \<Rightarrow> process_module list \<Rightarrow> tm_error + u64" where
  "remote_routine local_proc local_modules modules =
     (case find (owns_address local_proc) local_modules of
        None \<Rightarrow> Inl (unload_err ''FreeLibrary owner was not found'')
      | Some own \<Rightarrow>
          (case find (same_image own) modules of
             None \<Rightarrow> Inl (unload_err ''the target loader runtime does not match the caller'')
           | Some remote_owner \<Rightarrow>
               (if local_proc < md_base_address own then Inl (unload_err ''invalid FreeLibrary address'')
                else
                  (let offset = local_proc - md_base_address own in
                   if md_size_bytes remote_owner \<le> offset
                   then Inl (unload_err ''the target loader runtime does not match the caller'')
                   else case checked_add (md_base_address remote_owner) offset of
                     None \<Rightarrow> Inl (unload_err ''remote address overflow'')
                   | Some remote_proc \<Rightarrow> Inr remote_proc))))"

fun remote_result :: "remote_outcome \<Rightarrow> tm_error + unit" where
  "remote_result RemoteTimeout = Inl (unload_err ''timed out; refresh the module list before retrying'')"
| "remote_result (RemoteWaitFailed t) = Inl (tm_platform ''WaitForSingleObject(module unload)'' t)"
| "remote_result (RemoteExitUnknown t) = Inl (tm_platform ''GetExitCodeThread'' t)"
| "remote_result (RemoteExited exit_code) =
     (if exit_code = 0 then Inl (tm_platform ''FreeLibrary'' ''target rejected the unload request'') else Inr ())"

text \<open>After the remote call: is the image still mapped, if that can be observed?\<close>

definition observe_unload ::
    "os \<Rightarrow> u32 \<Rightarrow> u64 option \<Rightarrow> u64 \<Rightarrow> string \<Rightarrow> os_state \<Rightarrow> bool option os_result" where
  "observe_unload W pid opened_creation base_address expected_path st =
     (case module_snapshot W pid st of
        (Inl _, st) \<Rightarrow> (Inr None, st)
      | (Inr modules, st) \<Rightarrow>
          then_do (verify_pid_still_refers_to W pid opened_creation st) (\<lambda>_ st.
            (Inr (Some (list_ex (is_selected base_address expected_path) modules)), st)))"

text \<open>The remote call: its thread is created, waited for, and the modules are listed again.\<close>

definition call_free_library ::
    "os \<Rightarrow> u32 \<Rightarrow> u64 \<Rightarrow> string \<Rightarrow> os_handle \<Rightarrow> u64 \<Rightarrow> os_state \<Rightarrow> bool option os_result" where
  "call_free_library W pid base_address expected_path h remote_proc st =
     then_do (call_handle (RemoteThread remote_proc base_address) ''CreateRemoteThread'' pid h st) (\<lambda>_ st.
     then_do (remote_result (oh_remote h), st) (\<lambda>_.
       observe_unload W pid (oh_creation h) base_address expected_path))"

definition unload_from_handle ::
    "os \<Rightarrow> u32 \<Rightarrow> u64 \<Rightarrow> string \<Rightarrow> os_handle \<Rightarrow> os_state \<Rightarrow> bool option os_result" where
  "unload_from_handle W pid base_address expected_path h st =
     then_do (oh_machine h, st) (\<lambda>target_machine st.
     then_do (os_machine W, st) (\<lambda>own_machine st.
       if own_machine \<noteq> target_machine
       then (Inl (Unsupported ''cross-architecture module unload is not supported''), st)
       else
         then_do (module_snapshot W pid st) (\<lambda>modules st.
         then_do (verify_pid_still_refers_to W pid (oh_creation h) st) (\<lambda>_ st.
           if \<not> list_ex (is_selected base_address expected_path) modules
           then (Inl (unload_err ''module is no longer loaded''), st)
           else
             then_do (os_free_library W, st) (\<lambda>local_proc st.
             then_do (module_snapshot W (os_self W) st) (\<lambda>local_modules st.
             then_do (remote_routine local_proc local_modules modules, st)
               (call_free_library W pid base_address expected_path h)))))))"

definition unload_process_module ::
    "os \<Rightarrow> u32 \<Rightarrow> int option \<Rightarrow> u64 \<Rightarrow> string \<Rightarrow> os_state \<Rightarrow> bool option os_result" where
  "unload_process_module W pid expected base_address expected_path st =
     (let expected_path = unwrap_or (strip_suffix MODULE_UNLOAD_SINGLE_RELEASE_MARKER expected_path) expected_path
      in case option_filter (\<lambda>v. 0 < v) expected of
           None \<Rightarrow> (Inl (unload_err ''a valid sampled process creation time is required''), st)
         | Some e \<Rightarrow>
             if base_address = 0 \<or> expected_path = [] then (Inl (unload_err ''invalid module identity''), st)
             else if pid = os_self W
             then (Inl (unload_err ''refusing to unload modules from TaskMan itself''), st)
             else then_do (open_destructive_process_verified W pid (Some e) st)
               (unload_from_handle W pid base_address expected_path))"

section \<open>Priorities\<close>

text \<open>The base priority is an \<open>i32\<close>.\<close>

definition priority_class_from_base :: "int \<Rightarrow> priority_class" where
  "priority_class_from_base b =
     (if b \<le> 0 then PrioUnknown else if 24 \<le> b then PrioRealtime else if 13 \<le> b then PrioHigh
      else if 10 \<le> b then PrioAboveNormal else if 8 \<le> b then PrioNormal
      else if 6 \<le> b then PrioBelowNormal else PrioLow)"

text \<open>The class constants of Windows.\<close>

definition NORMAL_PRIORITY_CLASS :: u32 where "NORMAL_PRIORITY_CLASS = 0x20"
definition IDLE_PRIORITY_CLASS :: u32 where "IDLE_PRIORITY_CLASS = 0x40"
definition HIGH_PRIORITY_CLASS :: u32 where "HIGH_PRIORITY_CLASS = 0x80"
definition REALTIME_PRIORITY_CLASS :: u32 where "REALTIME_PRIORITY_CLASS = 0x100"
definition BELOW_NORMAL_PRIORITY_CLASS :: u32 where "BELOW_NORMAL_PRIORITY_CLASS = 0x4000"
definition ABOVE_NORMAL_PRIORITY_CLASS :: u32 where "ABOVE_NORMAL_PRIORITY_CLASS = 0x8000"

lemmas priority_constants =
  NORMAL_PRIORITY_CLASS_def IDLE_PRIORITY_CLASS_def HIGH_PRIORITY_CLASS_def
  REALTIME_PRIORITY_CLASS_def BELOW_NORMAL_PRIORITY_CLASS_def ABOVE_NORMAL_PRIORITY_CLASS_def

definition map_priority :: "u32 \<Rightarrow> priority_class" where
  "map_priority c =
     (if c = REALTIME_PRIORITY_CLASS then PrioRealtime
      else if c = HIGH_PRIORITY_CLASS then PrioHigh
      else if c = ABOVE_NORMAL_PRIORITY_CLASS then PrioAboveNormal
      else if c = BELOW_NORMAL_PRIORITY_CLASS then PrioBelowNormal
      else if c = IDLE_PRIORITY_CLASS then PrioLow
      else if c = NORMAL_PRIORITY_CLASS then PrioNormal
      else PrioUnknown)"

fun unmap_priority :: "priority_class \<Rightarrow> u32" where
  "unmap_priority PrioRealtime = REALTIME_PRIORITY_CLASS"
| "unmap_priority PrioHigh = HIGH_PRIORITY_CLASS"
| "unmap_priority PrioAboveNormal = ABOVE_NORMAL_PRIORITY_CLASS"
| "unmap_priority PrioBelowNormal = BELOW_NORMAL_PRIORITY_CLASS"
| "unmap_priority PrioLow = IDLE_PRIORITY_CLASS"
| "unmap_priority PrioUnknown = IDLE_PRIORITY_CLASS"
| "unmap_priority PrioNormal = NORMAL_PRIORITY_CLASS"

text \<open>A class that is set is the one read back, and no other class is.\<close>

lemma map_unmap_priority:
  "map_priority (unmap_priority p) = (if p = PrioUnknown then PrioLow else p)"
  by (cases p) (simp_all add: map_priority_def priority_constants)

definition power_throttling_enabled :: "u32 \<Rightarrow> u32 \<Rightarrow> u32 \<Rightarrow> bool" where
  "power_throttling_enabled control_mask state_mask flag \<longleftrightarrow>
     control_mask AND flag \<noteq> 0 \<and> state_mask AND flag \<noteq> 0"

section \<open>Accounts and commands\<close>

text \<open>\<open>char::to_uppercase\<close>, except for the three characters of the range whose
  uppercase is not one of its characters: they are kept, and none of them stands for a letter of
  the prefixes looked for.\<close>

definition upper :: "char \<Rightarrow> char" where
  "upper c =
     (if 97 \<le> code c \<and> code c \<le> 122 \<or> 224 \<le> code c \<and> code c \<le> 254 \<and> code c \<noteq> 247
      then char_of (code c - 32) else c)"

definition ascii_upper :: "char \<Rightarrow> char" where
  "ascii_upper c = (if 97 \<le> code c \<and> code c \<le> 122 then char_of (code c - 32) else c)"

definition is_authority_domain :: "string \<Rightarrow> bool" where
  "is_authority_domain domain =
     (let normalized = map upper (filter is_alphanumeric domain)
      in starts_with normalized ''NTAUTHORIT'' \<or> starts_with normalized ''NTAUTORIT'')"

lemma trim_shorter: "length (trim s) \<le> length s"
  unfolding trim_def trim_end_def trim_start_def
  by (metis length_dropWhile_le length_rev order_trans)

lemma split_once_shorter: "split_once c s = Some (a, b) \<Longrightarrow> length b < length s"
  using split_once_Some by fastforce

function normalize_service_account :: "string \<Rightarrow> string" where
  "normalize_service_account raw =
     (let s = trim raw;
          plain = (if eq_ignore_ascii_case s ''SYSTEM'' then ''SYSTEM''
            else if eq_ignore_ascii_case s ''LocalService'' then ''LOCAL SERVICE''
            else if eq_ignore_ascii_case s ''NetworkService'' then ''NETWORK SERVICE''
            else s)
      in if eq_ignore_ascii_case s ''LocalSystem'' then ''SYSTEM''
         else case split_once (CHR 0x5C) s of
           Some (authority, user) \<Rightarrow>
             if is_authority_domain authority \<or> authority = ''.'' then normalize_service_account user else plain
         | None \<Rightarrow> plain)"
  by pat_completeness auto

termination
proof (relation "measure length", goal_cases)
  case (2 raw s plain pair authority user)
  then show ?case using split_once_shorter [of "CHR 0x5C" s authority user] trim_shorter [of raw] by simp
qed simp

declare normalize_service_account.simps [simp del]

definition normalize_service_command_line :: "string \<Rightarrow> string option" where
  "normalize_service_command_line raw =
     (let trimmed = trim raw in
      if trimmed = [] then None
      else Some (unwrap_or (strip_prefix (CHR 0x5C # ''??'' @ [CHR 0x5C]) trimmed) trimmed))"

fun find_text :: "string \<Rightarrow> string \<Rightarrow> nat option" where
  "find_text p [] = (if p = [] then Some 0 else None)"
| "find_text p (c # s) =
     (if starts_with (c # s) p then Some 0 else map_option Suc (find_text p s))"

definition extract_executable_path :: "(string \<Rightarrow> bool) \<Rightarrow> string \<Rightarrow> string option" where
  "extract_executable_path is_file cmd =
     (let trimmed = trim cmd in
      if trimmed = [] then None
      else
        (let raw = (case strip_prefix ''\"'' trimmed of
               Some stripped \<Rightarrow> takeWhile (\<lambda>c. c \<noteq> CHR 0x22) stripped
             | None \<Rightarrow>
                 (case find_text ''.exe'' (to_ascii_lowercase trimmed) of
                    Some i \<Rightarrow> take (i + 4) trimmed
                  | None \<Rightarrow> takeWhile (\<lambda>c. \<not> is_whitespace c) trimmed));
             clean = unwrap_or (strip_prefix (CHR 0x5C # ''??'' @ [CHR 0x5C]) raw) raw
         in if is_file clean then Some clean else None))"

definition well_known_sid_name :: "string \<Rightarrow> string option" where
  "well_known_sid_name sid =
     (if sid = ''S-1-5-18'' then Some ''SYSTEM''
      else if sid = ''S-1-5-19'' then Some ''LOCAL SERVICE''
      else if sid = ''S-1-5-20'' then Some ''NETWORK SERVICE''
      else if sid = ''S-1-5-6'' then Some ''SERVICE'' else None)"

definition nt_authority :: "string \<Rightarrow> string" where
  "nt_authority account = ''NT AUTHORITY'' @ CHR 0x5C # account"

definition well_known_sid_for_account :: "string \<Rightarrow> string option" where
  "well_known_sid_for_account account =
     (let normalized = map ascii_upper (trim account) in
      if ends_with normalized ''$'' then Some ''S-1-5-18''
      else if normalized \<in> {''SYSTEM'', nt_authority ''SYSTEM'', ''LOCAL SYSTEM''} then Some ''S-1-5-18''
      else if normalized \<in> {''LOCAL SERVICE'', nt_authority ''LOCAL SERVICE''} then Some ''S-1-5-19''
      else if normalized \<in> {''NETWORK SERVICE'', nt_authority ''NETWORK SERVICE''} then Some ''S-1-5-20''
      else if normalized \<in> {''SERVICE'', nt_authority ''SERVICE''} then Some ''S-1-5-6''
      else None)"

definition split_command :: "string \<Rightarrow> string \<times> string option" where
  "split_command raw =
     (let cmd = trim raw;
          plain = (case split_once (CHR '' '') cmd of Some (f, p) \<Rightarrow> (f, Some (trim p)) | None \<Rightarrow> (cmd, None))
      in if starts_with cmd ''\"'' then
           (case position (\<lambda>c. c = CHR 0x22) (drop 1 cmd) of
              Some end_at \<Rightarrow>
                (let rest = trim (drop (2 + end_at) cmd)
                 in (take end_at (drop 1 cmd), if rest \<noteq> [] then Some rest else None))
            | None \<Rightarrow> plain)
         else plain)"

section \<open>Properties\<close>

text \<open>The names of the well-known accounts and their identifiers belong together, and a
  domain in front of an account of the system changes nothing.\<close>

lemma well_known_sid_roundtrip:
  "well_known_sid_name sid = Some name \<Longrightarrow> well_known_sid_for_account name = Some sid"
proof -
  have "well_known_sid_for_account ''SYSTEM'' = Some ''S-1-5-18''"
    "well_known_sid_for_account ''LOCAL SERVICE'' = Some ''S-1-5-19''"
    "well_known_sid_for_account ''NETWORK SERVICE'' = Some ''S-1-5-20''"
    "well_known_sid_for_account ''SERVICE'' = Some ''S-1-5-6''" by code_simp+
  then show "well_known_sid_name sid = Some name \<Longrightarrow> well_known_sid_for_account name = Some sid"
    by (auto simp: well_known_sid_name_def split: if_splits)
qed

lemma module_snapshot_calls: "st_calls (snd (module_snapshot W pid st)) = st_calls st"
  by (simp add: module_snapshot_def tick_def)

lemma then_do_pure [os_steps]: "then_do (Inr v, st) f = f v st" "then_do (Inl e, st) f = (Inl e, st)"
  by (simp_all add: then_do_def)

text \<open>A step that calls nothing, followed by one for which \<open>Q\<close> holds of the calls.\<close>

lemma then_do_quiet:
  assumes "st_calls (snd r) = calls" "Q calls"
    and "\<And>v st1. r = (Inr v, st1) \<Longrightarrow> st_calls st1 = calls \<Longrightarrow> Q (st_calls (snd (f v st1)))"
  shows "Q (st_calls (snd (then_do r f)))"
  using assms by (cases r; cases "fst r") (auto simp: then_do_def)

lemmas quiet_calls = module_snapshot_calls verify_pid_calls

lemma observe_unload_calls: "st_calls (snd (observe_unload W pid c b p st)) = st_calls st"
proof (cases "module_snapshot W pid st")
  case (Pair r st1)
  then have "st_calls st1 = st_calls st" using module_snapshot_calls [of W pid st] by simp
  with Pair verify_pid_calls [of W pid c st1] show ?thesis
    by (auto simp: observe_unload_def then_do_def split: sum.split prod.split)
qed

text \<open>The routine started in the target is \<open>FreeLibrary\<close> of the image that the caller has it
  from: same file, same size, same offset, inside the image.\<close>

definition is_free_library_of ::
    "u64 \<Rightarrow> process_module list \<Rightarrow> process_module list \<Rightarrow> u64 \<Rightarrow> bool" where
  "is_free_library_of local_proc local_modules modules routine \<longleftrightarrow>
     (\<exists>own\<in>set local_modules. \<exists>m\<in>set modules. owns_address local_proc own \<and> same_image own m \<and>
        local_proc - md_base_address own < md_size_bytes m \<and>
        unat routine = unat (md_base_address m) + unat (local_proc - md_base_address own))"

lemma remote_routine_Inr:
  assumes "remote_routine local_proc local_modules modules = Inr routine"
  shows "is_free_library_of local_proc local_modules modules routine"
proof -
  obtain own where own: "find (owns_address local_proc) local_modules = Some own"
    using assms by (auto simp: remote_routine_def split: option.splits)
  obtain m where m: "find (same_image own) modules = Some m"
    using assms own by (auto simp: remote_routine_def split: option.splits)
  have "local_proc - md_base_address own < md_size_bytes m"
    "checked_add (md_base_address m) (local_proc - md_base_address own) = Some routine"
    using assms own m by (auto simp: remote_routine_def Let_def split: option.splits if_splits)
  moreover have "own \<in> set local_modules" "owns_address local_proc own" "m \<in> set modules" "same_image own m"
    using own m by (auto simp: find_Some_iff)
  ultimately show ?thesis
    unfolding is_free_library_of_def using checked_add_unat by blast
qed

definition unloads_exactly :: "os \<Rightarrow> u32 \<Rightarrow> u64 \<Rightarrow> string \<Rightarrow> os_call \<Rightarrow> bool" where
  "unloads_exactly W pid base_address path c \<longleftrightarrow>
     (\<exists>routine local_proc t modules t' local_modules. c = RemoteThread routine base_address \<and>
        os_free_library W = Inr local_proc \<and> os_modules W t pid = Inr modules \<and>
        os_modules W t' (os_self W) = Inr local_modules \<and>
        list_ex (is_selected base_address path) modules \<and>
        is_free_library_of local_proc local_modules modules routine)"

definition unload_calls ::
    "os \<Rightarrow> u32 \<Rightarrow> u64 \<Rightarrow> string \<Rightarrow> os_handle \<Rightarrow> (os_call \<times> u32 \<times> os_handle) list \<Rightarrow>
     (os_call \<times> u32 \<times> os_handle) list \<Rightarrow> bool" where
  "unload_calls W pid base_address path h before calls \<longleftrightarrow> calls = before \<or>
     (\<exists>c. calls = before @ [(c, pid, h)] \<and> unloads_exactly W pid base_address path c)"

lemma release_calls:
  assumes "st_calls st = before" "unloads_exactly W pid base_address path (RemoteThread routine base_address)"
  shows "unload_calls W pid base_address path h before
    (st_calls (snd (call_free_library W pid base_address path h routine st)))"
  using assms observe_unload_calls
  by (auto simp: unload_calls_def call_free_library_def call_handle_def record_call_def then_do_def
      split: option.split sum.split)

lemma unload_from_handle_calls:
  "unload_calls W pid base_address path h (st_calls st)
     (st_calls (snd (unload_from_handle W pid base_address path h st)))"
proof -
  let ?Q = "unload_calls W pid base_address path h (st_calls st)"
  have none: "?Q (st_calls st)" by (simp add: unload_calls_def)
  note quiet = then_do_quiet [where Q = ?Q and calls = "st_calls st", OF _ none]
  show ?thesis
    unfolding unload_from_handle_def
    by (intro quiet; simp only: fst_conv snd_conv quiet_calls none split: if_split;
        intro conjI impI quiet; simp only: fst_conv snd_conv quiet_calls none split: if_split;
        intro conjI impI quiet release_calls;
        auto simp: quiet_calls unloads_exactly_def module_snapshot_def tick_def intro!: remote_routine_Inr)
qed

lemma unload_process_module_calls:
  "st_calls (snd (unload_process_module W pid expected base_address path st)) = st_calls st \<or>
   (\<exists>h e c. st_calls (snd (unload_process_module W pid expected base_address path st)) = st_calls st @ [(c, pid, h)] \<and>
      expected = Some e \<and> 0 < e \<and> verified_target pid (Some e) h \<and> pid \<noteq> os_self W \<and> base_address \<noteq> 0 \<and>
      unloads_exactly W pid base_address
        (unwrap_or (strip_suffix MODULE_UNLOAD_SINGLE_RELEASE_MARKER path) path) c)"
proof (cases "option_filter (\<lambda>v. 0 < v) expected")
  case (Some e)
  then have e: "expected = Some e" "0 < e" by (auto simp: option_filter_Some_iff)
  let ?path = "unwrap_or (strip_suffix MODULE_UNLOAD_SINGLE_RELEASE_MARKER path) path"
  obtain r st1 where r: "open_destructive_process_verified W pid (Some e) st = (r, st1)" by fastforce
  have calls: "st_calls st1 = st_calls st"
    using open_destructive_calls [of W pid "Some e" st] by (simp add: r)
  show ?thesis
  proof (cases r)
    case (Inr h)
    have "verified_target pid (Some e) h" using open_destructive_verified r by (simp add: Inr)
    with unload_from_handle_calls [of W pid base_address ?path h st1] e calls show ?thesis
      by (auto simp: unload_process_module_def Let_def r Inr then_do_def option_filter_def unload_calls_def)
  qed (simp add: unload_process_module_def Let_def r then_do_def option_filter_def calls e)
qed (simp add: unload_process_module_def Let_def)


text \<open>
  C27: Unloading a module releases exactly the module that was confirmed. At most one call is made.
  It starts a thread in the process that was meant, with its creation time, which is neither
  critical nor TaskMan; the thread runs \<open>FreeLibrary\<close> of the image in the target that is the
  same file as the caller's, at the same offset inside it, on the base address given; and a module
  with that base and path was mapped in the process at that time.
\<close>

theorem module_unload_exact:
  "st_calls (snd (unload_process_module W pid expected base_address path st)) = st_calls st \<or>
   (\<exists>h e c. st_calls (snd (unload_process_module W pid expected base_address path st)) = st_calls st @ [(c, pid, h)] \<and>
      expected = Some e \<and> 0 < e \<and> verified_target pid (Some e) h \<and> pid \<noteq> os_self W \<and> base_address \<noteq> 0 \<and>
      unloads_exactly W pid base_address
        (unwrap_or (strip_suffix MODULE_UNLOAD_SINGLE_RELEASE_MARKER path) path) c)"
  by (rule unload_process_module_calls)

end
