(* ===== verification/Broker_Dispatch.thy ===== *)
theory Broker_Dispatch
  imports Broker_Protocol Broker_Traces Process_Ops
begin

text \<open>
  What the core service does for a GUI (\<open>dispatch\<close> of
  crates/tm-platform/src/win/core_service.rs) and what the GUI does itself when there is no service
  (\<open>BrokeredActions\<close>). Processes are acted upon through the model of process_ops.rs, once
  with the service's own system and once with the user's. Reads that only collect data (security
  information, token identity, thread lists, code samples, loader rundowns), service and session
  control and the Task Manager replacement are functions of the environment; what was controlled is
  recorded. Error texts are shortened.
\<close>

section \<open>Requests and values\<close>

datatype service_action = ServiceStart | ServiceStop | ServiceRestart
datatype user_session_action = Disconnect | Logoff

datatype replacement_state =
    ReplacementUnsupported | ReplacementDisabled | ReplacementEnabled
  | ReplacementStale string | ReplacementConflict string

datatype broker_request =
    Ping
  | RqKillProcess u32 "int option" bool
  | RqSuspendProcess u32 "int option" bool
  | RqSetPriority u32 "int option" priority_class
  | RqGetAffinity u32 "int option"
  | RqSetAffinity u32 "int option" u64
  | RqSetEfficiencyMode u32 "int option" bool
  | RqSetUacVirtualization u32 "int option" bool
  | RqProcessSecurityInfo u32 "int option"
  | RqProcessIdentity u32 "int option"
  | RqProcessModules u32 "int option"
  | RqProcessModuleCodeSamples u32 "int option"
  | RqProcessThreadDetails u32 "int option"
  | RqUnloadModule u32 "int option" u64 string
  | RqControlService string service_action
  | RqControlUserSession u32 user_session_action
  | RqTaskManagerReplacementState
  | RqSetTaskManagerReplacement bool
  | RqProcessNetworkCounters
  | RqProcessDiskCounters

record process_thread =
  th_tid :: u32
  th_created_epoch_s :: "int option"
  th_start_address :: "u64 option"
  th_cycles :: "u64 option"

record process_thread_detail =
  td_tid :: u32
  td_created_epoch_s :: "int option"
  td_start_address :: "u64 option"
  td_cycles :: "u64 option"

datatype ('s, 'i, 'w) broker_value =
    Pong string
  | ValueUnit
  | AffinityMask u64
  | ReplacementState replacement_state
  | ProcessNetwork network_sample
  | ProcessDisk disk_sample
  | ProcessSecurity 's
  | ProcessIdentity 'i
  | ProcessModules "process_module list"
  | ProcessModuleCodeSamples "'w option"
  | ProcessThreadDetails "process_thread_detail list"
  | ModuleUnload bool bool u32

section \<open>The service\<close>

datatype module_rundown = RundownReady "process_module list" | RundownPending | RundownUnavailable

record ('s, 'i, 'w) broker_env =
  be_os :: os
  be_version :: string
  be_traces :: trace_system
  be_now :: nat
  be_security :: "u32 \<Rightarrow> int \<Rightarrow> tm_error + 's"
  be_identity :: "u32 \<Rightarrow> int \<Rightarrow> tm_error + 'i"
  be_rundown :: "u32 \<Rightarrow> int \<Rightarrow> tm_error + module_rundown"
  be_code_samples :: "u32 \<Rightarrow> int \<Rightarrow> process_module list \<Rightarrow> tm_error + 'w option"
  be_window_modules :: "'w \<Rightarrow> nat"
  be_threads :: "u32 \<Rightarrow> int \<Rightarrow> tm_error + process_thread list"
  be_modules_json :: "process_module list \<Rightarrow> string + nat"
  be_details_json :: "process_thread_detail list \<Rightarrow> string + nat"
  be_control_service :: "string \<Rightarrow> service_action \<Rightarrow> tm_error + unit"
  be_control_session :: "u32 \<Rightarrow> user_session_action \<Rightarrow> tm_error + unit"
  be_installed_gui :: "tm_error + string"
  be_replacement_state :: "string \<Rightarrow> replacement_state"
  be_set_replacement :: "bool \<Rightarrow> string \<Rightarrow> tm_error + unit"

datatype broker_effect =
    ServiceControlled string service_action
  | SessionControlled u32 user_session_action
  | ReplacementSet bool string

record broker_state =
  bs_os :: os_state
  bs_net :: hosted
  bs_disk :: hosted
  bs_effects :: "broker_effect list"

type_synonym 'a broker_result = "(tm_error + 'a) \<times> broker_state"

definition on_os :: "(os_state \<Rightarrow> 'a os_result) \<Rightarrow> ('a \<Rightarrow> 'b) \<Rightarrow> broker_state \<Rightarrow> 'b broker_result" where
  "on_os f g bs =
     (case f (bs_os bs) of (r, st) \<Rightarrow> (case r of Inl e \<Rightarrow> Inl e | Inr v \<Rightarrow> Inr (g v), bs\<lparr>bs_os := st\<rparr>))"

definition recording :: "broker_effect \<Rightarrow> tm_error + unit \<Rightarrow> broker_state \<Rightarrow> unit broker_result" where
  "recording x r bs = (r, bs\<lparr>bs_effects := bs_effects bs @ [x]\<rparr>)"

definition bthen :: "'a broker_result \<Rightarrow> ('a \<Rightarrow> broker_state \<Rightarrow> 'b broker_result) \<Rightarrow> 'b broker_result" where
  "bthen r f = (case r of (Inl e, bs) \<Rightarrow> (Inl e, bs) | (Inr v, bs) \<Rightarrow> f v bs)"

definition checked_target :: "os \<Rightarrow> u32 \<Rightarrow> int option \<Rightarrow> u32 \<Rightarrow> os_state \<Rightarrow> unit os_result" where
  "checked_target W pid expected requesting_gui_pid st =
     (case option_filter (\<lambda>created. 0 < created) expected of
        None \<Rightarrow> (Inl (tm_platform ''broker target'' ''a valid sampled process creation time is required''), st)
      | Some created \<Rightarrow>
          if pid \<le> 4 \<or> pid = os_self W \<or> pid = requesting_gui_pid
          then (Inl (tm_platform ''broker target'' ''system, broker, and requesting GUI processes are protected''), st)
          else refuse_critical_process W pid st)"

definition sampled :: "string \<Rightarrow> int option \<Rightarrow> tm_error + int" where
  "sampled context expected =
     (case option_filter (\<lambda>v. 0 < v) expected of
        None \<Rightarrow> Inl (tm_platform context ''a valid sampled process creation time is required'')
      | Some e \<Rightarrow> Inr e)"

definition list_process_modules_with_fallback ::
    "('s, 'i, 'w) broker_env \<Rightarrow> u32 \<Rightarrow> int option \<Rightarrow> os_state \<Rightarrow> process_module list os_result" where
  "list_process_modules_with_fallback E pid expected st =
     (case list_process_modules (be_os E) pid expected st of
        (Inr modules, st) \<Rightarrow> (Inr modules, st)
      | (Inl original_error, st) \<Rightarrow>
          ((case option_filter (\<lambda>v. 0 < v) expected of
              None \<Rightarrow> Inl original_error
            | Some e \<Rightarrow>
                (case be_rundown E pid e of
                   Inr (RundownReady modules) \<Rightarrow> Inr modules
                 | Inr RundownPending \<Rightarrow> Inl (tm_platform ''process modules''
                     ''direct access is protected; collecting a privileged loader rundown'')
                 | Inr RundownUnavailable \<Rightarrow> Inl original_error
                 | Inl identity_error \<Rightarrow> Inl identity_error)), st))"

text \<open>The limits of a list that is sent.\<close>

definition bounded :: "string \<Rightarrow> nat \<Rightarrow> ('x list \<Rightarrow> string + nat) \<Rightarrow> 'x list \<Rightarrow> tm_error + 'x list" where
  "bounded context limit json xs =
     (if limit < length xs then Inl (tm_platform context ''exceeds the bounded broker entry limit'')
      else case json xs of
        Inl error \<Rightarrow> Inl (tm_platform context error)
      | Inr encoded_len \<Rightarrow>
          if MAX_RESPONSE_BYTES - 1024 < encoded_len
          then Inl (tm_platform context ''exceeds the bounded broker response limit'') else Inr xs)"

definition thread_details :: "process_thread list \<Rightarrow> process_thread_detail list" where
  "thread_details threads =
     map (\<lambda>t. \<lparr>td_tid = th_tid t, td_created_epoch_s = th_created_epoch_s t,
         td_start_address = th_start_address t, td_cycles = th_cycles t\<rparr>)
       (filter (\<lambda>t. th_start_address t \<noteq> None \<or> th_cycles t \<noteq> None) threads)"

text \<open>Guarded by \<open>checked_target\<close>, then done.\<close>

definition guarded ::
    "('s, 'i, 'w) broker_env \<Rightarrow> u32 \<Rightarrow> int option \<Rightarrow> u32 \<Rightarrow> (os_state \<Rightarrow> 'a os_result) \<Rightarrow> ('a \<Rightarrow> 'b) \<Rightarrow>
     broker_state \<Rightarrow> 'b broker_result" where
  "guarded E pid expected gui f =
     on_os (\<lambda>st. then_do (checked_target (be_os E) pid expected gui st) (\<lambda>_. f))"

fun dispatch ::
    "('s, 'i, 'w) broker_env \<Rightarrow> broker_request \<Rightarrow> u32 \<Rightarrow> broker_state \<Rightarrow> ('s, 'i, 'w) broker_value broker_result"
where
  "dispatch E Ping gui bs = (Inr (Pong (be_version E)), bs)"
| "dispatch E RqProcessNetworkCounters gui bs =
     (case net_request (be_traces E) (be_now E) (bs_net bs) of
        (sample, h) \<Rightarrow> (Inr (ProcessNetwork sample), bs\<lparr>bs_net := h\<rparr>))"
| "dispatch E RqProcessDiskCounters gui bs =
     (case disk_request (be_traces E) (be_now E) (bs_disk bs) of
        (sample, h) \<Rightarrow> (Inr (ProcessDisk sample), bs\<lparr>bs_disk := h\<rparr>))"
| "dispatch E (RqProcessSecurityInfo pid expected) gui bs =
     (and_then (sampled ''broker process security'' expected) (\<lambda>e.
        and_then (be_security E pid e) (\<lambda>v. Inr (ProcessSecurity v))), bs)"
| "dispatch E (RqProcessIdentity pid expected) gui bs =
     (and_then (sampled ''broker process identity'' expected) (\<lambda>e.
        and_then (be_identity E pid e) (\<lambda>v. Inr (ProcessIdentity v))), bs)"
| "dispatch E (RqProcessModules pid expected) gui bs =
     bthen (sampled ''broker process modules'' expected, bs) (\<lambda>e bs.
       bthen (on_os (list_process_modules_with_fallback E pid (Some e)) id bs) (\<lambda>modules bs.
         (and_then (bounded ''broker process modules'' MAX_MODULES_PER_RESPONSE (be_modules_json E) modules)
            (\<lambda>modules. Inr (ProcessModules modules)), bs)))"
| "dispatch E (RqProcessModuleCodeSamples pid expected) gui bs =
     bthen (sampled ''broker module code samples'' expected, bs) (\<lambda>e bs.
       bthen (on_os (list_process_modules_with_fallback E pid (Some e)) id bs) (\<lambda>modules bs.
         (if MAX_MODULES_PER_RESPONSE < length modules
          then Inl (tm_platform ''broker module code samples'' ''module inventory exceeds the bounded broker entry limit'')
          else and_then (be_code_samples E pid e modules) (\<lambda>window.
            if is_some_and window (\<lambda>w. MAX_MODULES_PER_RESPONSE < be_window_modules E w)
            then Inl (tm_platform ''broker module code samples'' ''module sample entries exceed the bounded broker entry limit'')
            else Inr (ProcessModuleCodeSamples window)), bs)))"
| "dispatch E (RqProcessThreadDetails pid expected) gui bs =
     (and_then (sampled ''broker thread details'' expected) (\<lambda>e.
        and_then (be_threads E pid e) (\<lambda>threads.
          and_then (bounded ''broker thread details'' MAX_THREAD_DETAILS_PER_RESPONSE (be_details_json E)
            (thread_details threads)) (\<lambda>details. Inr (ProcessThreadDetails details)))), bs)"
| "dispatch E (RqKillProcess pid expected tree) gui bs =
     guarded E pid expected gui (kill_process_excluding (be_os E) pid expected tree (Some gui)) (\<lambda>_. ValueUnit) bs"
| "dispatch E (RqSuspendProcess pid expected suspend) gui bs =
     guarded E pid expected gui (suspend_process_checked (be_os E) pid expected suspend) (\<lambda>_. ValueUnit) bs"
| "dispatch E (RqSetPriority pid expected priority) gui bs =
     guarded E pid expected gui (set_priority_checked (be_os E) pid expected priority) (\<lambda>_. ValueUnit) bs"
| "dispatch E (RqGetAffinity pid expected) gui bs =
     guarded E pid expected gui (get_affinity_checked (be_os E) pid expected) AffinityMask bs"
| "dispatch E (RqSetAffinity pid expected m) gui bs =
     guarded E pid expected gui (\<lambda>st.
       if m = 0 then (Inl (tm_platform ''broker affinity'' ''mask cannot be zero''), st)
       else then_do (system_affinity (be_os E) st) (\<lambda>system_mask st.
         if m AND NOT system_mask \<noteq> 0
         then (Inl (tm_platform ''broker affinity'' ''mask contains processors outside the active system group''), st)
         else set_affinity_checked (be_os E) pid expected m st)) (\<lambda>_. ValueUnit) bs"
| "dispatch E (RqSetEfficiencyMode pid expected enabled) gui bs =
     guarded E pid expected gui (set_efficiency_mode_checked (be_os E) pid expected enabled) (\<lambda>_. ValueUnit) bs"
| "dispatch E (RqSetUacVirtualization pid expected enabled) gui bs =
     guarded E pid expected gui (set_uac_virtualization_checked (be_os E) pid expected enabled) (\<lambda>_. ValueUnit) bs"
| "dispatch E (RqUnloadModule pid expected base_address expected_path) gui bs =
     guarded E pid expected gui (\<lambda>st.
       if base_address = 0 \<or> expected_path = [] \<or> 32768 < utf8_len expected_path
       then (Inl (tm_platform ''broker module'' ''invalid module identity''), st)
       else unload_process_module (be_os E) pid expected base_address expected_path st)
       (\<lambda>still_mapped. ModuleUnload (unwrap_or still_mapped True) (still_mapped \<noteq> None) 1) bs"
| "dispatch E (RqControlService name action) gui bs =
     (if \<not> valid_service_name name \<or> eq_ignore_ascii_case name SERVICE_NAME
      then (Inl (tm_platform ''broker service'' ''invalid service name''), bs)
      else bthen (recording (ServiceControlled name action) (be_control_service E name action) bs)
        (\<lambda>_ bs. (Inr ValueUnit, bs)))"
| "dispatch E (RqControlUserSession session_id action) gui bs =
     (if session_id = 0 then (Inl (tm_platform ''broker session'' ''invalid session id''), bs)
      else bthen (recording (SessionControlled session_id action) (be_control_session E session_id action) bs)
        (\<lambda>_ bs. (Inr ValueUnit, bs)))"
| "dispatch E RqTaskManagerReplacementState gui bs =
     (and_then (be_installed_gui E) (\<lambda>g. Inr (ReplacementState (be_replacement_state E g))), bs)"
| "dispatch E (RqSetTaskManagerReplacement enabled) gui bs =
     bthen (be_installed_gui E, bs) (\<lambda>g bs.
       bthen (recording (ReplacementSet enabled g) (be_set_replacement E enabled g) bs)
         (\<lambda>_ bs. (Inr ValueUnit, bs)))"

end
