(* ===== verification/Broker_Safety.thy ===== *)
theory Broker_Safety
  imports Broker_Dispatch
begin

text \<open>
  What no request of a GUI makes the core service do: every call it makes on a process is on the
  process that was meant, and never on a critical process, on one of the system's own, on the
  service itself or on the GUI that asks.
\<close>

section \<open>Calls on one process\<close>

definition only_on :: "u32 \<Rightarrow> int \<Rightarrow> os_state \<Rightarrow> os_state \<Rightarrow> bool" where
  "only_on pid e st st' \<longleftrightarrow> (\<exists>new. st_calls st' = st_calls st @ new \<and>
     set new \<subseteq> {(c, p, h). p = pid \<and> verified_target pid (Some e) h})"

lemma only_on_same: "st_calls st' = st_calls st \<Longrightarrow> only_on pid e st st'"
  by (simp add: only_on_def)

lemma only_on_changes: "changes_only W pid (Some e) c st st' \<Longrightarrow> only_on pid e st st'"
  by (auto simp: changes_only_def only_on_def)

lemma only_on_affinity: "only_on pid e st (snd (get_affinity_checked W pid (Some e) st))"
  unfolding get_affinity_checked_def
  by (rule only_on_same, rule then_do_calls) (simp_all add: open_verified_calls)

lemma system_affinity_calls: "st_calls (snd (system_affinity W st)) = st_calls st"
  unfolding system_affinity_def by (rule then_do_calls) (simp_all add: open_process_calls)

lemma only_on_unload: "only_on pid e st (snd (unload_process_module W pid (Some e) base path st))"
  using unload_process_module_calls [of W pid "Some e" base path st] by (auto simp: only_on_def)

lemma only_on_terminate: "only_on pid e st (snd (terminate_verified W pid (Some e) st))"
  using terminate_verified_calls [OF surjective_pairing, of W pid "Some e" st] by (auto simp: only_on_def)

lemma checked_target_calls: "st_calls (snd (checked_target W pid expected gui st)) = st_calls st"
proof -
  have "st_calls (snd (refuse_critical_process W pid st)) = st_calls st"
    unfolding refuse_critical_process_def by (rule then_do_calls) (simp_all add: open_process_calls)
  then show ?thesis by (simp add: checked_target_def split: option.split)
qed

lemma checked_target_Inr:
  assumes "checked_target W pid expected gui st = (Inr v, st')"
  shows "\<exists>e. expected = Some e \<and> 0 < e \<and> 4 < pid \<and> pid \<noteq> os_self W \<and> pid \<noteq> gui"
  using assms by (auto simp: checked_target_def option_filter_Some_iff not_le split: option.splits if_splits)

lemma guarded_calls:
  assumes "\<And>e st. expected = Some e \<Longrightarrow> 0 < e \<Longrightarrow> 4 < pid \<Longrightarrow> pid \<noteq> os_self (be_os E) \<Longrightarrow> pid \<noteq> gui \<Longrightarrow>
      \<exists>new. st_calls (snd (f st)) = st_calls st @ new \<and> set new \<subseteq> S"
  shows "\<exists>new. st_calls (bs_os (snd (guarded E pid expected gui f g bs))) = st_calls (bs_os bs) @ new \<and> set new \<subseteq> S"
proof -
  obtain r st where c: "checked_target (be_os E) pid expected gui (bs_os bs) = (r, st)" by fastforce
  then have calls: "st_calls st = st_calls (bs_os bs)"
    using checked_target_calls [of "be_os E" pid expected gui "bs_os bs"] by simp
  have os: "bs_os (snd (guarded E pid expected gui f g bs)) =
      snd (then_do (checked_target (be_os E) pid expected gui (bs_os bs)) (\<lambda>_. f))"
    by (simp add: guarded_def on_os_def split: prod.split)
  show ?thesis
  proof (cases r)
    case (Inl e)
    then show ?thesis by (simp add: os c then_do_def calls)
  next
    case (Inr v)
    with checked_target_Inr [of "be_os E" pid expected gui "bs_os bs" v st] c obtain e where
      "expected = Some e" "0 < e" "4 < pid" "pid \<noteq> os_self (be_os E)" "pid \<noteq> gui" by auto
    from assms [OF this, of st] show ?thesis by (simp add: os c Inr then_do_def calls)
  qed
qed

section \<open>Every request\<close>

fun request_target :: "broker_request \<Rightarrow> (u32 \<times> int option) option" where
  "request_target (RqKillProcess pid expected _) = Some (pid, expected)"
| "request_target (RqSuspendProcess pid expected _) = Some (pid, expected)"
| "request_target (RqSetPriority pid expected _) = Some (pid, expected)"
| "request_target (RqGetAffinity pid expected) = Some (pid, expected)"
| "request_target (RqSetAffinity pid expected _) = Some (pid, expected)"
| "request_target (RqSetEfficiencyMode pid expected _) = Some (pid, expected)"
| "request_target (RqSetUacVirtualization pid expected _) = Some (pid, expected)"
| "request_target (RqUnloadModule pid expected _ _) = Some (pid, expected)"
| "request_target _ = None"

text \<open>A call the service may make for a request: on the process meant, or, to end a tree, on one of
  its descendants.\<close>

definition permitted :: "os \<Rightarrow> broker_request \<Rightarrow> u32 \<Rightarrow> (os_call \<times> u32 \<times> os_handle) set" where
  "permitted W rq gui = {(c, p, h). 4 < p \<and> p \<noteq> os_self W \<and> p \<noteq> gui \<and> oh_critical h = Inr False \<and>
     (\<exists>pid e root_handle. request_target rq = Some (pid, Some e) \<and> 0 < e \<and>
        verified_target pid (Some e) root_handle \<and>
        (p = pid \<and> h = root_handle \<or>
         rq = RqKillProcess pid (Some e) True \<and> c = Terminate \<and> member_of_tree W pid (Some gui) p root_handle h))}"

lemma permitted_only_on:
  assumes "request_target rq = Some (pid, Some e)" "0 < e" "4 < pid" "pid \<noteq> os_self W" "pid \<noteq> gui"
    and "only_on pid e st st'"
  shows "\<exists>new. st_calls st' = st_calls st @ new \<and> set new \<subseteq> permitted W rq gui"
  using assms by (fastforce simp: only_on_def permitted_def verified_target_def)

lemma guarded_permitted:
  assumes "request_target rq = Some (pid, expected)"
    and "\<And>e st. expected = Some e \<Longrightarrow> only_on pid e st (snd (f st))"
  shows "\<exists>new. st_calls (bs_os (snd (guarded E pid expected gui f g bs))) = st_calls (bs_os bs) @ new \<and>
    set new \<subseteq> permitted (be_os E) rq gui"
  by (rule guarded_calls, rule permitted_only_on) (use assms in auto)

lemma kill_permitted:
  assumes "0 < e" "4 < pid" "pid \<noteq> os_self W" "pid \<noteq> gui"
  shows "\<exists>new. st_calls (snd (kill_process_excluding W pid (Some e) tree (Some gui) st)) = st_calls st @ new \<and>
    set new \<subseteq> permitted W (RqKillProcess pid (Some e) tree) gui"
proof (cases tree)
  case False
  with permitted_only_on [OF _ assms only_on_terminate, of "RqKillProcess pid (Some e) tree"] show ?thesis
    by (simp add: kill_process_excluding_def)
next
  case True
  from kill_tree_calls [OF surjective_pairing, of W pid "Some e" "Some gui" st] obtain new where
    new: "st_calls (snd (kill_process_excluding W pid (Some e) True (Some gui) st)) = st_calls st @ new"
    "\<forall>(c, p, h)\<in>set new. c = Terminate \<and> 4 < p \<and> oh_critical h = Inr False \<and>
      (\<exists>root_handle. verified_target pid (Some e) root_handle \<and>
        (p = pid \<and> h = root_handle \<or> member_of_tree W pid (Some gui) p root_handle h))" by blast
  have "x \<in> permitted W (RqKillProcess pid (Some e) True) gui" if "x \<in> set new" for x
    using bspec [OF new(2) that] assms by (cases x) (fastforce simp: permitted_def member_of_tree_def in_snapshot_def)
  then have "set new \<subseteq> permitted W (RqKillProcess pid (Some e) True) gui" by blast
  with new(1) True show ?thesis by auto
qed

lemma list_modules_calls: "st_calls (snd (list_process_modules W pid expected st)) = st_calls st"
  unfolding list_process_modules_def
  by (intro then_do_calls open_verified_calls module_snapshot_calls verify_pid_calls) simp

lemma fallback_calls:
  "st_calls (bs_os (snd (on_os (list_process_modules_with_fallback E pid expected) id bs))) = st_calls (bs_os bs)"
  using list_modules_calls [of "be_os E" pid expected "bs_os bs"]
  by (auto simp: on_os_def list_process_modules_with_fallback_def split: prod.split sum.split)

lemma bthen_os:
  assumes "st_calls (bs_os (snd r)) = cs"
    "\<And>v bs. r = (Inr v, bs) \<Longrightarrow> st_calls (bs_os (snd (f v bs))) = st_calls (bs_os bs)"
  shows "st_calls (bs_os (snd (bthen r f))) = cs"
  using assms by (cases r; cases "fst r") (auto simp: bthen_def)

lemma dispatch_read_only:
  assumes "request_target rq = None"
  shows "st_calls (bs_os (snd (dispatch E rq gui bs))) = st_calls (bs_os bs)"
  using assms
  by (cases rq) (auto simp: recording_def fallback_calls split: prod.split intro!: bthen_os)

lemma set_affinity_guard:
  "only_on pid e st (snd (if m = 0 then (Inl err, st)
     else then_do (system_affinity W st) (\<lambda>system_mask st.
       if m AND NOT system_mask \<noteq> 0 then (Inl err', st) else set_affinity_checked W pid (Some e) m st)))"
proof (cases "system_affinity W st")
  case (Pair r st1)
  then have "st_calls st1 = st_calls st" using system_affinity_calls [of W st] by simp
  moreover have "only_on pid e st1 (snd (set_affinity_checked W pid (Some e) m st1))"
    by (rule only_on_changes) (rule scheduling_changes)
  ultimately show ?thesis
    by (cases r) (auto simp: Pair then_do_def only_on_def)
qed

text \<open>
  C1: The service cannot be made to harm what it protects. Whatever the request, and whatever
  process has taken a pid meanwhile, each call the service makes on a process is on one that is
  not critical, not of the system, not the service and not the GUI that asks; it is the process
  that the request names, with the creation time the request gives, or, to end a tree, a
  descendant of it. Without a creation time, and for every other request, no call is made at all.
\<close>

theorem broker_protects:
  "\<exists>new. st_calls (bs_os (snd (dispatch E rq gui bs))) = st_calls (bs_os bs) @ new \<and>
     set new \<subseteq> permitted (be_os E) rq gui"
proof (cases "request_target rq")
  case None
  then show ?thesis by (simp add: dispatch_read_only)
next
  case (Some target)
  then show ?thesis
  proof (cases rq)
    case (RqKillProcess pid expected tree)
    have "\<exists>new. st_calls (bs_os (snd (guarded E pid expected gui
        (kill_process_excluding (be_os E) pid expected tree (Some gui)) (\<lambda>_. ValueUnit) bs))) = st_calls (bs_os bs) @ new \<and>
      set new \<subseteq> permitted (be_os E) (RqKillProcess pid expected tree) gui"
      by (rule guarded_calls) (use kill_permitted in auto)
    with RqKillProcess show ?thesis by simp
  next
    case (RqSetAffinity pid expected m)
    then show ?thesis
      by (simp only: dispatch.simps, intro guarded_permitted) (simp, hypsubst, rule set_affinity_guard)
  qed (simp_all only: dispatch.simps request_target.simps option.distinct,
    (intro guarded_permitted;
      auto intro: only_on_changes scheduling_changes virtualization_calls only_on_affinity only_on_unload only_on_same)+)
qed

end
