(* ===== verification/Broker_Client.thy ===== *)
theory Broker_Client
  imports Broker_Safety
begin

text \<open>
  The two ends of a request to the core service
  (crates/tm-platform/src/win/core_service.rs): the worker that answers it, the client that sends
  it, and the actions of the GUI that prefer the service and do the work themselves only when there
  is none. JSON, the pipe and the service manager are functions
  of the environment.
\<close>

datatype call_error = Unavailable string | Rejected string

fun call_error_text :: "call_error \<Rightarrow> string" where
  "call_error_text (Unavailable detail) = detail"
| "call_error_text (Rejected detail) = ''broker rejected request: '' @ detail"

record 'v broker_response =
  br_protocol_version :: u16
  br_value :: "string + 'v"

text \<open>The JSON of both ends.\<close>

record 'v broker_json =
  bj_of_request :: "broker_request \<Rightarrow> string + u8 list"
  bj_to_request :: "u8 list \<Rightarrow> string + broker_request"
  bj_of_response :: "'v broker_response \<Rightarrow> string + u8 list"
  bj_to_response :: "u8 list \<Rightarrow> string + 'v broker_response"

section \<open>The worker\<close>

text \<open>The bytes it sends before it closes its end, none if it fails.\<close>

definition handle_client ::
    "('s, 'i, 'w) broker_env \<Rightarrow> ('s, 'i, 'w) broker_value broker_json \<Rightarrow> u32 \<Rightarrow> u8 list \<Rightarrow> broker_state \<Rightarrow>
     u8 list \<times> broker_state" where
  "handle_client E J client_pid stream bs =
     (case read_frame FRAME_REQUEST MAX_REQUEST_BYTES stream of
        Inl e \<Rightarrow> ([], bs)
      | Inr (payload, _) \<Rightarrow>
          (case bj_to_request J payload of
             Inl e \<Rightarrow> ([], bs)
           | Inr request \<Rightarrow>
               (case dispatch E request client_pid bs of
                  (value, bs) \<Rightarrow>
                    (case bj_of_response J \<lparr>br_protocol_version = PROTOCOL_VERSION,
                       br_value = (case value of Inl error \<Rightarrow> Inl (tm_error_text error) | Inr v \<Rightarrow> Inr v)\<rparr> of
                       Inl e \<Rightarrow> ([], bs)
                     | Inr payload \<Rightarrow>
                         (case write_frame FRAME_RESPONSE payload MAX_RESPONSE_BYTES of
                            Inl e \<Rightarrow> ([], bs)
                          | Inr frame \<Rightarrow> (frame, bs))))))"

definition reject_client :: "'v broker_json \<Rightarrow> string \<Rightarrow> u8 list" where
  "reject_client J detail =
     (case bj_of_response J \<lparr>br_protocol_version = PROTOCOL_VERSION, br_value = Inl detail\<rparr> of
        Inl e \<Rightarrow> []
      | Inr payload \<Rightarrow>
          (case write_frame FRAME_RESPONSE payload MAX_RESPONSE_BYTES of Inl e \<Rightarrow> [] | Inr frame \<Rightarrow> frame))"

section \<open>The client\<close>

datatype pipe_open = PipeOpened | PipeBusy | PipeFailed string

text \<open>Attempts to open the pipe, each with the time at which its deadline is checked.\<close>

definition PIPE_BUSY_RETRY :: nat where "PIPE_BUSY_RETRY = 1000"

fun open_client_pipe :: "nat \<Rightarrow> (pipe_open \<times> nat) list \<Rightarrow> (call_error + unit) option" where
  "open_client_pipe deadline [] = None"
| "open_client_pipe deadline ((r, now) # attempts) =
     (case r of
        PipeOpened \<Rightarrow> Some (Inr ())
      | PipeFailed error \<Rightarrow> Some (Inl (Unavailable error))
      | PipeBusy \<Rightarrow>
          if deadline \<le> now then Some (Inl (Unavailable ''core service is busy or stopped''))
          else open_client_pipe deadline attempts)"

text \<open>The service manager, as far as it can be asked: the process it runs the service in and the
  configured image.\<close>

record service_manager =
  sm_open :: "string + unit"
  sm_open_service :: "string + unit"
  sm_process_id :: "string + u32 option"
  sm_executable_path :: "string + string"

definition unavailable :: "string \<Rightarrow> string + 'a \<Rightarrow> call_error + 'a" where
  "unavailable what r = (case r of Inl error \<Rightarrow> Inl (Unavailable (what @ error)) | Inr v \<Rightarrow> Inr v)"

definition trim_quotes :: "string \<Rightarrow> string" where
  "trim_quotes s = rev (dropWhile (\<lambda>c. c = CHR 0x22) (rev (dropWhile (\<lambda>c. c = CHR 0x22) s)))"

definition verify_pipe_server ::
    "broker_host \<Rightarrow> (u32 \<Rightarrow> call_error + string) \<Rightarrow> service_manager \<Rightarrow> u32 \<Rightarrow> string \<Rightarrow> call_error + bool" where
  "verify_pipe_server H process_image_path M server_pid expected =
     (case process_image_path server_pid of
        Inr server_path \<Rightarrow> Inr (paths_match H server_path expected)
      | Inl (Unavailable d) \<Rightarrow> Inl (Unavailable d)
      | Inl (Rejected detail) \<Rightarrow>
          and_then (unavailable ''cannot open service manager: '' (sm_open M)) (\<lambda>_.
          and_then (unavailable ''cannot open the core service for identity verification: '' (sm_open_service M)) (\<lambda>_.
          and_then (unavailable ''cannot query core service status: '' (sm_process_id M)) (\<lambda>process_id.
            if process_id \<noteq> Some server_pid then Inr False
            else
              and_then (unavailable ''cannot query core service config: '' (sm_executable_path M)) (\<lambda>configured.
                Inr (paths_match H (trim_quotes configured) expected))))))"

record client_env =
  ce_pipe :: "call_error + unit"
  ce_server_pid :: "string + u32"
  ce_installed_service :: "tm_error + string"
  ce_verify :: "u32 \<Rightarrow> string \<Rightarrow> call_error + bool"

definition server_pid_of :: "client_env \<Rightarrow> call_error + u32" where
  "server_pid_of C =
     (case ce_server_pid C of
        Inl error \<Rightarrow> Inl (Rejected error)
      | Inr pid \<Rightarrow> if pid = 0 then Inl (Rejected ''pipe server did not report a process identity'') else Inr pid)"

text \<open>A call, with what the pipe answers to a frame that could be delivered.\<close>

definition broker_call ::
    "client_env \<Rightarrow> 'v broker_json \<Rightarrow> (u8 list \<Rightarrow> io_error + u8 list) \<Rightarrow> broker_request \<Rightarrow> call_error + 'v" where
  "broker_call C J pipe request =
     and_then (ce_pipe C) (\<lambda>_.
     and_then (server_pid_of C) (\<lambda>server_pid.
     and_then (case ce_installed_service C of
         Inl error \<Rightarrow> Inl (Unavailable (''cannot resolve service path: '' @ tm_error_text error))
       | Inr expected \<Rightarrow> Inr expected) (\<lambda>expected.
     and_then (ce_verify C server_pid expected) (\<lambda>genuine.
       if \<not> genuine then Inl (Rejected ''named-pipe server is not the protected TaskMan service'')
       else
         (case bj_of_request J request of
            Inl error \<Rightarrow> Inl (Rejected error)
          | Inr payload \<Rightarrow>
              (case and_then (write_frame FRAME_REQUEST payload MAX_REQUEST_BYTES) pipe of
                 Inl error \<Rightarrow> Inl (Rejected (''request delivery failed; action state is unknown: '' @ io_text error))
               | Inr answer \<Rightarrow>
                   (case read_frame FRAME_RESPONSE MAX_RESPONSE_BYTES answer of
                      Inl error \<Rightarrow> Inl (Rejected (''service response was lost; action state is unknown: '' @ io_text error))
                    | Inr (response, _) \<Rightarrow>
                        (case bj_to_response J response of
                           Inl error \<Rightarrow> Inl (Rejected error)
                         | Inr response \<Rightarrow>
                             if br_protocol_version response \<noteq> PROTOCOL_VERSION
                             then Inl (Rejected ''service protocol version changed during request'')
                             else (case br_value response of
                               Inl detail \<Rightarrow> Inl (Rejected detail) | Inr v \<Rightarrow> Inr v)))))))))"

definition genuine_server :: "client_env \<Rightarrow> bool" where
  "genuine_server C \<longleftrightarrow> (\<exists>pid path. ce_pipe C = Inr () \<and> ce_server_pid C = Inr pid \<and> pid \<noteq> 0 \<and>
     ce_installed_service C = Inr path \<and> ce_verify C pid path = Inr True)"

text \<open>
  C7: A call is the dispatch of its request. Over a pipe whose other end is the worker, with JSON
  that reads back the request and the response and messages within the limits, the client gets
  exactly what the service's dispatch returns, an error of it as a rejection with its text.
\<close>

theorem call_is_dispatch:
  assumes "genuine_server C"
    and "bj_of_request J rq = Inr sent" "length sent \<le> MAX_REQUEST_BYTES" "bj_to_request J sent = Inr rq"
    and "bj_of_response J \<lparr>br_protocol_version = PROTOCOL_VERSION,
        br_value = (case fst (dispatch E rq gui bs) of Inl e \<Rightarrow> Inl (tm_error_text e) | Inr v \<Rightarrow> Inr v)\<rparr> = Inr back"
    and "length back \<le> MAX_RESPONSE_BYTES"
    and "bj_to_response J back = Inr \<lparr>br_protocol_version = PROTOCOL_VERSION,
        br_value = (case fst (dispatch E rq gui bs) of Inl e \<Rightarrow> Inl (tm_error_text e) | Inr v \<Rightarrow> Inr v)\<rparr>"
  shows "broker_call C J (\<lambda>stream. Inr (fst (handle_client E J gui stream bs))) rq =
      (case fst (dispatch E rq gui bs) of Inl e \<Rightarrow> Inl (Rejected (tm_error_text e)) | Inr v \<Rightarrow> Inr v) \<and>
    snd (handle_client E J gui (case write_frame FRAME_REQUEST sent MAX_REQUEST_BYTES of Inr f \<Rightarrow> f | Inl _ \<Rightarrow> []) bs) =
      snd (dispatch E rq gui bs)"
proof -
  obtain value' bs' where d: "dispatch E rq gui bs = (value', bs')" by fastforce
  obtain frame where frame: "write_frame FRAME_REQUEST sent MAX_REQUEST_BYTES = Inr frame"
    using assms(3) by (auto simp: write_frame_def MAX_REQUEST_BYTES_def)
  obtain answer where answer: "write_frame FRAME_RESPONSE back MAX_RESPONSE_BYTES = Inr answer"
    using assms(6) by (auto simp: write_frame_def MAX_RESPONSE_BYTES_def)
  have worker: "handle_client E J gui frame bs = (answer, bs')"
    using read_frame_written [OF frame, of "[]"] assms(4,5) by (simp add: handle_client_def d answer)
  from assms(1) obtain pid path where c: "ce_pipe C = Inr ()" "ce_server_pid C = Inr pid" "pid \<noteq> 0"
    "ce_installed_service C = Inr path" "ce_verify C pid path = Inr True" by (auto simp: genuine_server_def)
  have "broker_call C J (\<lambda>stream. Inr (fst (handle_client E J gui stream bs))) rq =
      (case value' of Inl e \<Rightarrow> Inl (Rejected (tm_error_text e)) | Inr v \<Rightarrow> Inr v)"
    using read_frame_written [OF answer, of "[]"] assms(7)
    by (simp add: broker_call_def server_pid_of_def c assms(2) frame worker d split: sum.split)
  then show ?thesis by (simp add: frame worker d)
qed

definition sample_client :: client_env where
  "sample_client = \<lparr>ce_pipe = Inr (), ce_server_pid = Inr 900, ce_installed_service = Inr ''C:/TaskMan/service.exe'',
     ce_verify = (\<lambda>pid path. Inr (pid = 900 \<and> path = ''C:/TaskMan/service.exe''))\<rparr>"

definition sample_wire :: "(unit, unit, unit) broker_value broker_json" where
  "sample_wire = \<lparr>bj_of_request = (\<lambda>_. Inr [1, 2]), bj_to_request = (\<lambda>_. Inr Ping), bj_of_response = (\<lambda>_. Inr [3]),
     bj_to_response = (\<lambda>_. Inr \<lparr>br_protocol_version = PROTOCOL_VERSION, br_value = Inr (Pong ''4.0'')\<rparr>)\<rparr>"

theorem call_is_dispatch_witness:
  "\<forall>E bs. broker_call sample_client sample_wire
     (\<lambda>stream. Inr (fst (handle_client (E\<lparr>be_version := ''4.0''\<rparr>) sample_wire 77 stream bs))) Ping = Inr (Pong ''4.0'')"
proof (intro allI)
  fix E :: "(unit, unit, unit) broker_env" and bs
  let ?E = "E\<lparr>be_version := ''4.0''\<rparr>"
  have "genuine_server sample_client" by (simp add: genuine_server_def sample_client_def)
  from call_is_dispatch [OF this, of sample_wire Ping "[1, 2]" ?E 77 bs "[3]"]
  show "broker_call sample_client sample_wire
      (\<lambda>stream. Inr (fst (handle_client ?E sample_wire 77 stream bs))) Ping = Inr (Pong ''4.0'')"
    by (simp add: sample_wire_def MAX_REQUEST_BYTES_def MAX_RESPONSE_BYTES_def)
qed

section \<open>Actions of the GUI\<close>

text \<open>\<open>unit_or_local\<close> and \<open>value_or_local\<close>, with the answer to the request.\<close>

definition unit_or_local ::
    "call_error + ('s, 'i, 'w) broker_value \<Rightarrow> (os_state \<Rightarrow> unit os_result) \<Rightarrow> os_state \<Rightarrow> unit os_result" where
  "unit_or_local answer own st =
     (case answer of
        Inr v \<Rightarrow> (case v of ValueUnit \<Rightarrow> Inr () | _ \<Rightarrow> Inl (tm_platform ''core service'' ''unexpected response type''), st)
      | Inl (Unavailable _) \<Rightarrow> own st
      | Inl (Rejected detail) \<Rightarrow> (Inl (tm_platform ''core service'' detail), st))"

definition value_or_local ::
    "call_error + ('s, 'i, 'w) broker_value \<Rightarrow> (('s, 'i, 'w) broker_value \<Rightarrow> 'a option) \<Rightarrow>
     (os_state \<Rightarrow> 'a os_result) \<Rightarrow> os_state \<Rightarrow> 'a os_result" where
  "value_or_local answer decode own st =
     (case answer of
        Inr v \<Rightarrow> (case decode v of Some a \<Rightarrow> Inr a
                  | None \<Rightarrow> Inl (tm_platform ''core service'' ''unexpected response type''), st)
      | Inl (Unavailable _) \<Rightarrow> own st
      | Inl (Rejected detail) \<Rightarrow> (Inl (tm_platform ''core service'' detail), st))"

text \<open>The actions, with the system as the user's token sees it and the client.\<close>

type_synonym ('s, 'i, 'w) client = "broker_request \<Rightarrow> call_error + ('s, 'i, 'w) broker_value"

definition brokered_kill_process ::
    "os \<Rightarrow> ('s, 'i, 'w) client \<Rightarrow> u32 \<Rightarrow> int option \<Rightarrow> bool \<Rightarrow> os_state \<Rightarrow> unit os_result" where
  "brokered_kill_process W call pid expected tree =
     (case expected of
        None \<Rightarrow> kill_process W pid None tree
      | Some e \<Rightarrow> unit_or_local (call (RqKillProcess pid (Some e) tree)) (kill_process W pid (Some e) tree))"

definition brokered_suspend_process ::
    "os \<Rightarrow> ('s, 'i, 'w) client \<Rightarrow> u32 \<Rightarrow> int option \<Rightarrow> bool \<Rightarrow> os_state \<Rightarrow> unit os_result" where
  "brokered_suspend_process W call pid expected suspend =
     (case expected of
        None \<Rightarrow> suspend_process_checked W pid None suspend
      | Some e \<Rightarrow> unit_or_local (call (RqSuspendProcess pid (Some e) suspend))
          (suspend_process_checked W pid (Some e) suspend))"

definition brokered_set_priority ::
    "os \<Rightarrow> ('s, 'i, 'w) client \<Rightarrow> u32 \<Rightarrow> int option \<Rightarrow> priority_class \<Rightarrow> os_state \<Rightarrow> unit os_result" where
  "brokered_set_priority W call pid expected priority st =
     (case expected of
        None \<Rightarrow> set_priority_checked W pid None priority st
      | Some e \<Rightarrow> noting pid (unit_or_local (call (RqSetPriority pid (Some e) priority))
          (set_priority_checked W pid (Some e) priority) st))"

definition brokered_get_affinity ::
    "os \<Rightarrow> ('s, 'i, 'w) client \<Rightarrow> u32 \<Rightarrow> int option \<Rightarrow> os_state \<Rightarrow> u64 os_result" where
  "brokered_get_affinity W call pid expected =
     (case expected of
        None \<Rightarrow> get_affinity_checked W pid None
      | Some e \<Rightarrow> value_or_local (call (RqGetAffinity pid (Some e)))
          (\<lambda>v. case v of AffinityMask m \<Rightarrow> Some m | _ \<Rightarrow> None) (get_affinity_checked W pid (Some e)))"

definition brokered_set_affinity ::
    "os \<Rightarrow> ('s, 'i, 'w) client \<Rightarrow> u32 \<Rightarrow> int option \<Rightarrow> u64 \<Rightarrow> os_state \<Rightarrow> unit os_result" where
  "brokered_set_affinity W call pid expected m =
     (case expected of
        None \<Rightarrow> set_affinity_checked W pid None m
      | Some e \<Rightarrow> unit_or_local (call (RqSetAffinity pid (Some e) m)) (set_affinity_checked W pid (Some e) m))"

definition brokered_set_efficiency_mode ::
    "os \<Rightarrow> ('s, 'i, 'w) client \<Rightarrow> u32 \<Rightarrow> int option \<Rightarrow> bool \<Rightarrow> os_state \<Rightarrow> unit os_result" where
  "brokered_set_efficiency_mode W call pid expected on st =
     (case expected of
        None \<Rightarrow> set_efficiency_mode_checked W pid None on st
      | Some e \<Rightarrow> noting pid (unit_or_local (call (RqSetEfficiencyMode pid (Some e) on))
          (set_efficiency_mode_checked W pid (Some e) on) st))"

definition brokered_set_uac_virtualization ::
    "os \<Rightarrow> ('s, 'i, 'w) client \<Rightarrow> u32 \<Rightarrow> int option \<Rightarrow> bool \<Rightarrow> os_state \<Rightarrow> unit os_result" where
  "brokered_set_uac_virtualization W call pid expected enabled st =
     (case expected of
        None \<Rightarrow> set_uac_virtualization_checked W pid None enabled st
      | Some e \<Rightarrow> noting pid (unit_or_local (call (RqSetUacVirtualization pid (Some e) enabled))
          (set_uac_virtualization_checked W pid (Some e) enabled) st))"

definition brokered_unload_module ::
    "os \<Rightarrow> ('s, 'i, 'w) client \<Rightarrow> u32 \<Rightarrow> int option \<Rightarrow> u64 \<Rightarrow> string \<Rightarrow> os_state \<Rightarrow> bool option os_result" where
  "brokered_unload_module W call pid expected base_address path st =
     (case option_filter (\<lambda>v. 0 < v) expected of
        None \<Rightarrow> (Inl (unload_err ''a valid sampled process creation time is required''), st)
      | Some e \<Rightarrow> value_or_local (call (RqUnloadModule pid (Some e) base_address path))
          (\<lambda>v. case v of
             ModuleUnload still_mapped verified _ \<Rightarrow> Some (if verified then Some still_mapped else None)
           | _ \<Rightarrow> None)
          (unload_process_module W pid (Some e) base_address path) st)"

text \<open>Reading the module list: a rejection falls back to the user's own view, but the error shown
  is then the service's. The list as the user's token reads it is a parameter.\<close>

definition brokered_list_modules ::
    "(int option \<Rightarrow> os_state \<Rightarrow> process_module list os_result) \<Rightarrow> ('s, 'i, 'w) client \<Rightarrow> u32 \<Rightarrow> int option \<Rightarrow>
     os_state \<Rightarrow> process_module list os_result" where
  "brokered_list_modules own call pid expected st =
     (case option_filter (\<lambda>v. 0 < v) expected of
        None \<Rightarrow> own expected st
      | Some e \<Rightarrow>
          (case call (RqProcessModules pid (Some e)) of
             Inr (ProcessModules modules) \<Rightarrow> (Inr modules, st)
           | Inr _ \<Rightarrow> (Inl (tm_platform ''core service'' ''unexpected process-modules response type''), st)
           | Inl (Unavailable _) \<Rightarrow> own (Some e) st
           | Inl (Rejected detail) \<Rightarrow>
               (case own (Some e) st of
                  (Inl _, st) \<Rightarrow> (Inl (tm_platform ''core service'' detail), st)
                | (Inr modules, st) \<Rightarrow> (Inr modules, st))))"

section \<open>Thread details\<close>

definition merge_thread :: "process_thread_detail list \<Rightarrow> process_thread \<Rightarrow> process_thread" where
  "merge_thread details t =
     (if th_start_address t \<noteq> None \<and> th_cycles t \<noteq> None then t
      else case th_created_epoch_s t of
        None \<Rightarrow> t
      | Some created \<Rightarrow>
          (case find (\<lambda>d. td_tid d = th_tid t \<and> td_created_epoch_s d = Some created) details of
             None \<Rightarrow> t
           | Some d \<Rightarrow> t\<lparr>th_start_address := option_or (th_start_address t) (td_start_address d),
               th_cycles := option_or (th_cycles t) (td_cycles d)\<rparr>))"

text \<open>The threads, and how many were changed.\<close>

definition merge_process_thread_details ::
    "process_thread list \<Rightarrow> process_thread_detail list \<Rightarrow> process_thread list \<times> nat" where
  "merge_process_thread_details threads details =
     (map (merge_thread details) threads, length (filter (\<lambda>t. merge_thread details t \<noteq> t) threads))"

definition brokered_list_threads ::
    "(tm_error + process_thread list) \<Rightarrow> ('s, 'i, 'w) client \<Rightarrow> u32 \<Rightarrow> int option \<Rightarrow> tm_error + process_thread list" where
  "brokered_list_threads own call pid expected =
     and_then own (\<lambda>threads.
       if list_all (\<lambda>t. th_start_address t \<noteq> None \<and> th_cycles t \<noteq> None) threads then Inr threads
       else case option_filter (\<lambda>v. 0 < v) expected of
         None \<Rightarrow> Inr threads
       | Some e \<Rightarrow>
           (case call (RqProcessThreadDetails pid (Some e)) of
              Inr (ProcessThreadDetails details) \<Rightarrow> Inr (fst (merge_process_thread_details threads details))
            | Inr _ \<Rightarrow> Inl (tm_platform ''core service'' ''unexpected thread-details response type'')
            | Inl _ \<Rightarrow> Inr threads))"

text \<open>A merged thread is the thread itself, or it has taken what it lacked from a detail of the
  same id and the same creation time.\<close>

definition filled_from :: "process_thread_detail list \<Rightarrow> process_thread \<Rightarrow> process_thread \<Rightarrow> bool" where
  "filled_from details t t' \<longleftrightarrow> t' = t \<or>
     (\<exists>d\<in>set details. td_tid d = th_tid t \<and> th_created_epoch_s t \<noteq> None \<and>
        td_created_epoch_s d = th_created_epoch_s t \<and>
        t' = t\<lparr>th_start_address := option_or (th_start_address t) (td_start_address d),
               th_cycles := option_or (th_cycles t) (td_cycles d)\<rparr>)"

lemma find_Some_in: "find P xs = Some x \<Longrightarrow> x \<in> set xs \<and> P x"
  by (auto simp: find_Some_iff in_set_conv_nth)

lemma merge_thread_filled: "filled_from details t (merge_thread details t)"
  by (auto simp: filled_from_def merge_thread_def split: option.split dest!: find_Some_in)

lemma merge_filled: "list_all2 (filled_from details) ts (fst (merge_process_thread_details ts details))"
  by (simp add: merge_process_thread_details_def list_all2_map2 merge_thread_filled list.rel_refl)

text \<open>
  Threads are never given another thread's evidence. However the service answers, the list the
  user sees has exactly the threads of the user's own view, each with its own values, and a missing
  start address or cycle count is filled only from a detail with the same thread id and the same
  known creation time; a service that is absent or refuses changes nothing.
\<close>

theorem threads_keep_identity:
  "(case brokered_list_threads (Inr threads) call pid expected of
      Inl e \<Rightarrow> threads \<noteq> [] \<and> e = tm_platform ''core service'' ''unexpected thread-details response type''
    | Inr shown \<Rightarrow> (\<exists>details. list_all2 (filled_from details) threads shown) \<and>
        map th_tid shown = map th_tid threads \<and>
        (shown = threads \<or> (\<exists>e>0. expected = Some e \<and> is_ok (call (RqProcessThreadDetails pid (Some e))))))"
proof -
  have refl: "list_all2 (filled_from []) threads threads" by (rule list.rel_refl) (simp add: filled_from_def)
  have tids: "map th_tid (map (merge_thread details) threads) = map th_tid threads" for details
    by (simp add: merge_thread_def split: option.split)
  show ?thesis
  proof (cases "list_all (\<lambda>t. th_start_address t \<noteq> None \<and> th_cycles t \<noteq> None) threads")
    case True
    then show ?thesis using refl by (auto simp: brokered_list_threads_def and_then_def)
  next
    case False
    then have ne: "threads \<noteq> []" by auto
    show ?thesis
    proof (cases "option_filter (\<lambda>v. 0 < v) expected")
      case None
      with False show ?thesis using refl by (auto simp: brokered_list_threads_def and_then_def)
    next
      case (Some e)
      then have e: "expected = Some e" "0 < e" by (auto simp: option_filter_Some_iff)
      show ?thesis
      proof (cases "call (RqProcessThreadDetails pid (Some e))")
        case (Inl x)
        with False Some show ?thesis using refl by (auto simp: brokered_list_threads_def and_then_def)
      next
        case (Inr v)
        with False Some e ne show ?thesis
          using merge_filled [of _ threads] tids
          by (cases v) (auto simp: brokered_list_threads_def and_then_def merge_process_thread_details_def is_ok_def)
      qed
    qed
  qed
qed

section \<open>Where an action is done\<close>

text \<open>The user's own token is used only for a process without a creation time, which the service
  is then not asked about, or when there is no service.\<close>

definition own_token_only_without :: "('s, 'i, 'w) client \<Rightarrow> broker_request \<Rightarrow> int option \<Rightarrow> os_state \<Rightarrow> os_state \<Rightarrow> bool" where
  "own_token_only_without call rq expected st st' \<longleftrightarrow>
     expected = None \<or> (\<exists>d. call rq = Inl (Unavailable d)) \<or> st_calls st' = st_calls st"

text \<open>What the service answers is final, and a rejection is the error that is returned, with nothing
  else done.\<close>

definition refusal_final ::
    "('s, 'i, 'w) client \<Rightarrow> broker_request \<Rightarrow> int option \<Rightarrow> os_state \<Rightarrow> 'a os_result \<Rightarrow> bool" where
  "refusal_final call rq expected st r \<longleftrightarrow>
     own_token_only_without call rq expected st (snd r) \<and>
     (expected = None \<or>
       (case call rq of Inl (Rejected detail) \<Rightarrow> r = (Inl (tm_platform ''core service'' detail), st) | _ \<Rightarrow> True))"

lemma unit_or_local_final:
  assumes "answer = call rq" shows "refusal_final call rq (Some e) st (unit_or_local answer own st)"
  unfolding assms
  by (cases "call rq") (auto simp: refusal_final_def own_token_only_without_def unit_or_local_def
      split: call_error.split)

lemma value_or_local_final:
  assumes "answer = call rq" shows "refusal_final call rq (Some e) st (value_or_local answer decode own st)"
  unfolding assms
  by (cases "call rq") (auto simp: refusal_final_def own_token_only_without_def value_or_local_def
      split: call_error.split)

lemma noting_final: "refusal_final call rq expected st r \<Longrightarrow> refusal_final call rq expected st (noting pid r)"
proof -
  have "noting pid (Inl e, s) = (Inl e, s)" for e s by (simp add: noting_def)
  then show "refusal_final call rq expected st r \<Longrightarrow> refusal_final call rq expected st (noting pid r)"
    by (auto simp: refusal_final_def own_token_only_without_def split: sum.splits call_error.splits)
qed

lemma none_final: "refusal_final call rq None st r"
  by (simp add: refusal_final_def own_token_only_without_def)

text \<open>
  C19: A refusal of the service is final. Ending, suspending, scheduling or virtualizing a process or
  unloading a module from it is done with the user's own token only when the process has no known
  creation time or there is no service; once a service has answered, or its answer may have been
  lost, nothing more is done, and the detail of a rejection is the error that is returned, for each of
  these actions. (An unloading without a positive creation time is an error and asks nobody.)
\<close>

theorem rejection_is_final:
  "refusal_final call (RqKillProcess pid expected tree) expected st
      (brokered_kill_process W call pid expected tree st) \<and>
   refusal_final call (RqSuspendProcess pid expected s) expected st
      (brokered_suspend_process W call pid expected s st) \<and>
   refusal_final call (RqSetPriority pid expected priority) expected st
      (brokered_set_priority W call pid expected priority st) \<and>
   refusal_final call (RqGetAffinity pid expected) expected st
      (brokered_get_affinity W call pid expected st) \<and>
   refusal_final call (RqSetAffinity pid expected m) expected st
      (brokered_set_affinity W call pid expected m st) \<and>
   refusal_final call (RqSetEfficiencyMode pid expected on) expected st
      (brokered_set_efficiency_mode W call pid expected on st) \<and>
   refusal_final call (RqSetUacVirtualization pid expected enabled) expected st
      (brokered_set_uac_virtualization W call pid expected enabled st) \<and>
   refusal_final call (RqUnloadModule pid expected base path) (option_filter (\<lambda>v. 0 < v) expected) st
      (brokered_unload_module W call pid expected base path st) \<and>
   own_token_only_without call (RqUnloadModule pid expected base path) expected st
      (snd (brokered_unload_module W call pid expected base path st))"
proof -
  have unload: "refusal_final call (RqUnloadModule pid expected base path) (option_filter (\<lambda>v. 0 < v) expected) st
      (brokered_unload_module W call pid expected base path st)"
  proof (cases "option_filter (\<lambda>v. 0 < v) expected")
    case None
    then show ?thesis by (simp add: none_final)
  next
    case (Some e)
    then have "expected = Some e" by (simp add: option_filter_Some_iff)
    with Some show ?thesis by (simp add: brokered_unload_module_def value_or_local_final)
  qed
  then have "own_token_only_without call (RqUnloadModule pid expected base path) expected st
      (snd (brokered_unload_module W call pid expected base path st))"
    by (cases "option_filter (\<lambda>v. 0 < v) expected")
      (auto simp: refusal_final_def own_token_only_without_def brokered_unload_module_def)
  with unload show ?thesis
    by (cases expected)
      (simp_all add: none_final noting_final unit_or_local_final value_or_local_final brokered_kill_process_def
        brokered_suspend_process_def brokered_set_priority_def brokered_get_affinity_def brokered_set_affinity_def
        brokered_set_efficiency_mode_def brokered_set_uac_virtualization_def)
qed

end
