(* ===== verification/Broker_Lane.thy ===== *)
theory Broker_Lane
  imports Broker_Client
begin

text \<open>
  The lane of the sampler's requests to the core service (\<open>TelemetryBroker\<close> of
  crates/tm-platform/src/win/core_service.rs) as steps of concurrent callers and one worker thread,
  and the limit on repeated warnings. A call claims the lane with a compare-and-exchange, sends its
  request over a channel of capacity one and waits at most its timeout; the worker clears the claim
  when the request has been handled, whether or not somebody still waits.
\<close>

section \<open>The lane\<close>

datatype lane_worker = WaitingForJob | Handling broker_request | Replying | WorkerGone

text \<open>The flag, the requests of callers between claim and send, the channel, the worker, and the
  number of calls that found the worker stopped.\<close>

record lane =
  ln_busy :: bool
  ln_sending :: "broker_request list"
  ln_channel :: "broker_request list"
  ln_worker :: lane_worker
  ln_dropped :: nat

definition lane_start :: lane where
  "lane_start = \<lparr>ln_busy = False, ln_sending = [], ln_channel = [], ln_worker = WaitingForJob, ln_dropped = 0\<rparr>"

definition try_send_works :: "lane \<Rightarrow> bool" where
  "try_send_works s \<longleftrightarrow> ln_worker s \<noteq> WorkerGone \<and> length (ln_channel s) < 1"

text \<open>A refused call leaves the lane as it is, and so does a timeout of a caller; a handler that
  panics takes the worker and its end of the channel with it.\<close>

inductive lane_step :: "lane \<Rightarrow> lane \<Rightarrow> bool" where
  claim: "\<not> ln_busy s \<Longrightarrow> lane_step s (s\<lparr>ln_busy := True, ln_sending := rq # ln_sending s\<rparr>)"
| send: "ln_sending s = xs @ rq # ys \<Longrightarrow> try_send_works s \<Longrightarrow>
    lane_step s (s\<lparr>ln_sending := xs @ ys, ln_channel := ln_channel s @ [rq]\<rparr>)"
| send_failed: "ln_sending s = xs @ rq # ys \<Longrightarrow> \<not> try_send_works s \<Longrightarrow>
    lane_step s (s\<lparr>ln_sending := xs @ ys, ln_busy := False, ln_dropped := Suc (ln_dropped s)\<rparr>)"
| receive: "ln_worker s = WaitingForJob \<Longrightarrow> ln_channel s = rq # rqs \<Longrightarrow>
    lane_step s (s\<lparr>ln_worker := Handling rq, ln_channel := rqs\<rparr>)"
| handled: "ln_worker s = Handling rq \<Longrightarrow> lane_step s (s\<lparr>ln_worker := Replying, ln_busy := False\<rparr>)"
| replied: "ln_worker s = Replying \<Longrightarrow> lane_step s (s\<lparr>ln_worker := WaitingForJob\<rparr>)"
| panicked: "ln_worker s = Handling rq \<Longrightarrow> lane_step s (s\<lparr>ln_worker := WorkerGone, ln_channel := []\<rparr>)"

inductive_cases lane_stepE: "lane_step s s'"

definition lane_reachable :: "lane \<Rightarrow> bool" where
  "lane_reachable s \<longleftrightarrow> lane_step\<^sup>*\<^sup>* lane_start s"

text \<open>Requests between a claim and the end of their handling; one that panicked never ends.\<close>

definition in_flight :: "lane \<Rightarrow> nat" where
  "in_flight s = length (ln_sending s) + length (ln_channel s) +
     (case ln_worker s of Handling _ \<Rightarrow> 1 | WorkerGone \<Rightarrow> 1 | _ \<Rightarrow> 0)"

definition lane_inv :: "lane \<Rightarrow> bool" where
  "lane_inv s \<longleftrightarrow> in_flight s = (if ln_busy s then 1 else 0) \<and> ln_dropped s = 0"

lemma lane_inv_start: "lane_inv lane_start"
  by (simp add: lane_inv_def in_flight_def lane_start_def)

lemma lane_inv_step: "lane_step s s' \<Longrightarrow> lane_inv s \<Longrightarrow> lane_inv s'"
  by (erule lane_stepE)
    (auto simp: lane_inv_def in_flight_def try_send_works_def split: if_splits lane_worker.splits)

lemma lane_inv_reachable: "lane_reachable s \<Longrightarrow> lane_inv s"
  unfolding lane_reachable_def
  by (induction rule: rtranclp_induct) (simp_all add: lane_inv_start lane_inv_step)

text \<open>Steps of the program alone: sending, receiving, and handlers that return.\<close>

lemma lane_frees_itself:
  assumes "lane_inv s" "ln_busy s" "ln_worker s \<noteq> WorkerGone"
  shows "\<exists>s'. lane_step\<^sup>*\<^sup>* s s' \<and> \<not> ln_busy s'"
proof -
  have finish: "\<exists>s'. lane_step\<^sup>*\<^sup>* s s' \<and> \<not> ln_busy s'" if "ln_worker s = Handling rq" for s rq
    using handled [OF that] by (intro exI conjI, rule r_into_rtranclp) simp_all
  have take_one: "\<exists>s'. lane_step\<^sup>*\<^sup>* s s' \<and> \<not> ln_busy s'"
    if c: "ln_channel s = rq # rqs" and w: "ln_worker s = WaitingForJob" for s rq rqs
  proof -
    from finish [of "s\<lparr>ln_worker := Handling rq, ln_channel := rqs\<rparr>" rq] obtain s' where
      "lane_step\<^sup>*\<^sup>* (s\<lparr>ln_worker := Handling rq, ln_channel := rqs\<rparr>) s'" "\<not> ln_busy s'" by auto
    with receive [OF w c] show ?thesis by (meson converse_rtranclp_into_rtranclp)
  qed
  have queued: "\<exists>s'. lane_step\<^sup>*\<^sup>* s s' \<and> \<not> ln_busy s'"
    if c: "ln_channel s = [rq]" and w: "ln_worker s = WaitingForJob \<or> ln_worker s = Replying" for s rq
  proof (cases "ln_worker s = Replying")
    case True
    from take_one [of "s\<lparr>ln_worker := WaitingForJob\<rparr>" rq "[]"] c obtain s' where
      "lane_step\<^sup>*\<^sup>* (s\<lparr>ln_worker := WaitingForJob\<rparr>) s'" "\<not> ln_busy s'" by auto
    with replied [OF True] show ?thesis by (meson converse_rtranclp_into_rtranclp)
  next
    case False
    with take_one [OF c] w show ?thesis by blast
  qed
  show ?thesis
  proof (cases "ln_worker s = WaitingForJob \<or> ln_worker s = Replying")
    case True
    with assms obtain rq where "ln_sending s = [rq] \<and> ln_channel s = [] \<or> ln_sending s = [] \<and> ln_channel s = [rq]"
      by (cases "ln_sending s"; cases "ln_channel s") (auto simp: lane_inv_def in_flight_def)
    then show ?thesis
    proof
      assume c: "ln_sending s = [rq] \<and> ln_channel s = []"
      let ?s = "s\<lparr>ln_sending := [], ln_channel := [rq]\<rparr>"
      have "lane_step s ?s" using send [of s "[]" rq "[]"] c assms(3) by (simp add: try_send_works_def)
      moreover obtain s' where "lane_step\<^sup>*\<^sup>* ?s s'" "\<not> ln_busy s'" using queued [of ?s rq] True by auto
      ultimately show ?thesis by (meson converse_rtranclp_into_rtranclp)
    qed (use queued True in blast)
  next
    case False
    with assms(3) finish show ?thesis by (cases "ln_worker s") auto
  qed
qed

text \<open>
  C26: The sampler's lane holds one request at a time and always opens again. In every state that
  concurrent calls, timeouts and handler panics can lead to, at most one request is between its
  claim and the end of its handling, a caller that has claimed the lane never finds the channel full
  or the worker stopped, and as long as no handler has panicked a claimed lane gets free by steps of
  the program alone.
\<close>

theorem lane_holds_one:
  assumes "lane_reachable s"
  shows "in_flight s \<le> 1 \<and> ln_dropped s = 0 \<and> (ln_sending s \<noteq> [] \<longrightarrow> try_send_works s) \<and>
    (ln_worker s = WorkerGone \<or> (\<exists>s'. lane_step\<^sup>*\<^sup>* s s' \<and> \<not> ln_busy s'))"
proof -
  have inv: "lane_inv s" by (rule lane_inv_reachable [OF assms])
  have "try_send_works s" if "ln_sending s \<noteq> []"
    using inv that by (cases "ln_sending s"; cases "ln_worker s")
      (auto simp: lane_inv_def in_flight_def try_send_works_def split: if_splits)
  moreover have "\<exists>s'. lane_step\<^sup>*\<^sup>* s s' \<and> \<not> ln_busy s'" if "ln_worker s \<noteq> WorkerGone"
    using lane_frees_itself [OF inv _ that] by (cases "ln_busy s") blast+
  ultimately show ?thesis using inv by (auto simp: lane_inv_def)
qed

definition sample_lane :: lane where
  "sample_lane = lane_start\<lparr>ln_busy := True, ln_sending := [Ping]\<rparr>"

theorem lane_holds_one_witness:
  "in_flight sample_lane \<le> 1 \<and> (\<exists>s'. lane_step\<^sup>*\<^sup>* sample_lane s' \<and> \<not> ln_busy s')"
proof -
  have "lane_step lane_start sample_lane"
    using claim [of lane_start Ping] by (simp add: sample_lane_def lane_start_def)
  then have "lane_reachable sample_lane" by (auto simp: lane_reachable_def)
  from lane_holds_one [OF this] show ?thesis by (simp add: sample_lane_def lane_start_def)
qed

section \<open>The call as its caller sees it\<close>

text \<open>Whether the flag was free, whether the request could be sent, and what came back in time.\<close>

datatype reply = Replied | TimedOut | Disconnected

definition call_with_timeout ::
    "bool \<Rightarrow> bool \<Rightarrow> reply \<Rightarrow> call_error + 'v \<Rightarrow> call_error + 'v" where
  "call_with_timeout was_busy sent r result =
     (if was_busy then Inl (Unavailable ''telemetry request still in flight'')
      else if \<not> sent then Inl (Unavailable ''telemetry worker stopped'')
      else (case r of
          Replied \<Rightarrow> result
        | TimedOut \<Rightarrow> Inl (Unavailable ''telemetry response timed out'')
        | Disconnected \<Rightarrow> Inl (Unavailable ''telemetry worker stopped'')))"

datatype 'a brokered = BrokeredValue 'a | BrokeredUnavailable | BrokeredRejected string

definition brokered ::
    "(('s, 'i, 'w) broker_value \<Rightarrow> 'a option) \<Rightarrow> call_error + ('s, 'i, 'w) broker_value \<Rightarrow> 'a brokered" where
  "brokered decode answer =
     (case answer of
        Inr v \<Rightarrow> (case decode v of Some a \<Rightarrow> BrokeredValue a | None \<Rightarrow> BrokeredRejected ''unexpected response type'')
      | Inl (Unavailable _) \<Rightarrow> BrokeredUnavailable
      | Inl (Rejected detail) \<Rightarrow> BrokeredRejected detail)"

definition brokered_process_network ::
    "(broker_request \<Rightarrow> call_error + ('s, 'i, 'w) broker_value) \<Rightarrow> network_sample brokered" where
  "brokered_process_network call =
     brokered (\<lambda>v. case v of ProcessNetwork s \<Rightarrow> Some s | _ \<Rightarrow> None) (call RqProcessNetworkCounters)"

definition brokered_process_disk ::
    "(broker_request \<Rightarrow> call_error + ('s, 'i, 'w) broker_value) \<Rightarrow> disk_sample brokered" where
  "brokered_process_disk call =
     brokered (\<lambda>v. case v of ProcessDisk s \<Rightarrow> Some s | _ \<Rightarrow> None) (call RqProcessDiskCounters)"

definition brokered_process_identity ::
    "(broker_request \<Rightarrow> call_error + ('s, 'i, 'w) broker_value) \<Rightarrow> u32 \<Rightarrow> int option \<Rightarrow> 'i brokered" where
  "brokered_process_identity call pid expected =
     brokered (\<lambda>v. case v of ProcessIdentity i \<Rightarrow> Some i | _ \<Rightarrow> None) (call (RqProcessIdentity pid expected))"

section \<open>Repeated warnings\<close>

text \<open>One attempt that sees \<open>previous\<close> and, if it is late enough, replaces it; \<open>now\<close> is at least 1.\<close>

definition warning_attempt :: "nat \<Rightarrow> nat \<Rightarrow> bool \<times> nat" where
  "warning_attempt previous now =
     (if previous \<noteq> 0 \<and> now - previous < 5000 then (False, previous) else (True, now))"

text \<open>The times of the warnings that get through, from the times at which they are tried.\<close>

fun warnings_shown :: "nat \<Rightarrow> nat list \<Rightarrow> nat list" where
  "warnings_shown previous [] = []"
| "warnings_shown previous (now # nows) =
     (case warning_attempt previous now of
        (allowed, l) \<Rightarrow> (if allowed then [now] else []) @ warnings_shown l nows)"

lemma warnings_apart:
  "0 \<notin> set nows \<Longrightarrow>
   sorted_wrt (\<lambda>a b. a + 5000 \<le> b) (warnings_shown previous nows) \<and>
   (\<forall>t\<in>set (warnings_shown previous nows). previous = 0 \<or> previous + 5000 \<le> t)"
proof (induction nows arbitrary: previous)
  case (Cons now nows)
  show ?case
  proof (cases "previous \<noteq> 0 \<and> now - previous < 5000")
    case True
    then show ?thesis using Cons.IH [of previous] Cons.prems by (simp add: warning_attempt_def)
  next
    case False
    have later: "now + 5000 \<le> t" if "t \<in> set (warnings_shown now nows)" for t
      using Cons.IH [of now] Cons.prems that by auto
    from False have "previous = 0 \<or> previous + 5000 \<le> now" by linarith
    moreover from this later have "previous = 0 \<or> previous + 5000 \<le> t" if "t \<in> set (warnings_shown now nows)" for t
      using that by fastforce
    moreover have shown: "warnings_shown previous (now # nows) = now # warnings_shown now nows"
      using False by (auto simp: warning_attempt_def)
    ultimately show ?thesis unfolding shown using Cons.IH [of now] Cons.prems later by auto
  qed
qed simp

end
