(* ===== verification/Command_Line.thy ===== *)
theory Command_Line
  imports Rust_Text
begin

text \<open>
  The command lines TaskMan makes (\<open>quote_win_arg\<close> of crates/tm-platform/src/win/mod.rs,
  \<open>gui_command\<close> of core_service.rs) against the documented rules by which the C runtime of
  Windows splits a command line into the program and its arguments.
\<close>

definition backslash :: char where "backslash = CHR 0x5C"
definition quote :: char where "quote = CHR 0x22"
definition tab :: char where "tab = CHR 0x09"
definition blank :: char where "blank = CHR 0x20"

lemmas special_chars = backslash_def quote_def tab_def blank_def

section \<open>Quoting\<close>

text \<open>The state of the loop: what was written and how many backslashes it ends with.\<close>

fun quote_step :: "string \<times> nat \<Rightarrow> char \<Rightarrow> string \<times> nat" where
  "quote_step (out, backslashes) c =
     (if c = backslash then (out @ [backslash], Suc backslashes)
      else if c = quote then (out @ replicate backslashes backslash @ [backslash, quote], 0)
      else (out @ [c], 0))"

definition quote_win_arg :: "string \<Rightarrow> string" where
  "quote_win_arg arg =
     (if arg \<noteq> [] \<and> set arg \<inter> {blank, tab, quote} = {} then arg
      else (case foldl quote_step ([quote], 0) arg of
        (out, backslashes) \<Rightarrow> out @ replicate backslashes backslash @ [quote]))"

definition gui_command :: "string \<Rightarrow> string list \<Rightarrow> string" where
  "gui_command executable args =
     foldl (\<lambda>command argument. command @ [blank] @ quote_win_arg argument) (quote # executable @ [quote]) args"

section \<open>Splitting\<close>

text \<open>
  The documented rules. Backslashes are literal unless a quote follows; then each pair of them
  is one backslash, and an odd one makes the quote literal, while otherwise the quote starts or
  ends a quoted part. Blanks and tabs outside quoted parts end the argument. The program name
  ends at the next quote if it starts with one, and no character of it is special.
\<close>

fun read_arg :: "bool \<Rightarrow> nat \<Rightarrow> string \<Rightarrow> string \<times> string" where
  "read_arg quoted n [] = (replicate n backslash, [])"
| "read_arg quoted n (c # s) =
     (if c = backslash then read_arg quoted (Suc n) s
      else if c = quote then
        (case read_arg (if even n then \<not> quoted else quoted) 0 s of
           (a, rest) \<Rightarrow> (replicate (n div 2) backslash @ (if odd n then [quote] else []) @ a, rest))
      else if (c = blank \<or> c = tab) \<and> \<not> quoted then (replicate n backslash, s)
      else (case read_arg quoted 0 s of (a, rest) \<Rightarrow> (replicate n backslash @ c # a, rest)))"

lemma read_arg_shorter: "length (snd (read_arg quoted n s)) \<le> length s"
proof (induction quoted n s rule: read_arg.induct)
  case (2 quoted n c s)
  then show ?case by (auto split: prod.split)
qed simp

lemma read_arg_progress: "length (snd (read_arg quoted n (c # s))) < length (c # s)"
  using read_arg_shorter [of _ _ s] by (auto simp: less_Suc_eq_le split: prod.split)
    (metis order_trans snd_conv)+

function split_args :: "string \<Rightarrow> string list" where
  "split_args s =
     (case dropWhile (\<lambda>c. c = blank \<or> c = tab) s of
        [] \<Rightarrow> []
      | c # cs \<Rightarrow> (case read_arg False 0 (c # cs) of (a, rest) \<Rightarrow> a # split_args rest))"
  by pat_completeness auto

termination
proof (relation "measure length", goal_cases)
  case (2 s c cs a rest)
  have "length (c # cs) \<le> length s" using length_dropWhile_le [of "\<lambda>c. c = blank \<or> c = tab" s] 2(1) by simp
  moreover have "length rest < length (c # cs)" using read_arg_progress [of False 0 c cs] 2(2) by (metis snd_conv)
  ultimately show ?case by simp
qed simp

declare split_args.simps [simp del]

definition command_line_args :: "string \<Rightarrow> string list" where
  "command_line_args command =
     (case command of
        [] \<Rightarrow> []
      | c # s \<Rightarrow>
          if c = quote then takeWhile (\<lambda>c. c \<noteq> quote) s # split_args (drop 1 (dropWhile (\<lambda>c. c \<noteq> quote) s))
          else takeWhile (\<lambda>c. c \<noteq> blank \<and> c \<noteq> tab) command #
            split_args (dropWhile (\<lambda>c. c \<noteq> blank \<and> c \<noteq> tab) command))"

section \<open>Round trip\<close>

text \<open>What the loop appends after \<open>b\<close> backslashes, closing quote included.\<close>

fun quoted_from :: "nat \<Rightarrow> string \<Rightarrow> string" where
  "quoted_from b [] = replicate b backslash @ [quote]"
| "quoted_from b (c # s) =
     (if c = backslash then backslash # quoted_from (Suc b) s
      else if c = quote then replicate b backslash @ [backslash, quote] @ quoted_from 0 s
      else c # quoted_from 0 s)"

lemma quote_loop:
  "(case foldl quote_step (out, b) s of (out', b') \<Rightarrow> out' @ replicate b' backslash @ [quote]) =
     out @ quoted_from b s"
  by (induction s arbitrary: out b) auto

lemma quote_win_arg_quoted:
  assumes "\<not> (arg \<noteq> [] \<and> set arg \<inter> {blank, tab, quote} = {})"
  shows "quote_win_arg arg = [quote] @ quoted_from 0 arg"
  unfolding quote_win_arg_def if_not_P [OF assms] by (rule quote_loop)

lemma read_backslashes: "read_arg quoted n (replicate k backslash @ s) = read_arg quoted (n + k) s"
  by (induction k arbitrary: n) simp_all

lemma special_distinct [simp]:
  "quote \<noteq> backslash" "backslash \<noteq> quote" "blank \<noteq> quote" "blank \<noteq> backslash" "tab \<noteq> quote" "tab \<noteq> backslash"
  by (simp_all add: special_chars)

text \<open>Reading back: the reader has seen the \<open>b\<close> backslashes the writer remembers.\<close>

lemma read_quoted:
  "read_arg True b (quoted_from b s @ rest) =
     (case read_arg False 0 rest of (a, more) \<Rightarrow> (replicate b backslash @ s @ a, more))"
proof (induction b s rule: quoted_from.induct)
  case (1 b)
  have "b + b = 2 * b" by simp
  then show ?case by (simp add: read_backslashes split: prod.split)
next
  case (2 b c s)
  consider "c = backslash" | "c = quote" | "c \<noteq> backslash" "c \<noteq> quote" by blast
  then show ?case
  proof cases
    case 1
    with 2(1) show ?thesis by (simp add: replicate_app_Cons_same split: prod.split)
  next
    case c: 2
    have "read_arg True b (replicate b backslash @ backslash # quote # quoted_from 0 s @ rest) =
        read_arg True (b + b) (backslash # quote # quoted_from 0 s @ rest)"
      by (rule read_backslashes)
    with c 2(2) show ?thesis by (simp split: prod.split)
  next
    case 3
    with 2(3) show ?thesis by (simp split: prod.split)
  qed
qed

lemma read_plain:
  "set s \<inter> {blank, tab, quote} = {} \<Longrightarrow> rest = [] \<or> hd rest = blank \<Longrightarrow>
   read_arg False n (s @ rest) = (replicate n backslash @ s, drop 1 rest)"
proof (induction s arbitrary: n)
  case Nil
  then show ?case by (cases rest) auto
next
  case (Cons c s)
  then show ?case by (auto simp: replicate_app_Cons_same)
qed

lemma read_quote_win_arg:
  assumes "rest = [] \<or> hd rest = blank"
  shows "read_arg False 0 (quote_win_arg arg @ rest) = (arg, drop 1 rest)"
proof (cases "arg \<noteq> [] \<and> set arg \<inter> {blank, tab, quote} = {}")
  case True
  then show ?thesis using read_plain [of arg rest 0] assms by (simp add: quote_win_arg_def)
next
  case False
  then have "quote_win_arg arg = [quote] @ quoted_from 0 arg" by (rule quote_win_arg_quoted)
  moreover have "read_arg False 0 rest = ([], drop 1 rest)" using assms by (cases rest) auto
  ultimately show ?thesis by (simp add: read_quoted)
qed

lemma quote_win_arg_hd: "\<exists>c s. quote_win_arg arg = c # s \<and> c \<noteq> blank \<and> c \<noteq> tab"
proof (cases "arg \<noteq> [] \<and> set arg \<inter> {blank, tab, quote} = {}")
  case True
  then show ?thesis by (cases arg) (auto simp: quote_win_arg_def)
next
  case False
  then have "quote_win_arg arg = [quote] @ quoted_from 0 arg" by (rule quote_win_arg_quoted)
  then show ?thesis by (simp add: special_chars)
qed

lemma gui_command_concat:
  "foldl (\<lambda>command argument. command @ [blank] @ quote_win_arg argument) s args =
     s @ concat (map (\<lambda>a. blank # quote_win_arg a) args)"
  by (induction args arbitrary: s) simp_all

lemma split_blank: "split_args (blank # s) = split_args s"
  by (subst split_args.simps, subst (2) split_args.simps) simp

lemma split_quoted_args: "split_args (concat (map (\<lambda>a. blank # quote_win_arg a) args)) = args"
proof (induction args)
  case Nil
  then show ?case by (simp add: split_args.simps)
next
  case (Cons a args)
  define more where "more = concat (map (\<lambda>a. blank # quote_win_arg a) args)"
  have "more = [] \<or> hd more = blank" by (cases args) (simp_all add: more_def)
  moreover obtain c s where c: "quote_win_arg a = c # s" "c \<noteq> blank" "c \<noteq> tab" using quote_win_arg_hd by blast
  ultimately have "read_arg False 0 (c # s @ more) = (a, drop 1 more)"
    using read_quote_win_arg [of more a] by simp
  moreover have "split_args (drop 1 more) = split_args more"
    using \<open>more = [] \<or> hd more = blank\<close>
    by (cases more) (auto simp: split_blank)
  ultimately show ?case
    using Cons c by (simp add: split_blank split_args.simps [of "c # s @ more"] flip: more_def)
qed

lemma gui_command_args:
  assumes "quote \<notin> set executable"
  shows "command_line_args (gui_command executable args) = executable # args"
proof -
  let ?tail = "concat (map (\<lambda>a. blank # quote_win_arg a) args)"
  have "takeWhile (\<lambda>c. c \<noteq> quote) (executable @ quote # ?tail) = executable"
    "dropWhile (\<lambda>c. c \<noteq> quote) (executable @ quote # ?tail) = quote # ?tail"
    using assms by (subst takeWhile_append2 dropWhile_append2; auto)+
  then show ?thesis
    unfolding gui_command_def gui_command_concat by (simp add: command_line_args_def split_quoted_args)
qed

text \<open>
  C38: Forwarded arguments arrive as they are. By the documented rules the command line made for a
  restart splits into the program and exactly the arguments that were forwarded, whatever blanks,
  quotes and backslashes they contain and also if they are empty; no argument can add another.
\<close>

theorem forwarded_args_intact:
  assumes "quote \<notin> set executable"
  shows "command_line_args (gui_command executable args) = executable # args"
  by (rule gui_command_args [OF assms])

theorem forwarded_args_intact_witness:
  "command_line_args (gui_command ''C:/TaskMan/taskman.exe'' [[], ''a b'', [backslash, quote, blank]]) =
     [''C:/TaskMan/taskman.exe'', [], ''a b'', [backslash, quote, blank]]"
  by (rule forwarded_args_intact) (simp add: quote_def)

end
