(* ===== verification/Broker_Server.thy ===== *)
theory Broker_Server
  imports Broker_Client Command_Line
begin

text \<open>
  The core service around its requests (crates/tm-platform/src/win/core_service.rs): the loop that
  accepts clients, identifies them and queues their connections. What the system answers is given,
  one record per pass of the loop.
\<close>

section \<open>Accepting clients\<close>

definition WORKER_COUNT :: nat where "WORKER_COUNT = 2"
definition WORK_QUEUE_CAP :: nat where "WORK_QUEUE_CAP = 16"
definition MAX_CONSECUTIVE_ACCEPT_FAILURES :: nat where "MAX_CONSECUTIVE_ACCEPT_FAILURES = 16"

text \<open>What a pipe instance fails to be created with: \<open>ERROR_PIPE_BUSY\<close> keeps its OS error,
  everything else has become a text.\<close>

datatype pipe_error = AllInstancesInUse | PipeError tm_error

fun is_pipe_busy :: "pipe_error \<Rightarrow> bool" where
  "is_pipe_busy AllInstancesInUse = True"
| "is_pipe_busy (PipeError _) = False"

fun pipe_error_of :: "pipe_error \<Rightarrow> tm_error" where
  "pipe_error_of AllInstancesInUse = from_io \<lparr>io_kind = OtherKind, io_text = ''all pipe instances are busy''\<rparr>"
| "pipe_error_of (PipeError e) = e"

datatype accept_outcome = AcceptConnected | AcceptClientVanished | AcceptFailed tm_error

definition client_pid :: "string + u32 \<Rightarrow> tm_error + u32" where
  "client_pid reported =
     (case reported of
        Inl error \<Rightarrow> Inl (tm_platform ''named-pipe client PID'' error)
      | Inr pid \<Rightarrow> if pid = 0 then Inl (tm_platform ''named-pipe client PID'' ''client reported PID zero'') else Inr pid)"

datatype try_send = SendOk | SendFull | SendDisconnected

text \<open>The answers one pass may need; the second look at the stop flag is after the accept.\<close>

record accept_pass =
  ap_stopped :: bool
  ap_create :: "pipe_error + unit"
  ap_accept :: accept_outcome
  ap_stopped_after :: bool
  ap_rearm :: "pipe_error + unit"
  ap_client :: "string + u32"
  ap_image :: "u32 \<Rightarrow> call_error + string"
  ap_send :: try_send

record accept_state =
  as_listener :: bool
  as_failures :: nat
  as_queued :: "u32 list"
  as_rejected :: "string list"

datatype pass_end = NextPass accept_state | LoopLeft accept_state | LoopFailed tm_error accept_state

definition count_failure :: "tm_error \<Rightarrow> accept_state \<Rightarrow> pass_end" where
  "count_failure error s =
     (let s' = s\<lparr>as_failures := Suc (as_failures s)\<rparr> in
      if MAX_CONSECUTIVE_ACCEPT_FAILURES \<le> as_failures s' then LoopFailed error s' else NextPass s')"

definition rejecting :: "string \<Rightarrow> accept_state \<Rightarrow> pass_end" where
  "rejecting detail s = NextPass (s\<lparr>as_rejected := as_rejected s @ [detail]\<rparr>)"

definition admit_client :: "broker_host \<Rightarrow> string \<Rightarrow> accept_pass \<Rightarrow> accept_state \<Rightarrow> pass_end" where
  "admit_client H gui_path p s =
     (case client_pid (ap_client p) of
        Inl error \<Rightarrow> rejecting ''client process identity could not be established'' s
      | Inr pid \<Rightarrow>
          (case ap_image p pid of
             Inl error \<Rightarrow> rejecting ''client executable could not be resolved'' s
           | Inr client_path \<Rightarrow>
               if \<not> paths_match H client_path gui_path
               then rejecting ''client is not the protected TaskMan GUI'' s
               else
                 (case ap_send p of
                    SendOk \<Rightarrow> NextPass (s\<lparr>as_queued := as_queued s @ [pid]\<rparr>)
                  | SendFull \<Rightarrow> rejecting ''core service work queue is full'' s
                  | SendDisconnected \<Rightarrow> LoopFailed ChannelClosed s)))"

definition accept_once :: "broker_host \<Rightarrow> string \<Rightarrow> accept_pass \<Rightarrow> accept_state \<Rightarrow> pass_end" where
  "accept_once H gui_path p s =
     (if ap_stopped p then LoopLeft s
      else
        (case (if as_listener s then Inr () else ap_create p) of
           Inl error \<Rightarrow> if is_pipe_busy error then NextPass s else count_failure (pipe_error_of error) s
         | Inr _ \<Rightarrow>
             if ap_stopped_after p then LoopLeft (s\<lparr>as_listener := False\<rparr>)
             else
               (let s = s\<lparr>as_listener := is_ok (ap_rearm p)\<rparr> in
                case ap_accept p of
                  AcceptConnected \<Rightarrow> admit_client H gui_path p (s\<lparr>as_failures := 0\<rparr>)
                | AcceptClientVanished \<Rightarrow> NextPass (s\<lparr>as_failures := 0\<rparr>)
                | AcceptFailed error \<Rightarrow> count_failure error s)))"

fun accept_loop ::
    "broker_host \<Rightarrow> string \<Rightarrow> accept_pass list \<Rightarrow> accept_state \<Rightarrow> (tm_error + unit) option \<times> accept_state" where
  "accept_loop H gui_path [] s = (None, s)"
| "accept_loop H gui_path (p # passes) s =
     (case accept_once H gui_path p s of
        NextPass s' \<Rightarrow> accept_loop H gui_path passes s'
      | LoopLeft s' \<Rightarrow> (Some (Inr ()), s')
      | LoopFailed error s' \<Rightarrow> (Some (Inl error), s'))"

text \<open>The state with the first instance listening.\<close>

definition listening :: accept_state where
  "listening = \<lparr>as_listener = True, as_failures = 0, as_queued = [], as_rejected = []\<rparr>"

lemma accept_loop_induct [consumes 1, case_names exhausted left failed onwards]:
  assumes "accept_loop H g ps s = (r, s')"
    and "\<And>s. Q [] s None s"
    and "\<And>p ps s s'. accept_once H g p s = LoopLeft s' \<Longrightarrow> Q (p # ps) s (Some (Inr ())) s'"
    and "\<And>p ps s e s'. accept_once H g p s = LoopFailed e s' \<Longrightarrow> Q (p # ps) s (Some (Inl e)) s'"
    and "\<And>p ps s s1 r s'. accept_once H g p s = NextPass s1 \<Longrightarrow> Q ps s1 r s' \<Longrightarrow> Q (p # ps) s r s'"
  shows "Q ps s r s'"
  using assms(1)
proof (induction ps arbitrary: s)
  case Nil
  then show ?case using assms(2) by simp
next
  case (Cons p ps)
  then show ?case using assms(3-5) by (auto split: pass_end.splits)
qed

subsection \<open>Who is served\<close>

definition genuine_gui :: "broker_host \<Rightarrow> string \<Rightarrow> accept_pass list \<Rightarrow> u32 \<Rightarrow> bool" where
  "genuine_gui H gui_path passes pid \<longleftrightarrow>
     (\<exists>p\<in>set passes. ap_client p = Inr pid \<and> pid \<noteq> 0 \<and>
        (\<exists>path. ap_image p pid = Inr path \<and> paths_match H path gui_path))"

lemmas accept_once_simps = accept_once_def admit_client_def count_failure_def rejecting_def client_pid_def Let_def

lemma queued_once:
  "accept_once H g p s \<in> {NextPass s', LoopLeft s', LoopFailed e s'} \<Longrightarrow>
   as_queued s' = as_queued s \<or> (\<exists>pid. as_queued s' = as_queued s @ [pid] \<and> genuine_gui H g [p] pid)"
  by (auto simp: accept_once_simps genuine_gui_def split: if_splits sum.splits accept_outcome.splits try_send.splits)

lemma queued_genuine:
  assumes "accept_loop H g ps s = (r, s')"
  shows "\<exists>new. as_queued s' = as_queued s @ new \<and> (\<forall>pid\<in>set new. genuine_gui H g ps pid)"
  using assms
proof (induction rule: accept_loop_induct)
  case (onwards p ps s s1 r s')
  then show ?case using queued_once [of H g p s s1 undefined] by (fastforce simp: genuine_gui_def)
qed (use queued_once in \<open>fastforce simp: genuine_gui_def\<close>)+

text \<open>
  C20: Only the installed GUI is served. Every process whose request reaches a worker had connected
  with a process id of its own and an executable that resolves to the path the manifest names; a
  client that cannot be identified, whose image cannot be resolved or is another one is told so and
  never queued.
\<close>

theorem only_installed_gui_served:
  "set (as_queued (snd (accept_loop H gui_path passes listening))) \<subseteq> {pid. genuine_gui H gui_path passes pid}"
  using queued_genuine [of H gui_path passes listening, OF surjective_pairing] by (auto simp: listening_def)

subsection \<open>When it gives up\<close>

definition faulty_pass :: "accept_pass \<Rightarrow> bool" where
  "faulty_pass p \<longleftrightarrow> (\<exists>e. ap_create p = Inl (PipeError e)) \<or> (\<exists>e. ap_accept p = AcceptFailed e)"

definition idle_pass :: "accept_pass \<Rightarrow> bool" where
  "idle_pass p \<longleftrightarrow> ap_create p = Inl AllInstancesInUse"

text \<open>The pass is the end of a series of failures that nothing interrupts, \<open>n\<close> of them before.\<close>

definition failure_series :: "nat \<Rightarrow> accept_pass list \<Rightarrow> bool" where
  "failure_series n ps \<longleftrightarrow> (\<exists>before series after. ps = before @ series @ after \<and>
     list_all (\<lambda>p. faulty_pass p \<or> idle_pass p) series \<and>
     MAX_CONSECUTIVE_ACCEPT_FAILURES \<le> length (filter faulty_pass series) + (if before = [] then n else 0))"

lemma failure_series_now: "faulty_pass p \<Longrightarrow> MAX_CONSECUTIVE_ACCEPT_FAILURES \<le> Suc n \<Longrightarrow> failure_series n (p # ps)"
  unfolding failure_series_def by (intro exI [of _ "[]"] exI [of _ "[p]"] exI [of _ ps]) simp

lemma failure_series_later:
  assumes "failure_series m ps"
    and "m = 0 \<or> idle_pass p \<and> m = n \<or> faulty_pass p \<and> m = Suc n"
  shows "failure_series n (p # ps)"
proof -
  from assms(1) obtain before series after where ps: "ps = before @ series @ after"
    "list_all (\<lambda>p. faulty_pass p \<or> idle_pass p) series"
    "MAX_CONSECUTIVE_ACCEPT_FAILURES \<le> length (filter faulty_pass series) + (if before = [] then m else 0)"
    by (auto simp: failure_series_def)
  show ?thesis
  proof (cases "before = [] \<and> m \<noteq> 0")
    case True
    then show ?thesis using ps assms(2) unfolding failure_series_def
      by (intro exI [of _ "[]"] exI [of _ "p # series"] exI [of _ after]) auto
  next
    case False
    then show ?thesis using ps unfolding failure_series_def
      by (intro exI [of _ "p # before"] exI [of _ series] exI [of _ after]) auto
  qed
qed

lemma next_pass_failures:
  "accept_once H g p s = NextPass s' \<Longrightarrow>
   as_failures s' = 0 \<or> idle_pass p \<and> as_failures s' = as_failures s \<or>
   faulty_pass p \<and> as_failures s' = Suc (as_failures s)"
  by (cases "ap_create p"; cases "projl (ap_create p)")
    (auto simp: accept_once_simps faulty_pass_def idle_pass_def
      split: if_splits sum.splits accept_outcome.splits try_send.splits pipe_error.splits)

lemma failed_pass:
  "accept_once H g p s = LoopFailed e s' \<Longrightarrow>
   e = ChannelClosed \<and> ap_send p = SendDisconnected \<or>
   faulty_pass p \<and> MAX_CONSECUTIVE_ACCEPT_FAILURES \<le> Suc (as_failures s)"
  by (cases "ap_create p"; cases "projl (ap_create p)")
    (auto simp: accept_once_simps faulty_pass_def
      split: if_splits sum.splits accept_outcome.splits try_send.splits pipe_error.splits)

lemma gives_up:
  assumes "accept_loop H g ps s = (r, s')"
  shows "r = Some (Inl e) \<longrightarrow> (\<exists>p\<in>set ps. e = ChannelClosed \<and> ap_send p = SendDisconnected) \<or>
    failure_series (as_failures s) ps"
  using assms
proof (induction rule: accept_loop_induct)
  case (failed p ps s e' s')
  then show ?case using failed_pass failure_series_now by fastforce
next
  case (onwards p ps s s1 r s')
  then show ?case using next_pass_failures failure_series_later by (metis list.set_intros(2))
qed simp_all

text \<open>
  C24: Clients cannot bring the service down. The loop ends with an error only if a worker channel is
  gone or sixteen passes have failed in a series that no connected client interrupts; passes that
  find every pipe instance in use belong to no count, and a client that connects and vanishes ends
  the series like one that stays.
\<close>

theorem accept_loop_survives:
  assumes "fst (accept_loop H gui_path passes listening) = Some (Inl e)"
  shows "(\<exists>p\<in>set passes. ap_send p = SendDisconnected) \<or>
    (\<exists>before series after. passes = before @ series @ after \<and>
      list_all (\<lambda>p. faulty_pass p \<or> idle_pass p) series \<and> 16 \<le> length (filter faulty_pass series))"
proof -
  have "failure_series 0 passes \<Longrightarrow> \<exists>before series after. passes = before @ series @ after \<and>
      list_all (\<lambda>p. faulty_pass p \<or> idle_pass p) series \<and> 16 \<le> length (filter faulty_pass series)"
    by (simp add: failure_series_def MAX_CONSECUTIVE_ACCEPT_FAILURES_def)
  moreover have "accept_loop H gui_path passes listening = (Some (Inl e), snd (accept_loop H gui_path passes listening))"
    using assms by (metis prod.collapse)
  ultimately show ?thesis using gives_up [of H gui_path passes listening] by (fastforce simp: listening_def)
qed

definition failing_pass :: accept_pass where
  "failing_pass = \<lparr>ap_stopped = False, ap_create = Inl (PipeError ChannelClosed), ap_accept = AcceptFailed Canceled,
     ap_stopped_after = False, ap_rearm = Inl AllInstancesInUse, ap_client = Inr 1, ap_image = (\<lambda>_. Inr []), ap_send = SendOk\<rparr>"

theorem accept_loop_survives_witness:
  "fst (accept_loop sample_host [] (replicate 15 failing_pass) listening) = None \<and>
   (\<exists>before series after. replicate 16 failing_pass = before @ series @ after \<and>
      16 \<le> length (filter faulty_pass series))"
proof
  show "fst (accept_loop sample_host [] (replicate 15 failing_pass) listening) = None" by code_simp
  have "fst (accept_loop sample_host [] (replicate 16 failing_pass) listening) = Some (Inl ChannelClosed)"
    by code_simp
  from accept_loop_survives [OF this] show "\<exists>before series after.
      replicate 16 failing_pass = before @ series @ after \<and> 16 \<le> length (filter faulty_pass series)"
    by (auto simp: failing_pass_def)
qed

end
