(* ===== verification/Service_Setup.thy ===== *)
theory Service_Setup
  imports Broker_Server Persist
begin

text \<open>
  Installation of the core service (crates/tm-platform/src/win/core_service.rs): the wait for an
  older generation to stop, the protected copy of a program file, and the installation as a whole.
  Files hold contents of a type that is only hashed; each fallible system call has an answer given
  by the host, and the files and what was done with the service are the state. Error texts are
  shortened.
\<close>

section \<open>Waiting for a stop\<close>

datatype run_state =
    SvStopped | SvStartPending | SvStopPending | SvRunning | SvContinuePending | SvPausePending | SvPaused

definition upgrade_err :: "string \<Rightarrow> tm_error" where
  "upgrade_err t = tm_platform ''upgrade core service'' t"

text \<open>Each query of the status with the time at which the deadline is then checked.\<close>

fun await_stopped :: "nat \<Rightarrow> ((string + run_state) \<times> nat) list \<Rightarrow> (tm_error + unit) option" where
  "await_stopped deadline [] = None"
| "await_stopped deadline ((r, now) # polls) =
     (case r of
        Inl error \<Rightarrow> Some (Inl (tm_platform ''query stopping core service'' error))
      | Inr current \<Rightarrow>
          if current = SvStopped then Some (Inr ())
          else if deadline \<le> now then Some (Inl (upgrade_err ''timed out waiting for service to stop''))
          else await_stopped deadline polls)"

record stop_answers =
  sa_stop :: "string + unit"
  sa_start_time :: nat
  sa_polls :: "((string + run_state) \<times> nat) list"

definition stop_service_for_upgrade :: "stop_answers \<Rightarrow> run_state \<Rightarrow> (tm_error + unit) option" where
  "stop_service_for_upgrade A state =
     (if state = SvStopped then Some (Inr ())
      else if state \<noteq> SvRunning \<and> state \<noteq> SvStopPending
      then Some (Inl (upgrade_err ''service is busy; retry shortly''))
      else
        (case (if state = SvRunning then sa_stop A else Inr ()) of
           Inl error \<Rightarrow> Some (Inl (tm_platform ''stop core service for upgrade'' error))
         | Inr _ \<Rightarrow> await_stopped (sa_start_time A + 20000) (sa_polls A)))"

text \<open>The clock after each sleep of 100 ms.\<close>

definition polls_advance :: "stop_answers \<Rightarrow> bool" where
  "polls_advance A \<longleftrightarrow> (\<forall>i<length (sa_polls A). sa_start_time A + 100 * i \<le> snd (sa_polls A ! i))"

lemma await_stopped_ends:
  "i < length polls \<Longrightarrow> deadline \<le> snd (polls ! i) \<Longrightarrow> await_stopped deadline polls \<noteq> None"
proof (induction polls arbitrary: i)
  case (Cons p polls)
  then show ?case by (cases p; cases i; cases "fst p") auto
qed simp

lemma await_stopped_Inr: "await_stopped deadline polls = Some (Inr ()) \<Longrightarrow> \<exists>t. (Inr SvStopped, t) \<in> set polls"
  by (induction deadline polls rule: await_stopped.induct) (fastforce split: sum.splits if_splits)+

text \<open>
  C39: An upgrade waits for the old service, and not for ever. With a clock that advances by the
  sleep between two queries, 201 queries suffice for an answer; the answer is success only if the
  service was stopped already or was seen stopped, and a service that is starting or paused is
  refused at once.
\<close>

theorem upgrade_wait_ends:
  assumes "polls_advance A" and "201 \<le> length (sa_polls A)"
  shows "(\<exists>r. stop_service_for_upgrade A state = Some r \<and>
      (r = Inr () \<longrightarrow> state = SvStopped \<or> (\<exists>t. (Inr SvStopped, t) \<in> set (sa_polls A))) \<and>
      (state \<notin> {SvStopped, SvRunning, SvStopPending} \<longrightarrow> \<not> is_ok r))"
proof -
  have "sa_start_time A + 20000 \<le> snd (sa_polls A ! 200)"
    using assms by (auto simp: polls_advance_def dest: spec [of _ 200])
  then have ends: "await_stopped (sa_start_time A + 20000) (sa_polls A) \<noteq> None"
    using await_stopped_ends [of 200] assms(2) by simp
  then show ?thesis
    using await_stopped_Inr [of "sa_start_time A + 20000" "sa_polls A"]
    by (auto simp: stop_service_for_upgrade_def split: sum.splits)
qed

definition slow_stop :: stop_answers where
  "slow_stop = \<lparr>sa_stop = Inr (), sa_start_time = 5, sa_polls = map (\<lambda>i. (Inr SvStopPending, 5 + 100 * i)) [0..<201]\<rparr>"

theorem upgrade_wait_ends_witness: "stop_service_for_upgrade slow_stop SvRunning \<noteq> None"
proof -
  have "polls_advance slow_stop" "201 \<le> length (sa_polls slow_stop)"
    by (simp_all add: polls_advance_def slow_stop_def)
  from upgrade_wait_ends [OF this, of SvRunning] show ?thesis by auto
qed

section \<open>Protected files\<close>

record 'c protected_file =
  pf_content :: 'c
  pf_security :: string
  pf_regular :: bool
  pf_links :: nat

datatype setup_op =
    OpOpenPinned string | OpRead string | OpSecure string | OpCreateNew string | OpSync string
  | OpMove string | OpRemove string | OpMakeDirectory string | OpPinDirectory string
  | OpCreateService | OpOpenService | OpChangeConfig | OpConfigure nat | OpQueryStatus | OpStartService
  | OpManager | OpDeleteService | OpMigrate | OpMoveManifest | OpSecureManifest | OpWriteManifest

text \<open>An entry of the log directory: its name, and what pinning, the link count and the repair of its
  security say.\<close>

record log_entry =
  le_name :: "string option"
  le_pinned :: "tm_error + nat"
  le_secured :: "tm_error + unit"

text \<open>\<open>sh_copied\<close> is what a copy leaves in the new file. Whether a call fails is an answer of its
  own for every call: the number of the call in the run decides it together with what is called, so
  the same call may fail at one time and succeed at another. \<open>sh_manifest_json\<close> is the text
  of a manifest.\<close>

record 'c setup_host =
  sh_elevated :: bool
  sh_user_account :: "string \<Rightarrow> bool"
  sh_current_exe :: "io_error + string"
  sh_replacement_in_use :: "string \<Rightarrow> bool"
  sh_install_dir :: "tm_error + string"
  sh_data_dir :: "tm_error + string"
  sh_process_id :: u32
  sh_sha256 :: "'c \<Rightarrow> string"
  sh_copied :: "'c \<Rightarrow> 'c"
  sh_fails :: "nat \<Rightarrow> setup_op \<Rightarrow> string option"
  sh_directory :: "string \<Rightarrow> (bool \<times> bool) option"
  sh_log_entries :: "io_error + (io_error + log_entry) list"
  sh_manifest_reparse :: bool
  sh_manifest_json :: "broker_manifest \<Rightarrow> string + u8 list"
  sh_service_exists :: bool
  sh_old_service :: "(string + run_state) option"
  sh_old_stop :: stop_answers
  sh_status :: run_state
  sh_stop :: stop_answers

datatype setup_effect = ServiceConfigured string | ReplacementMigrated string | ServiceStarted | ServiceDeleted

text \<open>The files, the contents of the manifest file, what was done with the service, and the number of
  calls made so far.\<close>

record 'c setup_state =
  ss_files :: "string \<Rightarrow> 'c protected_file option"
  ss_manifest :: "u8 list option"
  ss_effects :: "setup_effect list"
  ss_step :: nat

type_synonym ('c, 'a) installing = "(tm_error + 'a) \<times> 'c setup_state"

definition sthen :: "('c, 'a) installing \<Rightarrow> ('a \<Rightarrow> 'c setup_state \<Rightarrow> ('c, 'b) installing) \<Rightarrow> ('c, 'b) installing" where
  "sthen r f = (case r of (Inl e, st) \<Rightarrow> (Inl e, st) | (Inr v, st) \<Rightarrow> f v st)"

definition next_step :: "'c setup_state \<Rightarrow> 'c setup_state" where
  "next_step st = st\<lparr>ss_step := Suc (ss_step st)\<rparr>"

definition os_step :: "'c setup_host \<Rightarrow> string \<Rightarrow> setup_op \<Rightarrow> 'c setup_state \<Rightarrow> ('c, unit) installing" where
  "os_step S what x st =
     (case sh_fails S (ss_step st) x of Some error \<Rightarrow> Inl (tm_platform what error) | None \<Rightarrow> Inr (), next_step st)"

text \<open>\<open>pinned_source\<close>, \<open>sha256_reader\<close> and \<open>sha256_file\<close>, \<open>ensure_single_link\<close>, \<open>set_path_security\<close>.\<close>

definition pinned_source :: "'c setup_host \<Rightarrow> string \<Rightarrow> 'c setup_state \<Rightarrow> ('c, 'c protected_file) installing" where
  "pinned_source S path st =
     (case ss_files st path of
        Some f \<Rightarrow>
          if \<not> pf_regular f then (Inl (tm_platform ''core service source'' ''missing, not a regular file, or a reparse point''), st)
          else sthen (os_step S ''core service source'' (OpOpenPinned path) st) (\<lambda>_ st. (Inr f, st))
      | None \<Rightarrow> (Inl (tm_platform ''core service source'' ''missing, not a regular file, or a reparse point''), st))"

definition sha256_reader :: "'c setup_host \<Rightarrow> string \<Rightarrow> 'c protected_file \<Rightarrow> 'c setup_state \<Rightarrow> ('c, string) installing" where
  "sha256_reader S path f st = sthen (os_step S ''I/O'' (OpRead path) st) (\<lambda>_ st. (Inr (sh_sha256 S (pf_content f)), st))"

definition sha256_file :: "'c setup_host \<Rightarrow> string \<Rightarrow> 'c setup_state \<Rightarrow> ('c, string) installing" where
  "sha256_file S path st =
     (case ss_files st path of
        None \<Rightarrow> (Inl (from_io \<lparr>io_kind = NotFound, io_text = path\<rparr>), st)
      | Some f \<Rightarrow> sha256_reader S path f st)"

definition ensure_single_link :: "'c protected_file \<Rightarrow> 'c setup_state \<Rightarrow> ('c, unit) installing" where
  "ensure_single_link f st =
     (if pf_links f \<noteq> 1 then (Inl (tm_platform ''core service destination'' ''hard-linked''), st) else (Inr (), st))"

definition set_path_security :: "'c setup_host \<Rightarrow> string \<Rightarrow> string \<Rightarrow> 'c setup_state \<Rightarrow> ('c, unit) installing" where
  "set_path_security S path sddl st =
     sthen (os_step S ''SetFileSecurityW'' (OpSecure path) st) (\<lambda>_ st.
       (case ss_files st path of
          None \<Rightarrow> (Inl (tm_platform ''SetFileSecurityW'' path), st)
        | Some f \<Rightarrow> (Inr (), st\<lparr>ss_files := (ss_files st)(path \<mapsto> f\<lparr>pf_security := sddl\<rparr>)\<rparr>)))"

text \<open>\<open>Path::with_extension\<close> on a path of the system.\<close>

definition temporary_of :: "'c setup_host \<Rightarrow> string \<Rightarrow> string" where
  "temporary_of S destination =
     (case rsplit_once (CHR 0x5C) destination of
        None \<Rightarrow> file_stem destination
      | Some (dir, name) \<Rightarrow> dir @ [CHR 0x5C] @ file_stem name) @ ''.new-'' @ show_nat (unat (sh_process_id S))"

text \<open>What failing after the staging file exists does; an error of the removal is ignored.\<close>

definition remove_file :: "'c setup_host \<Rightarrow> string \<Rightarrow> 'c setup_state \<Rightarrow> ('c, unit) installing" where
  "remove_file S path st =
     (case sh_fails S (ss_step st) (OpRemove path) of
        Some error \<Rightarrow> (Inl (from_io \<lparr>io_kind = OtherKind, io_text = error\<rparr>), next_step st)
      | None \<Rightarrow> (Inr (), (next_step st)\<lparr>ss_files := (ss_files st)(path := None)\<rparr>))"

definition or_remove :: "'c setup_host \<Rightarrow> string \<Rightarrow> ('c, 'a) installing \<Rightarrow> ('c, 'a) installing" where
  "or_remove S temporary r =
     (case r of (Inl e, st) \<Rightarrow> (Inl e, snd (remove_file S temporary st)) | (Inr v, st) \<Rightarrow> (Inr v, st))"

definition move_over :: "'c setup_host \<Rightarrow> string \<Rightarrow> string \<Rightarrow> 'c setup_state \<Rightarrow> ('c, unit) installing" where
  "move_over S temporary destination st =
     sthen (os_step S ''install protected binary'' (OpMove destination) st) (\<lambda>_ st.
       (Inr (), st\<lparr>ss_files := (ss_files st)(temporary := None, destination := ss_files st temporary)\<rparr>))"

text \<open>Whether the destination already holds the source; securing it is part of the question.\<close>

definition destination_matches ::
    "'c setup_host \<Rightarrow> string \<Rightarrow> string \<Rightarrow> string \<Rightarrow> 'c setup_state \<Rightarrow> ('c, bool) installing" where
  "destination_matches S destination sddl source_hash st =
     (if ss_files st destination = None then (Inr False, st)
      else
        sthen (pinned_source S destination st) (\<lambda>existing st.
        sthen (ensure_single_link existing st) (\<lambda>_ st.
        sthen (sha256_reader S destination existing st) (\<lambda>existing_hash st.
        sthen (set_path_security S destination sddl st) (\<lambda>_ st.
          (Inr (existing_hash = source_hash), st))))))"

text \<open>Flushing the staging file, securing it and moving it to its place.\<close>

definition finish_staging ::
    "'c setup_host \<Rightarrow> string \<Rightarrow> string \<Rightarrow> string \<Rightarrow> 'c setup_state \<Rightarrow> ('c, unit) installing" where
  "finish_staging S temporary destination sddl st =
     sthen (os_step S ''I/O'' (OpSync temporary) st) (\<lambda>_ st.
     sthen (set_path_security S temporary sddl st) (\<lambda>_ st.
     move_over S temporary destination st))"

definition stage_copy ::
    "'c setup_host \<Rightarrow> 'c \<Rightarrow> string \<Rightarrow> string \<Rightarrow> string \<Rightarrow> 'c setup_state \<Rightarrow> ('c, unit) installing" where
  "stage_copy S content temporary destination sddl st =
     (if ss_files st temporary \<noteq> None then (Inl (tm_platform ''core service staging file'' temporary), st)
      else
        sthen (os_step S ''core service staging file'' (OpCreateNew temporary) st) (\<lambda>_ st.
          let st = st\<lparr>ss_files := (ss_files st)(temporary \<mapsto>
            \<lparr>pf_content = sh_copied S content, pf_security = [], pf_regular = True, pf_links = 1\<rparr>)\<rparr> in
          or_remove S temporary (finish_staging S temporary destination sddl st)))"

definition replace_file_from_pinned_source ::
    "'c setup_host \<Rightarrow> string \<Rightarrow> string \<Rightarrow> string \<Rightarrow> 'c setup_state \<Rightarrow> ('c, unit) installing" where
  "replace_file_from_pinned_source S source destination sddl st =
     sthen (pinned_source S source st) (\<lambda>input st.
     sthen (sha256_reader S source input st) (\<lambda>source_hash st.
     sthen (destination_matches S destination sddl source_hash st) (\<lambda>matches st.
       if matches then (Inr (), st)
       else
         sthen (stage_copy S (pf_content input) (temporary_of S destination) destination sddl st) (\<lambda>_ st.
         sthen (set_path_security S destination sddl st) (\<lambda>_ st.
         sthen (sha256_file S destination st) (\<lambda>hash st.
           if hash \<noteq> source_hash
           then (Inl (tm_platform ''install protected binary'' ''destination hash does not match pinned source''), st)
           else (Inr (), st)))))))"

subsection \<open>What a replacement changes\<close>

lemma next_step_simps [simp]:
  "ss_files (next_step st) = ss_files st" "ss_manifest (next_step st) = ss_manifest st"
  "ss_effects (next_step st) = ss_effects st" "ss_step (next_step st) = Suc (ss_step st)"
  by (simp_all add: next_step_def)

lemma sthen_cases:
  assumes "sthen r f = (x, st')"
  shows "(\<exists>e. r = (Inl e, st') \<and> x = Inl e) \<or> (\<exists>v st. r = (Inr v, st) \<and> f v st = (x, st'))"
  using assms by (auto simp: sthen_def split: prod.splits sum.splits)

lemma sthen_Inr: "sthen r f = (Inr w, st') \<longleftrightarrow> (\<exists>v st. r = (Inr v, st) \<and> f v st = (Inr w, st'))"
  by (auto simp: sthen_def split: prod.splits sum.splits)

lemma sthen_next: "sthen (Inr v, st) f = f v st"
  by (simp add: sthen_def)

lemma sthen_Inl:
  "sthen r f = (Inl e, st') \<longleftrightarrow> r = (Inl e, st') \<or> (\<exists>v st. r = (Inr v, st) \<and> f v st = (Inl e, st'))"
  by (auto simp: sthen_def split: prod.splits sum.splits)

text \<open>The same files and nothing else done, except for what is at the given paths.\<close>

definition same_except :: "string set \<Rightarrow> 'c setup_state \<Rightarrow> 'c setup_state \<Rightarrow> bool" where
  "same_except P st st' \<longleftrightarrow> (\<forall>p. p \<notin> P \<longrightarrow> ss_files st' p = ss_files st p) \<and>
     ss_manifest st' = ss_manifest st \<and> ss_effects st' = ss_effects st"

lemma same_except_refl [simp]: "same_except P st st" "same_except P st (next_step st)"
  by (simp_all add: same_except_def)

lemma same_except_trans: "same_except P a b \<Longrightarrow> same_except P b c \<Longrightarrow> same_except P a c"
  by (simp add: same_except_def)

lemma same_except_mono: "same_except P a b \<Longrightarrow> P \<subseteq> Q \<Longrightarrow> same_except Q a b"
  by (auto simp: same_except_def)

lemma same_except_sthen:
  assumes "same_except P st (snd r)" "\<And>v st1. r = (Inr v, st1) \<Longrightarrow> same_except P st1 (snd (f v st1))"
  shows "same_except P st (snd (sthen r f))"
  using assms by (cases r; cases "fst r") (auto simp: sthen_def intro: same_except_trans)

lemma os_step_state [simp]: "snd (os_step S what x st) = next_step st"
  by (simp add: os_step_def)

lemma os_step_Inr [simp]:
  "os_step S what x st = (Inr u, st') \<longleftrightarrow> sh_fails S (ss_step st) x = None \<and> st' = next_step st"
  by (auto simp: os_step_def split: option.split)

lemma os_step_Inl: "os_step S what x st = (Inl e, st') \<Longrightarrow> st' = next_step st"
  by (auto simp: os_step_def)

lemma sthen_step [simp]:
  "sthen (os_step S what x st) f =
     (case sh_fails S (ss_step st) x of
        Some error \<Rightarrow> (Inl (tm_platform what error), next_step st) | None \<Rightarrow> f () (next_step st))"
  by (simp add: os_step_def sthen_def split: option.split)

lemma same_except_security: "same_except {path} st (snd (set_path_security S path sddl st))"
  by (auto simp: set_path_security_def same_except_def split: option.split)

lemma read_only_steps:
  "same_except {} st (snd (pinned_source S path st))" "same_except {} st (snd (ensure_single_link f st))"
  "same_except {} st (snd (sha256_reader S path f st))" "same_except {} st (snd (sha256_file S path st))"
proof -
  show reader: "same_except {} st (snd (sha256_reader S path f st))" for f
    by (simp add: sha256_reader_def split: option.split)
  show "same_except {} st (snd (pinned_source S path st))"
    by (simp add: pinned_source_def split: option.split)
  show "same_except {} st (snd (ensure_single_link f st))" by (simp add: ensure_single_link_def)
  show "same_except {} st (snd (sha256_file S path st))" by (simp add: sha256_file_def reader split: option.split)
qed

lemmas read_only = read_only_steps [THEN same_except_mono, OF empty_subsetI]

lemma same_except_matches: "same_except {destination} st (snd (destination_matches S destination sddl h st))"
  unfolding destination_matches_def
  by (auto intro!: same_except_sthen same_except_security read_only)

lemma same_except_move: "same_except {temporary, destination} st (snd (move_over S temporary destination st))"
  by (simp add: move_over_def same_except_def split: option.split)

lemma same_except_or_remove:
  "same_except P st (snd r) \<Longrightarrow> temporary \<in> P \<Longrightarrow> same_except P st (snd (or_remove S temporary r))"
  by (auto simp: or_remove_def remove_file_def same_except_def split: prod.split sum.split option.split)

lemma same_except_finish: "same_except {temporary, destination} st (snd (finish_staging S temporary destination sddl st))"
  unfolding finish_staging_def
  by (intro same_except_sthen same_except_move same_except_mono [OF same_except_security]) auto

lemma same_except_stage:
  "same_except {temporary, destination} st (snd (stage_copy S content temporary destination sddl st))"
proof -
  have "same_except {temporary, destination} st
      (snd (or_remove S temporary (finish_staging S temporary destination sddl st1)))"
    if "same_except {temporary, destination} st st1" for st1
    by (rule same_except_trans [OF that], rule same_except_or_remove [OF same_except_finish]) simp
  moreover have "same_except {temporary, destination} st ((next_step st)\<lparr>ss_files := (ss_files st)(temporary \<mapsto> f)\<rparr>)" for f
    by (simp add: same_except_def)
  ultimately show ?thesis unfolding stage_copy_def Let_def by (simp split: option.split)
qed

lemma same_except_replace:
  "same_except {temporary_of S destination, destination} st
     (snd (replace_file_from_pinned_source S source destination sddl st))"
  unfolding replace_file_from_pinned_source_def
  by (auto intro!: same_except_sthen same_except_stage read_only same_except_mono [OF same_except_security]
        same_except_mono [OF same_except_matches])

lemma or_remove_Inr [simp]: "or_remove S temporary r = (Inr v, st') \<longleftrightarrow> r = (Inr v, st')"
  by (auto simp: or_remove_def split: prod.split sum.split)

lemma secured:
  "set_path_security S path sddl st = (Inr u, st') \<longleftrightarrow>
   sh_fails S (ss_step st) (OpSecure path) = None \<and> (\<exists>f. ss_files st path = Some f \<and>
     st' = (next_step st)\<lparr>ss_files := (ss_files st)(path \<mapsto> f\<lparr>pf_security := sddl\<rparr>)\<rparr>)"
  by (auto simp: set_path_security_def split: option.splits)

lemma not_secured: "set_path_security S path sddl st = (Inl e, st') \<Longrightarrow> st' = next_step st"
  by (auto simp: set_path_security_def split: option.splits)

lemma security_contents:
  "map_option pf_content (ss_files (snd (set_path_security S path sddl st)) p) = map_option pf_content (ss_files st p)"
  by (auto simp: set_path_security_def split: option.splits)

lemma staged:
  assumes "stage_copy S content temporary destination sddl st = (Inr u, st')"
  shows "ss_files st' destination = Some \<lparr>pf_content = sh_copied S content, pf_security = sddl, pf_regular = True, pf_links = 1\<rparr>"
    and "temporary \<noteq> destination \<Longrightarrow> ss_files st' temporary = None" and "ss_files st temporary = None"
  using assms
  by (auto simp: stage_copy_def finish_staging_def Let_def move_over_def sthen_Inr secured split: if_splits option.splits)

text \<open>A failure after the staging file was made: it is removed, or its removal failed too.\<close>

lemma not_staged:
  assumes "stage_copy S content temporary destination sddl st = (Inl e, st')" "temporary \<noteq> destination"
  shows "ss_files st' destination = ss_files st destination \<and>
    (ss_files st' temporary = ss_files st temporary \<or> (\<exists>n error. sh_fails S n (OpRemove temporary) = Some error))"
proof -
  let ?st = "(next_step st)\<lparr>ss_files := (ss_files st)(temporary \<mapsto>
      \<lparr>pf_content = sh_copied S content, pf_security = [], pf_regular = True, pf_links = 1\<rparr>)\<rparr>"
  let ?run = "finish_staging S temporary destination sddl ?st"
  have untouched: "ss_files st1 destination = ss_files st destination" if "?run = (Inl e, st1)" for st1
    using that assms(2)
    by (auto simp: finish_staging_def sthen_Inl secured move_over_def split: option.splits dest: os_step_Inl not_secured)
  have "ss_files st temporary = None \<and> (\<exists>st1. ?run = (Inl e, st1) \<and> st' = snd (remove_file S temporary st1)) \<or>
      ss_files st' = ss_files st"
    using assms(1) by (auto simp: stage_copy_def or_remove_def split: if_splits option.splits prod.splits sum.splits)
  then show ?thesis
  proof
    assume "ss_files st temporary = None \<and> (\<exists>st1. ?run = (Inl e, st1) \<and> st' = snd (remove_file S temporary st1))"
    then obtain st1 where new: "ss_files st temporary = None" and st1: "?run = (Inl e, st1)"
      "st' = snd (remove_file S temporary st1)" by blast
    then show ?thesis
      using untouched [OF st1(1)] assms(2)
      by (cases "sh_fails S (ss_step st1) (OpRemove temporary)") (auto simp: remove_file_def)
  qed simp
qed

lemma destination_matches_True:
  assumes "destination_matches S destination sddl h st = (Inr True, st')"
  shows "\<exists>f. ss_files st destination = Some f \<and> sh_sha256 S (pf_content f) = h \<and> pf_regular f \<and> pf_links f = 1 \<and>
    same_except {destination} st st' \<and> ss_files st' destination = Some (f\<lparr>pf_security := sddl\<rparr>)"
  using assms
  by (auto simp: destination_matches_def sthen_Inr pinned_source_def ensure_single_link_def sha256_reader_def secured
      same_except_def split: if_splits option.splits)

definition same_contents :: "'c setup_state \<Rightarrow> 'c setup_state \<Rightarrow> bool" where
  "same_contents st st' \<longleftrightarrow> (\<forall>p. map_option pf_content (ss_files st' p) = map_option pf_content (ss_files st p))"

lemma same_contents_sthen:
  assumes "same_contents st (snd r)" "\<And>v st1. r = (Inr v, st1) \<Longrightarrow> same_contents st1 (snd (f v st1))"
  shows "same_contents st (snd (sthen r f))"
  using assms by (cases r; cases "fst r") (auto simp: sthen_def same_contents_def)

lemma same_contents_read: "same_except {} st st' \<Longrightarrow> same_contents st st'"
  by (simp add: same_except_def same_contents_def)

lemma same_contents_security: "same_contents st (snd (set_path_security S path sddl st))"
  by (simp add: same_contents_def security_contents)

lemma matches_contents: "same_contents st (snd (destination_matches S destination sddl h st))"
proof (cases "ss_files st destination = None")
  case False
  have "same_contents st (snd (sthen (pinned_source S destination st) (\<lambda>existing st.
        sthen (ensure_single_link existing st) (\<lambda>_ st.
        sthen (sha256_reader S destination existing st) (\<lambda>existing_hash st.
        sthen (set_path_security S destination sddl st) (\<lambda>_ st. (Inr (existing_hash = h), st)))))))"
    by (intro same_contents_sthen same_contents_read read_only_steps same_contents_security) simp
  with False show ?thesis by (auto simp: destination_matches_def)
qed (simp add: destination_matches_def same_contents_def)

text \<open>After the copy has been moved to its place, no later step changes it.\<close>

lemma after_stage:
  assumes "sthen (set_path_security S destination sddl st) (\<lambda>_ st.
      sthen (sha256_file S destination st) (\<lambda>hash st.
        if hash \<noteq> h
        then (Inl (tm_platform ''install protected binary'' ''destination hash does not match pinned source''), st)
        else (Inr (), st))) = (r, st')"
    and "ss_files st destination = Some g" "pf_security g = sddl"
  shows "ss_files st' = ss_files st"
proof -
  have same: "(ss_files st)(destination \<mapsto> g\<lparr>pf_security := sddl\<rparr>) = ss_files st"
    using assms(2,3) by auto
  have hash: "ss_files st2 = ss_files st1" if "sha256_file S destination st1 = (x, st2)" for st1 x st2
    using read_only_steps(4) [of st1 S destination] that by (auto simp: same_except_def)
  from sthen_cases [OF assms(1)] show ?thesis
  proof (elim disjE exE conjE)
    fix e assume "set_path_security S destination sddl st = (Inl e, st')"
    from not_secured [OF this] show ?thesis by simp
  next
    fix u st1
    assume "set_path_security S destination sddl st = (Inr u, st1)" and
      rest: "sthen (sha256_file S destination st1) (\<lambda>hash st.
        if hash \<noteq> h
        then (Inl (tm_platform ''install protected binary'' ''destination hash does not match pinned source''), st)
        else (Inr (), st)) = (r, st')"
    then have "ss_files st1 = ss_files st" using assms(2) same by (auto simp: secured)
    moreover from sthen_cases [OF rest] have "ss_files st' = ss_files st1"
      by (auto split: if_splits dest: hash)
    ultimately show ?thesis by simp
  qed
qed

definition kept_or_copied :: "'c setup_host \<Rightarrow> string \<Rightarrow> string \<Rightarrow> string \<Rightarrow> 'c setup_state \<Rightarrow> 'c setup_state \<Rightarrow> bool" where
  "kept_or_copied S source destination sddl st st' \<longleftrightarrow>
     map_option pf_content (ss_files st' destination) = map_option pf_content (ss_files st destination) \<or>
     (\<exists>f. ss_files st source = Some f \<and>
        ss_files st' destination =
          Some \<lparr>pf_content = sh_copied S (pf_content f), pf_security = sddl, pf_regular = True, pf_links = 1\<rparr>)"

definition cleaned_up :: "'c setup_host \<Rightarrow> string \<Rightarrow> 'c setup_state \<Rightarrow> 'c setup_state \<Rightarrow> bool" where
  "cleaned_up S temporary st st' \<longleftrightarrow>
     ss_files st' temporary = ss_files st temporary \<or> (\<exists>n error. sh_fails S n (OpRemove temporary) = Some error)"

text \<open>A replacement taken apart: it ends before anything is staged, or in the staging, or with the copy
  in its place.\<close>

lemma replace_cases:
  assumes run: "replace_file_from_pinned_source S source destination sddl st = (r, st')"
    and other: "temporary_of S destination \<noteq> destination"
  shows "kept_or_copied S source destination sddl st st' \<and> cleaned_up S (temporary_of S destination) st st' \<and>
    (is_ok r \<longrightarrow> ss_files st' (temporary_of S destination) = ss_files st (temporary_of S destination))"
proof -
  let ?t = "temporary_of S destination"
  let ?done = "\<lambda>st'. kept_or_copied S source destination sddl st st' \<and> cleaned_up S ?t st st' \<and>
    (is_ok r \<longrightarrow> ss_files st' ?t = ss_files st ?t)"
  have same: "?done x" if "ss_files x = ss_files st" for x
    using that by (simp add: kept_or_copied_def cleaned_up_def)
  obtain p sta where p: "pinned_source S source st = (p, sta)" by fastforce
  have sta: "ss_files sta = ss_files st" using read_only_steps(1) [of st S source] p by (auto simp: same_except_def)
  show ?thesis
  proof (cases p)
    case (Inl e)
    with run p have "st' = sta" by (simp add: replace_file_from_pinned_source_def sthen_def)
    with same sta show ?thesis by simp
  next
    case (Inr f)
    then have f: "ss_files st source = Some f" using p by (auto simp: pinned_source_def split: option.splits if_splits)
    obtain h stb where h: "sha256_reader S source f sta = (h, stb)" by fastforce
    have stb: "ss_files stb = ss_files st"
      using read_only_steps(3) [of sta S source f] h sta by (auto simp: same_except_def)
    show ?thesis
    proof (cases h)
      case (Inl e)
      with run p Inr h have "st' = stb" by (simp add: replace_file_from_pinned_source_def sthen_def)
      with same stb show ?thesis by simp
    next
      case (Inr hash)
      obtain m st1 where m: "destination_matches S destination sddl hash stb = (m, st1)" by fastforce
      have st1: "map_option pf_content (ss_files st1 destination) = map_option pf_content (ss_files st destination)"
        "ss_files st1 ?t = ss_files st ?t"
        using matches_contents [of stb S destination sddl hash] same_except_matches [of destination stb S sddl hash] m
          other stb by (auto simp: same_except_def same_contents_def)
      then have early: "?done st1" by (simp add: kept_or_copied_def cleaned_up_def)
      let ?rest = "sthen (stage_copy S (pf_content f) ?t destination sddl st1) (\<lambda>_ st.
         sthen (set_path_security S destination sddl st) (\<lambda>_ st.
         sthen (sha256_file S destination st) (\<lambda>h st.
           if h \<noteq> hash
           then (Inl (tm_platform ''install protected binary'' ''destination hash does not match pinned source''), st)
           else (Inr (), st))))"
      have rest: "(r, st') = (case m of Inl e \<Rightarrow> (Inl e, st1) | Inr b \<Rightarrow> if b then (Inr (), st1) else ?rest)"
        using run p \<open>p = Inr f\<close> h Inr m
        by (simp add: replace_file_from_pinned_source_def sthen_def split: sum.split)
      show ?thesis
      proof (cases "m = Inr False")
        case False
        with rest have "st' = st1" by (cases m) (auto split: if_splits)
        with early show ?thesis by simp
      next
        case True
        with rest have late: "?rest = (r, st')" by simp
        obtain s st2 where s: "stage_copy S (pf_content f) ?t destination sddl st1 = (s, st2)" by fastforce
        show ?thesis
        proof (cases s)
          case (Inl e)
          with late s have "st' = st2" "r = Inl e" by (simp_all add: sthen_def)
          with not_staged [OF _ other, of S "pf_content f" sddl st1 e st2] s Inl st1 show ?thesis
            by (auto simp: kept_or_copied_def cleaned_up_def)
        next
          case (Inr u)
          note placed = staged [of S "pf_content f" ?t destination sddl st1 u st2]
          from late s Inr have "sthen (set_path_security S destination sddl st2) (\<lambda>_ st.
               sthen (sha256_file S destination st) (\<lambda>h st.
                 if h \<noteq> hash
                 then (Inl (tm_platform ''install protected binary'' ''destination hash does not match pinned source''), st)
                 else (Inr (), st))) = (r, st')" by (simp add: sthen_next)
          from after_stage [OF this placed(1)] s Inr have "ss_files st' = ss_files st2" by simp
          with placed s Inr other f st1(2) show ?thesis
            by (auto simp: kept_or_copied_def cleaned_up_def)
        qed
      qed
    qed
  qed
qed

lemma replaced:
  assumes "replace_file_from_pinned_source S source destination sddl st = (Inr u, st')"
  shows "\<exists>f g. ss_files st source = Some f \<and> ss_files st' destination = Some g \<and>
    sh_sha256 S (pf_content g) = sh_sha256 S (pf_content f) \<and> pf_security g = sddl \<and> pf_regular g \<and> pf_links g = 1"
proof -
  from assms obtain f h sta stb st1 matches where p: "pinned_source S source st = (Inr f, sta)"
    and r: "sha256_reader S source f sta = (Inr h, stb)"
    and m: "destination_matches S destination sddl h stb = (Inr matches, st1)"
    and rest: "(if matches then (Inr (), st1) else
      sthen (stage_copy S (pf_content f) (temporary_of S destination) destination sddl st1) (\<lambda>_ st.
      sthen (set_path_security S destination sddl st) (\<lambda>_ st.
      sthen (sha256_file S destination st) (\<lambda>hash st.
        if hash \<noteq> h
        then (Inl (tm_platform ''install protected binary'' ''destination hash does not match pinned source''), st)
        else (Inr (), st))))) = (Inr u, st')"
    unfolding replace_file_from_pinned_source_def sthen_Inr by blast
  from p r have f: "ss_files st source = Some f" and h: "h = sh_sha256 S (pf_content f)"
    by (auto simp: pinned_source_def sha256_reader_def split: option.splits if_splits)
  show ?thesis
  proof (cases matches)
    case True
    with m rest destination_matches_True [of S destination sddl h stb st1] f h show ?thesis by fastforce
  next
    case False
    with rest obtain st2 st3 where s: "stage_copy S (pf_content f) (temporary_of S destination) destination sddl st1 = (Inr (), st2)"
      "set_path_security S destination sddl st2 = (Inr (), st3)" "sha256_file S destination st3 = (Inr h, st')"
      by (auto simp: sthen_Inr split: if_splits)
    from staged(1) [OF s(1)] s(2,3) f h show ?thesis
      by (auto simp: secured sha256_file_def sha256_reader_def split: option.splits)
  qed
qed

lemma replace_cleans:
  assumes "replace_file_from_pinned_source S source destination sddl st = (r, st')"
    and "is_ok r \<or> (\<forall>n. sh_fails S n (OpRemove (temporary_of S destination)) = None)"
  shows "same_except {destination} st st'"
proof (cases "temporary_of S destination = destination")
  case True
  with same_except_replace [of S destination st source sddl] assms(1) show ?thesis by simp
next
  case False
  with replace_cases [OF assms(1)] assms(2)
  have "ss_files st' (temporary_of S destination) = ss_files st (temporary_of S destination)"
    by (auto simp: cleaned_up_def)
  moreover have "same_except {temporary_of S destination, destination} st st'"
    using same_except_replace [of S destination st source sddl] assms(1) by simp
  ultimately show ?thesis unfolding same_except_def by (metis empty_iff insert_iff)
qed

text \<open>
  C25: A program file is replaced exactly or not at all. Whatever calls fail, and whenever: if the
  protected copy succeeds, the destination has the hash the source had, the given security, and is a
  regular file without another link, and no other file is changed. If it fails, the contents of the
  destination are the old ones, or - when only a check after the replacement failed - the whole copy,
  with the given security; no other file is changed but the staging file, and that one is gone unless
  its removal failed as well. (A destination that itself has the name of a staging file is excepted
  from the second part.)
\<close>

theorem protected_copy_exact:
  "case replace_file_from_pinned_source S source destination sddl st of (r, st') \<Rightarrow>
     (case r of
        Inr _ \<Rightarrow> same_except {destination} st st' \<and>
          (\<exists>f g. ss_files st source = Some f \<and> ss_files st' destination = Some g \<and>
          sh_sha256 S (pf_content g) = sh_sha256 S (pf_content f) \<and> pf_security g = sddl \<and> pf_regular g \<and> pf_links g = 1)
      | Inl e \<Rightarrow> same_except {temporary_of S destination, destination} st st' \<and>
          (temporary_of S destination = destination \<or>
           kept_or_copied S source destination sddl st st' \<and> cleaned_up S (temporary_of S destination) st st'))"
proof -
  obtain r st' where run: "replace_file_from_pinned_source S source destination sddl st = (r, st')" by fastforce
  have frame: "same_except {temporary_of S destination, destination} st st'"
    using same_except_replace [of S destination st source sddl] run by simp
  show ?thesis
  proof (cases r)
    case (Inr u)
    with run replace_cleans [OF run] replaced [of S source destination sddl st u st'] show ?thesis by simp
  next
    case (Inl e)
    with run frame replace_cases [OF run] show ?thesis by auto
  qed
qed

end
