(* ===== verification/Service_Install.thy ===== *)
theory Service_Install
  imports Service_Setup
begin

text \<open>
  The installation and the removal of the core service, and its log directory
  (crates/tm-platform/src/win/core_service.rs), over the host and the files of the previous theory.
  The manifest that an installation writes is compared with what the service checks when it starts.
\<close>

definition GUI_EXE_NAME :: string where "GUI_EXE_NAME = ''taskman.exe''"
definition SERVICE_EXE_NAME :: string where "SERVICE_EXE_NAME = ''taskman-service.exe''"
definition INSTALL_SDDL :: string where
  "INSTALL_SDDL = ''O:BAG:BAD:PAI(A;OICI;FA;;;SY)(A;OICI;FA;;;BA)(A;OICI;GRGX;;;BU)''"
definition SERVICE_DATA_SDDL :: string where
  "SERVICE_DATA_SDDL = ''O:BAG:BAD:PAI(A;OICI;FA;;;SY)(A;OICI;FA;;;BA)''"

text \<open>\<open>Path::join\<close> and \<open>Path::with_file_name\<close> with a plain file name.\<close>

definition path_join :: "string \<Rightarrow> string \<Rightarrow> string" where
  "path_join dir name = dir @ [CHR 0x5C] @ name"

definition with_file_name :: "string \<Rightarrow> string \<Rightarrow> string" where
  "with_file_name path name =
     (case rsplit_once (CHR 0x5C) path of None \<Rightarrow> name | Some (dir, _) \<Rightarrow> path_join dir name)"

section \<open>Steps\<close>

definition lift_result :: "tm_error + 'a \<Rightarrow> 'c setup_state \<Rightarrow> ('c, 'a) installing" where
  "lift_result r st = (r, st)"

definition ensure_elevated :: "'c setup_host \<Rightarrow> string \<Rightarrow> tm_error + unit" where
  "ensure_elevated S operation =
     (if sh_elevated S then Inr () else Inl (tm_platform operation ''administrator approval is required''))"

definition ensure_secure_directory :: "'c setup_host \<Rightarrow> string \<Rightarrow> 'c setup_state \<Rightarrow> ('c, unit) installing" where
  "ensure_secure_directory S path st =
     sthen (case sh_directory S path of
         Some (is_dir, reparse) \<Rightarrow>
           if \<not> is_dir \<or> reparse
           then (Inl (tm_platform ''core service install directory'' ''not a regular directory''), st)
           else (Inr (), st)
       | None \<Rightarrow> os_step S ''I/O'' (OpMakeDirectory path) st) (\<lambda>_ st.
     sthen (os_step S ''core service protected directory'' (OpPinDirectory path) st) (\<lambda>_ st.
       os_step S ''SetFileSecurityW'' (OpSecure path) st))"

definition verify_log_entry :: "log_entry \<Rightarrow> tm_error + unit" where
  "verify_log_entry x =
     (if \<not> owned_service_log_name (le_name x)
      then Inl (tm_platform ''core service log directory'' ''not an owned service log'')
      else and_then (le_pinned x) (\<lambda>links.
        if links \<noteq> 1 then Inl (tm_platform ''core service log directory'' ''hard-linked'') else le_secured x))"

fun verify_owned_log_entries :: "(io_error + log_entry) list \<Rightarrow> tm_error + unit" where
  "verify_owned_log_entries [] = Inr ()"
| "verify_owned_log_entries (x # xs) =
     and_then (io_try x) (\<lambda>x. and_then (verify_log_entry x) (\<lambda>_. verify_owned_log_entries xs))"

definition prepare_service_log_dir ::
    "'c setup_host \<Rightarrow> 'c setup_state \<Rightarrow> ('c, string option) installing" where
  "prepare_service_log_dir S st =
     sthen (lift_result (sh_data_dir S) st) (\<lambda>data st.
       case ensure_secure_directory S data st of
         (Inl _, st) \<Rightarrow> (Inr None, st)
       | (Inr _, st) \<Rightarrow>
           (let logs = path_join data ''logs'' in
            case ensure_secure_directory S logs st of
              (Inl _, st) \<Rightarrow> (Inr None, st)
            | (Inr _, st) \<Rightarrow>
                if \<not> is_ok (and_then (io_try (sh_log_entries S)) verify_owned_log_entries) then (Inr None, st)
                else (Inr (Some logs), st)))"

definition manifest_failure :: "string \<Rightarrow> tm_error" where
  "manifest_failure t = tm_platform ''broker manifest'' t"

definition write_manifest :: "'c setup_host \<Rightarrow> broker_manifest \<Rightarrow> 'c setup_state \<Rightarrow> ('c, unit) installing" where
  "write_manifest S m st =
     (if sh_manifest_reparse S then (Inl (manifest_failure ''reparse point''), st)
      else
        (case sh_manifest_json S m of
           Inl error \<Rightarrow> (Inl (from_json error), st)
         | Inr bytes \<Rightarrow>
             if 64 * 1024 < length bytes then (Inl (manifest_failure ''manifest is too large''), st)
             else
               sthen (os_step S ''I/O'' OpWriteManifest st) (\<lambda>_ st.
               sthen (os_step S ''SetFileSecurityW'' OpSecureManifest st) (\<lambda>_ st.
               sthen (os_step S ''write broker manifest'' OpMoveManifest st) (\<lambda>_ st.
                 os_step S ''SetFileSecurityW'' (OpSecure ''broker.json'') (st\<lparr>ss_manifest := Some bytes\<rparr>))))))"

text \<open>\<open>None\<close> is a wait that has not ended.\<close>

definition stop_existing_service_before_copy :: "'c setup_host \<Rightarrow> 'c setup_state \<Rightarrow> (tm_error + unit) option" where
  "stop_existing_service_before_copy S st =
     (case ensure_elevated S ''stop installed core service'' of
        Inl e \<Rightarrow> Some (Inl e)
      | Inr _ \<Rightarrow>
          (case sh_fails S (ss_step st) OpManager of
             Some error \<Rightarrow> Some (Inl (tm_platform ''open service manager'' error))
           | None \<Rightarrow>
               (case sh_old_service S of
                  None \<Rightarrow> Some (Inr ())
                | Some (Inl error) \<Rightarrow> Some (Inl (tm_platform ''open existing core service'' error))
                | Some (Inr state) \<Rightarrow> stop_service_for_upgrade (sh_old_stop S) state)))"

section \<open>Installation\<close>

definition install_checks :: "'c setup_host \<Rightarrow> string \<Rightarrow> 'c setup_state \<Rightarrow> ('c, string) installing" where
  "install_checks S sid st =
     sthen (lift_result (ensure_elevated S ''install core service'') st) (\<lambda>_ st.
       if \<not> valid_sid_text sid
       then (Inl (tm_platform ''install core service'' ''the originating GUI user SID is malformed''), st)
       else if \<not> sh_user_account S sid
       then (Inl (tm_platform ''install core service'' ''the authorized account must be a user account''), st)
       else
         sthen (lift_result (io_try (sh_current_exe S)) st) (\<lambda>source_gui st.
           if ss_files st (with_file_name source_gui SERVICE_EXE_NAME) = None
           then (Inl (tm_platform ''install core service'' ''service executable is missing''), st)
           else
             sthen (lift_result (sh_install_dir S) st) (\<lambda>dir st.
             sthen (lift_result (sh_data_dir S) st) (\<lambda>data st.
             sthen (ensure_secure_directory S dir st) (\<lambda>_ st.
             sthen (ensure_secure_directory S data st) (\<lambda>_ st.
               (Inr source_gui, st)))))))"

definition migrate_replacement :: "'c setup_host \<Rightarrow> string \<Rightarrow> string \<Rightarrow> 'c setup_state \<Rightarrow> ('c, unit) installing" where
  "migrate_replacement S source_gui gui st =
     (if sh_replacement_in_use S source_gui
      then sthen (os_step S ''task manager replacement'' OpMigrate st) (\<lambda>_ st.
        (Inr (), st\<lparr>ss_effects := ss_effects st @ [ReplacementMigrated gui]\<rparr>))
      else (Inr (), st))"

definition pinning_manifest :: "string \<Rightarrow> string \<Rightarrow> string \<Rightarrow> string \<Rightarrow> string \<Rightarrow> broker_manifest" where
  "pinning_manifest sid gui gui_sha256 service service_sha256 =
     \<lparr>bm_schema_version = MANIFEST_SCHEMA, bm_protocol_version = PROTOCOL_VERSION,
      bm_authorized_user_sid = sid, bm_gui_path = gui, bm_gui_sha256 = gui_sha256,
      bm_service_path = service, bm_service_sha256 = service_sha256\<rparr>"

definition install_files :: "'c setup_host \<Rightarrow> string \<Rightarrow> string \<Rightarrow> string \<Rightarrow> 'c setup_state \<Rightarrow> ('c, unit) installing" where
  "install_files S sid source_gui dir st =
     (let gui = path_join dir GUI_EXE_NAME; service = path_join dir SERVICE_EXE_NAME in
      sthen (replace_file_from_pinned_source S source_gui gui INSTALL_SDDL st) (\<lambda>_ st.
      sthen (replace_file_from_pinned_source S (with_file_name source_gui SERVICE_EXE_NAME) service INSTALL_SDDL st) (\<lambda>_ st.
      sthen (migrate_replacement S source_gui gui st) (\<lambda>_ st.
      sthen (sha256_file S gui st) (\<lambda>gui_sha256 st.
      sthen (sha256_file S service st) (\<lambda>service_sha256 st.
        write_manifest S (pinning_manifest sid gui gui_sha256 service service_sha256) st))))))"

text \<open>Create or update, then description, start, SID, privileges, failure actions and failure policy.\<close>

fun config_steps :: "'c setup_host \<Rightarrow> (string \<times> setup_op) list \<Rightarrow> 'c setup_state \<Rightarrow> ('c, unit) installing" where
  "config_steps S [] st = (Inr (), st)"
| "config_steps S ((what, x) # xs) st = sthen (os_step S what x st) (\<lambda>_ st. config_steps S xs st)"

definition configure_service :: "'c setup_host \<Rightarrow> string \<Rightarrow> 'c setup_state \<Rightarrow> ('c, unit) installing" where
  "configure_service S service st =
     sthen (os_step S ''open service manager'' OpManager st) (\<lambda>_ st.
     sthen (if sh_service_exists S
            then config_steps S [(''open core service'', OpOpenService), (''update core service'', OpChangeConfig)] st
            else os_step S ''create core service'' OpCreateService st) (\<lambda>_ st.
     sthen (config_steps S [(''service description'', OpConfigure 0), (''service delayed start'', OpConfigure 1),
          (''service SID'', OpConfigure 2), (''service required privileges'', OpConfigure 3),
          (''service failure actions'', OpConfigure 4), (''service failure policy'', OpConfigure 5),
          (''query core service'', OpQueryStatus)] (st\<lparr>ss_effects := ss_effects st @ [ServiceConfigured service]\<rparr>))
       (\<lambda>_ st. (Inr (), st))))"

definition start_service :: "'c setup_host \<Rightarrow> 'c setup_state \<Rightarrow> ('c, unit) installing" where
  "start_service S st =
     sthen (os_step S ''start core service'' OpStartService st) (\<lambda>_ st.
       (Inr (), st\<lparr>ss_effects := ss_effects st @ [ServiceStarted]\<rparr>))"

definition waiting ::
    "(tm_error + unit) option \<Rightarrow> ('c setup_state \<Rightarrow> ('c, unit) installing option) \<Rightarrow> 'c setup_state \<Rightarrow>
     ('c, unit) installing option" where
  "waiting w f st = (case w of None \<Rightarrow> None | Some (Inl e) \<Rightarrow> Some (Inl e, st) | Some (Inr _) \<Rightarrow> f st)"

definition install :: "'c setup_host \<Rightarrow> string \<Rightarrow> 'c setup_state \<Rightarrow> ('c, unit) installing option" where
  "install S sid st =
     (case install_checks S sid st of
        (Inl e, st) \<Rightarrow> Some (Inl e, st)
      | (Inr source_gui, st) \<Rightarrow>
          waiting (stop_existing_service_before_copy S st) (\<lambda>st.
            (case sthen (prepare_service_log_dir S st) (\<lambda>_. lift_result (sh_install_dir S)) of
               (Inl e, st) \<Rightarrow> Some (Inl e, st)
             | (Inr dir, st) \<Rightarrow>
                 (case sthen (install_files S sid source_gui dir st) (\<lambda>_.
                     configure_service S (path_join dir SERVICE_EXE_NAME)) of
                    (Inl e, st) \<Rightarrow> Some (Inl e, st)
                  | (Inr _, st) \<Rightarrow>
                      waiting (stop_service_for_upgrade (sh_stop S) (sh_status S))
                        (\<lambda>st. Some (start_service S st)) st))) (next_step st))"

definition uninstall :: "'c setup_host \<Rightarrow> 'c setup_state \<Rightarrow> ('c, unit) installing option" where
  "uninstall S st =
     (case ensure_elevated S ''uninstall core service'' of
        Inl e \<Rightarrow> Some (Inl e, st)
      | Inr _ \<Rightarrow>
          (case sh_fails S (ss_step st) OpManager of
             Some error \<Rightarrow> Some (Inl (tm_platform ''open service manager'' error), next_step st)
           | None \<Rightarrow>
               (case sh_old_service S of
                  None \<Rightarrow> Some (Inr (), next_step st)
                | Some (Inl error) \<Rightarrow> Some (Inl (tm_platform ''open core service'' error), next_step st)
                | Some (Inr state) \<Rightarrow>
                    waiting (stop_service_for_upgrade (sh_old_stop S) state) (\<lambda>st.
                      Some (sthen (os_step S ''delete core service'' OpDeleteService st) (\<lambda>_ st.
                        (Inr (), st\<lparr>ss_effects := ss_effects st @ [ServiceDeleted]\<rparr>)))) (next_step st))))"

text \<open>The double-null-terminated list of required privileges, in UTF-16.\<close>

definition REQUIRED_SERVICE_PRIVILEGES :: "string list" where
  "REQUIRED_SERVICE_PRIVILEGES = [''SeDebugPrivilege'', ''SeSystemProfilePrivilege'']"

definition required_service_privileges :: "u16 list" where
  "required_service_privileges =
     concat (map (\<lambda>privilege. map (\<lambda>c. word_of_nat (of_char c)) privilege @ [0]) REQUIRED_SERVICE_PRIVILEGES) @ [0]"

section \<open>What an installation leaves\<close>

lemma lift_result_Inr [simp]: "lift_result r st = (Inr v, st') \<longleftrightarrow> r = Inr v \<and> st' = st"
  by (auto simp: lift_result_def)

lemma secure_directory_keeps: "same_except {} st (snd (ensure_secure_directory S path st))"
  unfolding ensure_secure_directory_def
  by (intro same_except_sthen) (auto split: option.split)

lemma secure_directory_same: "ensure_secure_directory S path st = (r, st') \<Longrightarrow> same_except {} st st'"
  using secure_directory_keeps [of st S path] by simp

lemma log_dir_keeps: "same_except {} st (snd (prepare_service_log_dir S st))"
  unfolding prepare_service_log_dir_def
proof (rule same_except_sthen)
  fix data st1
  assume "lift_result (sh_data_dir S) st = (Inr data, st1)"
  show "same_except {} st1 (snd (case ensure_secure_directory S data st1 of
         (Inl _, st) \<Rightarrow> (Inr None, st)
       | (Inr _, st) \<Rightarrow>
           (let logs = path_join data ''logs'' in
            case ensure_secure_directory S logs st of
              (Inl _, st) \<Rightarrow> (Inr None, st)
            | (Inr _, st) \<Rightarrow>
                if \<not> is_ok (and_then (io_try (sh_log_entries S)) verify_owned_log_entries) then (Inr None, st)
                else (Inr (Some logs), st))))"
    by (auto simp: Let_def split: prod.split sum.split intro: same_except_trans dest!: secure_directory_same)
qed (simp add: lift_result_def)

lemma migrate_Inr:
  "migrate_replacement S source gui st = (Inr u, st') \<Longrightarrow> ss_files st' = ss_files st \<and>
   set (ss_effects st') \<subseteq> insert (ReplacementMigrated gui) (set (ss_effects st))"
  by (auto simp: migrate_replacement_def split: if_splits option.splits)

lemma install_checks_Inr:
  assumes "install_checks S sid st = (Inr source_gui, st')"
  shows "same_except {} st st' \<and> sh_elevated S \<and> valid_sid_text sid \<and> sh_user_account S sid \<and> sh_current_exe S = Inr source_gui"
proof -
  have elevated: "sh_elevated S" and sid: "valid_sid_text sid" "sh_user_account S sid"
    using assms by (auto simp: install_checks_def sthen_def lift_result_def ensure_elevated_def split: if_splits)
  with assms have "sthen (lift_result (io_try (sh_current_exe S)) st) (\<lambda>source_gui st.
           if ss_files st (with_file_name source_gui SERVICE_EXE_NAME) = None
           then (Inl (tm_platform ''install core service'' ''service executable is missing''), st)
           else
             sthen (lift_result (sh_install_dir S) st) (\<lambda>dir st.
             sthen (lift_result (sh_data_dir S) st) (\<lambda>data st.
             sthen (ensure_secure_directory S dir st) (\<lambda>_ st.
             sthen (ensure_secure_directory S data st) (\<lambda>_ st.
               (Inr source_gui, st)))))) = (Inr source_gui, st')"
    by (simp add: install_checks_def sthen_def lift_result_def ensure_elevated_def)
  then obtain exe sta stb dir data where "sh_current_exe S = Inr exe"
    "ensure_secure_directory S dir st = (Inr (), sta)" "ensure_secure_directory S data sta = (Inr (), stb)"
    "exe = source_gui" "stb = st'"
    unfolding sthen_Inr lift_result_Inr io_try_Inr
    by (elim exE conjE, simp split: if_splits add: sthen_Inr, blast)
  with elevated sid show ?thesis
    using secure_directory_same [of S dir st] secure_directory_same [of S data sta] same_except_trans [of "{}" st sta stb]
    by simp
qed

lemma write_manifest_Inr:
  "write_manifest S m st = (Inr u, st') \<Longrightarrow>
   \<exists>bytes. sh_manifest_json S m = Inr bytes \<and> length bytes \<le> 64 * 1024 \<and> ss_manifest st' = Some bytes \<and>
     ss_files st' = ss_files st \<and> ss_effects st' = ss_effects st"
  by (auto simp: write_manifest_def split: if_splits sum.splits option.splits)

lemma last_component:
  assumes "CHR 0x5C \<notin> set a" "CHR 0x5C \<notin> set b" "d @ [CHR 0x5C] @ a = e @ [CHR 0x5C] @ b"
  shows "a = b"
proof -
  have "rsplit_once (CHR 0x5C) (d @ [CHR 0x5C] @ a) = Some (d, a)"
    using rsplit_once_append [OF assms(1)] by simp
  moreover have "rsplit_once (CHR 0x5C) (e @ [CHR 0x5C] @ b) = Some (e, b)"
    using rsplit_once_append [OF assms(2)] by simp
  ultimately show ?thesis unfolding assms(3) by simp
qed

lemma program_names:
  "CHR 0x5C \<notin> set GUI_EXE_NAME" "CHR 0x5C \<notin> set SERVICE_EXE_NAME" "GUI_EXE_NAME \<noteq> SERVICE_EXE_NAME"
  by (simp_all add: GUI_EXE_NAME_def SERVICE_EXE_NAME_def)

lemma service_not_gui: "path_join dir SERVICE_EXE_NAME \<noteq> path_join dir' GUI_EXE_NAME"
  using last_component [OF program_names(2,1), of dir dir'] program_names(3) by (auto simp: path_join_def)

lemma sibling_not_gui: "with_file_name path SERVICE_EXE_NAME \<noteq> path_join dir GUI_EXE_NAME"
proof (cases "rsplit_once (CHR 0x5C) path")
  case None
  have "CHR 0x5C \<in> set (path_join dir GUI_EXE_NAME)" by (simp add: path_join_def)
  with None program_names(2) show ?thesis by (auto simp: with_file_name_def)
qed (auto simp: with_file_name_def service_not_gui)

text \<open>The installed file has the hash of its source, the given security and no other link.\<close>

definition installed_copy :: "'c setup_host \<Rightarrow> 'c setup_state \<Rightarrow> 'c setup_state \<Rightarrow> string \<Rightarrow> string \<Rightarrow> bool" where
  "installed_copy S st st' source destination \<longleftrightarrow>
     (\<exists>f g. ss_files st source = Some f \<and> ss_files st' destination = Some g \<and>
        sh_sha256 S (pf_content g) = sh_sha256 S (pf_content f) \<and> pf_security g = INSTALL_SDDL \<and>
        pf_regular g \<and> pf_links g = 1)"

definition file_hash :: "'c setup_host \<Rightarrow> 'c setup_state \<Rightarrow> string \<Rightarrow> io_error + string" where
  "file_hash S st path =
     (case ss_files st path of
        None \<Rightarrow> Inl \<lparr>io_kind = NotFound, io_text = path\<rparr>
      | Some f \<Rightarrow> Inr (sh_sha256 S (pf_content f)))"

lemma sha256_file_Inr:
  "sha256_file S path st = (Inr h, st') \<Longrightarrow> st' = next_step st \<and> file_hash S st path = Inr h"
  by (auto simp: sha256_file_def sha256_reader_def file_hash_def split: option.splits)

lemma file_hash_next [simp]: "file_hash S (next_step st) = file_hash S st"
  by (simp add: file_hash_def fun_eq_iff)

lemma install_files_Inr:
  assumes "install_files S sid source_gui dir st = (Inr u, st')"
  shows "installed_copy S st st' source_gui (path_join dir GUI_EXE_NAME) \<and>
    installed_copy S st st' (with_file_name source_gui SERVICE_EXE_NAME) (path_join dir SERVICE_EXE_NAME) \<and>
    set (ss_effects st') \<subseteq> insert (ReplacementMigrated (path_join dir GUI_EXE_NAME)) (set (ss_effects st)) \<and>
    (\<exists>m bytes. sh_manifest_json S m = Inr bytes \<and> length bytes \<le> 64 * 1024 \<and> ss_manifest st' = Some bytes \<and>
      bm_schema_version m = MANIFEST_SCHEMA \<and> bm_protocol_version m = PROTOCOL_VERSION \<and>
      bm_authorized_user_sid m = sid \<and> bm_gui_path m = path_join dir GUI_EXE_NAME \<and>
      bm_service_path m = path_join dir SERVICE_EXE_NAME \<and>
      file_hash S st' (bm_gui_path m) = Inr (bm_gui_sha256 m) \<and>
      file_hash S st' (bm_service_path m) = Inr (bm_service_sha256 m))"
proof -
  let ?gui = "path_join dir GUI_EXE_NAME" and ?service = "path_join dir SERVICE_EXE_NAME"
  let ?src = "with_file_name source_gui SERVICE_EXE_NAME"
  from assms obtain st1 st2 st3 st4 st5 g s where
    one: "replace_file_from_pinned_source S source_gui ?gui INSTALL_SDDL st = (Inr (), st1)" and
    two: "replace_file_from_pinned_source S ?src ?service INSTALL_SDDL st1 = (Inr (), st2)" and
    three: "migrate_replacement S source_gui ?gui st2 = (Inr (), st3)" and
    hashes: "sha256_file S ?gui st3 = (Inr g, st4)" "sha256_file S ?service st4 = (Inr s, st5)" and
    written: "write_manifest S (pinning_manifest sid ?gui g ?service s) st5 = (Inr u, st')"
    unfolding install_files_def Let_def sthen_Inr by (elim exE conjE) simp
  from migrate_Inr [OF three] have files: "ss_files st3 = ss_files st2" and
    effects: "set (ss_effects st3) \<subseteq> insert (ReplacementMigrated ?gui) (set (ss_effects st2))" by simp_all
  have st5: "st5 = next_step (next_step st3)" and g: "file_hash S st3 ?gui = Inr g" and s: "file_hash S st3 ?service = Inr s"
    using sha256_file_Inr [OF hashes(1)] sha256_file_Inr [OF hashes(2)] by simp_all
  from write_manifest_Inr [OF written] obtain bytes where
    manifest: "sh_manifest_json S (pinning_manifest sid ?gui g ?service s) = Inr bytes" "length bytes \<le> 64 * 1024"
      "ss_manifest st' = Some bytes" and st': "ss_files st' = ss_files st2" "ss_effects st' = ss_effects st3"
    by (auto simp: st5 files)
  have hash: "file_hash S st' = file_hash S st3" by (simp add: file_hash_def fun_eq_iff st' files)
  have first: "same_except {?gui} st st1" and second: "same_except {?service} st1 st2"
    using replace_cleans [OF one] replace_cleans [OF two] by simp_all
  have "installed_copy S st st1 source_gui ?gui" using replaced [OF one] by (auto simp: installed_copy_def)
  moreover have "ss_files st' ?gui = ss_files st1 ?gui"
    using second service_not_gui [of dir dir] by (simp add: st' same_except_def)
  ultimately have gui: "installed_copy S st st' source_gui ?gui" by (simp add: installed_copy_def)
  have service: "installed_copy S st st' ?src ?service"
    using replaced [OF two] first sibling_not_gui [of source_gui dir]
    by (auto simp: installed_copy_def st' same_except_def)
  have "set (ss_effects st') \<subseteq> insert (ReplacementMigrated ?gui) (set (ss_effects st))"
    using effects first second by (auto simp: same_except_def st')
  with gui service show ?thesis
    by (intro conjI exI [of _ "pinning_manifest sid ?gui g ?service s"] exI [of _ bytes])
      (simp_all add: manifest(1,3) manifest(2) [simplified] hash g s, simp_all add: pinning_manifest_def g s)
qed

lemma config_steps_keeps: "same_except {} st (snd (config_steps S xs st))"
  by (induction S xs st rule: config_steps.induct)
    (auto split: option.splits intro: same_except_trans [OF same_except_refl(2)])

lemma config_steps_same: "config_steps S xs st = (r, st') \<Longrightarrow> same_except {} st st'"
  using config_steps_keeps [of st S xs] by simp

lemma configure_service_Inr:
  assumes "configure_service S service st = (Inr u, st')"
  shows "ss_files st' = ss_files st \<and> ss_manifest st' = ss_manifest st \<and>
    ss_effects st' = ss_effects st @ [ServiceConfigured service]"
proof -
  from assms obtain sta stb where
    one: "(if sh_service_exists S
      then config_steps S [(''open core service'', OpOpenService), (''update core service'', OpChangeConfig)] (next_step st)
      else os_step S ''create core service'' OpCreateService (next_step st)) = (Inr (), sta)" and
    two: "config_steps S [(''service description'', OpConfigure 0), (''service delayed start'', OpConfigure 1),
          (''service SID'', OpConfigure 2), (''service required privileges'', OpConfigure 3),
          (''service failure actions'', OpConfigure 4), (''service failure policy'', OpConfigure 5),
          (''query core service'', OpQueryStatus)] (sta\<lparr>ss_effects := ss_effects sta @ [ServiceConfigured service]\<rparr>) =
      (Inr (), stb)" and "st' = stb"
    unfolding configure_service_def sthen_Inr by (elim exE conjE, simp del: sthen_step config_steps.simps)
  have "same_except {} st sta"
  proof (cases "sh_service_exists S")
    case True
    with one have "config_steps S [(''open core service'', OpOpenService), (''update core service'', OpChangeConfig)]
        (next_step st) = (Inr (), sta)" by (simp only: if_True)
    from config_steps_same [OF this] show ?thesis by (simp add: same_except_def)
  next
    case False
    with one have "sta = next_step (next_step st)" by (simp only: if_False os_step_Inr)
    then show ?thesis by (simp add: same_except_def)
  qed
  with config_steps_same [OF two] \<open>st' = stb\<close> show ?thesis by (simp add: same_except_def fun_eq_iff)
qed

text \<open>A run that returns success, taken apart.\<close>

lemma start_service_Inr:
  "start_service S st = (Inr u, st') \<Longrightarrow> ss_files st' = ss_files st \<and> ss_manifest st' = ss_manifest st \<and>
    ss_effects st' = ss_effects st @ [ServiceStarted]"
  by (auto simp: start_service_def split: option.splits)

lemma waiting_Inr: "waiting w f st = Some (Inr u, st') \<Longrightarrow> w = Some (Inr ()) \<and> f st = Some (Inr u, st')"
  by (auto simp: waiting_def split: option.splits sum.splits)

lemma install_Inr:
  assumes "install S sid st = Some (Inr u, st')"
  shows "\<exists>exe dir st0 st1 st2 st3. sh_elevated S \<and> valid_sid_text sid \<and> sh_user_account S sid \<and> sh_current_exe S = Inr exe \<and>
    sh_install_dir S = Inr dir \<and> stop_existing_service_before_copy S st0 = Some (Inr ()) \<and> same_except {} st st1 \<and>
    install_files S sid exe dir st1 = (Inr (), st2) \<and>
    configure_service S (path_join dir SERVICE_EXE_NAME) st2 = (Inr (), st3) \<and> start_service S st3 = (Inr u, st')"
proof -
  obtain r sta where checks: "install_checks S sid st = (r, sta)" by fastforce
  with assms obtain exe where r: "r = Inr exe" by (cases r) (simp_all add: install_def)
  from install_checks_Inr [of S sid st exe sta] checks r
  have c: "same_except {} st sta" "sh_elevated S" "valid_sid_text sid" "sh_user_account S sid" "sh_current_exe S = Inr exe"
    by simp_all
  let ?rest = "\<lambda>dir st. (case sthen (install_files S sid exe dir st) (\<lambda>_.
                     configure_service S (path_join dir SERVICE_EXE_NAME)) of
                    (Inl e, st) \<Rightarrow> Some (Inl e, st)
                  | (Inr _, st) \<Rightarrow>
                      waiting (stop_service_for_upgrade (sh_stop S) (sh_status S))
                        (\<lambda>st. Some (start_service S st)) st)"
  have w: "waiting (stop_existing_service_before_copy S sta) (\<lambda>st.
      (case sthen (prepare_service_log_dir S st) (\<lambda>_. lift_result (sh_install_dir S)) of
         (Inl e, st) \<Rightarrow> Some (Inl e, st) | (Inr dir, st) \<Rightarrow> ?rest dir st)) (next_step sta) = Some (Inr u, st')"
    using assms checks r by (simp add: install_def)
  note stopped = conjunct1 [OF waiting_Inr [OF w]] and w' = conjunct2 [OF waiting_Inr [OF w]]
  obtain d st1 where logs: "sthen (prepare_service_log_dir S (next_step sta)) (\<lambda>_. lift_result (sh_install_dir S)) = (d, st1)"
    by fastforce
  with w' obtain dir where d: "d = Inr dir" by (cases d) simp_all
  with w' logs have rest: "?rest dir st1 = Some (Inr u, st')" by simp
  from logs d obtain v where "prepare_service_log_dir S (next_step sta) = (Inr v, st1)" and dir: "sh_install_dir S = Inr dir"
    by (auto simp: sthen_Inr)
  with log_dir_keeps [of "next_step sta" S] have "same_except {} (next_step sta) st1" by simp
  with c(1) have same: "same_except {} st st1" by (simp add: same_except_def)
  obtain r2 st3 where run: "sthen (install_files S sid exe dir st1) (\<lambda>_.
      configure_service S (path_join dir SERVICE_EXE_NAME)) = (r2, st3)" by fastforce
  with rest obtain x where r2: "r2 = Inr x" by (cases r2) simp_all
  with run rest have "waiting (stop_service_for_upgrade (sh_stop S) (sh_status S))
      (\<lambda>st. Some (start_service S st)) st3 = Some (Inr u, st')" by simp
  from waiting_Inr [OF this] have started: "start_service S st3 = (Inr u, st')" by simp
  from run r2 obtain st2 where "install_files S sid exe dir st1 = (Inr (), st2)"
    "configure_service S (path_join dir SERVICE_EXE_NAME) st2 = (Inr (), st3)"
    by (auto simp: sthen_Inr)
  with c(2-5) dir stopped same started show ?thesis by blast
qed

text \<open>The machine as the new service sees it when it starts: its own image, the installed programs with
  their contents, and the manifest file.\<close>

definition started_host :: "broker_host \<Rightarrow> 'c setup_host \<Rightarrow> string \<Rightarrow> 'c setup_state \<Rightarrow> broker_host" where
  "started_host H S dir st = H\<lparr>bh_current_exe := Inr (path_join dir SERVICE_EXE_NAME),
     bh_installed_gui := Inr (path_join dir GUI_EXE_NAME), bh_installed_service := Inr (path_join dir SERVICE_EXE_NAME),
     bh_sha256_file := file_hash S st,
     bh_manifest_file := (case ss_manifest st of
         None \<Rightarrow> Inl (from_io \<lparr>io_kind = NotFound, io_text = ''broker.json''\<rparr>)
       | Some bytes \<Rightarrow> Inr (of_nat (length bytes), Inr bytes))\<rparr>"

lemma eq_ignore_ascii_case_refl: "eq_ignore_ascii_case s s"
  by (simp add: eq_ignore_ascii_case_def)

lemma load_written_manifest:
  assumes "bh_manifest_file H = Inr (of_nat (length bytes), Inr bytes)" "length bytes \<le> 64 * 1024"
    and "bh_manifest_json H bytes = Inr m" "validate_manifest H m = Inr ()"
  shows "load_manifest H = Inr m"
proof -
  have "\<not> (64 * 1024 :: u64) < of_nat (length bytes)"
    using assms(2) by (simp add: not_less word_le_nat_alt unat_of_nat)
  with assms show ?thesis by (simp add: load_manifest_def io_try_def)
qed

text \<open>
  C4: An installation that succeeds is one the service accepts. It was asked for by an elevated
  process for a user account with a well-formed SID, stopped the older generation before it copied,
  and ended by configuring and starting the service; the installed files are exact, protected copies
  of the two programs it was started with; and the manifest it wrote is loaded by the service when it
  starts - size limit, JSON, versions, SID, paths and hashes - and names the SID that was given. Relied
  upon: a path at which a file exists can be canonicalized, and the JSON that is written for a manifest
  is read as that manifest.
\<close>

theorem installation_validates:
  assumes "install S sid st = Some (Inr u, st')"
    and "\<forall>p. ss_files st' p \<noteq> None \<longrightarrow> is_ok (bh_canonicalize H p)"
    and "\<forall>m bytes. sh_manifest_json S m = Inr bytes \<longrightarrow> bh_manifest_json H bytes = Inr m"
  shows "\<exists>exe dir m. sh_current_exe S = Inr exe \<and> sh_install_dir S = Inr dir \<and>
    sh_elevated S \<and> sh_user_account S sid \<and>
    installed_copy S st st' exe (path_join dir GUI_EXE_NAME) \<and>
    installed_copy S st st' (with_file_name exe SERVICE_EXE_NAME) (path_join dir SERVICE_EXE_NAME) \<and>
    (\<exists>before. ss_effects st' = before @ [ServiceConfigured (path_join dir SERVICE_EXE_NAME), ServiceStarted]) \<and>
    load_manifest (started_host H S dir st') = Inr m \<and> bm_authorized_user_sid m = sid"
proof -
  from install_Inr [OF assms(1)] obtain exe dir st1 st2 st3 where
    checks: "sh_elevated S" "valid_sid_text sid" "sh_user_account S sid" "sh_current_exe S = Inr exe" "sh_install_dir S = Inr dir"
    and same: "same_except {} st st1"
    and files: "install_files S sid exe dir st1 = (Inr (), st2)"
    and conf: "configure_service S (path_join dir SERVICE_EXE_NAME) st2 = (Inr (), st3)"
    and start: "start_service S st3 = (Inr u, st')" by blast
  from configure_service_Inr [OF conf] start_service_Inr [OF start]
  have st': "ss_files st' = ss_files st2" "ss_manifest st' = ss_manifest st2"
    "ss_effects st' = ss_effects st2 @ [ServiceConfigured (path_join dir SERVICE_EXE_NAME), ServiceStarted]" by simp_all
  from install_files_Inr [OF files] obtain m bytes where
    copies: "installed_copy S st1 st2 exe (path_join dir GUI_EXE_NAME)"
      "installed_copy S st1 st2 (with_file_name exe SERVICE_EXE_NAME) (path_join dir SERVICE_EXE_NAME)" and
    json: "sh_manifest_json S m = Inr bytes" "length bytes \<le> 64 * 1024" "ss_manifest st2 = Some bytes" and
    m: "bm_schema_version m = MANIFEST_SCHEMA" "bm_protocol_version m = PROTOCOL_VERSION"
      "bm_authorized_user_sid m = sid" "bm_gui_path m = path_join dir GUI_EXE_NAME"
      "bm_service_path m = path_join dir SERVICE_EXE_NAME"
      "file_hash S st2 (bm_gui_path m) = Inr (bm_gui_sha256 m)"
      "file_hash S st2 (bm_service_path m) = Inr (bm_service_sha256 m)" by blast
  have "installed_copy S st st' source destination" if "installed_copy S st1 st2 source destination" for source destination
    using that same by (simp add: installed_copy_def st'(1) same_except_def)
  note copies' = copies [THEN this]
  have hash: "file_hash S st' = file_hash S st2" by (simp add: fun_eq_iff file_hash_def st')
  have self: "paths_match (started_host H S dir st') p p" if "ss_files st' p \<noteq> None" for p
    using assms(2) that
    by (auto simp: paths_match_iff normalized_path_def and_then_def started_host_def is_ok_def split: sum.splits)
  have exist: "ss_files st' (path_join dir GUI_EXE_NAME) \<noteq> None" "ss_files st' (path_join dir SERVICE_EXE_NAME) \<noteq> None"
    using copies by (auto simp: installed_copy_def st'(1))
  have "validate_manifest (started_host H S dir st') m = Inr ()"
    unfolding validate_manifest_Inr using checks(2) m self [OF exist(1)] self [OF exist(2)]
    by (simp add: started_host_def hash eq_ignore_ascii_case_refl)
  moreover have "bh_manifest_file (started_host H S dir st') = Inr (of_nat (length bytes), Inr bytes)"
    "bh_manifest_json (started_host H S dir st') bytes = Inr m"
    using json(1) assms(3) by (simp_all add: started_host_def st'(2) json(3))
  ultimately have "load_manifest (started_host H S dir st') = Inr m"
    using load_written_manifest json(2) by blast
  with checks copies' m(3) st'(3) show ?thesis by blast
qed

definition sample_setup :: "nat setup_host" where
  "sample_setup = \<lparr>sh_elevated = True, sh_user_account = (\<lambda>_. True),
     sh_current_exe = Inr (path_join ''D:'' ''taskman.exe''), sh_replacement_in_use = (\<lambda>_. False),
     sh_install_dir = Inr ''C:'', sh_data_dir = Inr ''C:'', sh_process_id = 7, sh_sha256 = show_nat, sh_copied = id,
     sh_fails = (\<lambda>_ _. None), sh_directory = (\<lambda>_. Some (True, False)), sh_log_entries = Inr [],
     sh_manifest_reparse = False,
     sh_manifest_json = (\<lambda>m. if m = pinning_manifest ''S-1-5-21-7'' (path_join ''C:'' GUI_EXE_NAME) (show_nat 41)
         (path_join ''C:'' SERVICE_EXE_NAME) (show_nat 42) then Inr [0x7B, 0x7D] else Inl ''not this one''),
     sh_service_exists = True, sh_old_service = Some (Inr SvRunning),
     sh_old_stop = \<lparr>sa_stop = Inr (), sa_start_time = 0, sa_polls = [(Inr SvStopPending, 1), (Inr SvStopped, 101)]\<rparr>,
     sh_status = SvStopped, sh_stop = \<lparr>sa_stop = Inr (), sa_start_time = 0, sa_polls = []\<rparr>\<rparr>"

definition sample_disk :: "nat setup_state" where
  "sample_disk = \<lparr>ss_files = (\<lambda>p.
       if p = path_join ''D:'' ''taskman.exe'' then Some \<lparr>pf_content = 41, pf_security = [], pf_regular = True, pf_links = 1\<rparr>
       else if p = path_join ''D:'' ''taskman-service.exe'' then Some \<lparr>pf_content = 42, pf_security = [], pf_regular = True, pf_links = 1\<rparr>
       else if p = path_join ''C:'' ''taskman.exe'' then Some \<lparr>pf_content = 41, pf_security = [], pf_regular = True, pf_links = 1\<rparr>
       else if p = path_join ''C:'' ''taskman-service.exe'' then Some \<lparr>pf_content = 42, pf_security = [], pf_regular = True, pf_links = 1\<rparr>
       else None),
     ss_manifest = None, ss_effects = [], ss_step = 0\<rparr>"

text \<open>Only the JSON of the manifest that is written is read, as that manifest.\<close>

definition sample_service_host :: broker_host where
  "sample_service_host = sample_host\<lparr>bh_canonicalize := Inr, bh_manifest_json := (\<lambda>_. Inr
     (pinning_manifest ''S-1-5-21-7'' (path_join ''C:'' GUI_EXE_NAME) (show_nat 41)
       (path_join ''C:'' SERVICE_EXE_NAME) (show_nat 42)))\<rparr>"

lemma replace_up_to_date:
  assumes "sh_fails S = (\<lambda>_ _. None)" "ss_files st source = Some f" "pf_regular f"
    and "ss_files st destination = Some g" "pf_regular g" "pf_links g = 1"
    and "sh_sha256 S (pf_content g) = sh_sha256 S (pf_content f)"
  shows "\<exists>n. replace_file_from_pinned_source S source destination sddl st =
    (Inr (), st\<lparr>ss_files := (ss_files st)(destination \<mapsto> g\<lparr>pf_security := sddl\<rparr>), ss_step := n\<rparr>)"
  using assms
  by (intro exI [of _ "Suc (Suc (Suc (Suc (Suc (ss_step st)))))"])
    (cases st, simp add: replace_file_from_pinned_source_def pinned_source_def sha256_reader_def destination_matches_def
      ensure_single_link_def set_path_security_def sthen_def os_step_def next_step_def)

lemma sample_replaced:
  "\<exists>n. replace_file_from_pinned_source sample_setup (path_join ''D:'' name) (path_join ''C:'' name) sddl st =
    (Inr (), st\<lparr>ss_files := (ss_files st)(path_join ''C:'' name \<mapsto>
      \<lparr>pf_content = m, pf_security = sddl, pf_regular = True, pf_links = 1\<rparr>), ss_step := n\<rparr>)"
  if "ss_files st (path_join ''D:'' name) = Some \<lparr>pf_content = m, pf_security = [], pf_regular = True, pf_links = 1\<rparr>"
    "ss_files st (path_join ''C:'' name) = Some \<lparr>pf_content = m, pf_security = [], pf_regular = True, pf_links = 1\<rparr>"
  using replace_up_to_date [of sample_setup st, OF _ that(1) _ that(2)] by (simp add: sample_setup_def)

lemma sample_fields:
  "sh_fails sample_setup = (\<lambda>_ _. None)" "sh_replacement_in_use sample_setup = (\<lambda>_. False)"
  "sh_install_dir sample_setup = Inr ''C:''" "sh_manifest_reparse sample_setup = False"
  "sh_service_exists sample_setup = True" "sh_status sample_setup = SvStopped" "sh_sha256 sample_setup = show_nat"
  "sh_manifest_json sample_setup (pinning_manifest ''S-1-5-21-7'' (path_join ''C:'' GUI_EXE_NAME) (show_nat 41)
     (path_join ''C:'' SERVICE_EXE_NAME) (show_nat 42)) = Inr [0x7B, 0x7D]"
  by (simp_all add: sample_setup_def)

lemma sample_programs:
  "ss_files sample_disk (path_join ''D:'' GUI_EXE_NAME) = Some \<lparr>pf_content = 41, pf_security = [], pf_regular = True, pf_links = 1\<rparr>"
  "ss_files sample_disk (path_join ''C:'' GUI_EXE_NAME) = Some \<lparr>pf_content = 41, pf_security = [], pf_regular = True, pf_links = 1\<rparr>"
  "ss_files sample_disk (path_join ''D:'' SERVICE_EXE_NAME) = Some \<lparr>pf_content = 42, pf_security = [], pf_regular = True, pf_links = 1\<rparr>"
  "ss_files sample_disk (path_join ''C:'' SERVICE_EXE_NAME) = Some \<lparr>pf_content = 42, pf_security = [], pf_regular = True, pf_links = 1\<rparr>"
  by code_simp+

lemma sample_files:
  assumes "ss_files st = ss_files sample_disk"
  shows "\<exists>st'. install_files sample_setup ''S-1-5-21-7'' (path_join ''D:'' GUI_EXE_NAME) ''C:'' st = (Inr (), st')"
proof -
  let ?g = "path_join ''C:'' GUI_EXE_NAME" and ?s = "path_join ''C:'' SERVICE_EXE_NAME"
  have src: "with_file_name (path_join ''D:'' GUI_EXE_NAME) SERVICE_EXE_NAME = path_join ''D:'' SERVICE_EXE_NAME" by code_simp
  obtain n where one: "replace_file_from_pinned_source sample_setup (path_join ''D:'' GUI_EXE_NAME) ?g INSTALL_SDDL st =
      (Inr (), st\<lparr>ss_files := (ss_files st)(?g \<mapsto>
        \<lparr>pf_content = 41, pf_security = INSTALL_SDDL, pf_regular = True, pf_links = 1\<rparr>), ss_step := n\<rparr>)"
    using sample_replaced [of st GUI_EXE_NAME 41 INSTALL_SDDL] by (auto simp: sample_programs assms)
  let ?st1 = "st\<lparr>ss_files := (ss_files st)(?g \<mapsto>
      \<lparr>pf_content = 41, pf_security = INSTALL_SDDL, pf_regular = True, pf_links = 1\<rparr>), ss_step := n\<rparr>"
  have kept: "ss_files ?st1 (path_join ''D:'' SERVICE_EXE_NAME) = ss_files sample_disk (path_join ''D:'' SERVICE_EXE_NAME)"
    "ss_files ?st1 ?s = ss_files sample_disk ?s"
    using service_not_gui [of "''D:''" "''C:''"] service_not_gui [of "''C:''" "''C:''"] by (simp_all add: assms)
  obtain k where two: "replace_file_from_pinned_source sample_setup (path_join ''D:'' SERVICE_EXE_NAME) ?s INSTALL_SDDL ?st1 =
      (Inr (), ?st1\<lparr>ss_files := (ss_files ?st1)(?s \<mapsto>
        \<lparr>pf_content = 42, pf_security = INSTALL_SDDL, pf_regular = True, pf_links = 1\<rparr>), ss_step := k\<rparr>)"
    using sample_replaced [OF kept(1) [unfolded sample_programs] kept(2) [unfolded sample_programs]] by blast
  show ?thesis
    unfolding install_files_def Let_def src one sthen_next two
    using service_not_gui [of "''C:''" "''C:''"]
    by (simp add: sthen_next migrate_replacement_def sha256_file_def sha256_reader_def write_manifest_def
        sample_fields)
qed

lemma sample_installs: "\<exists>st'. install sample_setup ''S-1-5-21-7'' sample_disk = Some (Inr (), st')"
proof -
  let ?s = "path_join ''C:'' SERVICE_EXE_NAME"
  have "fst (install_checks sample_setup ''S-1-5-21-7'' sample_disk) = Inr (path_join ''D:'' GUI_EXE_NAME)"
    by code_simp
  then obtain st0 where checks: "install_checks sample_setup ''S-1-5-21-7'' sample_disk =
      (Inr (path_join ''D:'' GUI_EXE_NAME), st0)" by (cases "install_checks sample_setup ''S-1-5-21-7'' sample_disk") auto
  then have st0: "ss_files st0 = ss_files sample_disk"
    using install_checks_Inr by (fastforce simp: same_except_def fun_eq_iff)
  have wait: "stop_existing_service_before_copy sample_setup st0 = Some (Inr ())"
    by (simp add: stop_existing_service_before_copy_def ensure_elevated_def sample_setup_def stop_service_for_upgrade_def)
  obtain logs st1 where l: "prepare_service_log_dir sample_setup (next_step st0) = (logs, st1)" by fastforce
  then have st1: "ss_files st1 = ss_files sample_disk"
    using log_dir_keeps [of "next_step st0" sample_setup] st0 by (simp add: same_except_def fun_eq_iff)
  have "is_ok logs"
    using l by (auto simp: prepare_service_log_dir_def sthen_def lift_result_def sample_setup_def Let_def
        split: prod.splits sum.splits if_splits)
  then obtain v where logs: "logs = Inr v" by (cases logs) auto
  have dir: "sthen (prepare_service_log_dir sample_setup (next_step st0)) (\<lambda>_. lift_result (sh_install_dir sample_setup)) =
      (Inr ''C:'', st1)"
    by (simp add: l logs sthen_next lift_result_def sample_fields)
  from sample_files [OF st1] obtain st2 where files: "install_files sample_setup ''S-1-5-21-7'' (path_join ''D:'' GUI_EXE_NAME)
      ''C:'' st1 = (Inr (), st2)" by blast
  have conf: "\<exists>st3. configure_service sample_setup ?s st2 = (Inr (), st3)"
    by (simp add: configure_service_def sample_fields sthen_next)
  then obtain st3 where conf: "configure_service sample_setup ?s st2 = (Inr (), st3)" by blast
  have stop: "stop_service_for_upgrade (sh_stop sample_setup) SvStopped = Some (Inr ())"
    by (simp add: stop_service_for_upgrade_def)
  show ?thesis
    by (simp add: install_def checks wait waiting_def dir [unfolded sample_fields] sample_fields files conf stop start_service_def sthen_next)
qed

theorem installation_validates_witness:
  "\<exists>st' m dir. install sample_setup ''S-1-5-21-7'' sample_disk = Some (Inr (), st') \<and>
     load_manifest (started_host sample_service_host sample_setup dir st') = Inr m \<and> bm_authorized_user_sid m = ''S-1-5-21-7''"
proof -
  from sample_installs obtain st' where run: "install sample_setup ''S-1-5-21-7'' sample_disk = Some (Inr (), st')" ..
  have "\<forall>p. ss_files st' p \<noteq> None \<longrightarrow> is_ok (bh_canonicalize sample_service_host p)"
    by (simp add: sample_service_host_def)
  moreover have "\<forall>m bytes. sh_manifest_json sample_setup m = Inr bytes \<longrightarrow> bh_manifest_json sample_service_host bytes = Inr m"
    by (simp add: sample_setup_def sample_service_host_def)
  ultimately show ?thesis using installation_validates [OF run, of sample_service_host] run by blast
qed

section \<open>The log directory\<close>

text \<open>
  The service opens a log file only where nothing can have been planted. If a directory for log
  files is given at all, then every entry of it is named like a daily log, could be pinned, has
  exactly one link and has had its security repaired; one unproven entry turns file logging off, and
  no state of the directories makes the preparation fail.
\<close>

theorem log_directory_owned:
  "(case fst (prepare_service_log_dir S st) of
      Inl e \<Rightarrow> sh_data_dir S = Inl e
    | Inr None \<Rightarrow> True
    | Inr (Some logs) \<Rightarrow> (\<exists>data entries. sh_data_dir S = Inr data \<and> logs = path_join data ''logs'' \<and>
        sh_log_entries S = Inr entries \<and>
        list_all (\<lambda>r. \<exists>x. r = Inr x \<and> owned_service_log_name (le_name x) \<and> le_pinned x = Inr 1 \<and> le_secured x = Inr ())
          entries))"
proof -
  have owned: "verify_owned_log_entries entries = Inr () \<Longrightarrow>
      list_all (\<lambda>r. \<exists>x. r = Inr x \<and> owned_service_log_name (le_name x) \<and> le_pinned x = Inr 1 \<and> le_secured x = Inr ()) entries"
    for entries
  proof (induction entries)
    case (Cons r entries)
    then obtain x where "r = Inr x" "verify_log_entry x = Inr ()" "verify_owned_log_entries entries = Inr ()"
      by (auto simp: and_then_Inr_iff io_try_Inr)
    moreover from this have "owned_service_log_name (le_name x) \<and> le_pinned x = Inr 1 \<and> le_secured x = Inr ()"
      by (auto simp: verify_log_entry_def and_then_Inr_iff split: if_splits)
    ultimately show ?case using Cons.IH by simp
  qed simp
  show ?thesis
  proof (cases "sh_data_dir S")
    case (Inr data)
    show ?thesis
    proof (cases "and_then (io_try (sh_log_entries S)) verify_owned_log_entries")
      case Inl
      with Inr show ?thesis
        by (simp add: prepare_service_log_dir_def Let_def sthen_next lift_result_def split: prod.split sum.split)
    next
      case (Inr u)
      then obtain entries where "sh_log_entries S = Inr entries" "verify_owned_log_entries entries = Inr ()"
        by (auto simp: and_then_Inr_iff io_try_Inr)
      with \<open>sh_data_dir S = Inr data\<close> owned Inr show ?thesis
        by (simp add: prepare_service_log_dir_def Let_def sthen_next lift_result_def split: prod.split sum.split)
    qed
  qed (simp add: prepare_service_log_dir_def sthen_def lift_result_def)
qed

end
