(* ===== verification/Service_Redirect.thy ===== *)
theory Service_Redirect
  imports Service_Setup
begin

text \<open>
  The state of the core service as the GUI shows it, and the redirection of a portable copy of
  TaskMan to the installed one (crates/tm-platform/src/win/core_service.rs). Registry, files and
  service manager answer through records; programs that are started are listed with their parameters,
  after \<open>run_new_task\<close> of process_ops.rs has split the command.
\<close>

section \<open>State of the service\<close>

datatype scm_open = ScmOpened | ScmNotInstalled | ScmError string

record scm_answers =
  sc_manager :: "string + unit"
  sc_open :: scm_open
  sc_status :: "string + run_state \<times> service_exit"
  sc_current_exe :: "string option"
  sc_installed_gui :: "string option"

definition service_state ::
    "broker_host \<Rightarrow> scm_answers \<Rightarrow> call_error + ('s, 'i, 'w) broker_value \<Rightarrow> core_service_state" where
  "service_state H A ping =
     (case ping of
        Inr (Pong version) \<Rightarrow> ServiceRunning version
      | _ \<Rightarrow>
          (case sc_manager A of
             Inl error \<Rightarrow> ServiceDegraded error
           | Inr _ \<Rightarrow>
               (case sc_open A of
                  ScmNotInstalled \<Rightarrow> ServiceNotInstalled
                | ScmError error \<Rightarrow> ServiceDegraded error
                | ScmOpened \<Rightarrow>
                    (case sc_status A of
                       Inl error \<Rightarrow> ServiceDegraded error
                     | Inr (state, exit_code) \<Rightarrow>
                         if state = SvRunning then
                           (if foreign_client_session H (sc_current_exe A) (sc_installed_gui A) then ServiceForeignClient
                            else (case ping of
                                Inl (Unavailable _) \<Rightarrow>
                                  ServiceDegraded ''service is running but its control pipe did not answer''
                              | _ \<Rightarrow> ServiceDegraded ''service is running but broker authentication failed''))
                         else if state = SvStartPending \<or> state = SvContinuePending then ServiceStarting
                         else classify_stopped_state exit_code))))"

text \<open>Only an answered ping is shown as running; an integrity failure only for a service that is
  not running and ended with that code.\<close>

lemma service_state_running: "service_state H A ping = ServiceRunning v \<longleftrightarrow> ping = Inr (Pong v)"
  by (auto simp: service_state_def classify_stopped_state_def
      split: sum.splits broker_value.splits scm_open.splits if_splits call_error.splits)

lemma service_state_integrity:
  "service_state H A ping = ServiceIntegrityFailed \<Longrightarrow>
   \<exists>state. sc_status A = Inr (state, ServiceSpecific SERVICE_EXIT_INSTALL_INTEGRITY) \<and> state \<noteq> SvRunning"
  by (auto simp: service_state_def classify_stopped_state_def
      split: sum.splits broker_value.splits scm_open.splits if_splits call_error.splits)

section \<open>The marker in the registry\<close>

definition REG_SZ :: nat where "REG_SZ = 1"

record reg_answer =
  ra_ok :: bool
  ra_kind :: nat
  ra_bytes :: nat
  ra_data :: "u8 list"

fun u16_chunks :: "u8 list \<Rightarrow> u16 list" where
  "u16_chunks (a # b # bs) = (ucast a OR push_bit 8 (ucast b)) # u16_chunks bs"
| "u16_chunks _ = []"

text \<open>The first answer gives the size, the second the data; \<open>from_utf16_lossy\<close> is of the
  standard library.\<close>

definition client_redirect_marker ::
    "(u16 list \<Rightarrow> string) \<Rightarrow> bool \<Rightarrow> reg_answer \<Rightarrow> reg_answer \<Rightarrow> string option" where
  "client_redirect_marker from_utf16_lossy opened first second =
     (if \<not> opened then None
      else if \<not> ra_ok first \<or> ra_kind first \<noteq> REG_SZ \<or> \<not> (2 \<le> ra_bytes first \<and> ra_bytes first \<le> 65536) \<or>
          odd (ra_bytes first) then None
      else if \<not> ra_ok second \<or> ra_kind second \<noteq> REG_SZ \<or> ra_bytes second < 2 \<or> odd (ra_bytes second) \<or>
          ra_bytes first < ra_bytes second then None
      else
        (let wide = takeWhile (\<lambda>c. c \<noteq> 0) (u16_chunks (take (ra_bytes second) (ra_data second))) in
         if wide = [] then None else Some (from_utf16_lossy wide)))"

section \<open>Redirection\<close>

record redirect_env =
  re_elevated :: bool
  re_marker :: "string option"
  re_current_exe :: "io_error + string"
  re_is_file :: "string \<Rightarrow> bool"
  re_reparse :: "string \<Rightarrow> io_error + bool"
  re_pinned :: "string \<Rightarrow> tm_error + unit"
  re_sha256 :: "string \<Rightarrow> io_error + string"
  re_manager :: "string + unit"
  re_service :: scm_open
  re_clear_marker :: "tm_error + unit"
  re_shell_execute :: "string \<Rightarrow> string option \<Rightarrow> tm_error + unit"

text \<open>The answer, and what \<open>ShellExecuteExW\<close> was asked to start: a file with its parameters.\<close>

type_synonym redirect_result = "(tm_error + bool) \<times> (string \<times> string option) list"

definition run_new_task :: "redirect_env \<Rightarrow> string \<Rightarrow> redirect_result" where
  "run_new_task R command_line =
     (case split_command command_line of
        (program, params) \<Rightarrow>
          if program = [] then (Inl (tm_platform ''run_new_task'' ''empty command''), [])
          else (case re_shell_execute R program params of Inl e \<Rightarrow> Inl e | Inr _ \<Rightarrow> Inr True, [(program, params)]))"

definition redirect_to_installed_gui :: "broker_host \<Rightarrow> redirect_env \<Rightarrow> string list \<Rightarrow> redirect_result" where
  "redirect_to_installed_gui H R args =
     (if re_elevated R then (Inr False, [])
      else
        (case re_marker R of
           None \<Rightarrow> (Inr False, [])
         | Some marked_path \<Rightarrow>
             (case bh_installed_gui H of
                Inl e \<Rightarrow> (Inl e, [])
              | Inr installed \<Rightarrow>
                  (case re_current_exe R of
                     Inl e \<Rightarrow> (Inl (from_io e), [])
                   | Inr current \<Rightarrow>
                       if paths_match H current installed then (Inr False, [])
                       else
                         (case (if \<not> paths_match H marked_path installed \<or> \<not> re_is_file R installed then Inr True
                                else re_reparse R installed) of
                            Inl e \<Rightarrow> (Inl (from_io e), [])
                          | Inr True \<Rightarrow> (Inl (tm_platform ''core service GUI redirect''
                              ''the per-user marker does not name the protected TaskMan executable''), [])
                          | Inr False \<Rightarrow>
                              (case and_then (re_pinned R current) (\<lambda>_.
                                  and_then (io_try (re_sha256 R current)) (\<lambda>own.
                                  and_then (io_try (re_sha256 R installed)) (\<lambda>other. Inr (own \<noteq> other)))) of
                                 Inl e \<Rightarrow> (Inl e, [])
                               | Inr True \<Rightarrow> (Inr False, [])
                               | Inr False \<Rightarrow>
                                   (case re_manager R of
                                      Inl error \<Rightarrow> (Inl (tm_platform ''open service manager'' error), [])
                                    | Inr _ \<Rightarrow>
                                        (case re_service R of
                                           ScmNotInstalled \<Rightarrow>
                                             (case re_clear_marker R of Inl e \<Rightarrow> Inl e | Inr _ \<Rightarrow> Inr False, [])
                                         | ScmError error \<Rightarrow> (Inl (tm_platform ''open core service for redirect'' error), [])
                                         | ScmOpened \<Rightarrow> run_new_task R (gui_command installed args))))))))) "

definition relaunch_into_installed_gui :: "broker_host \<Rightarrow> redirect_env \<Rightarrow> string list \<Rightarrow> redirect_result" where
  "relaunch_into_installed_gui H R args =
     (case bh_installed_gui H of
        Inl e \<Rightarrow> (Inl e, [])
      | Inr installed \<Rightarrow>
          (case (if \<not> re_is_file R installed then Inr True else re_reparse R installed) of
             Inl e \<Rightarrow> (Inl (from_io e), [])
           | Inr True \<Rightarrow> (Inr False, [])
           | Inr False \<Rightarrow>
               (case re_manager R of
                  Inl error \<Rightarrow> (Inl (tm_platform ''open service manager'' error), [])
                | Inr _ \<Rightarrow>
                    if re_service R \<noteq> ScmOpened then (Inr False, [])
                    else run_new_task R (gui_command installed (args @ [''--single-instance-handoff''])))))"

subsection \<open>What is left of the arguments\<close>

text \<open>Splitting trims the parameters. Only blanks, tabs and quotes make an argument quoted, so other white
  space at the start of the first or at the end of the last argument is lost.\<close>

definition edges_lost :: "string list \<Rightarrow> bool" where
  "edges_lost args \<longleftrightarrow> args \<noteq> [] \<and>
     (is_whitespace (hd (quote_win_arg (hd args))) \<or> is_whitespace (last (quote_win_arg (last args))))"

abbreviation argument_tail :: "string list \<Rightarrow> string" where
  "argument_tail args \<equiv> concat (map (\<lambda>a. blank # quote_win_arg a) args)"

lemma quote_not_space: "\<not> is_whitespace quote" "is_whitespace blank"
  by (simp_all add: is_whitespace_def quote_def blank_def code_def)

lemma trim_end_keeps: "\<not> is_whitespace q \<Longrightarrow> trim_end (xs @ q # t) = xs @ q # trim_end t"
  by (simp add: trim_end_def dropWhile_append)

lemma trim_command: "trim (quote # xs @ quote # t) = quote # xs @ quote # trim_end t"
  using trim_end_keeps [OF quote_not_space(1), of "quote # xs" t]
  by (simp add: trim_def trim_start_id quote_not_space)

lemma position_quote: "quote \<notin> set xs \<Longrightarrow> position (\<lambda>c. c = quote) (xs @ quote # t) = Some (length xs)"
  by (induction xs) auto

lemma split_quoted:
  assumes "quote \<notin> set xs"
  shows "split_command (quote # xs @ quote # t) =
    (xs, let rest = trim (trim_end t) in if rest \<noteq> [] then Some rest else None)"
proof -
  have at: "position (\<lambda>c. c = CHR 0x22) (drop 1 (quote # xs @ quote # trim_end t)) = Some (length xs)"
    using position_quote [OF assms, of "trim_end t"] by (simp add: quote_def)
  have start: "starts_with (quote # xs @ quote # trim_end t) ''\"''" by (simp add: starts_with_def quote_def)
  show ?thesis
    unfolding split_command_def trim_command Let_def
    by (simp only: start if_True at option.case) simp
qed

lemma tail_nonempty: "quote_win_arg a \<noteq> []"
  using quote_win_arg_hd [of a] by auto

lemma last_argument_tail: "args \<noteq> [] \<Longrightarrow> last (argument_tail args) = last (quote_win_arg (last args))"
  by (induction args rule: rev_induct) (simp_all add: tail_nonempty)

lemma trim_argument_tail:
  assumes "\<not> edges_lost args"
  shows "trim (trim_end (argument_tail args)) = drop 1 (argument_tail args)"
proof (cases args)
  case Nil
  then show ?thesis by (simp add: trim_def trim_start_def trim_end_def)
next
  case (Cons a more)
  with assms have edges: "\<not> is_whitespace (hd (quote_win_arg a))" "\<not> is_whitespace (last (argument_tail args))"
    using last_argument_tail [of args] by (auto simp: edges_lost_def)
  have "trim_end (argument_tail args) = argument_tail args" using edges(2) by (simp add: trim_end_id)
  moreover obtain c s where c: "drop 1 (argument_tail args) = c # s" "\<not> is_whitespace c"
    using edges(1) quote_win_arg_hd [of a] by (auto simp: Cons)
  have "argument_tail args = blank # c # s" using c(1) by (simp add: Cons)
  moreover have "trim (blank # c # s) = c # s"
    using c(2) edges(2) \<open>argument_tail args = blank # c # s\<close>
    by (simp add: trim_def trim_start_def quote_not_space trim_end_id)
  ultimately show ?thesis by (simp add: c(1))
qed

lemma split_tail: "split_args (drop 1 (argument_tail args)) = args"
  using split_quoted_args [of args] by (cases args) (simp_all add: split_blank)

text \<open>The command of a hand-over: the program, and parameters that split into the arguments.\<close>

lemma split_gui_command:
  assumes "quote \<notin> set installed"
  shows "fst (split_command (gui_command installed args)) = installed \<and>
    (edges_lost args \<or> split_args (unwrap_or (snd (split_command (gui_command installed args))) []) = args)"
proof -
  have split: "split_command (gui_command installed args) =
      (installed, let rest = trim (trim_end (argument_tail args)) in if rest \<noteq> [] then Some rest else None)"
    using split_quoted [OF assms, of "argument_tail args"]
    unfolding gui_command_def gui_command_concat by simp
  show ?thesis
  proof (cases "edges_lost args")
    case False
    have "unwrap_or (snd (split_command (gui_command installed args))) [] = trim (trim_end (argument_tail args))"
      by (simp add: split Let_def)
    then have "split_args (unwrap_or (snd (split_command (gui_command installed args))) []) = args"
      by (simp only: trim_argument_tail [OF False] split_tail)
    moreover have "fst (split_command (gui_command installed args)) = installed" by (simp only: split fst_conv)
    ultimately show ?thesis by blast
  qed (simp only: split fst_conv simp_thms)
qed

text \<open>A last argument that ends with a no-break space arrives without it.\<close>

lemma no_break_space_lost:
  "split_args (unwrap_or (snd (split_command (gui_command ''C:/TaskMan/taskman.exe'' [''a'' @ [CHR 0xA0]]))) []) = [''a'']"
  by code_simp

text \<open>The program started is the installed GUI, a regular file, and the parameters carry the arguments.\<close>

definition starts_installed ::
    "broker_host \<Rightarrow> redirect_env \<Rightarrow> string list \<Rightarrow> (string \<times> string option) list \<Rightarrow> bool" where
  "starts_installed H R args started \<longleftrightarrow>
     (\<exists>installed. bh_installed_gui H = Inr installed \<and> re_is_file R installed \<and> re_reparse R installed = Inr False \<and>
        re_service R = ScmOpened \<and>
        (\<exists>program params. started = [(program, params)] \<and>
           (quote \<in> set installed \<or>
            program = installed \<and> (edges_lost args \<or> split_args (unwrap_or params []) = args))))"

definition same_program :: "broker_host \<Rightarrow> redirect_env \<Rightarrow> bool" where
  "same_program H R \<longleftrightarrow> \<not> re_elevated R \<and>
     (\<exists>installed marker current hash. bh_installed_gui H = Inr installed \<and> re_marker R = Some marker \<and>
        re_current_exe R = Inr current \<and> paths_match H marker installed \<and> \<not> paths_match H current installed \<and>
        re_sha256 R current = Inr hash \<and> re_sha256 R installed = Inr hash)"

lemma starts_command:
  assumes "bh_installed_gui H = Inr installed" "re_is_file R installed" "re_reparse R installed = Inr False"
    "re_service R = ScmOpened"
  shows "snd (run_new_task R (gui_command installed args)) = [] \<or>
    starts_installed H R args (snd (run_new_task R (gui_command installed args)))"
proof (cases "split_command (gui_command installed args)")
  case (Pair program params)
  then show ?thesis
    using split_gui_command [of installed args] assms by (auto simp: run_new_task_def starts_installed_def)
qed

lemma relaunch_not_lost:
  "edges_lost (args @ [''--single-instance-handoff'']) \<Longrightarrow>
   args \<noteq> [] \<and> is_whitespace (hd (quote_win_arg (hd args)))"
proof -
  have "hd (quote_win_arg ''--single-instance-handoff'') = CHR ''-''" "last (quote_win_arg ''--single-instance-handoff'') = CHR ''f''"
    by code_simp+
  then show "edges_lost (args @ [''--single-instance-handoff'']) \<Longrightarrow>
      args \<noteq> [] \<and> is_whitespace (hd (quote_win_arg (hd args)))"
    by (cases args) (auto simp: edges_lost_def is_whitespace_def code_def)
qed

text \<open>
  C37: A portable copy hands over to nothing but the installed program. When the redirection at
  startup, or the switch a user asks for, starts anything at all, it starts exactly one program, the
  protected executable, which is a regular file whose service is installed, with parameters that the
  documented rules split into exactly the arguments - unless the first of them begins, or the last one
  ends, with unquoted white space other than blanks and tabs, which is trimmed; the redirection
  happens only without elevation, when the user's marker names that executable and the running copy
  has the same hash.
\<close>

theorem redirect_only_to_installed:
  "(snd (redirect_to_installed_gui H R args) = [] \<or>
    same_program H R \<and> starts_installed H R args (snd (redirect_to_installed_gui H R args))) \<and>
   (snd (relaunch_into_installed_gui H R args) = [] \<or>
    starts_installed H R (args @ [''--single-instance-handoff'']) (snd (relaunch_into_installed_gui H R args)))"
proof
  show "snd (redirect_to_installed_gui H R args) = [] \<or>
      same_program H R \<and> starts_installed H R args (snd (redirect_to_installed_gui H R args))"
    unfolding redirect_to_installed_gui_def
    using starts_command [of H _ R args]
    by (auto simp: same_program_def and_then_Inr_iff io_try_Inr split: option.split sum.split bool.split scm_open.split)
  show "snd (relaunch_into_installed_gui H R args) = [] \<or>
      starts_installed H R (args @ [''--single-instance-handoff'']) (snd (relaunch_into_installed_gui H R args))"
    unfolding relaunch_into_installed_gui_def
    using starts_command [of H _ R "args @ [''--single-instance-handoff'']"]
    by (auto split: sum.split bool.split)
qed

end
