(* ===== verification/Task_Manager_Replacement.thy ===== *)
theory Task_Manager_Replacement
  imports Errors
begin

text \<open>
  Taking the place of the built-in Task Manager (crates/tm-platform/src/win/taskmgr_replacement.rs):
  the debugger value of taskmgr.exe in the registry, whose it is, setting and removing it, and
  starting the built-in program while it is set. The registry key is a record; a second record says
  which accesses succeed, what runs and what the disk holds. A code unit past Latin-1 is read as a
  question mark.
\<close>

section \<open>The registry value\<close>

record ifeo_key =
  ik_exists :: bool
  ik_value :: "(bool \<times> u8 list) option"

record ifeo_env =
  ie_readable :: bool
  ie_query_ok :: bool
  ie_write_opens :: bool
  ie_delete_ok :: bool
  ie_create_ok :: bool
  ie_set_ok :: bool
  ie_is_file :: "string \<Rightarrow> bool"
  ie_elevated :: bool
  ie_current_exe :: "string + string"
  ie_system_task_manager :: "tm_error + string"
  ie_probe :: "string \<Rightarrow> tm_error + unit"

datatype debugger_value = DebuggerAbsent | DebuggerText string | DebuggerInvalid

fun utf16_units :: "u8 list \<Rightarrow> u16 list" where
  "utf16_units (a # b # bs) = (ucast a + 256 * ucast b) # utf16_units bs"
| "utf16_units _ = []"

definition from_utf16_lossy :: "u16 list \<Rightarrow> string" where
  "from_utf16_lossy us = map (\<lambda>u. if unat u < 256 then char_of (unat u) else CHR ''?'') us"

text \<open>\<open>wstr\<close> and its bytes.\<close>

definition wstr_bytes :: "string \<Rightarrow> u8 list" where
  "wstr_bytes s = concat (map (\<lambda>c. [of_nat (of_char c), 0]) s) @ [0, 0]"

definition decode_debugger :: "bool \<times> u8 list \<Rightarrow> debugger_value" where
  "decode_debugger v =
     (if \<not> fst v \<or> length (snd v) < 2 \<or> 64 * 1024 < length (snd v) \<or> odd (length (snd v)) then DebuggerInvalid
      else DebuggerText (from_utf16_lossy (takeWhile (\<lambda>u. u \<noteq> 0) (utf16_units (snd v)))))"

definition read_debugger :: "ifeo_env \<Rightarrow> ifeo_key \<Rightarrow> debugger_value" where
  "read_debugger E k =
     (if \<not> ik_exists k then DebuggerAbsent
      else if \<not> ie_readable E then DebuggerInvalid
      else case ik_value k of
          None \<Rightarrow> DebuggerAbsent
        | Some v \<Rightarrow> if ie_query_ok E then decode_debugger v else DebuggerInvalid)"

definition write_debugger :: "ifeo_env \<Rightarrow> string \<Rightarrow> ifeo_key \<Rightarrow> (tm_error + unit) \<times> ifeo_key" where
  "write_debugger E value k =
     (if \<not> ie_create_ok E then (Inl (tm_platform ''RegCreateKeyExW(IFEO)'' ''status''), k)
      else if \<not> ie_set_ok E then (Inl (tm_platform ''RegSetValueExW(IFEO)'' ''status''), k\<lparr>ik_exists := True\<rparr>)
      else (Inr (), k\<lparr>ik_exists := True, ik_value := Some (True, wstr_bytes value)\<rparr>))"

definition delete_debugger :: "ifeo_env \<Rightarrow> ifeo_key \<Rightarrow> (tm_error + unit) \<times> ifeo_key" where
  "delete_debugger E k =
     (if \<not> (ik_exists k \<and> ie_write_opens E) then (Inr (), k)
      else if ik_value k = None then (Inr (), k)
      else if \<not> ie_delete_ok E then (Inl (tm_platform ''RegDeleteValueW(IFEO)'' ''status''), k)
      else (Inr (), k\<lparr>ik_value := None\<rparr>))"

section \<open>Whose value it is\<close>

definition OWNER_MARKER :: string where "OWNER_MARKER = ''--taskmgr-replacement-launch''"

definition dquote :: char where "dquote = CHR 0x22"

definition own_command_for :: "string \<Rightarrow> string" where
  "own_command_for exe = dquote # exe @ [dquote] @ '' '' @ OWNER_MARKER"

definition owned_path :: "string \<Rightarrow> string option" where
  "owned_path value =
     (case strip_suffix OWNER_MARKER (trim value) of
        None \<Rightarrow> None
      | Some quoted_path \<Rightarrow>
          (case strip_prefix [dquote] (trim_end quoted_path) of
             None \<Rightarrow> None
           | Some path \<Rightarrow>
               (case strip_suffix [dquote] path of
                  None \<Rightarrow> None
                | Some path \<Rightarrow> if path \<noteq> [] \<and> dquote \<notin> set path then Some path else None)))"

definition is_owned_command :: "string \<Rightarrow> bool" where
  "is_owned_command value \<longleftrightarrow> owned_path value \<noteq> None"

definition normalize_command :: "string \<Rightarrow> string" where
  "normalize_command s = to_lowercase (replace_char (CHR ''/'') [CHR 0x5C] (trim s))"

definition names_deleted_exe :: "string \<Rightarrow> string \<Rightarrow> bool" where
  "names_deleted_exe value exe \<longleftrightarrow> is_owned_command value \<and>
     is_some_and (owned_path value) (\<lambda>path. normalize_command path = normalize_command exe)"

definition target_missing :: "ifeo_env \<Rightarrow> string \<Rightarrow> bool" where
  "target_missing E value = is_some_and (owned_path value) (\<lambda>path. \<not> ie_is_file E path)"

datatype debugger_state =
    ReplacementDisabled
  | ReplacementEnabled
  | ReplacementStale string
  | ReplacementConflict string

definition state_for_exe :: "ifeo_env \<Rightarrow> string \<Rightarrow> ifeo_key \<Rightarrow> debugger_state" where
  "state_for_exe E exe k =
     (case read_debugger E k of
        DebuggerAbsent \<Rightarrow> ReplacementDisabled
      | DebuggerInvalid \<Rightarrow> ReplacementConflict ''the existing debugger registration is unreadable or malformed''
      | DebuggerText value \<Rightarrow>
          if \<not> is_owned_command value then ReplacementConflict value
          else if normalize_command value = normalize_command (own_command_for exe) then ReplacementEnabled
          else ReplacementStale value)"

definition is_replacement_enabled :: "ifeo_env \<Rightarrow> ifeo_key \<Rightarrow> bool" where
  "is_replacement_enabled E k =
     (case ie_current_exe E of
        Inl _ \<Rightarrow> False
      | Inr exe \<Rightarrow>
          (case state_for_exe E exe k of ReplacementEnabled \<Rightarrow> True | ReplacementStale _ \<Rightarrow> True | _ \<Rightarrow> False))"

section \<open>Setting and removing it\<close>

text \<open>\<open>Path::file_name\<close> of a path with a drive letter or none.\<close>

definition without_drive :: "string \<Rightarrow> string" where
  "without_drive p =
     (case p of a # b # rest \<Rightarrow> if b = CHR '':'' \<and> is_ascii_alpha a then rest else p | _ \<Rightarrow> p)"

definition file_name_of :: "string \<Rightarrow> string option" where
  "file_name_of p =
     (case rev (filter (\<lambda>c. c \<noteq> [] \<and> c \<noteq> ''.'')
         (split_on (CHR 0x5C) (replace_char (CHR ''/'') [CHR 0x5C] (without_drive p)))) of
        [] \<Rightarrow> None
      | c # _ \<Rightarrow> if c = ''..'' then None else Some c)"

definition replacement_error :: "string \<Rightarrow> tm_error" where
  "replacement_error detail = tm_platform ''Task Manager replacement'' detail"

definition validate_target :: "ifeo_env \<Rightarrow> string \<Rightarrow> tm_error + unit" where
  "validate_target E exe =
     (let name = unwrap_or (map_option to_ascii_lowercase (file_name_of exe)) [] in
      if name = ''taskmgr.exe'' then
        Inl (replacement_error ''an executable named taskmgr.exe cannot replace the Task Manager'')
      else if exe = [] \<or> dquote \<in> set exe then
        Inl (replacement_error ''the executable path cannot be quoted as a debugger command'')
      else if \<not> ie_is_file E exe then Inl (replacement_error (exe @ '' is not an executable file''))
      else Inr ())"

definition set_direct_for_exe ::
    "ifeo_env \<Rightarrow> bool \<Rightarrow> string \<Rightarrow> ifeo_key \<Rightarrow> (tm_error + unit) \<times> ifeo_key" where
  "set_direct_for_exe E enabled exe k =
     (let current = state_for_exe E exe k in
      if enabled then
        (case current of
           ReplacementConflict value \<Rightarrow>
             (Inl (replacement_error (''another debugger is already registered: '' @ value)), k)
         | _ \<Rightarrow>
             (case validate_target E exe of
                Inl e \<Rightarrow> (Inl e, k)
              | Inr _ \<Rightarrow> write_debugger E (own_command_for exe) k))
      else
        (case current of
           ReplacementDisabled \<Rightarrow> (Inr (), k)
         | ReplacementConflict value \<Rightarrow>
             (Inl (replacement_error (''refusing to remove another debugger: '' @ value)), k)
         | _ \<Rightarrow> delete_debugger E k))"

definition set_direct :: "ifeo_env \<Rightarrow> bool \<Rightarrow> ifeo_key \<Rightarrow> (tm_error + unit) \<times> ifeo_key" where
  "set_direct E enabled k =
     (case ie_current_exe E of
        Inl e \<Rightarrow> (Inl (tm_platform ''current_exe'' e), k)
      | Inr exe \<Rightarrow> set_direct_for_exe E enabled exe k)"

definition remove_for_deleted_exe :: "ifeo_env \<Rightarrow> string \<Rightarrow> ifeo_key \<Rightarrow> (tm_error + bool) \<times> ifeo_key" where
  "remove_for_deleted_exe E exe k =
     (case read_debugger E k of
        DebuggerText value \<Rightarrow>
          if names_deleted_exe value exe then
            (case delete_debugger E k of (Inl e, k) \<Rightarrow> (Inl e, k) | (Inr _, k) \<Rightarrow> (Inr True, k))
          else (Inr False, k)
      | DebuggerInvalid \<Rightarrow>
          (Inl (tm_platform ''Task Manager replacement cleanup''
             ''cannot verify the IFEO registration; program files were not removed''), k)
      | DebuggerAbsent \<Rightarrow> (Inr False, k))"

section \<open>Starting the built-in program\<close>

text \<open>A launch is listed with the key as it was when the program was started.\<close>

type_synonym launch_result = "(tm_error + unit) \<times> ifeo_key \<times> (string \<times> ifeo_key) list"

definition launch_native_task_manager_plain :: "ifeo_env \<Rightarrow> ifeo_key \<Rightarrow> launch_result" where
  "launch_native_task_manager_plain E k =
     (case ie_system_task_manager E of
        Inl e \<Rightarrow> (Inl e, k, [])
      | Inr path \<Rightarrow> (let command = dquote # path @ [dquote] in (ie_probe E command, k, [(command, k)])))"

definition native_error :: "string \<Rightarrow> tm_error" where
  "native_error detail = tm_platform ''Windows Task Manager'' detail"

definition launch_then_restore :: "ifeo_env \<Rightarrow> string \<Rightarrow> ifeo_key \<Rightarrow> launch_result" where
  "launch_then_restore E original k =
     (case launch_native_task_manager_plain E k of
        (launch, k, launches) \<Rightarrow>
          (case write_debugger E original k of
             (restore, k) \<Rightarrow>
               (case (launch, restore) of
                  (Inr _, Inr _) \<Rightarrow> Inr ()
                | (Inl launch, Inr _) \<Rightarrow> Inl launch
                | (Inr _, Inl restore) \<Rightarrow> Inl (native_error
                    (''Task Manager was launched, but TaskMan interception could not be restored: '' @ tm_error_text restore))
                | (Inl launch, Inl restore) \<Rightarrow> Inl (native_error
                    (''launch failed: '' @ tm_error_text launch @
                     ''; restoring TaskMan interception also failed: '' @ tm_error_text restore)),
                k, launches)))"

definition refuse_native :: "debugger_value \<Rightarrow> tm_error" where
  "refuse_native d =
     (case d of
        DebuggerText value \<Rightarrow> native_error (''another IFEO debugger is registered for Taskmgr.exe: '' @ value)
      | _ \<Rightarrow> native_error ''the Taskmgr.exe IFEO debugger registration is unreadable or malformed'')"

definition launch_native_task_manager_direct :: "ifeo_env \<Rightarrow> ifeo_key \<Rightarrow> launch_result" where
  "launch_native_task_manager_direct E k =
     (case read_debugger E k of
        DebuggerAbsent \<Rightarrow> launch_native_task_manager_plain E k
      | DebuggerText original \<Rightarrow>
          if is_owned_command original then
            (case delete_debugger E k of
               (Inl e, k) \<Rightarrow> (Inl e, k, [])
             | (Inr _, k) \<Rightarrow> launch_then_restore E original k)
          else (Inl (refuse_native (DebuggerText original)), k, [])
      | DebuggerInvalid \<Rightarrow> (Inl (refuse_native DebuggerInvalid), k, []))"

text \<open>The elevated copy of the program is a process of its own: its accesses are those of \<open>helper\<close>,
  and its exit tells only whether it succeeded.\<close>

definition launch_native_task_manager ::
    "ifeo_env \<Rightarrow> (string \<Rightarrow> ifeo_key \<Rightarrow> launch_result) \<Rightarrow> ifeo_key \<Rightarrow> launch_result" where
  "launch_native_task_manager E helper k =
     (case read_debugger E k of
        DebuggerAbsent \<Rightarrow> launch_native_task_manager_plain E k
      | DebuggerText value \<Rightarrow>
          if is_owned_command value then
            (if ie_elevated E then launch_native_task_manager_direct E k
             else
               (case ie_current_exe E of
                  Inl e \<Rightarrow> (Inl (tm_platform ''current_exe'' e), k, [])
                | Inr exe \<Rightarrow> helper (dquote # exe @ [dquote] @ '' --native-taskmgr-helper'') k))
          else (Inl (refuse_native (DebuggerText value)), k, [])
      | DebuggerInvalid \<Rightarrow> (Inl (refuse_native DebuggerInvalid), k, []))"


section \<open>Values that are written and read\<close>

lemma utf16_units_wstr: "utf16_units (wstr_bytes s) = map (\<lambda>c. of_nat (of_char c)) s @ [0]"
proof (induction s)
  case Nil
  show ?case by (simp add: wstr_bytes_def)
next
  case (Cons c s)
  have "(ucast (of_nat (of_char c) :: u8) :: u16) = of_nat (of_char c)"
    by (rule word_unat_eq_iff [THEN iffD2]) (simp add: unsigned_ucast_eq unat_of_nat take_bit_eq_mod)
  then show ?case using Cons by (simp add: wstr_bytes_def)
qed

lemma length_wstr_bytes: "length (wstr_bytes s) = 2 * length s + 2"
  by (induction s) (simp_all add: wstr_bytes_def)

lemma unit_of_char: "unat (of_nat (of_char c) :: u16) = of_char c"
proof -
  have "(of_char c :: nat) < 2 ^ 16"
    by (rule less_trans [OF code_less [of c, unfolded code_def]]) simp
  then show ?thesis by (simp add: unat_of_nat)
qed

lemma code_zero: "of_char c = (0 :: nat) \<longleftrightarrow> c = CHR 0x00"
  using code_inject [of c "CHR 0x00"] by (simp add: code_def)

lemma from_utf16_units:
  assumes "CHR 0x00 \<notin> set s"
  shows "from_utf16_lossy (takeWhile (\<lambda>u. u \<noteq> 0) (map (\<lambda>c. of_nat (of_char c)) s @ [0])) = s"
proof -
  have nz: "(of_nat (of_char c) :: u16) \<noteq> 0" if "c \<in> set s" for c
  proof
    assume "(of_nat (of_char c) :: u16) = 0"
    then have "of_char c = (0 :: nat)" using unit_of_char [of c] by simp
    with that assms show False by (simp add: code_zero)
  qed
  then have "takeWhile (\<lambda>u. u \<noteq> 0) (map (\<lambda>c. of_nat (of_char c)) s @ [0]) = map (\<lambda>c. of_nat (of_char c) :: u16) s"
    by (subst takeWhile_append2) auto
  then show ?thesis by (simp add: from_utf16_lossy_def unit_of_char comp_def)
qed

lemma decode_wstr:
  "CHR 0x00 \<notin> set s \<Longrightarrow> length s < 32768 \<Longrightarrow> decode_debugger (True, wstr_bytes s) = DebuggerText s"
  by (simp add: decode_debugger_def length_wstr_bytes utf16_units_wstr from_utf16_units)

text \<open>A text that was read has no terminator in it.\<close>

lemma decoded_no_nul:
  assumes "decode_debugger v = DebuggerText s" shows "CHR 0x00 \<notin> set s"
proof
  assume nul: "CHR 0x00 \<in> set s"
  have s: "s = from_utf16_lossy (takeWhile (\<lambda>u. u \<noteq> 0) (utf16_units (snd v)))"
    using assms by (simp add: decode_debugger_def split: if_splits)
  from nul obtain u where u: "u \<in> set (takeWhile (\<lambda>u. u \<noteq> 0) (utf16_units (snd v)))"
      "(if unat u < 256 then char_of (unat u) else CHR ''?'') = CHR 0x00"
    unfolding s from_utf16_lossy_def by auto
  from u(1) have "u \<noteq> 0" by (blast dest: set_takeWhileD)
  then have nz: "unat u \<noteq> 0" by (simp add: unat_eq_0)
  have "char_of (unat u) = CHR 0x00" "unat u < 256" using u(2) by (auto split: if_splits)
  then show False using nz code_char_of [of "unat u"] code_zero [of "char_of (unat u)"] by (simp add: code_def)
qed

lemma read_debugger_Text:
  "read_debugger E k = DebuggerText s \<longleftrightarrow>
     ie_readable E \<and> ik_exists k \<and> ie_query_ok E \<and> (\<exists>v. ik_value k = Some v \<and> decode_debugger v = DebuggerText s)"
  by (auto simp: read_debugger_def split: option.split)

lemma owned_path_own_command:
  assumes "exe \<noteq> []" "dquote \<notin> set exe"
  shows "owned_path (own_command_for exe) = Some exe"
proof -
  have trim: "trim (own_command_for exe) = own_command_for exe"
    by (rule trimmedI [unfolded trimmed_def]) (simp add: own_command_for_def OWNER_MARKER_def dquote_def is_whitespace_def code_def)
  have suffix: "strip_suffix OWNER_MARKER (own_command_for exe) = Some (dquote # exe @ [dquote] @ '' '')"
    by (simp add: strip_suffix_Some_iff own_command_for_def)
  have ws: "is_whitespace (CHR '' '')" "\<not> is_whitespace dquote" by (simp_all add: is_whitespace_def dquote_def code_def)
  have inner: "trim_end (dquote # exe @ [dquote] @ '' '') = dquote # exe @ [dquote]"
    by (simp add: trim_end_def ws)
  have close: "strip_suffix [dquote] (exe @ [dquote]) = Some exe"
    by (simp add: strip_suffix_Some_iff)
  have strip: "strip_prefix [dquote] (dquote # exe @ [dquote]) = Some (exe @ [dquote])"
    by (simp add: strip_prefix_Some_iff)
  show ?thesis
    by (simp only: owned_path_def trim suffix inner strip close option.case) (simp add: assms)
qed

section \<open>The value of another product\<close>

definition foreign_registration :: "ifeo_key \<Rightarrow> bool" where
  "foreign_registration k \<longleftrightarrow> ik_exists k \<and>
     (case ik_value k of
        None \<Rightarrow> False
      | Some v \<Rightarrow> (case decode_debugger v of DebuggerText t \<Rightarrow> \<not> is_owned_command t | _ \<Rightarrow> True))"

text \<open>What the program does to the key: the setting is changed for a given image or for the one
  running, the uninstaller cleans up, the built-in program is started from the window (with a helper
  whose accesses are those of its own environment), and the helper itself, or anybody who starts the
  program with its option, runs the direct launch on its own.\<close>

datatype replacement_op =
    SetReplacement bool string | SetForCurrent bool | RemoveForDeleted string | LaunchNative ifeo_env
  | LaunchDirect

definition replacement_do :: "ifeo_env \<times> replacement_op \<Rightarrow> ifeo_key \<Rightarrow> ifeo_key" where
  "replacement_do step k =
     (case step of
        (E, SetReplacement enabled exe) \<Rightarrow> snd (set_direct_for_exe E enabled exe k)
      | (E, SetForCurrent enabled) \<Rightarrow> snd (set_direct E enabled k)
      | (E, RemoveForDeleted exe) \<Rightarrow> snd (remove_for_deleted_exe E exe k)
      | (E, LaunchNative H) \<Rightarrow>
          fst (snd (launch_native_task_manager E (\<lambda>_. launch_native_task_manager_direct H) k))
      | (E, LaunchDirect) \<Rightarrow> fst (snd (launch_native_task_manager_direct E k)))"

lemma foreign_read:
  assumes "foreign_registration k"
  shows "read_debugger E k = DebuggerInvalid \<or> (\<exists>t. read_debugger E k = DebuggerText t \<and> \<not> is_owned_command t)"
  using assms
  by (auto simp: foreign_registration_def read_debugger_def decode_debugger_def split: option.splits debugger_value.splits if_splits)

lemma foreign_conflict: "foreign_registration k \<Longrightarrow> \<exists>t. state_for_exe E exe k = ReplacementConflict t"
  using foreign_read [of k E] by (auto simp: state_for_exe_def)

lemma foreign_set: "foreign_registration k \<Longrightarrow> \<exists>e. set_direct_for_exe E enabled exe k = (Inl e, k)"
  using foreign_conflict [of k E exe] by (auto simp: set_direct_for_exe_def Let_def)

lemma foreign_set_key: "foreign_registration k \<Longrightarrow> snd (set_direct_for_exe E enabled exe k) = k"
  using foreign_set [of k E enabled exe] by auto

lemma foreign_refused:
  "foreign_registration k \<Longrightarrow>
   \<exists>e. launch_native_task_manager E helper k = (Inl e, k, [])"
  using foreign_read [of k E] by (auto simp: launch_native_task_manager_def)

lemma foreign_refused_direct:
  "foreign_registration k \<Longrightarrow> \<exists>e. launch_native_task_manager_direct E k = (Inl e, k, [])"
  using foreign_read [of k E] by (auto simp: launch_native_task_manager_direct_def)

lemma foreign_step:
  assumes "foreign_registration k" shows "replacement_do step k = k"
proof -
  obtain E p where step: "step = (E, p)" by (cases step)
  have "snd (set_direct E enabled k) = k" for enabled
    using foreign_set_key [OF assms] by (simp add: set_direct_def split: sum.split)
  moreover have "snd (remove_for_deleted_exe E exe k) = k" for exe
    using foreign_read [OF assms, of E] by (auto simp: remove_for_deleted_exe_def names_deleted_exe_def)
  moreover have "fst (snd (launch_native_task_manager E h k)) = k" for h
    using foreign_refused [OF assms, of E h] by auto
  moreover have "fst (snd (launch_native_task_manager_direct E k)) = k"
    using foreign_refused_direct [OF assms, of E] by auto
  ultimately show ?thesis
    by (cases p) (simp_all add: replacement_do_def step foreign_set_key [OF assms])
qed

text \<open>
  C11: The registration of another product is never touched. While the debugger value of taskmgr.exe
  is not one of this program's own commands - another command, or data that cannot be read as one -
  no sequence of operations, elevated or not, whatever accesses succeed, changes the registry key;
  enabling and disabling report an error, and so does starting the built-in program, from the window
  or directly by the helper's option, and it is not started.
\<close>

theorem foreign_debugger_untouched:
  assumes "foreign_registration k"
  shows "fold replacement_do steps k = k \<and> \<not> is_ok (fst (set_direct_for_exe E enabled exe k)) \<and>
    \<not> is_ok (fst (launch_native_task_manager E helper k)) \<and> snd (snd (launch_native_task_manager E helper k)) = [] \<and>
    \<not> is_ok (fst (launch_native_task_manager_direct E k)) \<and> snd (snd (launch_native_task_manager_direct E k)) = []"
proof -
  have "fold replacement_do steps k = k"
    by (induction steps) (simp_all add: foreign_step [OF assms])
  then show ?thesis
    using foreign_refused [OF assms, of E helper] foreign_refused_direct [OF assms, of E]
      foreign_set [OF assms, of E enabled exe] by auto
qed

definition sample_ifeo :: ifeo_env where
  "sample_ifeo =
     \<lparr>ie_readable = True, ie_query_ok = True, ie_write_opens = True, ie_delete_ok = True, ie_create_ok = True,
      ie_set_ok = True, ie_is_file = (\<lambda>p. True), ie_elevated = True, ie_current_exe = Inr ''C:/t.exe'',
      ie_system_task_manager = Inr ''C:/Windows/Taskmgr.exe'', ie_probe = (\<lambda>_. Inr ())\<rparr>"

lemma foreign_debugger_untouched_witness:
  "replacement_do (sample_ifeo, SetReplacement False ''C:/t.exe'') \<lparr>ik_exists = True, ik_value = Some (True, wstr_bytes ''x.exe'')\<rparr> =
     \<lparr>ik_exists = True, ik_value = Some (True, wstr_bytes ''x.exe'')\<rparr>"
proof -
  have "\<not> is_owned_command ''x.exe''" by code_simp
  then have "foreign_registration \<lparr>ik_exists = True, ik_value = Some (True, wstr_bytes ''x.exe'')\<rparr>"
    by (simp add: foreign_registration_def decode_wstr)
  from foreign_debugger_untouched [OF this, of "[(sample_ifeo, SetReplacement False ''C:/t.exe'')]"] show ?thesis by simp
qed

section \<open>Enabling and disabling\<close>

text \<open>
  Enabling that reports success has taken effect: the key then holds a command that is read back
  as this program's own, names exactly the given executable, is reported as enabled, and the
  executable is a file whose name is not that of the program it stands in for.
\<close>

theorem enable_takes_effect:
  assumes "set_direct_for_exe E True exe k = (Inr (), k')" "ie_readable E" "ie_query_ok E" "CHR 0x00 \<notin> set exe" "length exe < 32700"
  shows "state_for_exe E exe k' = ReplacementEnabled \<and> read_debugger E k' = DebuggerText (own_command_for exe) \<and>
    owned_path (own_command_for exe) = Some exe \<and> \<not> target_missing E (own_command_for exe) \<and>
    map_option to_ascii_lowercase (file_name_of exe) \<noteq> Some ''taskmgr.exe''"
proof -
  have valid: "validate_target E exe = Inr ()" and "write_debugger E (own_command_for exe) k = (Inr (), k')"
    using assms(1) by (auto simp: set_direct_for_exe_def Let_def state_for_exe_def read_debugger_def
        split: debugger_state.splits sum.splits if_splits)
  then have k': "ik_exists k'" "ik_value k' = Some (True, wstr_bytes (own_command_for exe))"
    by (auto simp: write_debugger_def split: if_splits)
  have exe: "exe \<noteq> []" "dquote \<notin> set exe" "ie_is_file E exe"
    "map_option to_ascii_lowercase (file_name_of exe) \<noteq> Some ''taskmgr.exe''"
    using valid by (auto simp: validate_target_def Let_def split: if_splits)
  have "decode_debugger (True, wstr_bytes (own_command_for exe)) = DebuggerText (own_command_for exe)"
    using assms(4,5) by (intro decode_wstr) (auto simp: own_command_for_def OWNER_MARKER_def dquote_def)
  then have read: "read_debugger E k' = DebuggerText (own_command_for exe)"
    using k' assms(2,3) by (simp add: read_debugger_def)
  show ?thesis
    using owned_path_own_command [OF exe(1,2)] exe(3,4)
    by (simp add: state_for_exe_def read is_owned_command_def target_missing_def)
qed

lemma enable_takes_effect_witness:
  "state_for_exe sample_ifeo ''C:/t.exe'' (snd (set_direct_for_exe sample_ifeo True ''C:/t.exe'' \<lparr>ik_exists = False, ik_value = None\<rparr>)) =
     ReplacementEnabled"
proof -
  have "validate_target sample_ifeo ''C:/t.exe'' = Inr ()" by code_simp
  then have "set_direct_for_exe sample_ifeo True ''C:/t.exe'' \<lparr>ik_exists = False, ik_value = None\<rparr> =
      (Inr (), \<lparr>ik_exists = True, ik_value = Some (True, wstr_bytes (own_command_for ''C:/t.exe''))\<rparr>)"
    by (simp add: set_direct_for_exe_def state_for_exe_def read_debugger_def write_debugger_def sample_ifeo_def)
  from enable_takes_effect [OF this] this show ?thesis by (simp add: sample_ifeo_def)
qed

text \<open>Disabling that reports success has removed the value - unless the key could not be opened for
  writing, which is reported as success too.\<close>

theorem disable_outcome:
  assumes "set_direct_for_exe E False exe k = (Inr (), k')"
  shows "state_for_exe E exe k' = ReplacementDisabled \<or>
    k' = k \<and> \<not> ie_write_opens E \<and> state_for_exe E exe k \<noteq> ReplacementDisabled"
  using assms
  by (auto simp: set_direct_for_exe_def delete_debugger_def state_for_exe_def read_debugger_def
      split: debugger_state.splits if_splits option.splits debugger_value.splits)

text \<open>
  Removing the program can leave its registration behind and report that it was removed: when the
  key cannot be opened for writing, for whatever reason, deleting the value succeeds without
  deleting it, so the registration goes on naming the executable that is about to be deleted.
\<close>

theorem removal_claims_unopened_key:
  assumes "read_debugger E k = DebuggerText value" "names_deleted_exe value exe" "\<not> ie_write_opens E"
  shows "remove_for_deleted_exe E exe k = (Inr True, k)"
  using assms by (simp add: remove_for_deleted_exe_def delete_debugger_def)

lemma removal_claims_unopened_key_witness:
  "remove_for_deleted_exe (sample_ifeo\<lparr>ie_write_opens := False\<rparr>) ''C:/t.exe''
     \<lparr>ik_exists = True, ik_value = Some (True, wstr_bytes (own_command_for ''C:/t.exe''))\<rparr> =
   (Inr True, \<lparr>ik_exists = True, ik_value = Some (True, wstr_bytes (own_command_for ''C:/t.exe''))\<rparr>)"
proof (rule removal_claims_unopened_key)
  let ?c = "own_command_for ''C:/t.exe''"
  show "read_debugger (sample_ifeo\<lparr>ie_write_opens := False\<rparr>) \<lparr>ik_exists = True, ik_value = Some (True, wstr_bytes ?c)\<rparr> =
      DebuggerText ?c"
    by (simp add: read_debugger_Text sample_ifeo_def)
      (rule decode_wstr, simp_all add: own_command_for_def OWNER_MARKER_def dquote_def)
  show "names_deleted_exe ?c ''C:/t.exe''"
    by (simp add: names_deleted_exe_def is_owned_command_def owned_path_own_command dquote_def)
  show "\<not> ie_write_opens (sample_ifeo\<lparr>ie_write_opens := False\<rparr>)" by simp
qed

section \<open>Starting the built-in program\<close>

lemma write_debugger_read:
  assumes "write_debugger E t k = (Inr (), k')" "ie_readable E" "ie_query_ok E" "CHR 0x00 \<notin> set t" "length t < 32768"
  shows "read_debugger E k' = DebuggerText t"
proof -
  have "ik_exists k' \<and> ik_value k' = Some (True, wstr_bytes t)"
    using assms(1) by (auto simp: write_debugger_def split: if_splits)
  with assms show ?thesis by (simp add: read_debugger_def decode_wstr)
qed

lemma plain_launch:
  "launch_native_task_manager_plain E k = (r, k', launches) \<Longrightarrow>
   k' = k \<and> (\<forall>l\<in>set launches. snd l = k) \<and> (r = Inr () \<longrightarrow> launches \<noteq> [])"
  by (auto simp: launch_native_task_manager_plain_def Let_def split: sum.splits)

lemma launch_then_restore_Inr:
  assumes "launch_then_restore E t k = (Inr (), k', launches)"
  shows "launches \<noteq> [] \<and> (\<forall>l\<in>set launches. snd l = k) \<and> write_debugger E t k = (Inr (), k')"
  using assms plain_launch [of E k]
  by (auto simp: launch_then_restore_def split: prod.splits sum.splits)

lemma delete_debugger_Inr:
  "delete_debugger E k = (Inr (), k') \<Longrightarrow> ik_exists k \<and> ie_write_opens E \<Longrightarrow> ie_readable E \<Longrightarrow>
   read_debugger E k' = DebuggerAbsent"
  by (auto simp: delete_debugger_def read_debugger_def split: if_splits)

text \<open>
  C15: Starting the built-in program leaves the registration as it was. When it reports success, the
  debugger value reads exactly as before, the program was started, and - where the key can be opened
  for writing - it was started while no debugger value was set, so that it is the built-in program
  that ran.
\<close>

theorem native_launch_keeps_registration:
  assumes ok: "launch_native_task_manager_direct E k = (Inr (), k', launches)"
    and short: "\<forall>t. read_debugger E k = DebuggerText t \<longrightarrow> length t < 32768"
  shows "read_debugger E k' = read_debugger E k \<and> launches \<noteq> [] \<and>
    (ie_write_opens E \<longrightarrow> (\<forall>l\<in>set launches. read_debugger E (snd l) = DebuggerAbsent))"
proof (cases "read_debugger E k")
  case DebuggerAbsent
  with ok have "launch_native_task_manager_plain E k = (Inr (), k', launches)"
    by (simp add: launch_native_task_manager_direct_def)
  from plain_launch [OF this] DebuggerAbsent show ?thesis by auto
next
  case DebuggerInvalid
  with ok show ?thesis by (simp add: launch_native_task_manager_direct_def)
next
  case (DebuggerText t)
  then obtain v where k: "ie_readable E" "ik_exists k" "ie_query_ok E" "decode_debugger v = DebuggerText t"
    by (auto simp: read_debugger_Text)
  from ok DebuggerText obtain m where del: "delete_debugger E k = (Inr (), m)"
      and launch: "launch_then_restore E t m = (Inr (), k', launches)"
    by (auto simp: launch_native_task_manager_direct_def split: if_splits prod.splits sum.splits)
  note restored = launch_then_restore_Inr [OF launch]
  have "read_debugger E k' = DebuggerText t"
    using restored short DebuggerText k by (intro write_debugger_read [of E t m]) (auto dest: decoded_no_nul)
  moreover have "ie_write_opens E \<longrightarrow> read_debugger E m = DebuggerAbsent"
    using delete_debugger_Inr [OF del] k by simp
  ultimately show ?thesis using restored DebuggerText by simp
qed

lemma native_launch_keeps_registration_witness:
  "read_debugger sample_ifeo (fst (snd (launch_native_task_manager_direct sample_ifeo
     \<lparr>ik_exists = True, ik_value = Some (True, wstr_bytes (own_command_for ''C:/t.exe''))\<rparr>))) =
   DebuggerText (own_command_for ''C:/t.exe'')"
proof -
  let ?c = "own_command_for ''C:/t.exe''"
  let ?k = "\<lparr>ik_exists = True, ik_value = Some (True, wstr_bytes ?c)\<rparr>"
  have shown: "read_debugger sample_ifeo ?k = DebuggerText ?c"
    by (simp add: read_debugger_Text sample_ifeo_def)
      (rule decode_wstr, simp_all add: own_command_for_def OWNER_MARKER_def dquote_def)
  have owned: "is_owned_command ?c" by (simp add: is_owned_command_def owned_path_own_command dquote_def)
  have "launch_native_task_manager_direct sample_ifeo ?k =
      (Inr (), ?k, [(dquote # ''C:/Windows/Taskmgr.exe'' @ [dquote], \<lparr>ik_exists = True, ik_value = None\<rparr>)])"
    unfolding launch_native_task_manager_direct_def shown
    by (simp add: owned delete_debugger_def launch_then_restore_def launch_native_task_manager_plain_def
        write_debugger_def sample_ifeo_def)
  from native_launch_keeps_registration [OF this] shown this show ?thesis
    by (simp add: own_command_for_def OWNER_MARKER_def)
qed

end
