(* ===== verification/Setup_Run.thy ===== *)
theory Setup_Run
  imports Service_Install Payload_Roundtrip Task_Manager_Replacement "HOL-Library.Sublist"
begin

text \<open>
  The setup program (crates/tm-installer/src/options.rs, install.rs): its command line, the plan it
  shows, and installing and uninstalling as one sequence of progress notes and actions. The payload
  is parsed and verified by the model of the archive, the Task Manager registration is removed by
  the model of the replacement; the other actions are listed, and the machine says which of them
  fail. Error texts are shortened.
\<close>

section \<open>Command line\<close>

datatype setup_mode = ModeInstall | ModeUninstall

record setup_options =
  so_mode :: setup_mode
  so_silent :: bool
  so_start_menu :: bool
  so_desktop :: bool
  so_launch :: bool
  so_service :: bool
  so_dry_run :: bool
  so_help :: bool

definition default_options :: setup_options where
  "default_options = \<lparr>so_mode = ModeInstall, so_silent = False, so_start_menu = True, so_desktop = False,
     so_launch = False, so_service = True, so_dry_run = False, so_help = False\<rparr>"

definition arguments_error :: "string \<Rightarrow> tm_error" where
  "arguments_error detail = tm_platform ''setup arguments'' detail"

definition parse_argument :: "string \<Rightarrow> setup_options \<Rightarrow> tm_error + setup_options" where
  "parse_argument raw opts =
     (let lower = to_ascii_lowercase raw in
      if lower \<in> {''/s'', ''/silent'', ''--silent''} then Inr (opts\<lparr>so_silent := True\<rparr>)
      else if lower \<in> {''/uninstall'', ''--uninstall'', ''-u''} then Inr (opts\<lparr>so_mode := ModeUninstall\<rparr>)
      else if lower \<in> {''/?'', ''--help'', ''-h''} then Inr (opts\<lparr>so_help := True\<rparr>)
      else if lower \<in> {''/dry-run'', ''--dry-run''} then Inr (opts\<lparr>so_dry_run := True\<rparr>)
      else if raw = ''--no-start-menu'' then Inr (opts\<lparr>so_start_menu := False\<rparr>)
      else if raw = ''--desktop'' then Inr (opts\<lparr>so_desktop := True\<rparr>)
      else if raw = ''--launch'' then Inr (opts\<lparr>so_launch := True\<rparr>)
      else if raw = ''--no-service'' then Inr (opts\<lparr>so_service := False\<rparr>)
      else if starts_with lower ''/d='' \<or> starts_with lower ''/d:'' then
        Inl (arguments_error ''custom install directories are not supported'')
      else Inl (arguments_error (''unrecognized argument '' @ raw)))"

fun parse_arguments :: "string list \<Rightarrow> setup_options \<Rightarrow> tm_error + setup_options" where
  "parse_arguments [] opts = Inr opts"
| "parse_arguments (raw # args) opts = and_then (parse_argument raw opts) (parse_arguments args)"

definition parse_setup :: "string list \<Rightarrow> tm_error + setup_options" where
  "parse_setup args = parse_arguments args default_options"

section \<open>The plan\<close>

definition install_steps :: "setup_options \<Rightarrow> string list" where
  "install_steps opts =
     [''Extract installer payload'', ''Stop running Task Manager'',
      if so_service opts then ''Install program files and register service''
      else ''Install program files without background service'',
      ''Register uninstaller in Settings''] @
     (if so_start_menu opts \<or> so_desktop opts then [''Create shortcuts''] else []) @
     (if so_launch opts then [''Launch Task Manager''] else [])"

definition uninstall_steps :: "string list" where
  "uninstall_steps =
     [''Restore Windows Task Manager'', ''Stop running Task Manager'', ''Remove background service'',
      ''Remove shortcuts'', ''Remove program files'', ''Remove uninstaller from Settings'']"

definition describe :: "setup_options \<Rightarrow> string list" where
  "describe opts =
     (let steps = (case so_mode opts of ModeInstall \<Rightarrow> install_steps opts | ModeUninstall \<Rightarrow> uninstall_steps) in
      map (\<lambda>(index, label). show_nat (index + 1) @ ''. '' @ label) (enumerate 0 steps))"

section \<open>Runs\<close>

datatype step_state = StepPending | StepRunning | StepDone | StepSkipped | StepFailed

datatype setup_action =
    ActStaging | ActExtract | ActStopGui string | ActRemoveLegacyLog | ActHelper string string string
  | ActInstallFiles string | ActCopyExtra string | ActCopySetup string | ActWriteArp | ActShortcut string
  | ActLaunch string | ActRestoreTaskManager | ActStopService | ActDeleteService | ActRemoveShortcut string
  | ActRelocate | ActRemoveDirectory string | ActRestoreSetup string | ActScheduleDelete string | ActRemoveArp

datatype setup_item = Progress nat step_state string | Acted setup_action

type_synonym 'a setup_run = "(tm_error + 'a) \<times> setup_item list"

definition rthen :: "'a setup_run \<Rightarrow> ('a \<Rightarrow> 'b setup_run) \<Rightarrow> 'b setup_run" where
  "rthen m f = (case m of (Inl e, items) \<Rightarrow> (Inl e, items) | (Inr v, items) \<Rightarrow> (case f v of (r, rest) \<Rightarrow> (r, items @ rest)))"

definition lift :: "tm_error + 'a \<Rightarrow> 'a setup_run" where "lift r = (r, [])"

definition progress :: "nat \<Rightarrow> step_state \<Rightarrow> string \<Rightarrow> unit setup_run" where
  "progress i s detail = (Inr (), [Progress i s detail])"

text \<open>What the machine answers. \<open>mc_stopped\<close> instances were running, \<open>mc_orphan\<close> is where the
  setup program was moved if it lay in the tree.\<close>

record setup_machine =
  mc_elevated :: bool
  mc_user :: "tm_error + unit"
  mc_sid :: "tm_error + string"
  mc_launchable :: "tm_error + unit"
  mc_install_dir :: "tm_error + string"
  mc_setup_image :: "tm_error + unit"
  mc_image_bytes :: "tm_error + bytes"
  mc_staging :: string
  mc_fails :: "setup_action \<Rightarrow> tm_error option"
  mc_stopped :: nat
  mc_had_legacy_log :: bool
  mc_is_file :: "string \<Rightarrow> bool"
  mc_is_dir :: "string \<Rightarrow> bool"
  mc_copied :: bool
  mc_start_menu_dir :: "tm_error + string"
  mc_desktop_dir :: "tm_error + string"
  mc_orphan :: "string option"
  mc_service_data_dir :: "tm_error + string"

definition act :: "setup_machine \<Rightarrow> setup_action \<Rightarrow> unit setup_run" where
  "act M a = (case mc_fails M a of Some e \<Rightarrow> Inl e | None \<Rightarrow> Inr (), [Acted a])"

text \<open>An action whose failure is noted, not raised.\<close>

definition attempt :: "setup_machine \<Rightarrow> setup_action \<Rightarrow> bool setup_run" where
  "attempt M a = (Inr (mc_fails M a = None), [Acted a])"

definition SETUP_EXE :: string where "SETUP_EXE = ''taskman-setup.exe''"
definition SHORTCUT_NAME :: string where "SHORTCUT_NAME = ''Task Manager.lnk''"

section \<open>Installing\<close>

definition stopped_detail :: "nat \<Rightarrow> string" where
  "stopped_detail stopped =
     (if stopped = 0 then ''no running instance'' else ''stopped '' @ show_nat stopped @ '' running instance(s)'')"

definition stop_gui :: "setup_machine \<Rightarrow> string \<Rightarrow> unit setup_run" where
  "stop_gui M dir =
     rthen (progress 1 StepRunning ''checking for running instances'') (\<lambda>_.
     rthen (act M (ActStopGui (path_join dir GUI_EXE_NAME))) (\<lambda>_.
     progress 1 StepDone (stopped_detail (mc_stopped M))))"

definition unpack_payload :: "payload_lib \<Rightarrow> setup_machine \<Rightarrow> unit setup_run" where
  "unpack_payload L M =
     rthen (progress 0 StepRunning ''verifying embedded payload'') (\<lambda>_.
     rthen (lift (and_then (mc_image_bytes M) (parse_archive L))) (\<lambda>archive.
     rthen (lift (find_entry archive GUI_EXE_NAME)) (\<lambda>_.
     rthen (lift (find_entry archive SERVICE_EXE_NAME)) (\<lambda>_.
     rthen (lift (verify_all L archive)) (\<lambda>_.
     rthen (act M ActStaging) (\<lambda>_.
     rthen (lift (extract_to L archive [mc_staging M])) (\<lambda>(ops, extracted).
     rthen (act M ActExtract) (\<lambda>_.
     progress 0 StepDone (show_nat (length extracted) @ '' files verified'')))))))))"

definition install_program_files :: "bool \<Rightarrow> (string \<Rightarrow> unit setup_run) \<Rightarrow> unit setup_run \<Rightarrow> unit setup_run" where
  "install_program_files service helper copy_files =
     (if service then helper ''install'' else rthen (helper ''uninstall'') (\<lambda>_. copy_files))"

definition place_files :: "setup_machine \<Rightarrow> setup_options \<Rightarrow> string \<Rightarrow> string \<Rightarrow> unit setup_run" where
  "place_files M opts sid dir =
     rthen (progress 2 StepRunning dir) (\<lambda>_.
     rthen (attempt M ActRemoveLegacyLog) (\<lambda>removed.
     let legacy_log = (if \<not> removed then ''; legacy setup log kept''
         else if mc_had_legacy_log M then ''; removed legacy setup log from the service log directory'' else []) in
     rthen (install_program_files (so_service opts)
         (\<lambda>operation. act M (ActHelper (path_join (mc_staging M) GUI_EXE_NAME) operation sid))
         (act M (ActInstallFiles (path_join (mc_staging M) GUI_EXE_NAME)))) (\<lambda>_.
     rthen (progress 2 StepDone
         ((if so_service opts then ''service TaskmanCore registered and started'' else dir) @ legacy_log)) (\<lambda>_.
     if mc_is_file M (path_join (mc_staging M) ''LICENSE'')
     then rthen (attempt M (ActCopyExtra (path_join dir ''LICENSE''))) (\<lambda>_. (Inr (), []))
     else (Inr (), [])))))"

definition register_uninstaller :: "setup_machine \<Rightarrow> string \<Rightarrow> unit setup_run" where
  "register_uninstaller M dir =
     rthen (progress 3 StepRunning ''writing uninstall registry key'') (\<lambda>_.
     rthen (act M (ActCopySetup (path_join dir SETUP_EXE))) (\<lambda>_.
     rthen (act M ActWriteArp) (\<lambda>_.
     progress 3 StepDone (if mc_copied M then ''registered in Settings > Apps''
       else ''registered in Settings > Apps (uninstaller already in place)''))))"

definition shortcut_in :: "setup_machine \<Rightarrow> bool \<Rightarrow> tm_error + string \<Rightarrow> unit setup_run" where
  "shortcut_in M wanted dir =
     (if wanted then rthen (lift dir) (\<lambda>d. act M (ActShortcut (path_join d SHORTCUT_NAME))) else (Inr (), []))"

definition create_shortcuts :: "setup_machine \<Rightarrow> setup_options \<Rightarrow> nat \<Rightarrow> nat setup_run" where
  "create_shortcuts M opts at_step =
     (if so_start_menu opts \<or> so_desktop opts then
        rthen (progress at_step StepRunning ''writing shortcuts'') (\<lambda>_.
        rthen (shortcut_in M (so_start_menu opts) (mc_start_menu_dir M)) (\<lambda>_.
        rthen (shortcut_in M (so_desktop opts) (mc_desktop_dir M)) (\<lambda>_.
        rthen (progress at_step StepDone ''shortcuts created'') (\<lambda>_. (Inr (at_step + 1), [])))))
      else (Inr at_step, []))"

definition launch_program :: "setup_machine \<Rightarrow> setup_options \<Rightarrow> string \<Rightarrow> nat \<Rightarrow> unit setup_run" where
  "launch_program M opts dir at_step =
     (if so_launch opts then
        rthen (progress at_step StepRunning ''starting Task Manager'') (\<lambda>_.
        rthen (act M (ActLaunch (path_join dir GUI_EXE_NAME))) (\<lambda>_.
        progress at_step StepDone ''started''))
      else (Inr (), []))"

definition setup_install :: "payload_lib \<Rightarrow> setup_machine \<Rightarrow> setup_options \<Rightarrow> unit setup_run" where
  "setup_install L M opts =
     (if \<not> mc_elevated M
      then (Inl (tm_platform ''install'' ''administrator rights are required to install Task Manager''), [])
      else
        rthen (lift (mc_user M)) (\<lambda>_.
        rthen (lift (mc_sid M)) (\<lambda>sid.
        rthen (lift (if so_launch opts then mc_launchable M else Inr ())) (\<lambda>_.
        rthen (lift (mc_install_dir M)) (\<lambda>dir.
        rthen (lift (mc_setup_image M)) (\<lambda>_.
        rthen (unpack_payload L M) (\<lambda>_.
        rthen (stop_gui M dir) (\<lambda>_.
        rthen (place_files M opts sid dir) (\<lambda>_.
        rthen (register_uninstaller M dir) (\<lambda>_.
        rthen (create_shortcuts M opts 4) (\<lambda>at_step.
        launch_program M opts dir at_step))))))))))) "

section \<open>Uninstalling\<close>

definition restore_task_manager :: "tm_error + bool \<Rightarrow> unit setup_run" where
  "restore_task_manager answer =
     rthen (progress 0 StepRunning ''checking Task Manager replacement'') (\<lambda>_.
     rthen (answer, [Acted ActRestoreTaskManager]) (\<lambda>restored.
     progress 0 StepDone (if restored then ''restored Windows Task Manager'' else ''no matching replacement'')))"

definition remove_service :: "setup_machine \<Rightarrow> string \<Rightarrow> string \<Rightarrow> unit setup_run" where
  "remove_service M sid dir =
     (let installed_gui = path_join dir GUI_EXE_NAME in
      rthen (progress 2 StepRunning ''removing service TaskmanCore'') (\<lambda>_.
      rthen (act M ActStopService) (\<lambda>_.
      if mc_is_file M installed_gui then
        rthen (act M (ActHelper installed_gui ''uninstall'' sid)) (\<lambda>_. progress 2 StepDone ''service removed'')
      else
        rthen (act M ActDeleteService) (\<lambda>_.
        progress 2 StepDone ''installed Task Manager missing; service removed directly''))))"

definition remove_shortcut :: "setup_machine \<Rightarrow> tm_error + string \<Rightarrow> nat setup_run" where
  "remove_shortcut M dir =
     (case dir of
        Inl _ \<Rightarrow> (Inr 0, [])
      | Inr d \<Rightarrow> rthen (attempt M (ActRemoveShortcut (path_join d SHORTCUT_NAME))) (\<lambda>ok. (Inr (if ok then 1 else 0), [])))"

definition remove_shortcuts :: "setup_machine \<Rightarrow> unit setup_run" where
  "remove_shortcuts M =
     rthen (progress 3 StepRunning ''removing shortcuts'') (\<lambda>_.
     rthen (remove_shortcut M (mc_start_menu_dir M)) (\<lambda>a.
     rthen (remove_shortcut M (mc_desktop_dir M)) (\<lambda>b.
     progress 3 StepDone (''removed '' @ show_nat (a + b) @ '' shortcut(s)''))))"

text \<open>When the tree cannot be removed the setup program is moved back into it, so that the command in
  Settings still works.\<close>

definition remove_tree :: "setup_machine \<Rightarrow> string \<Rightarrow> string setup_run" where
  "remove_tree M dir =
     (if \<not> mc_is_dir M dir then (Inr ''program files were already gone'', [])
      else case mc_fails M (ActRemoveDirectory dir) of
          None \<Rightarrow> (Inr ''program files removed'', [Acted (ActRemoveDirectory dir)])
        | Some err \<Rightarrow>
            (let back = ActRestoreSetup (path_join dir SETUP_EXE) in
             (Inl (tm_platform ''remove program files''
                (tm_error_text err @
                 (case (mc_orphan M, mc_fails M back) of
                    (Some _, Some rollback) \<Rightarrow> ''; could not restore uninstaller: '' @ tm_error_text rollback
                  | _ \<Rightarrow> []))),
              Acted (ActRemoveDirectory dir) # (if mc_orphan M = None then [] else [Acted back]))))"

definition remove_data :: "setup_machine \<Rightarrow> string setup_run" where
  "remove_data M =
     (case mc_service_data_dir M of
        Inl _ \<Rightarrow> (Inr [], [])
      | Inr d \<Rightarrow>
          if mc_is_dir M d then
            rthen (attempt M (ActRemoveDirectory d)) (\<lambda>ok.
              (Inr (if ok then ''; service data removed'' else ''; service data kept''), []))
          else (Inr [], []))"

definition schedule_cleanup :: "setup_machine \<Rightarrow> string setup_run" where
  "schedule_cleanup M =
     (case mc_orphan M of
        None \<Rightarrow> (Inr [], [])
      | Some orphan \<Rightarrow>
          rthen (attempt M (ActScheduleDelete orphan)) (\<lambda>ok.
            (Inr (if ok then ''; setup cleanup scheduled'' else ''; setup cleanup could not be scheduled''), [])))"

definition remove_program_files :: "setup_machine \<Rightarrow> string \<Rightarrow> unit setup_run" where
  "remove_program_files M dir =
     rthen (progress 4 StepRunning ''removing program files'') (\<lambda>_.
     rthen (act M ActRelocate) (\<lambda>_.
     rthen (remove_tree M dir) (\<lambda>a.
     rthen (remove_data M) (\<lambda>b.
     rthen (schedule_cleanup M) (\<lambda>c.
     progress 4 StepDone (a @ b @ c))))))"

definition unregister_uninstaller :: "setup_machine \<Rightarrow> unit setup_run" where
  "unregister_uninstaller M =
     rthen (progress 5 StepRunning ''removing uninstall registry key'') (\<lambda>_.
     rthen (act M ActRemoveArp) (\<lambda>_. progress 5 StepDone ''removed''))"

definition uninstall_checks :: "setup_machine \<Rightarrow> tm_error + string \<times> string" where
  "uninstall_checks M =
     (if \<not> mc_elevated M
      then Inl (tm_platform ''uninstall'' ''administrator rights are required to uninstall Task Manager'')
      else and_then (mc_user M) (\<lambda>_. and_then (mc_sid M) (\<lambda>sid. and_then (mc_install_dir M) (\<lambda>dir.
        and_then (mc_setup_image M) (\<lambda>_. Inr (sid, dir))))))"

definition uninstall_from ::
    "setup_machine \<Rightarrow> string \<Rightarrow> string \<Rightarrow> tm_error + bool \<Rightarrow> unit setup_run" where
  "uninstall_from M sid dir restored =
     rthen (restore_task_manager restored) (\<lambda>_.
     rthen (stop_gui M dir) (\<lambda>_.
     rthen (remove_service M sid dir) (\<lambda>_.
     rthen (remove_shortcuts M) (\<lambda>_.
     rthen (remove_program_files M dir) (\<lambda>_.
     unregister_uninstaller M)))))"

text \<open>The run, and the registry key of the replacement after it.\<close>

definition setup_uninstall :: "setup_machine \<Rightarrow> ifeo_env \<Rightarrow> ifeo_key \<Rightarrow> unit setup_run \<times> ifeo_key" where
  "setup_uninstall M E k =
     (case uninstall_checks M of
        Inl e \<Rightarrow> ((Inl e, []), k)
      | Inr (sid, dir) \<Rightarrow>
          (case remove_for_deleted_exe E (path_join dir GUI_EXE_NAME) k of
             (answer, k') \<Rightarrow> (uninstall_from M sid dir answer, k')))"

section \<open>Runs and their plan\<close>

definition acted :: "setup_item list \<Rightarrow> setup_action set" where
  "acted items = {a. Acted a \<in> set items}"

lemma acted_base:
  "acted (snd (act M a)) = {a}" "acted (snd (attempt M a)) = {a}" "acted (snd (lift r)) = {}"
  "acted (snd (progress i s d)) = {}" "acted [] = {}" "acted (Acted a # items) = insert a (acted items)"
  by (auto simp: acted_def act_def attempt_def lift_def progress_def)

lemma acted_then:
  "acted (snd (rthen m f)) = acted (snd m) \<union> (case fst m of Inl _ \<Rightarrow> {} | Inr v \<Rightarrow> acted (snd (f v)))"
  by (auto simp: acted_def rthen_def split: prod.split sum.split)

lemma fst_then: "fst (rthen m f) = and_then (fst m) (\<lambda>v. fst (f v))"
  by (auto simp: rthen_def and_then_def split: prod.split sum.split)

lemma fst_base:
  "fst (lift r) = r" "fst (progress i s d) = Inr ()" "fst (attempt M a) = Inr (mc_fails M a = None)"
  "fst (act M a) = (case mc_fails M a of Some e \<Rightarrow> Inl e | None \<Rightarrow> Inr ())"
  by (simp_all add: lift_def progress_def attempt_def act_def)

text \<open>What the label of a step announces: the actions that may be done while the step runs, and the
  one it is there for.\<close>

fun belongs :: "string \<Rightarrow> setup_action \<Rightarrow> bool" where
  "belongs label ActStaging \<longleftrightarrow> label = ''Extract installer payload''"
| "belongs label ActExtract \<longleftrightarrow> label = ''Extract installer payload''"
| "belongs label (ActStopGui _) \<longleftrightarrow> label = ''Stop running Task Manager''"
| "belongs label ActRemoveLegacyLog \<longleftrightarrow>
     label \<in> {''Install program files and register service'', ''Install program files without background service''}"
| "belongs label (ActHelper _ operation _) \<longleftrightarrow>
     (if label = ''Install program files and register service'' then operation = ''install''
      else label \<in> {''Install program files without background service'', ''Remove background service''} \<and>
        operation = ''uninstall'')"
| "belongs label (ActInstallFiles _) \<longleftrightarrow> label = ''Install program files without background service''"
| "belongs label (ActCopyExtra _) \<longleftrightarrow>
     label \<in> {''Install program files and register service'', ''Install program files without background service''}"
| "belongs label (ActCopySetup _) \<longleftrightarrow> label = ''Register uninstaller in Settings''"
| "belongs label ActWriteArp \<longleftrightarrow> label = ''Register uninstaller in Settings''"
| "belongs label (ActShortcut _) \<longleftrightarrow> label = ''Create shortcuts''"
| "belongs label (ActLaunch _) \<longleftrightarrow> label = ''Launch Task Manager''"
| "belongs label ActRestoreTaskManager \<longleftrightarrow> label = ''Restore Windows Task Manager''"
| "belongs label ActStopService \<longleftrightarrow> label = ''Remove background service''"
| "belongs label ActDeleteService \<longleftrightarrow> label = ''Remove background service''"
| "belongs label (ActRemoveShortcut _) \<longleftrightarrow> label = ''Remove shortcuts''"
| "belongs label ActRelocate \<longleftrightarrow> label = ''Remove program files''"
| "belongs label (ActRemoveDirectory _) \<longleftrightarrow> label = ''Remove program files''"
| "belongs label (ActRestoreSetup _) \<longleftrightarrow> label = ''Remove program files''"
| "belongs label (ActScheduleDelete _) \<longleftrightarrow> label = ''Remove program files''"
| "belongs label ActRemoveArp \<longleftrightarrow> label = ''Remove uninstaller from Settings''"

text \<open>Removing shortcuts may find no directory to remove them from; a step without the service removes
  it first and then places the files.\<close>

definition achieved :: "string \<Rightarrow> setup_action set \<Rightarrow> bool" where
  "achieved label done_acts \<longleftrightarrow> label = ''Remove shortcuts'' \<or>
     (\<exists>a\<in>done_acts. belongs label a \<and>
        (case a of
           ActStaging \<Rightarrow> False | ActRemoveLegacyLog \<Rightarrow> False | ActCopyExtra _ \<Rightarrow> False
         | ActCopySetup _ \<Rightarrow> False | ActStopService \<Rightarrow> False
         | ActHelper _ _ _ \<Rightarrow> label \<noteq> ''Install program files without background service''
         | ActRemoveDirectory _ \<Rightarrow> False | ActRestoreSetup _ \<Rightarrow> False | ActScheduleDelete _ \<Rightarrow> False
         | _ \<Rightarrow> True))"

text \<open>The whole of a step, and the beginning of one: the note that it is running, actions that belong to
  its label, the note that it is done, and perhaps more such actions.\<close>

definition whole_step :: "nat \<Rightarrow> string \<Rightarrow> setup_item list \<Rightarrow> bool" where
  "whole_step i label items \<longleftrightarrow>
     (\<exists>d acts d' rest. items = Progress i StepRunning d # map Acted acts @ Progress i StepDone d' # map Acted rest \<and>
        list_all (belongs label) (acts @ rest)) \<and> achieved label (acted items)"

definition begun_step :: "nat \<Rightarrow> string \<Rightarrow> setup_item list \<Rightarrow> bool" where
  "begun_step i label items \<longleftrightarrow>
     (\<exists>d acts. items = Progress i StepRunning d # map Acted acts \<and> list_all (belongs label) acts)"

fun performs :: "nat \<Rightarrow> string list \<Rightarrow> setup_item list \<Rightarrow> bool" where
  "performs i [] items \<longleftrightarrow> items = []"
| "performs i (label # labels) items \<longleftrightarrow>
     (\<exists>xs ys. items = xs @ ys \<and> whole_step i label xs \<and> performs (Suc i) labels ys)"

fun stops_within :: "nat \<Rightarrow> string list \<Rightarrow> setup_item list \<Rightarrow> bool" where
  "stops_within i [] items \<longleftrightarrow> False"
| "stops_within i (label # labels) items \<longleftrightarrow> items = [] \<or> begun_step i label items \<or>
     (\<exists>xs ys. items = xs @ ys \<and> whole_step i label xs \<and> stops_within (Suc i) labels ys)"

text \<open>A run that keeps to steps with these labels, numbered from \<open>i\<close>: a success performs all of them in
  their order, a failure stops before one or within one.\<close>

definition planned :: "nat \<Rightarrow> string list \<Rightarrow> 'a setup_run \<Rightarrow> bool" where
  "planned i labels m \<longleftrightarrow>
     (if is_ok (fst m) then performs i labels (snd m) else stops_within i labels (snd m))"

lemma performs_append:
  "performs i as xs \<Longrightarrow> performs (i + length as) bs ys \<Longrightarrow> performs i (as @ bs) (xs @ ys)"
proof (induction as arbitrary: i xs)
  case (Cons a as)
  then obtain us vs where *: "xs = us @ vs" "whole_step i a us" "performs (Suc i) as vs" by auto
  with Cons.IH [OF *(3)] Cons.prems(2) have "performs (Suc i) (as @ bs) (vs @ ys)" by simp
  with * show ?case by (metis append_Cons append_assoc performs.simps(2))
qed simp

lemma stops_before: "stops_within i as xs \<Longrightarrow> stops_within i (as @ bs) xs"
  by (induction as arbitrary: i xs) auto

lemma stops_later:
  "performs i as xs \<Longrightarrow> stops_within (i + length as) bs ys \<Longrightarrow> stops_within i (as @ bs) (xs @ ys)"
proof (induction as arbitrary: i xs)
  case (Cons a as)
  then obtain us vs where *: "xs = us @ vs" "whole_step i a us" "performs (Suc i) as vs" by auto
  with Cons.IH [OF *(3)] Cons.prems(2) have "stops_within (Suc i) (as @ bs) (vs @ ys)" by simp
  with * show ?case by (metis append_Cons append_assoc stops_within.simps(2))
qed simp

lemma planned_then:
  assumes "planned i as m" and f: "\<And>v. fst m = Inr v \<Longrightarrow> planned (i + length as) bs (f v)"
  shows "planned i (as @ bs) (rthen m f)"
proof (cases "fst m")
  case (Inl e)
  then obtain items where m: "m = (Inl e, items)" by (cases m) simp
  with assms(1) have "stops_within i as items" by (simp add: planned_def)
  with m show ?thesis by (simp add: rthen_def planned_def stops_before)
next
  case (Inr v)
  then obtain items where m: "m = (Inr v, items)" by (cases m) simp
  with assms(1) have "performs i as items" by (simp add: planned_def)
  moreover have run: "rthen m f = (fst (f v), items @ snd (f v))" by (simp add: m rthen_def split: prod.split)
  ultimately show ?thesis
    using f [OF Inr] performs_append [of i as items bs] stops_later [of i as items bs]
    by (auto simp: planned_def run split: if_splits)
qed

lemma planned_cons:
  assumes "planned i [a] m" and "\<And>v. fst m = Inr v \<Longrightarrow> planned j bs (f v)" and "j = Suc i"
  shows "planned i (a # bs) (rthen m f)"
  using planned_then [OF assms(1), of bs f] assms(2,3) by simp

lemma planned_lift:
  "labels \<noteq> [] \<Longrightarrow> (\<And>v. planned i labels (f v)) \<Longrightarrow> planned i labels (rthen (lift r) f)"
proof (cases r)
  case (Inr v)
  moreover assume "\<And>v. planned i labels (f v)"
  moreover have "rthen (lift (Inr v)) f = f v" by (simp add: rthen_def lift_def split: prod.split)
  ultimately show ?thesis by simp
qed (cases labels; simp add: planned_def rthen_def lift_def)

text \<open>Runs that only do what belongs to a label, and what follows the note that its step is running.\<close>

definition keeps_to :: "string \<Rightarrow> 'a setup_run \<Rightarrow> bool" where
  "keeps_to label m \<longleftrightarrow> (\<exists>acts. snd m = map Acted acts \<and> list_all (belongs label) acts)"

definition body_of :: "nat \<Rightarrow> string \<Rightarrow> 'a setup_run \<Rightarrow> bool" where
  "body_of i label m \<longleftrightarrow>
     (if is_ok (fst m)
      then \<exists>acts d rest. snd m = map Acted acts @ Progress i StepDone d # map Acted rest \<and>
        list_all (belongs label) (acts @ rest)
      else keeps_to label m)"

lemma keeps_nothing: "keeps_to label (lift r)" "keeps_to label (r, [])"
  by (simp_all add: keeps_to_def lift_def)

lemma keeps_act: "belongs label a \<Longrightarrow> keeps_to label (act M a)" "belongs label a \<Longrightarrow> keeps_to label (attempt M a)"
    "belongs label a \<Longrightarrow> keeps_to label (r, [Acted a])"
  unfolding keeps_to_def act_def attempt_def by (auto intro: exI [of _ "[a]"])

lemma keeps_then:
  assumes "keeps_to label m" and f: "\<And>v. keeps_to label (f v)" shows "keeps_to label (rthen m f)"
proof (cases m)
  case (Pair r items)
  from assms(1) obtain acts where acts: "items = map Acted acts" "list_all (belongs label) acts"
    by (auto simp: keeps_to_def Pair)
  show ?thesis
  proof (cases r)
    case (Inr v)
    from f [of v] obtain r' acts' where "f v = (r', map Acted acts')" "list_all (belongs label) acts'"
      unfolding keeps_to_def by (cases "f v") auto
    with acts show ?thesis by (auto simp: keeps_to_def rthen_def Pair Inr intro: exI [of _ "acts @ acts'"])
  qed (use acts in \<open>auto simp: keeps_to_def rthen_def Pair\<close>)
qed

lemma keeps_if: "(b \<Longrightarrow> keeps_to label m) \<Longrightarrow> (\<not> b \<Longrightarrow> keeps_to label n) \<Longrightarrow> keeps_to label (if b then m else n)"
  by simp

lemmas keeps_intros = keeps_nothing keeps_act keeps_then keeps_if

lemma body_ofI:
  "fst m = Inr v \<Longrightarrow> snd m = map Acted acts @ Progress i StepDone d # map Acted rest \<Longrightarrow>
   list_all (belongs label) (acts @ rest) \<Longrightarrow> body_of i label m"
  unfolding body_of_def by auto

lemma body_done: "body_of i label (progress i StepDone d)"
  by (rule body_ofI [of _ "()" "[]" _ d "[]"]) (simp_all add: progress_def)

lemma body_then:
  assumes "keeps_to label m" and f: "\<And>v. body_of i label (f v)" shows "body_of i label (rthen m f)"
proof (cases m)
  case (Pair r items)
  from assms(1) obtain acts where acts: "items = map Acted acts" "list_all (belongs label) acts"
    by (auto simp: keeps_to_def Pair)
  show ?thesis
  proof (cases r)
    case (Inr v)
    obtain r' items' where fv: "f v = (r', items')" by fastforce
    show ?thesis
    proof (cases "is_ok r'")
      case True
      with f [of v] fv obtain acts' d rest where body: "items' = map Acted acts' @ Progress i StepDone d # map Acted rest"
        "list_all (belongs label) (acts' @ rest)" by (auto simp: body_of_def)
      from True obtain w where "r' = Inr w" by (cases r') auto
      with acts body show ?thesis
        by (intro body_ofI [of _ w "acts @ acts'" _ d rest]) (simp_all add: rthen_def Pair Inr fv)
    next
      case False
      with f [of v] fv obtain acts' where "items' = map Acted acts'" "list_all (belongs label) acts'"
        by (auto simp: body_of_def keeps_to_def)
      with acts False show ?thesis
        by (auto simp: body_of_def keeps_to_def rthen_def Pair Inr fv intro!: exI [of _ "acts @ acts'"])
    qed
  qed (use acts in \<open>auto simp: body_of_def keeps_to_def rthen_def Pair\<close>)
qed

lemma body_cases:
  "(b \<Longrightarrow> body_of i label m) \<Longrightarrow> (\<not> b \<Longrightarrow> body_of i label n) \<Longrightarrow> body_of i label (if b then m else n)"
  "(\<And>a b. p = (a, b) \<Longrightarrow> body_of i label (g a b)) \<Longrightarrow> body_of i label (case p of (a, b) \<Rightarrow> g a b)"
  by (auto split: prod.split)

text \<open>After the last note, only actions that cannot fail.\<close>

lemma body_after:
  assumes "keeps_to label (f ())" "is_ok (fst (f ()))" shows "body_of i label (rthen (progress i StepDone d) f)"
proof -
  from assms(1) obtain acts where "snd (f ()) = map Acted acts" "list_all (belongs label) acts"
    by (auto simp: keeps_to_def)
  moreover from assms(2) obtain w where "fst (f ()) = Inr w" by (cases "fst (f ())") auto
  ultimately show ?thesis
    by (intro body_ofI [of _ w "[]" _ d acts]) (auto simp: rthen_def progress_def split: prod.split)
qed

lemmas body_intros = body_done body_then body_cases

lemma planned_step:
  assumes body: "body_of i label m" and main: "is_ok (fst m) \<Longrightarrow> achieved label (acted (snd m))"
  shows "planned i [label] (rthen (progress i StepRunning d) (\<lambda>_. m))"
proof -
  obtain r items where m: "m = (r, items)" by (cases m)
  have run: "rthen (progress i StepRunning d) (\<lambda>_. m) = (r, Progress i StepRunning d # items)"
    by (simp add: rthen_def progress_def m)
  show ?thesis
  proof (cases "is_ok r")
    case True
    have "acted (Progress i StepRunning d # items) = acted items" by (simp add: acted_def)
    with True body main have "whole_step i label (Progress i StepRunning d # items)"
      by (auto simp: body_of_def whole_step_def m)
    with True show ?thesis by (auto simp: planned_def run intro!: exI [of _ "[]"])
  next
    case False
    with body have "begun_step i label (Progress i StepRunning d # items)"
      by (auto simp: body_of_def begun_step_def keeps_to_def m)
    with False show ?thesis by (simp add: planned_def run)
  qed
qed

lemma achievedI: "a \<in> acts \<Longrightarrow> achieved label {a} \<Longrightarrow> achieved label acts"
  by (auto simp: achieved_def)

lemma ok_then: "is_ok (fst (rthen m f)) \<longleftrightarrow> (\<exists>v. fst m = Inr v \<and> is_ok (fst (f v)))"
  by (cases "fst m") (simp_all add: fst_then)

lemma acted_last: "fst m = Inr v \<Longrightarrow> a \<in> acted (snd (f v)) \<Longrightarrow> a \<in> acted (snd (rthen m f))"
  by (simp add: acted_then)

lemma acted_first: "a \<in> acted (snd m) \<Longrightarrow> a \<in> acted (snd (rthen m f))"
  by (simp add: acted_then)

lemmas run_simps = ok_then acted_then acted_base fst_base achieved_def

lemma planned_unpack: "planned 0 [''Extract installer payload''] (unpack_payload L M)"
  unfolding unpack_payload_def
  by (rule planned_step, intro body_intros keeps_intros) (simp_all, auto simp: run_simps)

lemma planned_stop: "planned 1 [''Stop running Task Manager''] (stop_gui M dir)"
  unfolding stop_gui_def
  by (rule planned_step, intro body_intros keeps_intros) (simp_all add: run_simps)

abbreviation files_label :: "setup_options \<Rightarrow> string" where
  "files_label opts \<equiv> (if so_service opts then ''Install program files and register service''
     else ''Install program files without background service'')"

lemma keeps_program_files:
  "keeps_to (files_label opts) (install_program_files (so_service opts)
     (\<lambda>operation. act M (ActHelper gui operation sid)) (act M (ActInstallFiles gui)))"
  by (cases "so_service opts") (auto simp: install_program_files_def intro!: keeps_intros)

lemma planned_place: "planned 2 [files_label opts] (place_files M opts sid dir)"
  unfolding place_files_def Let_def
proof (rule planned_step)
  show "body_of 2 (files_label opts) (rthen (attempt M ActRemoveLegacyLog) (\<lambda>removed.
      rthen (install_program_files (so_service opts)
         (\<lambda>operation. act M (ActHelper (path_join (mc_staging M) GUI_EXE_NAME) operation sid))
         (act M (ActInstallFiles (path_join (mc_staging M) GUI_EXE_NAME)))) (\<lambda>_.
      rthen (progress 2 StepDone ((if so_service opts then ''service TaskmanCore registered and started'' else dir) @
          (if \<not> removed then ''; legacy setup log kept''
           else if mc_had_legacy_log M then ''; removed legacy setup log from the service log directory'' else []))) (\<lambda>_.
      if mc_is_file M (path_join (mc_staging M) ''LICENSE'')
      then rthen (attempt M (ActCopyExtra (path_join dir ''LICENSE''))) (\<lambda>_. (Inr (), [])) else (Inr (), [])))))"
    by (intro body_then body_after keeps_program_files keeps_intros) (auto simp: ok_then fst_base)
qed (cases "so_service opts",
    auto simp: run_simps install_program_files_def fst_then and_then_Inr_iff split: if_splits option.splits)

lemma planned_register: "planned 3 [''Register uninstaller in Settings''] (register_uninstaller M dir)"
  unfolding register_uninstaller_def
  by (rule planned_step, intro body_intros keeps_intros) (simp_all, auto simp: run_simps)

lemma create_shortcuts_Inr:
  "fst (create_shortcuts M opts i) = Inr j \<Longrightarrow> j = (if so_start_menu opts \<or> so_desktop opts then Suc i else i)"
  by (auto simp: create_shortcuts_def rthen_def progress_def split: prod.splits sum.splits if_splits)

abbreviation shortcut_labels :: "setup_options \<Rightarrow> string list" where
  "shortcut_labels opts \<equiv> (if so_start_menu opts \<or> so_desktop opts then [''Create shortcuts''] else [])"

abbreviation launch_labels :: "setup_options \<Rightarrow> string list" where
  "launch_labels opts \<equiv> (if so_launch opts then [''Launch Task Manager''] else [])"

lemma keeps_shortcut: "keeps_to ''Create shortcuts'' (shortcut_in M wanted dir)"
  unfolding shortcut_in_def by (intro keeps_intros) simp

lemma shortcut_made:
  "wanted \<Longrightarrow> fst (shortcut_in M wanted dir) = Inr () \<Longrightarrow> \<exists>p. ActShortcut p \<in> acted (snd (shortcut_in M wanted dir))"
  by (cases dir) (auto simp: shortcut_in_def fst_then fst_base acted_then acted_base)

lemma planned_shortcuts: "planned i (shortcut_labels opts) (create_shortcuts M opts i)"
proof (cases "so_start_menu opts \<or> so_desktop opts")
  case True
  have "planned i [''Create shortcuts''] (rthen (progress i StepRunning ''writing shortcuts'') (\<lambda>_.
        rthen (shortcut_in M (so_start_menu opts) (mc_start_menu_dir M)) (\<lambda>_.
        rthen (shortcut_in M (so_desktop opts) (mc_desktop_dir M)) (\<lambda>_.
        rthen (progress i StepDone ''shortcuts created'') (\<lambda>_. (Inr (i + 1), []))))))"
  proof (rule planned_step)
    show "body_of i ''Create shortcuts'' (rthen (shortcut_in M (so_start_menu opts) (mc_start_menu_dir M)) (\<lambda>_.
        rthen (shortcut_in M (so_desktop opts) (mc_desktop_dir M)) (\<lambda>_.
        rthen (progress i StepDone ''shortcuts created'') (\<lambda>_. (Inr (i + 1), [])))))"
      by (rule body_then [OF keeps_shortcut], rule body_then [OF keeps_shortcut], rule body_after)
        (simp_all add: keeps_nothing)
    assume "is_ok (fst (rthen (shortcut_in M (so_start_menu opts) (mc_start_menu_dir M)) (\<lambda>_.
        rthen (shortcut_in M (so_desktop opts) (mc_desktop_dir M)) (\<lambda>_.
        rthen (progress i StepDone ''shortcuts created'') (\<lambda>_. (Inr (i + 1), []))))))"
    then have ok: "fst (shortcut_in M (so_start_menu opts) (mc_start_menu_dir M)) = Inr ()"
      "fst (shortcut_in M (so_desktop opts) (mc_desktop_dir M)) = Inr ()"
      by (auto simp: ok_then)
    from True consider p where "ActShortcut p \<in> acted (snd (shortcut_in M (so_start_menu opts) (mc_start_menu_dir M)))"
      | p where "ActShortcut p \<in> acted (snd (shortcut_in M (so_desktop opts) (mc_desktop_dir M)))"
      using shortcut_made [OF _ ok(1)] shortcut_made [OF _ ok(2)] by blast
    then have "\<exists>p. ActShortcut p \<in> acted (snd (rthen (shortcut_in M (so_start_menu opts) (mc_start_menu_dir M)) (\<lambda>_.
        rthen (shortcut_in M (so_desktop opts) (mc_desktop_dir M)) (\<lambda>_.
        rthen (progress i StepDone ''shortcuts created'') (\<lambda>_. (Inr (i + 1), []))))))"
      by cases (auto simp: acted_then ok)
    then show "achieved ''Create shortcuts'' (acted (snd (rthen (shortcut_in M (so_start_menu opts) (mc_start_menu_dir M)) (\<lambda>_.
        rthen (shortcut_in M (so_desktop opts) (mc_desktop_dir M)) (\<lambda>_.
        rthen (progress i StepDone ''shortcuts created'') (\<lambda>_. (Inr (i + 1), [])))))))"
      unfolding achieved_def by fastforce
  qed
  with True show ?thesis by (simp add: create_shortcuts_def)
qed (simp add: create_shortcuts_def planned_def)

lemma planned_launch: "planned i (launch_labels opts) (launch_program M opts dir i)"
proof (cases "so_launch opts")
  case True
  have "planned i [''Launch Task Manager''] (rthen (progress i StepRunning ''starting Task Manager'') (\<lambda>_.
        rthen (act M (ActLaunch (path_join dir GUI_EXE_NAME))) (\<lambda>_. progress i StepDone ''started'')))"
    by (rule planned_step, intro body_intros keeps_intros) (simp_all add: run_simps)
  with True show ?thesis by (simp add: launch_program_def)
qed (simp add: launch_program_def planned_def)

lemma planned_restore: "planned 0 [''Restore Windows Task Manager''] (restore_task_manager answer)"
  unfolding restore_task_manager_def
  by (rule planned_step, intro body_intros keeps_intros) (simp_all, auto simp: run_simps)

lemma planned_service: "planned 2 [''Remove background service''] (remove_service M sid dir)"
  unfolding remove_service_def Let_def
  by (rule planned_step, intro body_intros keeps_intros) (simp_all, auto simp: run_simps split: if_splits)

lemma keeps_removals:
  "keeps_to ''Remove shortcuts'' (remove_shortcut M d)" "keeps_to ''Remove program files'' (remove_tree M dir)"
  "keeps_to ''Remove program files'' (remove_data M)" "keeps_to ''Remove program files'' (schedule_cleanup M)"
proof -
  show "keeps_to ''Remove shortcuts'' (remove_shortcut M d)"
    unfolding remove_shortcut_def by (cases d) (auto intro!: keeps_intros)
  show "keeps_to ''Remove program files'' (remove_data M)"
    unfolding remove_data_def by (cases "mc_service_data_dir M") (auto intro!: keeps_intros)
  show "keeps_to ''Remove program files'' (schedule_cleanup M)"
    unfolding schedule_cleanup_def by (cases "mc_orphan M") (auto intro!: keeps_intros)
  have "keeps_to ''Remove program files'' (r, [Acted (ActRemoveDirectory dir), Acted (ActRestoreSetup p)])"
    for r :: "tm_error + string" and p
    unfolding keeps_to_def
    by (auto intro: exI [of _ "[ActRemoveDirectory dir, ActRestoreSetup p]"])
  then show "keeps_to ''Remove program files'' (remove_tree M dir)"
    unfolding remove_tree_def Let_def
    by (cases "mc_orphan M") (auto intro!: keeps_intros split: option.split)
qed

lemma planned_remove_shortcuts: "planned 3 [''Remove shortcuts''] (remove_shortcuts M)"
  unfolding remove_shortcuts_def
  by (rule planned_step, intro body_intros keeps_removals) (simp add: achieved_def)

lemma planned_remove_files: "planned 4 [''Remove program files''] (remove_program_files M dir)"
  unfolding remove_program_files_def
  by (rule planned_step, intro body_intros keeps_removals keeps_intros) (simp_all, auto simp: run_simps)

lemma planned_unregister: "planned 5 [''Remove uninstaller from Settings''] (unregister_uninstaller M)"
  unfolding unregister_uninstaller_def
  by (rule planned_step, intro body_intros keeps_intros) (simp_all add: run_simps)

lemma planned_uninstall: "planned 0 uninstall_steps (uninstall_from M sid dir answer)"
  unfolding uninstall_from_def uninstall_steps_def
  by (rule planned_cons [OF planned_restore], rule planned_cons [OF planned_stop],
      rule planned_cons [OF planned_service], rule planned_cons [OF planned_remove_shortcuts],
      rule planned_cons [OF planned_remove_files], rule planned_unregister) simp_all

lemma planned_install_tail:
  "planned 3 (''Register uninstaller in Settings'' # shortcut_labels opts @ launch_labels opts)
     (rthen (register_uninstaller M dir) (\<lambda>_. rthen (create_shortcuts M opts 4) (\<lambda>i. launch_program M opts dir i)))"
proof (rule planned_cons [OF planned_register _ refl])
  show "planned (Suc 3) (shortcut_labels opts @ launch_labels opts)
      (rthen (create_shortcuts M opts 4) (\<lambda>i. launch_program M opts dir i))"
  proof (rule planned_then)
    show "planned (Suc 3) (shortcut_labels opts) (create_shortcuts M opts 4)"
      using planned_shortcuts [of 4 opts M] by simp
    fix i assume "fst (create_shortcuts M opts 4) = Inr i"
    then have "i = Suc 3 + length (shortcut_labels opts)" by (auto dest!: create_shortcuts_Inr)
    then show "planned (Suc 3 + length (shortcut_labels opts)) (launch_labels opts) (launch_program M opts dir i)"
      using planned_launch [of i opts M dir] by (simp only:)
  qed
qed

lemma install_steps_split:
  "install_steps opts = ''Extract installer payload'' # ''Stop running Task Manager'' # files_label opts #
     ''Register uninstaller in Settings'' # shortcut_labels opts @ launch_labels opts"
  by (simp add: install_steps_def)


section \<open>What is done, and when\<close>

lemma unpack_acts: "acted (snd (unpack_payload L M)) \<subseteq> {ActStaging, ActExtract}"
  by (auto simp: unpack_payload_def acted_then acted_base split: sum.splits prod.splits)

lemma unpack_verified:
  assumes "fst (unpack_payload L M) = Inr ()"
  shows "\<exists>data archive. mc_image_bytes M = Inr data \<and> parse_archive L data = Inr archive \<and>
    is_ok (find_entry archive GUI_EXE_NAME) \<and> is_ok (find_entry archive SERVICE_EXE_NAME) \<and> is_ok (verify_all L archive)"
  using assms by (auto simp: unpack_payload_def fst_then fst_base and_then_Inr_iff)

lemma verify_all_read:
  "is_ok (verify_all L a) \<Longrightarrow> e \<in> set (mf_entries (ar_manifest a)) \<Longrightarrow>
   \<exists>out. read_entry L a e = Inr out \<and> hex_sha256 L out = en_sha256 e \<and> length out = unat (en_uncompressed e)"
proof -
  assume "is_ok (verify_all L a)" and e: "e \<in> set (mf_entries (ar_manifest a))"
  then obtain outs where "try_map (read_entry L a) (mf_entries (ar_manifest a)) = Inr outs"
    by (cases "try_map (read_entry L a) (mf_entries (ar_manifest a))") (simp_all add: verify_all_def)
  then obtain out where "read_entry L a e = Inr out" using e try_map_Inr by (metis in_set_conv_nth)
  with read_entry_Inr [OF this] show ?thesis by auto
qed

text \<open>
  C10: The machine is not touched before the payload is verified. If an installation does anything
  beyond writing to its protected staging directory - stopping the running program, calling the
  service helper, writing the registry, a shortcut or the setup copy - then the rights were there,
  and the payload parsed, holds both programs, and the contents of every one of its entries have the
  length and the hash that are declared.
\<close>

theorem payload_verified_before_change:
  assumes "a \<in> acted (snd (setup_install L M opts))" "a \<notin> {ActStaging, ActExtract}"
  shows "mc_elevated M \<and> (\<exists>data archive. mc_image_bytes M = Inr data \<and> parse_archive L data = Inr archive \<and>
    is_ok (find_entry archive GUI_EXE_NAME) \<and> is_ok (find_entry archive SERVICE_EXE_NAME) \<and>
    (\<forall>e\<in>set (mf_entries (ar_manifest archive)). \<exists>out. read_entry L archive e = Inr out \<and>
       hex_sha256 L out = en_sha256 e \<and> length out = unat (en_uncompressed e)))"
proof -
  have elevated: "mc_elevated M"
    using assms(1) by (cases "mc_elevated M") (simp_all add: setup_install_def acted_base)
  have "fst (unpack_payload L M) = Inr ()"
  proof (cases "fst (unpack_payload L M)")
    case (Inl e)
    then have "acted (snd (setup_install L M opts)) \<subseteq> {ActStaging, ActExtract}"
      using elevated unpack_acts [of L M]
      by (simp add: setup_install_def acted_then acted_base fst_base split: sum.split)
    with assms show ?thesis by blast
  qed simp
  from unpack_verified [OF this] elevated verify_all_read show ?thesis by blast
qed

text \<open>A setup image with the two programs, and a machine on which everything works.\<close>

definition setup_files :: "(string \<times> bytes) list" where
  "setup_files = [(''taskman.exe'', [1]), (''taskman-service.exe'', [2])]"

definition setup_bytes :: bytes where
  "setup_bytes = stub @ [0x78, 1, 0x78, 2, 0x7B, 0x7D] @ u64_le 2 @ u64_le MAGIC"

definition setup_archive :: archive where
  "setup_archive = \<lparr>ar_manifest = manifest_of store_lib setup_files, ar_blobs = [0x78, 1, 0x78, 2]\<rparr>"

lemma setup_names: "validate_name ''taskman.exe'' = Inr ()" "validate_name ''taskman-service.exe'' = Inr ()"
  by code_simp+

lemma setup_entries: "entries_at store_lib 0 setup_files =
    [\<lparr>en_name = ''taskman.exe'', en_offset = 0, en_compressed = 2, en_uncompressed = 1, en_sha256 = hex_string [1, 1]\<rparr>,
     \<lparr>en_name = ''taskman-service.exe'', en_offset = 2, en_compressed = 2, en_uncompressed = 1,
       en_sha256 = hex_string [1, 2]\<rparr>]"
  by (simp add: setup_files_def entry_of_def store_lib_def hex_sha256_def)

lemma setup_parsed: "parse_archive (lib_for setup_files) setup_bytes = Inr setup_archive"
  unfolding setup_bytes_def setup_archive_def
proof (rule parse_archive_payload(2) [where json = "[0x7B, 0x7D]"])
  show "check_entries (mf_entries (manifest_of store_lib setup_files)) 0 = Inr (of_nat (length [0x78, 1, 0x78, 2 :: u8]))"
    "check_ranges (sort (map entry_range (mf_entries (manifest_of store_lib setup_files)))) = Inr ()"
    by (simp_all add: manifest_of_def setup_entries setup_names checked_add_def entry_range_def)
qed (simp_all add: stub_def manifest_of_def setup_files_def)

lemma setup_manifest: "mf_entries (ar_manifest setup_archive) =
    [\<lparr>en_name = ''taskman.exe'', en_offset = 0, en_compressed = 2, en_uncompressed = 1, en_sha256 = hex_string [1, 1]\<rparr>,
     \<lparr>en_name = ''taskman-service.exe'', en_offset = 2, en_compressed = 2, en_uncompressed = 1,
       en_sha256 = hex_string [1, 2]\<rparr>]"
  by (simp add: setup_archive_def manifest_of_def setup_entries)

lemma setup_blobs: "ar_blobs setup_archive = [0x78, 1, 0x78, 2]"
  by (simp add: setup_archive_def)

lemma setup_read:
  "read_entry (lib_for setup_files) setup_archive \<lparr>en_name = ''taskman.exe'', en_offset = 0, en_compressed = 2,
     en_uncompressed = 1, en_sha256 = hex_string [1, 1]\<rparr> = Inr [1]"
  "read_entry (lib_for setup_files) setup_archive \<lparr>en_name = ''taskman-service.exe'', en_offset = 2, en_compressed = 2,
     en_uncompressed = 1, en_sha256 = hex_string [1, 2]\<rparr> = Inr [2]"
  by (simp_all add: read_entry_def setup_blobs slice_get_def inflate_bounded_def read_limited_def saturating_add_def
      hex_sha256_def)

lemma setup_verified: "verify_all (lib_for setup_files) setup_archive = Inr 2"
  by (simp add: verify_all_def setup_manifest setup_read)

lemma setup_extracted: "\<exists>ops paths. extract_to (lib_for setup_files) setup_archive [''stage''] = Inr (ops, paths)"
  by (simp add: extract_to_def setup_manifest setup_read)

definition sample_machine :: setup_machine where
  "sample_machine =
     \<lparr>mc_elevated = True, mc_user = Inr (), mc_sid = Inr ''S-1'', mc_launchable = Inr (), mc_install_dir = Inr ''C:/TaskMan'',
      mc_setup_image = Inr (), mc_image_bytes = Inr setup_bytes, mc_staging = ''stage'', mc_fails = (\<lambda>_. None),
      mc_stopped = 0, mc_had_legacy_log = False, mc_is_file = (\<lambda>_. True), mc_is_dir = (\<lambda>_. True), mc_copied = True,
      mc_start_menu_dir = Inr ''menu'', mc_desktop_dir = Inr ''desktop'', mc_orphan = None, mc_service_data_dir = Inr ''data''\<rparr>"

lemma sample_machine_fields:
  "mc_elevated sample_machine" "mc_user sample_machine = Inr ()" "mc_sid sample_machine = Inr ''S-1''"
  "mc_install_dir sample_machine = Inr ''C:/TaskMan''" "mc_setup_image sample_machine = Inr ()"
  "mc_image_bytes sample_machine = Inr setup_bytes" "mc_staging sample_machine = ''stage''" "mc_fails sample_machine a = None"
  "mc_is_dir sample_machine d" "mc_is_file sample_machine d" "mc_orphan sample_machine = None"
  by (simp_all add: sample_machine_def)

lemma payload_verified_before_change_witness:
  "ActWriteArp \<in> acted (snd (setup_install (lib_for setup_files) sample_machine default_options)) \<and> mc_elevated sample_machine"
proof -
  have found: "is_ok (find_entry setup_archive GUI_EXE_NAME)" "is_ok (find_entry setup_archive SERVICE_EXE_NAME)"
    by (simp_all add: find_entry_def setup_archive_def manifest_of_def setup_entries GUI_EXE_NAME_def SERVICE_EXE_NAME_def)
  obtain ops paths where extracted: "extract_to (lib_for setup_files) setup_archive [''stage''] = Inr (ops, paths)"
    using setup_extracted by blast
  have unpacked: "fst (unpack_payload (lib_for setup_files) sample_machine) = Inr ()"
    using found extracted
    by (simp add: unpack_payload_def fst_then fst_base sample_machine_fields setup_parsed setup_verified is_ok_def
        split: sum.splits)
  have acts: "ActWriteArp \<in> acted (snd (setup_install (lib_for setup_files) sample_machine default_options))"
    by (simp add: setup_install_def acted_then acted_base fst_then fst_base unpacked sample_machine_fields)
      (simp add: sample_machine_fields default_options_def stop_gui_def place_files_def install_program_files_def
        register_uninstaller_def Let_def acted_then acted_base fst_then fst_base)
  from payload_verified_before_change [OF this] acts show ?thesis by simp
qed

section \<open>Uninstalling safely\<close>

lemma uninstall_acts:
  "acted (snd (uninstall_from M sid dir answer)) \<inter> {ActRemoveDirectory d | d. True} \<noteq> {} \<Longrightarrow> \<exists>b. answer = Inr b"
  by (cases answer)
    (simp_all add: uninstall_from_def restore_task_manager_def acted_then acted_base fst_then fst_base)

text \<open>
  C16: The hotkey is given back before the program is deleted. When an uninstallation comes to deleting
  a directory, the registration under taskmgr.exe no longer names the installed program and is
  readable - it is gone or belongs to another copy or product - if the key can be opened for writing.
\<close>

theorem hotkey_restored_before_deletion:
  assumes "ActRemoveDirectory d \<in> acted (snd (fst (setup_uninstall M E k)))" "ie_write_opens E"
    "mc_install_dir M = Inr dir"
  shows "(case read_debugger E (snd (setup_uninstall M E k)) of
      DebuggerAbsent \<Rightarrow> True
    | DebuggerText value \<Rightarrow> \<not> names_deleted_exe value (path_join dir GUI_EXE_NAME)
    | DebuggerInvalid \<Rightarrow> False)"
proof -
  obtain sid where checks: "uninstall_checks M = Inr (sid, dir)"
    using assms(1,3) by (cases "uninstall_checks M")
      (auto simp: setup_uninstall_def acted_base uninstall_checks_def and_then_Inr_iff split: if_splits)
  obtain answer k' where remove: "remove_for_deleted_exe E (path_join dir GUI_EXE_NAME) k = (answer, k')"
    by fastforce
  have run: "setup_uninstall M E k = (uninstall_from M sid dir answer, k')"
    by (simp add: setup_uninstall_def checks remove)
  then obtain b where "answer = Inr b" using assms(1) uninstall_acts [of M sid dir answer] by auto
  with remove assms(2) run show ?thesis
    by (auto simp: remove_for_deleted_exe_def delete_debugger_def read_debugger_def
        split: debugger_value.splits option.splits if_splits prod.splits sum.splits)
qed

lemma hotkey_restored_before_deletion_witness:
  "ActRemoveDirectory ''C:/TaskMan'' \<in> acted (snd (fst (setup_uninstall sample_machine sample_ifeo \<lparr>ik_exists = False, ik_value = None\<rparr>))) \<and>
   (case read_debugger sample_ifeo (snd (setup_uninstall sample_machine sample_ifeo \<lparr>ik_exists = False, ik_value = None\<rparr>)) of
      DebuggerInvalid \<Rightarrow> False | _ \<Rightarrow> True)"
proof -
  have acts: "ActRemoveDirectory ''C:/TaskMan'' \<in>
      acted (snd (fst (setup_uninstall sample_machine sample_ifeo \<lparr>ik_exists = False, ik_value = None\<rparr>)))"
    by (simp add: setup_uninstall_def uninstall_checks_def sample_machine_def sample_ifeo_def remove_for_deleted_exe_def
        read_debugger_def uninstall_from_def restore_task_manager_def stop_gui_def remove_service_def Let_def
        remove_shortcuts_def remove_shortcut_def remove_program_files_def remove_tree_def
        acted_then acted_base fst_then fst_base)
  have dirs: "ie_write_opens sample_ifeo" "mc_install_dir sample_machine = Inr ''C:/TaskMan''"
    by (simp_all add: sample_ifeo_def sample_machine_def)
  from hotkey_restored_before_deletion [OF acts dirs] acts show ?thesis
    by (simp split: debugger_value.splits)
qed

section \<open>Arguments in any order\<close>

definition known_argument :: "string \<Rightarrow> bool" where
  "known_argument raw \<longleftrightarrow>
     to_ascii_lowercase raw \<in> {''/s'', ''/silent'', ''--silent'', ''/uninstall'', ''--uninstall'', ''-u'', ''/?'',
       ''--help'', ''-h'', ''/dry-run'', ''--dry-run''} \<or>
     raw \<in> {''--no-start-menu'', ''--desktop'', ''--launch'', ''--no-service''}"

text \<open>The options a set of arguments asks for, starting from some.\<close>

definition asks :: "string set \<Rightarrow> string list \<Rightarrow> bool" where
  "asks spellings args \<longleftrightarrow> (\<exists>raw\<in>set args. to_ascii_lowercase raw \<in> spellings)"

definition requested :: "setup_options \<Rightarrow> string list \<Rightarrow> setup_options" where
  "requested opts args =
     \<lparr>so_mode = (if asks {''/uninstall'', ''--uninstall'', ''-u''} args then ModeUninstall else so_mode opts),
      so_silent = (so_silent opts \<or> asks {''/s'', ''/silent'', ''--silent''} args),
      so_start_menu = (so_start_menu opts \<and> ''--no-start-menu'' \<notin> set args),
      so_desktop = (so_desktop opts \<or> ''--desktop'' \<in> set args),
      so_launch = (so_launch opts \<or> ''--launch'' \<in> set args),
      so_service = (so_service opts \<and> ''--no-service'' \<notin> set args),
      so_dry_run = (so_dry_run opts \<or> asks {''/dry-run'', ''--dry-run''} args),
      so_help = (so_help opts \<or> asks {''/?'', ''--help'', ''-h''} args)\<rparr>"

lemma exact_spellings:
  "to_ascii_lowercase ''--no-start-menu'' = ''--no-start-menu''" "to_ascii_lowercase ''--desktop'' = ''--desktop''"
  "to_ascii_lowercase ''--launch'' = ''--launch''" "to_ascii_lowercase ''--no-service'' = ''--no-service''"
  by code_simp+

lemma parse_argument_known:
  "known_argument raw \<Longrightarrow> parse_argument raw opts = Inr (requested opts [raw])"
  unfolding known_argument_def
  by (elim disjE insertE emptyE; cases opts)
    (auto simp: parse_argument_def requested_def asks_def Let_def exact_spellings)

lemma parse_argument_unknown: "\<not> known_argument raw \<Longrightarrow> \<not> is_ok (parse_argument raw opts)"
  by (simp add: known_argument_def parse_argument_def Let_def)

lemma requested_Cons: "requested (requested opts [raw]) args = requested opts (raw # args)"
  by (auto simp: requested_def asks_def)

lemma parse_arguments_step:
  "parse_arguments (raw # args) opts =
     (if known_argument raw then parse_arguments args (requested opts [raw]) else parse_argument raw opts)"
  using parse_argument_known [of raw opts] parse_argument_unknown [of raw opts]
  by (cases "parse_argument raw opts") auto

lemma parse_arguments_outcome:
  "parse_arguments args opts = Inr (requested opts args) \<or> \<not> is_ok (parse_arguments args opts) \<and> \<not> list_all known_argument args"
  "list_all known_argument args \<Longrightarrow> is_ok (parse_arguments args opts)"
  "is_ok (parse_arguments args opts) \<Longrightarrow> list_all known_argument args"
proof (induction args arbitrary: opts)
  case Nil
  { case 1 show ?case by (cases opts) (simp add: requested_def asks_def) }
  { case 2 show ?case by simp }
  { case 3 show ?case by simp }
next
  case (Cons raw args)
  { case 1 show ?case using Cons.IH(1) [of "requested opts [raw]"] parse_argument_unknown [of raw opts]
      by (cases "known_argument raw") (auto simp: parse_arguments_step requested_Cons simp del: parse_arguments.simps) }
  { case 2 then show ?case using Cons.IH(2) by (simp add: parse_arguments_step del: parse_arguments.simps) }
  { case 3 then show ?case using Cons.IH(3) parse_argument_unknown
      by (auto simp: parse_arguments_step simp del: parse_arguments.simps split: if_splits) }
qed

text \<open>
  The setup command line means the same in any order, and a mistyped flag never installs. Parsing
  gives options exactly when every argument is one of the known spellings, and then each option is
  set or not by whether one of its spellings occurs, wherever it stands; in every other case it is
  an error.
\<close>

theorem setup_arguments_exact:
  "parse_setup args = Inr opts \<longleftrightarrow> list_all known_argument args \<and> opts = requested default_options args"
  using parse_arguments_outcome [of args default_options] by (auto simp: parse_setup_def)

end
