(* ===== verification/Disk_Usage.thy ===== *)
theory Disk_Usage
  imports Ordered_Map Bytes
begin

text \<open>
  Per-process disk activity from kernel events (crates/tm-platform/src/win/disk_etw.rs): decoding
  the payloads of untrusted records, attributing each request to the process of the thread that
  issued it, and draining a window of measurements. A record is what the callback reads of it; the
  snapshot of threads that seeds the map is given by the caller. Hash maps are ordered maps here:
  nothing depends on the order in which one is walked.
\<close>

section \<open>Saturating sums\<close>

definition cap :: "nat \<Rightarrow> nat" where "cap n = min n (2 ^ 64 - 1)"

lemma cap_cap [simp]: "cap (cap a + b) = cap (a + b)" "cap (a + cap b) = cap (a + b)" "cap (cap a) = cap a" "cap 0 = 0"
  by (simp_all add: cap_def)

lemma cap_Suc_cap [simp]: "cap (Suc (cap a)) = cap (Suc a)"
  using cap_cap(2) [of 1 a] by simp

lemma cap_eq_add: "cap a = cap b \<Longrightarrow> cap (a + c) = cap (b + c)"
  by (metis cap_cap(1))

lemma cap_mono: "a \<le> b \<Longrightarrow> cap a \<le> cap b"
  by (simp add: cap_def)

lemma cap_u64 [simp]: "cap (unat (w :: u64)) = unat w"
  using unsigned_less [of w, where 'a = nat] by (simp add: cap_def)

lemma saturating_add_cap: "unat (saturating_add a (b :: u64)) = cap (unat a + unat b)"
  by (simp add: rust_arith cap_def)

lemma fold_saturating_cap:
  "unat (fold (\<lambda>x acc. saturating_add acc (f x)) xs (a :: u64)) = cap (unat a + sum_list (map (\<lambda>x. unat (f x)) xs))"
  by (induction xs arbitrary: a) (simp_all add: saturating_add_cap add.assoc)

section \<open>Decoding\<close>

definition plausible_client_id :: "u32 \<Rightarrow> bool" where
  "plausible_client_id n \<longleftrightarrow> n \<noteq> 0 \<and> unat n mod 4 = 0"

definition MAX_PLAUSIBLE_TRANSFER :: u32 where "MAX_PLAUSIBLE_TRANSFER = 2 ^ 30"
definition MAX_TRACKED_THREADS :: nat where "MAX_TRACKED_THREADS = 250000"

record disk_layout =
  dl_response_time :: nat
  dl_issuing_thread :: nat
  dl_min_len :: nat

definition for_pointer_size :: "nat \<Rightarrow> disk_layout" where
  "for_pointer_size pointer_bytes =
     (let response_time = 24 + 2 * pointer_bytes in
      \<lparr>dl_response_time = response_time, dl_issuing_thread = response_time + 8, dl_min_len = response_time + 12\<rparr>)"

record disk_io_request =
  dr_disk :: u32
  dr_thread_id :: u32
  dr_transfer_size :: u32
  dr_service_time :: u64

definition bytes_at :: "nat \<Rightarrow> nat \<Rightarrow> u8 list \<Rightarrow> u8 list" where
  "bytes_at i n payload = take n (drop i payload)"

definition parse_disk_event :: "u8 list \<Rightarrow> nat \<Rightarrow> disk_io_request option" where
  "parse_disk_event payload pointer_bytes =
     (let layout = for_pointer_size pointer_bytes in
      if length payload < dl_min_len layout then None
      else
        (let disk = u32_from_le (bytes_at 0 4 payload);
             transfer_size = u32_from_le (bytes_at 8 4 payload) in
         if MAX_PLAUSIBLE_TRANSFER < transfer_size then None
         else
           (let service_time = u64_from_le (bytes_at (dl_response_time layout) 8 payload);
                thread_id = u32_from_le (bytes_at (dl_issuing_thread layout) 4 payload) in
            if \<not> plausible_client_id thread_id then None
            else Some \<lparr>dr_disk = disk, dr_thread_id = thread_id, dr_transfer_size = transfer_size,
              dr_service_time = service_time\<rparr>)))"

definition parse_thread_event :: "u8 list \<Rightarrow> (u32 \<times> u32) option" where
  "parse_thread_event payload =
     (if length payload < 8 then None
      else
        (let pid = u32_from_le (bytes_at 0 4 payload); tid = u32_from_le (bytes_at 4 4 payload) in
         if plausible_client_id pid \<and> plausible_client_id tid then Some (pid, tid) else None))"

section \<open>Accumulation\<close>

record disk_share_time =
  dt_disk :: u32
  dt_service_time :: u64

fun add_disk_time :: "disk_share_time list \<Rightarrow> u32 \<Rightarrow> u64 \<Rightarrow> disk_share_time list" where
  "add_disk_time [] disk service_time = [\<lparr>dt_disk = disk, dt_service_time = service_time\<rparr>]"
| "add_disk_time (x # xs) disk service_time =
     (if dt_disk x = disk
      then x\<lparr>dt_service_time := saturating_add (dt_service_time x) service_time\<rparr> # xs
      else x # add_disk_time xs disk service_time)"

definition time_of_disk :: "disk_share_time list \<Rightarrow> u32 \<Rightarrow> u64" where
  "time_of_disk xs disk = (case find (\<lambda>x. dt_disk x = disk) xs of None \<Rightarrow> 0 | Some x \<Rightarrow> dt_service_time x)"

record pid_disk =
  pd_service_time :: u64
  pd_per_disk :: "disk_share_time list"
  pd_read_bytes :: u64
  pd_write_bytes :: u64
  pd_ops :: u64

definition default_pid_disk :: pid_disk where
  "default_pid_disk = \<lparr>pd_service_time = 0, pd_per_disk = [], pd_read_bytes = 0, pd_write_bytes = 0, pd_ops = 0\<rparr>"

definition pid_disk_add :: "bool \<Rightarrow> u32 \<Rightarrow> u64 \<Rightarrow> u32 \<Rightarrow> pid_disk \<Rightarrow> pid_disk" where
  "pid_disk_add write sz service_time disk d =
     \<lparr>pd_service_time = saturating_add (pd_service_time d) service_time,
      pd_per_disk = add_disk_time (pd_per_disk d) disk service_time,
      pd_read_bytes = (if write then pd_read_bytes d else saturating_add (pd_read_bytes d) (ucast sz)),
      pd_write_bytes = (if write then saturating_add (pd_write_bytes d) (ucast sz) else pd_write_bytes d),
      pd_ops = saturating_add (pd_ops d) 1\<rparr>"

record disk_state =
  dk_live :: bool
  dk_events_seen :: u64
  dk_events_decoded :: u64
  dk_rejected_payload_len :: u32
  dk_threads :: "(u32, u32) btree"
  dk_totals :: "(u32, pid_disk) btree"
  dk_unattributed :: u64
  dk_disk_totals :: "disk_share_time list"
  dk_needs_reseed :: bool

definition record_undecodable :: "u32 \<Rightarrow> disk_state \<Rightarrow> disk_state" where
  "record_undecodable payload_len s =
     (if \<not> dk_live s then s
      else s\<lparr>dk_events_seen := saturating_add (dk_events_seen s) 1, dk_rejected_payload_len := payload_len\<rparr>)"

definition record_request :: "disk_io_request \<Rightarrow> bool \<Rightarrow> disk_state \<Rightarrow> disk_state" where
  "record_request request write s =
     (if \<not> dk_live s then s
      else
        (let s = s\<lparr>dk_events_seen := saturating_add (dk_events_seen s) 1,
             dk_events_decoded := saturating_add (dk_events_decoded s) 1,
             dk_disk_totals := add_disk_time (dk_disk_totals s) (dr_disk request) (dr_service_time request)\<rparr> in
         case bt_get (dk_threads s) (dr_thread_id request) of
           Some pid \<Rightarrow> s\<lparr>dk_totals := bt_upsert pid default_pid_disk
             (pid_disk_add write (dr_transfer_size request) (dr_service_time request) (dr_disk request)) (dk_totals s)\<rparr>
         | None \<Rightarrow> s\<lparr>dk_unattributed := saturating_add (dk_unattributed s) (dr_service_time request)\<rparr>))"

definition track_thread :: "u32 \<Rightarrow> u32 \<Rightarrow> disk_state \<Rightarrow> disk_state" where
  "track_thread pid tid s =
     (if \<not> dk_live s then s
      else
        (let s = (if MAX_TRACKED_THREADS \<le> length (dk_threads s)
                  then s\<lparr>dk_threads := [], dk_needs_reseed := True\<rparr> else s) in
         s\<lparr>dk_threads := bt_insert tid pid (dk_threads s)\<rparr>))"

definition forget_thread :: "u32 \<Rightarrow> disk_state \<Rightarrow> disk_state" where
  "forget_thread tid s =
     (if \<not> dk_live s then s else s\<lparr>dk_threads := bt_retain (\<lambda>k v. k \<noteq> tid) (dk_threads s)\<rparr>)"

text \<open>What the callback reads of a record.\<close>

datatype event_class = DiskIoClass | ThreadClass | OtherClass

record etw_record =
  er_class :: event_class
  er_opcode :: u8
  er_header_32_bit :: bool
  er_payload :: "u8 list"

definition pointer_bytes :: "etw_record \<Rightarrow> nat" where
  "pointer_bytes r = (if er_header_32_bit r then 4 else 8)"

text \<open>Whether a disk record is a completed transfer, and if so a write.\<close>

definition transfer_kind :: "etw_record \<Rightarrow> bool option" where
  "transfer_kind r =
     (if er_class r \<noteq> DiskIoClass then None
      else if er_opcode r = 10 then Some False else if er_opcode r = 11 then Some True else None)"

definition on_disk_event :: "etw_record \<Rightarrow> disk_state \<Rightarrow> disk_state" where
  "on_disk_event r s =
     (case er_class r of
        DiskIoClass \<Rightarrow>
          (case transfer_kind r of
             None \<Rightarrow> s
           | Some write \<Rightarrow>
               (case parse_disk_event (er_payload r) (pointer_bytes r) of
                  Some request \<Rightarrow> record_request request write s
                | None \<Rightarrow> record_undecodable (of_nat (length (er_payload r))) s))
      | ThreadClass \<Rightarrow>
          if er_opcode r \<in> {1, 3} then
            (case parse_thread_event (er_payload r) of Some (pid, tid) \<Rightarrow> track_thread pid tid s | None \<Rightarrow> s)
          else if er_opcode r \<in> {2, 4} then
            (case parse_thread_event (er_payload r) of Some (_, tid) \<Rightarrow> forget_thread tid s | None \<Rightarrow> s)
          else s
      | OtherClass \<Rightarrow> s)"

section \<open>Draining a window\<close>

record disk_usage_window =
  uw_procs :: "(u32, pid_disk) btree"
  uw_unattributed :: u64
  uw_disk_totals :: "disk_share_time list"
  uw_since_ms :: nat
  uw_events_seen :: u64
  uw_events_decoded :: u64

definition total_service_time :: "disk_usage_window \<Rightarrow> u64" where
  "total_service_time w = fold (\<lambda>(_, p) acc. saturating_add acc (pd_service_time p)) (uw_procs w) (uw_unattributed w)"

definition disk_total :: "disk_usage_window \<Rightarrow> u32 \<Rightarrow> u64" where
  "disk_total w disk = time_of_disk (uw_disk_totals w) disk"

definition window_decoded :: "disk_usage_window \<Rightarrow> bool" where
  "window_decoded w \<longleftrightarrow> uw_events_seen w = 0 \<or> 0 < uw_events_decoded w"

text \<open>Clearing what was observed, with the thread snapshot that is taken if a new one is due.\<close>

definition drained :: "(u32, u32) btree \<Rightarrow> disk_state \<Rightarrow> disk_state" where
  "drained thread_owners s =
     s\<lparr>dk_unattributed := 0, dk_disk_totals := [], dk_totals := [], dk_events_seen := 0, dk_events_decoded := 0,
       dk_threads := (if dk_needs_reseed s then thread_owners else dk_threads s), dk_needs_reseed := False\<rparr>"

definition take_window ::
    "(u32, u32) btree \<Rightarrow> nat \<Rightarrow> u32 list \<Rightarrow> disk_state \<Rightarrow> disk_usage_window \<times> disk_state" where
  "take_window thread_owners since_ms live_pids s =
     (let gone = (\<lambda>pid. live_pids \<noteq> [] \<and> pid \<notin> set live_pids) in
      (\<lparr>uw_procs = bt_retain (\<lambda>pid _. \<not> gone pid) (dk_totals s),
        uw_unattributed = fold (\<lambda>(_, p) acc. saturating_add acc (pd_service_time p))
          (filter (\<lambda>(pid, _). gone pid) (dk_totals s)) (dk_unattributed s),
        uw_disk_totals = dk_disk_totals s, uw_since_ms = since_ms,
        uw_events_seen = dk_events_seen s, uw_events_decoded = dk_events_decoded s\<rparr>, drained thread_owners s))"

section \<open>What a window holds\<close>

text \<open>The requests of a sequence of records.\<close>

definition transfers :: "etw_record list \<Rightarrow> etw_record list" where
  "transfers rs = filter (\<lambda>r. transfer_kind r \<noteq> None) rs"

definition requests :: "etw_record list \<Rightarrow> disk_io_request list" where
  "requests rs = List.map_filter (\<lambda>r. parse_disk_event (er_payload r) (pointer_bytes r)) (transfers rs)"

definition service_sum :: "(disk_io_request \<Rightarrow> bool) \<Rightarrow> disk_io_request list \<Rightarrow> nat" where
  "service_sum P qs = sum_list (map (\<lambda>q. unat (dr_service_time q)) (filter P qs))"

lemma time_of_disk_add:
  "unat (time_of_disk (add_disk_time xs disk t) d) =
     (if d = disk then cap (unat (time_of_disk xs d) + unat t) else unat (time_of_disk xs d))"
  by (induction xs) (auto simp: time_of_disk_def saturating_add_cap)

text \<open>Charged service time, over all processes.\<close>

definition charged :: "(u32, pid_disk) btree \<Rightarrow> nat" where
  "charged m = sum_list (map (\<lambda>(_, p). unat (pd_service_time p)) m)"

lemma charged_insert:
  "bt_wf m \<Longrightarrow> charged (bt_insert k v m) + unat (pd_service_time (unwrap_or (bt_get m k) default_pid_disk)) =
     charged m + unat (pd_service_time v)"
proof (induction m)
  case Nil
  then show ?case by (simp add: charged_def default_pid_disk_def)
next
  case (Cons e m)
  obtain a b where e: "e = (a, b)" by (cases e)
  have wf: "bt_wf m" and less: "\<forall>x\<in>set (bt_keys m). a < x"
    using Cons.prems by (simp_all add: e bt_wf_Cons)
  have none: "bt_get m k = None" if "k < a"
    using less that by (auto simp: bt_get_None_iff)
  show ?case
    using Cons.IH [OF wf] none by (auto simp: e charged_def default_pid_disk_def)
qed


lemma charged_member: "(k, p) \<in> set m \<Longrightarrow> unat (pd_service_time p) \<le> charged m"
  by (induction m) (auto simp: charged_def)

lemma charged_upsert:
  assumes "bt_wf m"
  shows "cap (n + charged (bt_upsert k default_pid_disk (pid_disk_add write sz t disk) m)) = cap (n + charged m + unat t)"
proof -
  let ?old = "unwrap_or (bt_get m k) default_pid_disk"
  have "charged (bt_upsert k default_pid_disk (pid_disk_add write sz t disk) m) + unat (pd_service_time ?old) =
      charged m + cap (unat (pd_service_time ?old) + unat t)"
    using charged_insert [OF assms, of k "pid_disk_add write sz t disk ?old"]
    by (simp add: bt_upsert_def pid_disk_add_def saturating_add_cap)
  moreover have "unat (pd_service_time ?old) \<le> charged m"
    by (cases "bt_get m k") (auto simp: default_pid_disk_def dest!: bt_get_Some_in charged_member)
  ultimately show ?thesis by (auto simp: cap_def min_def split: if_splits)
qed

text \<open>What is known of a live state that has seen the records \<open>rs\<close> since it was drained.\<close>

definition observed :: "etw_record list \<Rightarrow> disk_state \<Rightarrow> bool" where
  "observed rs s \<longleftrightarrow> dk_live s \<and> bt_wf (dk_totals s) \<and>
     cap (unat (dk_unattributed s) + charged (dk_totals s)) = cap (service_sum (\<lambda>_. True) (requests rs)) \<and>
     (\<forall>d. unat (time_of_disk (dk_disk_totals s) d) = cap (service_sum (\<lambda>q. dr_disk q = d) (requests rs))) \<and>
     unat (dk_events_seen s) = cap (length (transfers rs)) \<and>
     unat (dk_events_decoded s) = cap (length (requests rs)) \<and>
     (\<forall>pid p d. bt_get (dk_totals s) pid = Some p \<longrightarrow>
        time_of_disk (pd_per_disk p) d \<le> time_of_disk (dk_disk_totals s) d)"

lemma requests_snoc:
  "requests (rs @ [r]) = requests rs @
     (if transfer_kind r = None then []
      else (case parse_disk_event (er_payload r) (pointer_bytes r) of None \<Rightarrow> [] | Some q \<Rightarrow> [q]))"
  by (simp add: requests_def transfers_def List.map_filter_def split: option.split)

lemma transfers_snoc: "transfers (rs @ [r]) = transfers rs @ (if transfer_kind r = None then [] else [r])"
  by (simp add: transfers_def)

lemma service_sum_snoc [simp]:
  "service_sum P (qs @ [q]) = service_sum P qs + (if P q then unat (dr_service_time q) else 0)"
  "service_sum P [] = 0"
  by (simp_all add: service_sum_def)

lemma cap_Suc: "unat (saturating_add a (1 :: u64)) = cap (Suc (unat a))"
  by (simp add: saturating_add_cap)

lemma add_disk_time_mono:
  assumes "time_of_disk xs d \<le> time_of_disk ys d"
  shows "time_of_disk (add_disk_time xs disk t) d \<le> time_of_disk (add_disk_time ys disk t) d"
  using assms by (auto simp: word_le_nat_alt time_of_disk_add intro: cap_mono)

lemma add_disk_time_ge: "time_of_disk xs d \<le> time_of_disk (add_disk_time xs disk t) d"
  using unsigned_less [of "time_of_disk xs d", where 'a = nat]
  by (auto simp: word_le_nat_alt time_of_disk_add cap_def)

lemma observed_request:
  assumes s: "observed rs s" and kind: "transfer_kind r = Some write"
    and q: "parse_disk_event (er_payload r) (pointer_bytes r) = Some q"
  shows "observed (rs @ [r]) (record_request q write s)"
proof -
  let ?per = "\<lambda>s'. \<forall>pid p d. bt_get (dk_totals s') pid = Some p \<longrightarrow>
        time_of_disk (pd_per_disk p) d \<le> time_of_disk (dk_disk_totals s') d"
  let ?s = "record_request q write s"
  have live: "dk_live s" and wf: "bt_wf (dk_totals s)" and per: "?per s"
    using s by (auto simp: observed_def)
  have basics: "dk_live ?s" "bt_wf (dk_totals ?s)"
    "unat (dk_events_seen ?s) = cap (Suc (unat (dk_events_seen s)))"
    "unat (dk_events_decoded ?s) = cap (Suc (unat (dk_events_decoded s)))"
    "dk_disk_totals ?s = add_disk_time (dk_disk_totals s) (dr_disk q) (dr_service_time q)"
    using live wf by (simp_all add: record_request_def cap_Suc bt_wf_upsert Let_def split: option.split)
  have sums: "cap (unat (dk_unattributed ?s) + charged (dk_totals ?s)) =
      cap (unat (dk_unattributed s) + charged (dk_totals s) + unat (dr_service_time q))"
    using live
    by (simp add: record_request_def Let_def charged_upsert [OF wf] saturating_add_cap add.assoc add.commute
        add.left_commute split: option.split)
  have "?per ?s"
  proof (intro allI impI)
    fix pid p d assume got: "bt_get (dk_totals ?s) pid = Some p"
    show "time_of_disk (pd_per_disk p) d \<le> time_of_disk (dk_disk_totals ?s) d"
    proof (cases "bt_get (dk_threads s) (dr_thread_id q) = Some pid")
      case False
      then have "bt_get (dk_totals s) pid = Some p"
        using got live by (auto simp: record_request_def Let_def bt_get_upsert split: option.splits)
      then show ?thesis using per add_disk_time_ge unfolding basics(5) by (meson order_trans)
    next
      case True
      then have p: "p = pid_disk_add write (dr_transfer_size q) (dr_service_time q) (dr_disk q)
          (unwrap_or (bt_get (dk_totals s) pid) default_pid_disk)"
        using got live by (simp add: record_request_def Let_def bt_get_upsert)
      have "time_of_disk (pd_per_disk (unwrap_or (bt_get (dk_totals s) pid) default_pid_disk)) d
          \<le> time_of_disk (dk_disk_totals s) d"
        using per by (cases "bt_get (dk_totals s) pid") (auto simp: default_pid_disk_def time_of_disk_def)
      then show ?thesis unfolding basics(5) p by (simp add: pid_disk_add_def add_disk_time_mono)
    qed
  qed
  moreover have "requests (rs @ [r]) = requests rs @ [q]" "transfers (rs @ [r]) = transfers rs @ [r]"
    using kind q by (simp_all add: requests_snoc transfers_snoc)
  moreover have "cap (unat (dk_unattributed ?s) + charged (dk_totals ?s)) = cap (service_sum (\<lambda>_. True) (requests rs) + unat (dr_service_time q))"
    using s unfolding sums observed_def by (blast intro: cap_eq_add)
  moreover have "unat (time_of_disk (dk_disk_totals ?s) d) =
      cap (service_sum (\<lambda>q. dr_disk q = d) (requests rs) + (if dr_disk q = d then unat (dr_service_time q) else 0))" for d
    using s unfolding basics(5) time_of_disk_add observed_def by simp
  moreover have "unat (dk_events_seen s) = cap (length (transfers rs))" "unat (dk_events_decoded s) = cap (length (requests rs))"
    using s by (simp_all add: observed_def)
  ultimately show ?thesis
    using basics(1-4) by (simp add: observed_def)
qed

lemma observed_quiet:
  "observed rs s \<Longrightarrow> transfer_kind r = None \<Longrightarrow>
   dk_live s' = dk_live s \<Longrightarrow> dk_totals s' = dk_totals s \<Longrightarrow> dk_unattributed s' = dk_unattributed s \<Longrightarrow>
   dk_disk_totals s' = dk_disk_totals s \<Longrightarrow> dk_events_seen s' = dk_events_seen s \<Longrightarrow>
   dk_events_decoded s' = dk_events_decoded s \<Longrightarrow> observed (rs @ [r]) s'"
  by (simp add: observed_def requests_snoc transfers_snoc)

lemma observed_undecodable:
  "observed rs s \<Longrightarrow> transfer_kind r = Some write \<Longrightarrow> parse_disk_event (er_payload r) (pointer_bytes r) = None \<Longrightarrow>
   observed (rs @ [r]) (record_undecodable n s)"
  by (simp add: observed_def requests_snoc transfers_snoc record_undecodable_def cap_Suc) 

lemma observed_event:
  assumes "observed rs s" shows "observed (rs @ [r]) (on_disk_event r s)"
proof (cases "er_class r")
  case DiskIoClass
  then show ?thesis
    using assms observed_request [OF assms, of r] observed_undecodable [OF assms, of r] observed_quiet [OF assms, of r]
    by (cases "transfer_kind r"; cases "parse_disk_event (er_payload r) (pointer_bytes r)")
      (simp_all add: on_disk_event_def)
next
  case ThreadClass
  then have "transfer_kind r = None" by (simp add: transfer_kind_def)
  then show ?thesis
    by (rule observed_quiet [OF assms])
      (auto simp: on_disk_event_def ThreadClass track_thread_def forget_thread_def Let_def split: option.split)
next
  case OtherClass
  then show ?thesis
    by (intro observed_quiet [OF assms]) (simp_all add: on_disk_event_def transfer_kind_def)
qed

lemma observed_events: "observed rs s \<Longrightarrow> observed (rs @ rs') (fold on_disk_event rs' s)"
proof (induction rs' arbitrary: rs s)
  case (Cons r rs')
  from Cons.IH [OF observed_event [OF Cons.prems, of r]] show ?case by simp
qed simp

lemma observed_drained: "dk_live s \<Longrightarrow> observed [] (drained owners s)"
  by (simp add: observed_def drained_def bt_wf_Nil charged_def time_of_disk_def requests_def transfers_def List.map_filter_def)

lemma charged_split:
  "charged (filter (\<lambda>(pid, _). P pid) m) + charged (bt_retain (\<lambda>pid _. \<not> P pid) m) = charged m"
  by (induction m) (auto simp: charged_def bt_retain_def)

lemma total_service_time_window:
  "unat (total_service_time (fst (take_window owners ms live_pids s))) =
     cap (unat (dk_unattributed s) + charged (dk_totals s))"
proof -
  have fold: "unat (fold (\<lambda>(_, p) acc. saturating_add acc (pd_service_time p)) m (a :: u64)) = cap (unat a + charged m)"
    for m :: "(u32, pid_disk) btree" and a
    using fold_saturating_cap [of "\<lambda>(_, p). pd_service_time p" m a] by (simp add: charged_def case_prod_unfold)
  show ?thesis
    by (simp add: total_service_time_def take_window_def Let_def fold add.assoc
        charged_split [of "\<lambda>pid. live_pids \<noteq> [] \<and> pid \<notin> set live_pids", simplified])
qed

section \<open>A trace over time\<close>

text \<open>Events, and windows that are taken with the thread snapshot of the moment.\<close>

datatype disk_step = DiskEvent etw_record | DiskTake "(u32, u32) btree" nat "u32 list"

fun disk_do :: "disk_step \<Rightarrow> disk_state \<Rightarrow> disk_state" where
  "disk_do (DiskEvent r) s = on_disk_event r s"
| "disk_do (DiskTake owners ms live_pids) s = snd (take_window owners ms live_pids s)"

definition disk_start :: "(u32, u32) btree \<Rightarrow> disk_state" where
  "disk_start thread_owners =
     \<lparr>dk_live = True, dk_events_seen = 0, dk_events_decoded = 0, dk_rejected_payload_len = 0,
      dk_threads = thread_owners, dk_totals = [], dk_unattributed = 0, dk_disk_totals = [], dk_needs_reseed = False\<rparr>"

text \<open>The last window of a trace: anything may have happened before the window was opened by the previous one.\<close>

definition last_window ::
    "(u32, u32) btree \<Rightarrow> disk_step list \<Rightarrow> etw_record list \<Rightarrow> nat \<Rightarrow> u32 list \<Rightarrow> disk_usage_window" where
  "last_window owners before rs ms live_pids =
     fst (take_window owners ms live_pids
       (fold on_disk_event rs (drained owners (fold disk_do before (disk_start owners)))))"

lemma trace_live: "dk_live s \<Longrightarrow> dk_live (fold disk_do steps s)"
proof (induction steps arbitrary: s)
  case (Cons x steps)
  have "dk_live (disk_do x s)"
    using Cons.prems
    by (cases x) (auto simp: on_disk_event_def record_request_def record_undecodable_def track_thread_def
        forget_thread_def take_window_def drained_def Let_def split: event_class.split option.split)
  with Cons.IH show ?case by simp
qed simp

lemma last_window_observed:
  "observed rs (fold on_disk_event rs (drained owners (fold disk_do before (disk_start owners))))"
proof -
  have "dk_live (fold disk_do before (disk_start owners))"
    by (rule trace_live) (simp add: disk_start_def)
  then have "observed [] (drained owners (fold disk_do before (disk_start owners)))" by (rule observed_drained)
  from observed_events [OF this, of rs] show ?thesis by simp
qed

definition charged_time :: "disk_usage_window \<Rightarrow> u32 \<Rightarrow> u32 \<Rightarrow> u64" where
  "charged_time w pid d = (case bt_get (uw_procs w) pid of None \<Rightarrow> 0 | Some p \<Rightarrow> time_of_disk (pd_per_disk p) d)"

text \<open>
  C12: No disk time is lost, invented or counted twice. Whatever happened before, whatever the records
  of a window are, and whichever processes have ended when it is taken: its total is the sum of the
  service times of the requests that were decoded, and each disk's total is the sum over that disk,
  up to saturation at 64 bits; the records seen and decoded are counted exactly, so a window in
  which nothing could be decoded is told from an idle one.
\<close>

theorem disk_time_conserved:
  "unat (total_service_time (last_window owners before rs ms live_pids)) = min (service_sum (\<lambda>_. True) (requests rs)) (2 ^ 64 - 1) \<and>
   unat (disk_total (last_window owners before rs ms live_pids) d) =
     min (service_sum (\<lambda>q. dr_disk q = d) (requests rs)) (2 ^ 64 - 1) \<and>
   (\<not> window_decoded (last_window owners before rs ms live_pids)) = (requests rs = [] \<and> transfers rs \<noteq> [])"
proof -
  note o = last_window_observed [of rs owners before, unfolded observed_def]
  have 1: "unat (total_service_time (last_window owners before rs ms live_pids)) = cap (service_sum (\<lambda>_. True) (requests rs))"
    using o by (simp add: last_window_def total_service_time_window)
  have 2: "unat (disk_total (last_window owners before rs ms live_pids) d) = cap (service_sum (\<lambda>q. dr_disk q = d) (requests rs))"
    using o by (simp add: last_window_def disk_total_def take_window_def Let_def)
  have zero: "w = 0 \<longleftrightarrow> xs = []" if "unat (w :: u64) = cap (length xs)" for w and xs :: "'a list"
    using that by (auto simp: cap_def min_def simp flip: unat_eq_0 split: if_splits)
  have 3: "window_decoded (last_window owners before rs ms live_pids) = (transfers rs = [] \<or> requests rs \<noteq> [])"
    using o zero [of _ "transfers rs"] zero [of _ "requests rs"]
    by (simp add: last_window_def window_decoded_def take_window_def Let_def word_neq_0_conv [symmetric])
  from 3 have "(\<not> window_decoded (last_window owners before rs ms live_pids)) = (requests rs = [] \<and> transfers rs \<noteq> [])"
    by blast
  with 1 2 show ?thesis unfolding cap_def by blast
qed

text \<open>
  No process is charged with more than its disk did: in every window, the service time charged
  to a process for a disk is at most that disk's total, so a share of a disk is at most one.
\<close>

theorem disk_share_at_most_one:
  "charged_time (last_window owners before rs ms live_pids) pid d \<le> disk_total (last_window owners before rs ms live_pids) d"
proof -
  let ?s = "fold on_disk_event rs (drained owners (fold disk_do before (disk_start owners)))"
  note o = last_window_observed [of rs owners before, unfolded observed_def]
  then have wf: "bt_wf (dk_totals ?s)" by simp
  have sub: "bt_get (bt_retain P (dk_totals ?s)) pid = Some p \<Longrightarrow> bt_get (dk_totals ?s) pid = Some p" for P p
    using wf by (auto simp: bt_get_retain option_filter_def split: option.splits if_splits)
  show ?thesis
  proof (cases "bt_get (uw_procs (last_window owners before rs ms live_pids)) pid")
    case None
    then show ?thesis by (simp add: charged_time_def)
  next
    case (Some p)
    then have "bt_get (dk_totals ?s) pid = Some p"
      by (intro sub) (simp add: last_window_def take_window_def Let_def)
    with o have "time_of_disk (pd_per_disk p) d \<le> time_of_disk (dk_disk_totals ?s) d" by blast
    moreover have "disk_total (last_window owners before rs ms live_pids) d = time_of_disk (dk_disk_totals ?s) d"
      by (simp add: last_window_def disk_total_def take_window_def Let_def)
    ultimately show ?thesis by (simp add: charged_time_def Some)
  qed
qed

end
