(* ===== verification/Net_Usage.thy ===== *)
theory Net_Usage
  imports Disk_Usage
begin

text \<open>
  Per-process network bytes from kernel events (crates/tm-platform/src/win/net_etw.rs): which
  events carry bytes, which of them stayed on the machine, and the counters of a process, pruned
  when it has ended.
\<close>

datatype direction = Sent | Received

definition direction_of :: "u16 \<Rightarrow> direction option" where
  "direction_of event_id =
     (if event_id \<in> {10, 26, 42, 58} then Some Sent
      else if event_id \<in> {11, 27, 43, 59} then Some Received
      else None)"

definition is_loopback :: "u16 \<Rightarrow> u8 list \<Rightarrow> bool" where
  "is_loopback event_id payload =
     (if event_id \<in> {26, 27, 58, 59} then
        (if length payload < 24 then False
         else
           (let daddr = bytes_at 8 16 payload;
                ipv6_loopback = list_all (\<lambda>b. b = 0) (take 15 daddr) \<and> daddr ! 15 = 1;
                mapped_v4_loopback = list_all (\<lambda>b. b = 0) (take 10 daddr) \<and> bytes_at 10 2 daddr = [0xff, 0xff] \<and>
                  daddr ! 12 = 127
            in ipv6_loopback \<or> mapped_v4_loopback))
      else 8 < length payload \<and> payload ! 8 = 127)"

definition parse_pid_and_size :: "u8 list \<Rightarrow> (u32 \<times> u32) option" where
  "parse_pid_and_size payload =
     (if length payload < 8 then None
      else Some (u32_from_le (bytes_at 0 4 payload), u32_from_le (bytes_at 4 4 payload)))"

record pid_bytes =
  pb_received :: u64
  pb_sent :: u64

definition default_pid_bytes :: pid_bytes where
  "default_pid_bytes = \<lparr>pb_received = 0, pb_sent = 0\<rparr>"

record net_shared =
  nt_live :: bool
  nt_totals :: "(u32, pid_bytes) btree"

definition add_bytes :: "direction \<Rightarrow> u32 \<Rightarrow> pid_bytes \<Rightarrow> pid_bytes" where
  "add_bytes dir sz e =
     (case dir of
        Sent \<Rightarrow> e\<lparr>pb_sent := saturating_add (pb_sent e) (ucast sz)\<rparr>
      | Received \<Rightarrow> e\<lparr>pb_received := saturating_add (pb_received e) (ucast sz)\<rparr>)"

definition record_bytes :: "u32 \<Rightarrow> u32 \<Rightarrow> direction \<Rightarrow> net_shared \<Rightarrow> net_shared" where
  "record_bytes pid sz dir s =
     (if \<not> nt_live s then s
      else s\<lparr>nt_totals := bt_upsert pid default_pid_bytes (add_bytes dir sz) (nt_totals s)\<rparr>)"

definition totals_pruned :: "u32 list \<Rightarrow> net_shared \<Rightarrow> (u32, pid_bytes) btree \<times> net_shared" where
  "totals_pruned live_pids s =
     (if live_pids = [] then (nt_totals s, s)
      else
        (let totals = bt_retain (\<lambda>pid _. pid \<in> set live_pids) (nt_totals s) in
         (totals, s\<lparr>nt_totals := totals\<rparr>)))"

text \<open>The callback, for an event id and a payload.\<close>

definition charge_of :: "u16 \<Rightarrow> u8 list \<Rightarrow> (u32 \<times> u32 \<times> direction) option" where
  "charge_of event_id payload =
     (case direction_of event_id of
        None \<Rightarrow> None
      | Some dir \<Rightarrow>
          (case parse_pid_and_size payload of
             None \<Rightarrow> None
           | Some (pid, sz) \<Rightarrow> if is_loopback event_id payload then None else Some (pid, sz, dir)))"

definition on_net_event :: "u16 \<times> u8 list \<Rightarrow> net_shared \<Rightarrow> net_shared" where
  "on_net_event ev s =
     (case charge_of (fst ev) (snd ev) of
        None \<Rightarrow> s
      | Some (pid, sz, dir) \<Rightarrow> record_bytes pid sz dir s)"

section \<open>What the counters say\<close>

text \<open>The service over time: events, and reads that prune.\<close>

datatype net_step = NetEvent u16 "u8 list" | NetRead "u32 list"

fun net_do :: "net_step \<Rightarrow> net_shared \<Rightarrow> net_shared" where
  "net_do (NetEvent i payload) s = on_net_event (i, payload) s"
| "net_do (NetRead live_pids) s = snd (totals_pruned live_pids s)"

definition net_run :: "net_step list \<Rightarrow> net_shared" where
  "net_run steps = fold net_do steps \<lparr>nt_live = True, nt_totals = []\<rparr>"

text \<open>The bytes of a process in one direction since a read last found it gone.\<close>

fun bytes_since :: "u32 \<Rightarrow> direction \<Rightarrow> net_step list \<Rightarrow> nat \<Rightarrow> nat" where
  "bytes_since pid dir [] n = n"
| "bytes_since pid dir (NetEvent i payload # steps) n =
     bytes_since pid dir steps
       (case charge_of i payload of
          Some (p, sz, d) \<Rightarrow> if p = pid \<and> d = dir then n + unat sz else n
        | None \<Rightarrow> n)"
| "bytes_since pid dir (NetRead live_pids # steps) n =
     bytes_since pid dir steps (if live_pids \<noteq> [] \<and> pid \<notin> set live_pids then 0 else n)"

definition counted :: "direction \<Rightarrow> pid_bytes option \<Rightarrow> u64" where
  "counted dir e = (case e of None \<Rightarrow> 0 | Some e \<Rightarrow> (case dir of Sent \<Rightarrow> pb_sent e | Received \<Rightarrow> pb_received e))"

lemma counted_add:
  "unat (counted dir (Some (add_bytes d sz (unwrap_or e default_pid_bytes)))) =
     (if d = dir then cap (unat (counted dir e) + unat sz) else unat (counted dir e))"
  by (cases dir; cases d; cases e)
    (simp_all add: counted_def add_bytes_def default_pid_bytes_def saturating_add_cap unsigned_ucast_eq take_bit_nat_eq_self
      less_trans [OF unsigned_less])

lemma bytes_since_cap: "cap m = cap n \<Longrightarrow> cap (bytes_since pid dir steps m) = cap (bytes_since pid dir steps n)"
proof (induction steps arbitrary: m n)
  case Nil
  then show ?case by simp
next
  case (Cons x steps)
  show ?case
  proof (cases x)
    case (NetRead live_pids)
    have "cap (if gone then 0 else m) = cap (if gone then 0 else n)" for gone using Cons.prems by simp
    from Cons.IH [OF this] show ?thesis by (simp only: NetRead bytes_since.simps)
  next
    case (NetEvent i payload)
    have "cap (case charge_of i payload of Some (p, sz, d) \<Rightarrow> if p = pid \<and> d = dir then m + unat sz else m | None \<Rightarrow> m) =
        cap (case charge_of i payload of Some (p, sz, d) \<Rightarrow> if p = pid \<and> d = dir then n + unat sz else n | None \<Rightarrow> n)"
      using cap_eq_add [OF Cons.prems] Cons.prems by (simp split: option.split prod.split)
    from Cons.IH [OF this] show ?thesis by (simp only: NetEvent bytes_since.simps)
  qed
qed

lemma counted_pruned:
  "bt_wf (nt_totals s) \<Longrightarrow>
   counted dir (bt_get (nt_totals (snd (totals_pruned live_pids s))) pid) =
     (if live_pids \<noteq> [] \<and> pid \<notin> set live_pids then 0 else counted dir (bt_get (nt_totals s) pid))"
  by (auto simp: totals_pruned_def Let_def bt_get_retain option_filter_def counted_def split: option.split)

lemma net_run_counts:
  "nt_live s \<Longrightarrow> bt_wf (nt_totals s) \<Longrightarrow>
   unat (counted dir (bt_get (nt_totals (fold net_do steps s)) pid)) =
     cap (bytes_since pid dir steps (unat (counted dir (bt_get (nt_totals s) pid))))"
proof (induction steps arbitrary: s)
  case (Cons x steps)
  show ?case
  proof (cases x)
    case (NetRead live_pids)
    let ?s = "snd (totals_pruned live_pids s)"
    have "nt_live ?s" "bt_wf (nt_totals ?s)"
      using Cons.prems by (simp_all add: totals_pruned_def Let_def bt_wf_retain)
    from Cons.IH [OF this] counted_pruned [OF Cons.prems(2), of dir live_pids pid] NetRead show ?thesis by simp
  next
    case (NetEvent i payload)
    show ?thesis
    proof (cases "charge_of i payload")
      case None
      with NetEvent Cons show ?thesis by (simp add: on_net_event_def)
    next
      case (Some c)
      then obtain p sz d where c: "charge_of i payload = Some (p, sz, d)" by (cases c) auto
      let ?s = "record_bytes p sz d s"
      have "nt_live ?s" "bt_wf (nt_totals ?s)"
        using Cons.prems by (simp_all add: record_bytes_def bt_upsert_def bt_wf_insert)
      from Cons.IH [OF this] have "unat (counted dir (bt_get (nt_totals (fold net_do (x # steps) s)) pid)) =
          cap (bytes_since pid dir steps (unat (counted dir (bt_get (nt_totals ?s) pid))))"
        by (simp add: NetEvent on_net_event_def c)
      moreover have "unat (counted dir (bt_get (nt_totals ?s) pid)) =
          (if p = pid \<and> d = dir then cap (unat (counted dir (bt_get (nt_totals s) pid)) + unat sz)
           else unat (counted dir (bt_get (nt_totals s) pid)))"
        using Cons.prems counted_add [of dir d sz "bt_get (nt_totals s) p"]
        by (auto simp: record_bytes_def bt_upsert_def bt_get_insert)
      ultimately show ?thesis
        using bytes_since_cap [of "cap n" n for n] by (auto simp: NetEvent c)
    qed
  qed
qed simp

section \<open>Traffic\<close>

text \<open>What the kernel reports, without its encoding: data sent or received for a process over one of four
  protocols, with the size, the destination address in network byte order and what follows it; a data
  event that was cut off before its address; any other event; and a read of the totals.\<close>

datatype protocol = Tcp4 | Tcp6 | Udp4 | Udp6

datatype traffic =
    Transfer protocol direction u32 u32 "u8 list" "u8 list"
  | CutShort protocol direction "u8 list"
  | OtherEvent u16 "u8 list"
  | ReadTotals "u32 list"

fun event_of :: "protocol \<Rightarrow> direction \<Rightarrow> u16" where
  "event_of Tcp4 Sent = 10" | "event_of Tcp4 Received = 11"
| "event_of Tcp6 Sent = 26" | "event_of Tcp6 Received = 27"
| "event_of Udp4 Sent = 42" | "event_of Udp4 Received = 43"
| "event_of Udp6 Sent = 58" | "event_of Udp6 Received = 59"

definition address_length :: "protocol \<Rightarrow> nat" where
  "address_length p = (if p = Tcp6 \<or> p = Udp6 then 16 else 4)"

text \<open>An address may be cut off, and then nothing follows.\<close>

fun traffic_ok :: "traffic \<Rightarrow> bool" where
  "traffic_ok (Transfer p d pid sz addr rest) \<longleftrightarrow>
     length addr \<le> address_length p \<and> (length addr < address_length p \<longrightarrow> rest = [])"
| "traffic_ok (CutShort p d payload) \<longleftrightarrow> length payload < 8"
| "traffic_ok (OtherEvent i payload) \<longleftrightarrow> (\<forall>p d. i \<noteq> event_of p d)"
| "traffic_ok (ReadTotals live_pids) \<longleftrightarrow> True"

text \<open>The event, by the layout of the provider.\<close>

fun as_step :: "traffic \<Rightarrow> net_step" where
  "as_step (Transfer p d pid sz addr rest) = NetEvent (event_of p d) (u32_le pid @ u32_le sz @ addr @ rest)"
| "as_step (CutShort p d payload) = NetEvent (event_of p d) payload"
| "as_step (OtherEvent i payload) = NetEvent i payload"
| "as_step (ReadTotals live_pids) = NetRead live_pids"

text \<open>The loopback addresses: 127.0.0.0/8, ::1, and ::ffff:127.0.0.0/104.\<close>

definition on_this_machine :: "protocol \<Rightarrow> u8 list \<Rightarrow> bool" where
  "on_this_machine p addr \<longleftrightarrow>
     (if p = Tcp6 \<or> p = Udp6
      then addr = replicate 15 0 @ [1] \<or> (\<exists>a b c. addr = replicate 10 0 @ [0xff, 0xff, 127, a, b, c])
      else (\<exists>host. addr = 127 # host))"

text \<open>The bytes of a process in one direction since a read last found it gone.\<close>

fun traffic_bytes :: "u32 \<Rightarrow> direction \<Rightarrow> traffic list \<Rightarrow> nat \<Rightarrow> nat" where
  "traffic_bytes pid dir [] n = n"
| "traffic_bytes pid dir (Transfer p d q sz addr rest # ts) n =
     traffic_bytes pid dir ts (if q = pid \<and> d = dir \<and> \<not> on_this_machine p addr then n + unat sz else n)"
| "traffic_bytes pid dir (CutShort _ _ _ # ts) n = traffic_bytes pid dir ts n"
| "traffic_bytes pid dir (OtherEvent _ _ # ts) n = traffic_bytes pid dir ts n"
| "traffic_bytes pid dir (ReadTotals live_pids # ts) n =
     traffic_bytes pid dir ts (if live_pids \<noteq> [] \<and> pid \<notin> set live_pids then 0 else n)"

lemma direction_of_event: "direction_of (event_of p d) = Some d"
  by (cases p; cases d) (simp_all add: direction_of_def)

lemma direction_of_other:
  assumes "direction_of i = Some d" shows "\<exists>p. i = event_of p d"
proof -
  have "i \<in> {event_of Tcp4 d, event_of Tcp6 d, event_of Udp4 d, event_of Udp6 d}"
    using assms by (auto simp: direction_of_def split: if_splits)
  then show ?thesis by blast
qed

lemma version_of_event: "event_of p d \<in> {26, 27, 58, 59} \<longleftrightarrow> p = Tcp6 \<or> p = Udp6"
  by (cases p; cases d) simp_all

lemma zeros: "list_all (\<lambda>b. b = 0) xs \<longleftrightarrow> xs = replicate (length xs) (0 :: u8)"
  by (simp add: list_all_iff list_eq_iff_nth_eq all_set_conv_all_nth)

lemma loopback6:
  assumes "length addr = 16"
  shows "list_all (\<lambda>b. b = 0) (take 15 addr) \<and> addr ! 15 = 1 \<longleftrightarrow> addr = replicate 15 0 @ [1 :: u8]"
    and "list_all (\<lambda>b. b = 0) (take 10 addr) \<and> take 2 (drop 10 addr) = [0xff, 0xff] \<and> addr ! 12 = 127 \<longleftrightarrow>
      (\<exists>a b c. addr = replicate 10 0 @ [0xff, 0xff, 127, a, b, c :: u8])"
proof -
  obtain a0 a1 a2 a3 a4 a5 a6 a7 a8 a9 a10 a11 a12 a13 a14 a15 where
    "addr = [a0, a1, a2, a3, a4, a5, a6, a7, a8, a9, a10, a11, a12, a13, a14, a15]"
    using assms by (auto simp: numeral_eq_Suc length_Suc_conv)
  then show "list_all (\<lambda>b. b = 0) (take 15 addr) \<and> addr ! 15 = 1 \<longleftrightarrow> addr = replicate 15 0 @ [1 :: u8]"
    and "list_all (\<lambda>b. b = 0) (take 10 addr) \<and> take 2 (drop 10 addr) = [0xff, 0xff] \<and> addr ! 12 = 127 \<longleftrightarrow>
      (\<exists>a b c. addr = replicate 10 0 @ [0xff, 0xff, 127, a, b, c :: u8])"
    by (simp_all add: numeral_eq_Suc)
qed

lemma is_loopback_event:
  assumes "length addr \<le> address_length p" "length addr < address_length p \<longrightarrow> rest = []"
  shows "is_loopback (event_of p d) (u32_le pid @ u32_le sz @ addr @ rest) \<longleftrightarrow> on_this_machine p addr"
proof (cases "p = Tcp6 \<or> p = Udp6")
  case True
  show ?thesis
  proof (cases "length addr = 16")
    case True
    then have "bytes_at 8 16 (u32_le pid @ u32_le sz @ addr @ rest) = addr"
      by (simp add: bytes_at_def)
    with True \<open>p = Tcp6 \<or> p = Udp6\<close> version_of_event [of p d] loopback6 [OF True] show ?thesis
      unfolding is_loopback_def on_this_machine_def Let_def bytes_at_def by simp
  next
    case False
    with assms True have "length addr < 16" "rest = []" by (auto simp: address_length_def)
    moreover from this have "\<not> on_this_machine p addr" using True by (auto simp: on_this_machine_def)
    ultimately show ?thesis using True version_of_event [of p d] by (simp add: is_loopback_def)
  qed
next
  case False
  with assms have "length addr \<le> 4" "length addr < 4 \<longrightarrow> rest = []" by (simp_all add: address_length_def)
  with False version_of_event [of p d] show ?thesis
    by (cases addr) (auto simp: is_loopback_def on_this_machine_def nth_append)
qed

lemma charge_of_traffic:
  "length addr \<le> address_length p \<Longrightarrow> length addr < address_length p \<longrightarrow> rest = [] \<Longrightarrow>
   charge_of (event_of p d) (u32_le pid @ u32_le sz @ addr @ rest) =
     (if on_this_machine p addr then None else Some (pid, sz, d))"
  by (simp add: charge_of_def direction_of_event parse_pid_and_size_def bytes_at_def is_loopback_event)

lemma charge_of_short: "length payload < 8 \<Longrightarrow> charge_of i payload = None"
  by (simp add: charge_of_def parse_pid_and_size_def split: option.split)

lemma charge_of_other: "\<forall>p d. i \<noteq> event_of p d \<Longrightarrow> charge_of i payload = None"
  using direction_of_other [of i] by (cases "direction_of i") (auto simp: charge_of_def)

lemma bytes_since_traffic:
  "list_all traffic_ok ts \<Longrightarrow> bytes_since pid dir (map as_step ts) n = traffic_bytes pid dir ts n"
proof (induction ts arbitrary: n)
  case (Cons t ts)
  then show ?case
    by (cases t) (simp_all add: charge_of_traffic charge_of_short charge_of_other)
qed simp

text \<open>Every event is one of these.\<close>

lemma every_event_is_traffic: "\<exists>t. traffic_ok t \<and> as_step t = NetEvent i payload"
proof (cases "\<exists>p d. i = event_of p d")
  case False
  then show ?thesis by (intro exI [of _ "OtherEvent i payload"]) auto
next
  case True
  then obtain p d where i: "i = event_of p d" by blast
  show ?thesis
  proof (cases "length payload < 8")
    case True
    with i show ?thesis by (intro exI [of _ "CutShort p d payload"]) simp
  next
    case False
    let ?pid = "u32_from_le (take 4 payload)" and ?sz = "u32_from_le (take 4 (drop 4 payload))"
    let ?addr = "take (address_length p) (drop 8 payload)" and ?rest = "drop (address_length p) (drop 8 payload)"
    have le: "u32_le (u32_from_le bs) = bs" if "length bs = 4" for bs
    proof -
      have "unat (of_nat (le_value bs) :: u32) = le_value bs"
        using le_value_bound [of bs] that by (simp add: unat_of_nat)
      then show ?thesis using le_bytes_value [of bs] that by (simp add: u32_le_def u32_from_le_def)
    qed
    have "drop 4 payload = take 4 (drop 4 payload) @ drop 8 payload"
      using append_take_drop_id [of 4 "drop 4 payload"] by simp
    then have "take 4 payload @ take 4 (drop 4 payload) @ drop 8 payload = payload"
      by (metis append_take_drop_id)
    moreover have "u32_le ?pid = take 4 payload" "u32_le ?sz = take 4 (drop 4 payload)" using False by (simp_all add: le)
    ultimately have "u32_le ?pid @ u32_le ?sz @ ?addr @ ?rest = payload"
      by (simp only: append_take_drop_id)
    with i show ?thesis
      by (intro exI [of _ "Transfer p d ?pid ?sz ?addr ?rest"]) auto
  qed
qed

text \<open>
  C17: The network counters of a process are its own bytes. After any sequence of kernel events and
  reads, the counter of a process and direction is the sum of the sizes of the data events for this
  process in that direction, over all four protocols, up to saturation at 64 bits, since it was last
  found to have ended. Traffic to a loopback address (127.x, ::1, ::ffff:127.x), other events and
  events cut off before the size count for nobody, and a recycled pid starts from zero; an event whose
  address is cut off counts, unless the part that is there is already that of an IPv4 loopback address.
\<close>

theorem network_counters_exact:
  assumes "list_all traffic_ok ts"
  shows "unat (counted dir (bt_get (nt_totals (net_run (map as_step ts))) pid)) =
    min (traffic_bytes pid dir ts 0) (2 ^ 64 - 1)"
  using net_run_counts [of "\<lparr>nt_live = True, nt_totals = []\<rparr>" dir "map as_step ts" pid] bytes_since_traffic [OF assms]
  by (simp add: net_run_def bt_wf_Nil counted_def cap_def)

lemma network_counters_exact_witness:
  "unat (counted Sent (bt_get (nt_totals (net_run
     (map as_step [Transfer Tcp4 Sent 7 100 [8, 8, 8, 8] [], Transfer Udp4 Sent 7 50 [127, 0, 0, 1] [1]]))) 7)) = 100"
  using network_counters_exact [of "[Transfer Tcp4 Sent 7 100 [8, 8, 8, 8] [], Transfer Udp4 Sent 7 50 [127, 0, 0, 1] [1]]" Sent 7]
  by (simp add: address_length_def on_this_machine_def)

end
