(* ===== verification/Action_Executor.thy ===== *)
theory Action_Executor
  imports Errors "HOL-Library.Multiset"
begin

text \<open>
  The bounded executor of control actions (crates/tm-app/src/action_executor.rs): two lanes with a
  queue of 32 jobs each, the lane a job is offered to first, and the result of a batch; and the queue
  of the messages shown (\<open>toast_from\<close> of app.rs), which holds the newest six. A job is its
  outcome and whether it reports it; texts of messages are the caller's. That a message expires after
  30 seconds or is closed is drawing code.
\<close>

section \<open>Lanes\<close>

definition LANE_CAPACITY :: nat where "LANE_CAPACITY = 32"

record 'j action_lane =
  al_connected :: bool
  al_jobs :: "'j list"

record 'j executor =
  ex_lanes :: "'j action_lane list"
  ex_next_lane :: "64 word"

text \<open>\<open>start\<close>: which of the two threads could be created; a failure ends the attempt.\<close>

definition start_executor :: "bool list \<Rightarrow> 'j executor option" where
  "start_executor spawned =
     (let lanes = map (\<lambda>_. \<lparr>al_connected = True, al_jobs = []\<rparr>) (takeWhile (\<lambda>ok. ok) (take 2 spawned)) in
      if lanes = [] then None else Some \<lparr>ex_lanes = lanes, ex_next_lane = 0\<rparr>)"

datatype send_result = SendOk | SendFull | SendDisconnected

definition send_to_lane :: "'j \<Rightarrow> 'j action_lane \<Rightarrow> send_result \<times> 'j action_lane" where
  "send_to_lane job l =
     (if \<not> al_connected l then (SendDisconnected, l)
      else if LANE_CAPACITY \<le> length (al_jobs l) then (SendFull, l)
      else (SendOk, l\<lparr>al_jobs := al_jobs l @ [job]\<rparr>))"

datatype queue_error = QueueFull | QueueDisconnected

text \<open>The lanes are tried in turn from the first; the count of those that are disconnected decides the
  error.\<close>

fun offer :: "'j \<Rightarrow> nat list \<Rightarrow> nat \<Rightarrow> 'j action_lane list \<Rightarrow> (nat + unit) \<times> 'j action_lane list" where
  "offer job [] disconnected lanes = (Inl disconnected, lanes)"
| "offer job (i # is) disconnected lanes =
     (case send_to_lane job (lanes ! i) of
        (SendOk, l) \<Rightarrow> (Inr (), lanes[i := l])
      | (SendFull, _) \<Rightarrow> offer job is disconnected lanes
      | (SendDisconnected, _) \<Rightarrow> offer job is (disconnected + 1) lanes)"

definition lane_order :: "nat \<Rightarrow> nat \<Rightarrow> nat list" where
  "lane_order first lane_count = map (\<lambda>offset. (first + offset) mod lane_count) [0..<lane_count]"

definition try_queue :: "'j \<Rightarrow> 'j executor \<Rightarrow> (queue_error + unit) \<times> 'j executor" where
  "try_queue job x =
     (let lane_count = length (ex_lanes x);
          first = unat (ex_next_lane x) mod lane_count;
          x = x\<lparr>ex_next_lane := ex_next_lane x + 1\<rparr> in
      case offer job (lane_order first lane_count) 0 (ex_lanes x) of
        (Inr _, lanes) \<Rightarrow> (Inr (), x\<lparr>ex_lanes := lanes\<rparr>)
      | (Inl disconnected, lanes) \<Rightarrow>
          (Inl (if disconnected = lane_count then QueueDisconnected else QueueFull), x\<lparr>ex_lanes := lanes\<rparr>))"

lemma lane_order_set: "0 < n \<Longrightarrow> set (lane_order first n) = {0..<n}"
proof
  assume n: "0 < n"
  show "set (lane_order first n) \<subseteq> {0..<n}" using n by (auto simp: lane_order_def)
  show "{0..<n} \<subseteq> set (lane_order first n)"
  proof
    fix i assume i: "i \<in> {0..<n}"
    define f where "f = first mod n"
    have f: "f < n" using n by (simp add: f_def)
    define off where "off = (if f \<le> i then i - f else n + i - f)"
    have "off < n" using i f by (auto simp: off_def)
    moreover have "(f + off) mod n = i" using i f by (auto simp: off_def)
    then have "(first + off) mod n = i" by (simp add: f_def mod_add_left_eq)
    ultimately show "i \<in> set (lane_order first n)" by (auto simp: lane_order_def image_iff)
  qed
qed

definition accepting :: "'j action_lane \<Rightarrow> bool" where
  "accepting l \<longleftrightarrow> al_connected l \<and> length (al_jobs l) < LANE_CAPACITY"

lemma send_to_lane_cases:
  "send_to_lane job l =
     (if accepting l then (SendOk, l\<lparr>al_jobs := al_jobs l @ [job]\<rparr>)
      else (if al_connected l then SendFull else SendDisconnected, l))"
  by (auto simp: send_to_lane_def accepting_def)

text \<open>What an offer does: it takes the first accepting lane in the order, or counts the disconnected.\<close>

lemma offer_outcome:
  "offer job is d lanes =
     (case find (\<lambda>i. accepting (lanes ! i)) is of
        Some i \<Rightarrow> (Inr (), lanes[i := (lanes ! i)\<lparr>al_jobs := al_jobs (lanes ! i) @ [job]\<rparr>])
      | None \<Rightarrow> (Inl (d + length (filter (\<lambda>i. \<not> al_connected (lanes ! i)) is)), lanes))"
  by (induction "is" arbitrary: d) (auto simp: send_to_lane_cases split: option.split)

lemma filter_full: "length (filter P xs) = length xs \<longleftrightarrow> (\<forall>x\<in>set xs. P x)"
  using length_filter_less [of _ xs P] filter_True [of xs P] by (metis order_less_irrefl)

lemma queue_cases:
  assumes "ex_lanes x \<noteq> []"
  shows "(case try_queue job x of
      (Inr _, x') \<Rightarrow> (\<exists>i<length (ex_lanes x). accepting (ex_lanes x ! i) \<and>
        ex_lanes x' = (ex_lanes x)[i := (ex_lanes x ! i)\<lparr>al_jobs := al_jobs (ex_lanes x ! i) @ [job]\<rparr>])
    | (Inl e, x') \<Rightarrow> ex_lanes x' = ex_lanes x \<and> list_all (\<lambda>l. \<not> accepting l) (ex_lanes x) \<and>
        (e = QueueDisconnected) = list_all (\<lambda>l. \<not> al_connected l) (ex_lanes x))"
proof -
  let ?n = "length (ex_lanes x)"
  let ?is = "lane_order (unat (ex_next_lane x) mod ?n) ?n"
  have n: "0 < ?n" using assms by simp
  have is_set: "set ?is = {0..<?n}" using n by (rule lane_order_set)
  have len: "length ?is = ?n" by (simp add: lane_order_def)
  have all: "list_all P (ex_lanes x) \<longleftrightarrow> (\<forall>i\<in>set ?is. P (ex_lanes x ! i))" for P
    unfolding is_set list_all_length by auto
  show ?thesis
  proof (cases "find (\<lambda>i. accepting (ex_lanes x ! i)) ?is")
    case (Some i)
    then have "i \<in> set ?is" "accepting (ex_lanes x ! i)"
      by (auto simp: find_Some_iff)
    then show ?thesis unfolding is_set
      by (auto simp: try_queue_def Let_def offer_outcome Some)
  next
    case None
    then have none: "\<forall>i\<in>set ?is. \<not> accepting (ex_lanes x ! i)" by (auto simp: find_None_iff)
    have "length (filter (\<lambda>i. \<not> al_connected (ex_lanes x ! i)) ?is) = ?n \<longleftrightarrow>
        (\<forall>i\<in>set ?is. \<not> al_connected (ex_lanes x ! i))"
      using filter_full [of "\<lambda>i. \<not> al_connected (ex_lanes x ! i)" ?is] by (simp add: len)
    with none show ?thesis
      by (simp add: try_queue_def Let_def offer_outcome None all)
  qed
qed

text \<open>
  A job is queued whenever a lane can take it, and otherwise the reason is right. With a queue per
  lane that is full at 32 jobs: a job is accepted exactly if some lane is connected and not full; it
  then stands at the end of exactly one queue and no other queue has changed. It is rejected as
  disconnected exactly if every lane is gone, as full otherwise, and then no queue has changed.
\<close>

theorem queue_outcome:
  assumes "ex_lanes x \<noteq> []"
  shows "(case try_queue job x of
      (Inr _, x') \<Rightarrow> (\<exists>i<length (ex_lanes x). accepting (ex_lanes x ! i) \<and>
        ex_lanes x' = (ex_lanes x)[i := (ex_lanes x ! i)\<lparr>al_jobs := al_jobs (ex_lanes x ! i) @ [job]\<rparr>])
    | (Inl e, x') \<Rightarrow> ex_lanes x' = ex_lanes x \<and> list_all (\<lambda>l. \<not> accepting l) (ex_lanes x) \<and>
        (e = QueueDisconnected) = list_all (\<lambda>l. \<not> al_connected l) (ex_lanes x))"
  using assms by (rule queue_cases)

lemma queue_outcome_witness:
  "ex_lanes (snd (try_queue True \<lparr>ex_lanes = [\<lparr>al_connected = False, al_jobs = []\<rparr>, \<lparr>al_connected = True, al_jobs = [False]\<rparr>],
      ex_next_lane = 4\<rparr>)) = [\<lparr>al_connected = False, al_jobs = []\<rparr>, \<lparr>al_connected = True, al_jobs = [False, True]\<rparr>]"
proof -
  let ?x = "\<lparr>ex_lanes = [\<lparr>al_connected = False, al_jobs = []\<rparr>, \<lparr>al_connected = True, al_jobs = [False]\<rparr>], ex_next_lane = 4\<rparr>"
  have "ex_lanes ?x \<noteq> []" by simp
  from queue_outcome [OF this, of True] show ?thesis
    by (auto simp: accepting_def LANE_CAPACITY_def less_Suc_eq split: prod.splits sum.splits)
qed

section \<open>Actions that report\<close>

text \<open>A job with its outcome: a reporting one has the text of its success.\<close>

datatype action_job = Reporting string "tm_error + unit" | Silent

record action_texts =
  tx_queue_full :: string
  tx_action_failed :: string
  tx_err :: "string \<Rightarrow> string"

record action_state =
  as_exec :: "action_job executor"
  as_toasts :: "string list"

definition MAX_TOASTS :: nat where "MAX_TOASTS = 6"

definition toast_from :: "string \<Rightarrow> string list \<Rightarrow> string list" where
  "toast_from msg toasts = (let t = toasts @ [msg] in if MAX_TOASTS < length t then tl t else t)"

definition job_toasts :: "action_texts \<Rightarrow> action_job \<Rightarrow> string list" where
  "job_toasts T job =
     (case job of
        Reporting success_msg result \<Rightarrow>
          [case result of Inr _ \<Rightarrow> success_msg | Inl e \<Rightarrow> tx_err T (tm_error_text e)]
      | Silent \<Rightarrow> [])"

definition run_job :: "action_texts \<Rightarrow> string \<Rightarrow> tm_error + unit \<Rightarrow> action_state \<Rightarrow> bool \<times> action_state" where
  "run_job T success_msg result st =
     (case try_queue (Reporting success_msg result) (as_exec st) of
        (Inr _, x) \<Rightarrow> (True, st\<lparr>as_exec := x\<rparr>)
      | (Inl QueueFull, x) \<Rightarrow> (False, st\<lparr>as_exec := x, as_toasts := toast_from (tx_queue_full T) (as_toasts st)\<rparr>)
      | (Inl QueueDisconnected, x) \<Rightarrow> (False, st\<lparr>as_exec := x, as_toasts := toast_from (tx_action_failed T) (as_toasts st)\<rparr>))"

definition run_quiet :: "action_state \<Rightarrow> bool \<times> action_state" where
  "run_quiet st =
     (case try_queue Silent (as_exec st) of (r, x) \<Rightarrow> (is_ok r, st\<lparr>as_exec := x\<rparr>))"

text \<open>The worker of a lane: it runs the job at the head of its queue; a job that panics ends it, and
  what was queued behind is dropped with the lane.\<close>

definition set_lane :: "nat \<Rightarrow> action_job action_lane \<Rightarrow> action_state \<Rightarrow> action_state" where
  "set_lane i l st = st\<lparr>as_exec := (as_exec st)\<lparr>ex_lanes := (ex_lanes (as_exec st))[i := l]\<rparr>\<rparr>"

definition lane_at :: "nat \<Rightarrow> action_state \<Rightarrow> action_job action_lane option" where
  "lane_at i st = (if i < length (ex_lanes (as_exec st)) then Some (ex_lanes (as_exec st) ! i) else None)"

definition worker_runs :: "action_texts \<Rightarrow> nat \<Rightarrow> action_state \<Rightarrow> action_state" where
  "worker_runs T i st =
     (case lane_at i st of
        None \<Rightarrow> st
      | Some l \<Rightarrow>
          (case al_jobs l of
             [] \<Rightarrow> st
           | job # jobs \<Rightarrow>
               (if \<not> al_connected l then st
                else (set_lane i (l\<lparr>al_jobs := jobs\<rparr>) st)\<lparr>as_toasts := fold toast_from (job_toasts T job) (as_toasts st)\<rparr>)))"

definition worker_dies :: "nat \<Rightarrow> action_state \<Rightarrow> action_state" where
  "worker_dies i st =
     (case lane_at i st of
        None \<Rightarrow> st
      | Some l \<Rightarrow> set_lane i \<lparr>al_connected = False, al_jobs = []\<rparr> st)"

datatype executor_step = Submit string "tm_error + unit" | SubmitQuiet | WorkerRuns nat | WorkerDies nat

fun executor_do :: "action_texts \<Rightarrow> executor_step \<Rightarrow> action_state \<Rightarrow> action_state" where
  "executor_do T (Submit success_msg result) st = snd (run_job T success_msg result st)"
| "executor_do T SubmitQuiet st = snd (run_quiet st)"
| "executor_do T (WorkerRuns i) st = worker_runs T i st"
| "executor_do T (WorkerDies i) st = worker_dies i st"

text \<open>What an action is to report, whatever runs it, and when it is submitted: its outcome if some lane
  can take it, otherwise why it was refused.\<close>

definition outcome_text :: "action_texts \<Rightarrow> string \<Rightarrow> tm_error + unit \<Rightarrow> string" where
  "outcome_text T success_msg result =
     (if is_ok result then success_msg else tx_err T (tm_error_text (projl result)))"

definition owed :: "action_texts \<Rightarrow> string \<Rightarrow> tm_error + unit \<Rightarrow> action_job action_lane list \<Rightarrow> string" where
  "owed T success_msg result lanes =
     (if list_ex accepting lanes then outcome_text T success_msg result
      else if list_ex al_connected lanes then tx_queue_full T else tx_action_failed T)"

fun announced :: "action_texts \<Rightarrow> executor_step list \<Rightarrow> action_state \<Rightarrow> string multiset" where
  "announced T [] st = {#}"
| "announced T (step # steps) st =
     (case step of Submit m r \<Rightarrow> {#owed T m r (ex_lanes (as_exec st))#} | _ \<Rightarrow> {#}) +
     announced T steps (executor_do T step st)"

text \<open>What the jobs that wait have still to report, and what those dropped with a lane would have.\<close>

definition job_text :: "action_texts \<Rightarrow> action_job \<Rightarrow> string multiset" where
  "job_text T job = (case job of Reporting m r \<Rightarrow> {#outcome_text T m r#} | Silent \<Rightarrow> {#})"

definition lane_texts :: "action_texts \<Rightarrow> action_job action_lane \<Rightarrow> string multiset" where
  "lane_texts T l = sum_list (map (job_text T) (al_jobs l))"

definition pending :: "action_texts \<Rightarrow> action_state \<Rightarrow> string multiset" where
  "pending T st = sum_list (map (lane_texts T) (ex_lanes (as_exec st)))"

fun dropped :: "action_texts \<Rightarrow> executor_step list \<Rightarrow> action_state \<Rightarrow> string multiset" where
  "dropped T [] st = {#}"
| "dropped T (step # steps) st =
     (case step of
        WorkerDies i \<Rightarrow> (case lane_at i st of None \<Rightarrow> {#} | Some l \<Rightarrow> lane_texts T l)
      | _ \<Rightarrow> {#}) + dropped T steps (executor_do T step st)"

text \<open>The newest messages of all that were made.\<close>

definition newest :: "string list \<Rightarrow> string list" where
  "newest msgs = drop (length msgs - MAX_TOASTS) msgs"

lemma toast_newest: "toast_from msg (newest msgs) = newest (msgs @ [msg])"
proof (cases "length msgs < MAX_TOASTS")
  case True
  then show ?thesis by (simp add: newest_def toast_from_def Let_def)
next
  case False
  then have "length (newest msgs) = MAX_TOASTS" by (simp add: newest_def)
  moreover have "0 < MAX_TOASTS" by (simp add: MAX_TOASTS_def)
  ultimately have "toast_from msg (newest msgs) = drop 1 (newest msgs) @ [msg]"
    by (cases "newest msgs") (simp_all add: toast_from_def)
  also have "\<dots> = drop (Suc (length msgs - MAX_TOASTS)) msgs @ [msg]"
    by (simp add: newest_def)
  also have "Suc (length msgs - MAX_TOASTS) = Suc (length msgs) - MAX_TOASTS" using False by simp
  also have "drop (Suc (length msgs) - MAX_TOASTS) msgs @ [msg] = newest (msgs @ [msg])"
    using \<open>0 < MAX_TOASTS\<close> by (simp add: newest_def)
  finally show ?thesis .
qed

lemma sum_list_update_mset:
  "i < length ls \<Longrightarrow>
   sum_list (map f (ls[i := l'])) + f (ls ! i) = sum_list (map f ls) + (f l' :: 'a multiset)"
proof (induction ls arbitrary: i)
  case (Cons l ls)
  then show ?case by (cases i) (auto simp: ac_simps)
qed simp

lemma pending_set_lane:
  "lane_at i st = Some l \<Longrightarrow> pending T (set_lane i l' st) + lane_texts T l = pending T st + lane_texts T l'"
  using sum_list_update_mset [of i "ex_lanes (as_exec st)" "lane_texts T" l']
  by (auto simp: lane_at_def set_lane_def pending_def split: if_splits)

lemma pending_exec: "pending T (st\<lparr>as_exec := x\<rparr>) = sum_list (map (lane_texts T) (ex_lanes x))"
  by (simp add: pending_def)

text \<open>One step: the new messages, and what becomes of what is owed.\<close>

lemma queued:
  assumes "ex_lanes x \<noteq> []" "try_queue job x = (r, x')"
  shows "ex_lanes x' \<noteq> [] \<and>
    sum_list (map (lane_texts T) (ex_lanes x')) =
      sum_list (map (lane_texts T) (ex_lanes x)) + (if is_ok r then job_text T job else {#}) \<and>
    is_ok r = list_ex accepting (ex_lanes x) \<and>
    (r = Inl QueueDisconnected) = list_all (\<lambda>l. \<not> al_connected l) (ex_lanes x)"
proof (cases r)
  case (Inl e)
  with queue_cases [OF assms(1), of job] assms show ?thesis
    by (auto simp: list_all_iff list_ex_iff)
next
  case (Inr u)
  with queue_cases [OF assms(1), of job] assms(2) obtain i where i: "i < length (ex_lanes x)"
    and acc: "accepting (ex_lanes x ! i)"
    and x': "ex_lanes x' = (ex_lanes x)[i := (ex_lanes x ! i)\<lparr>al_jobs := al_jobs (ex_lanes x ! i) @ [job]\<rparr>]" by auto
  have "lane_texts T ((ex_lanes x ! i)\<lparr>al_jobs := al_jobs (ex_lanes x ! i) @ [job]\<rparr>) =
      lane_texts T (ex_lanes x ! i) + job_text T job"
    by (simp add: lane_texts_def)
  with sum_list_update_mset [OF i, of "lane_texts T" "(ex_lanes x ! i)\<lparr>al_jobs := al_jobs (ex_lanes x ! i) @ [job]\<rparr>"]
  have "sum_list (map (lane_texts T) (ex_lanes x')) + lane_texts T (ex_lanes x ! i) =
      (sum_list (map (lane_texts T) (ex_lanes x)) + job_text T job) + lane_texts T (ex_lanes x ! i)"
    by (simp add: x' ac_simps)
  then have "sum_list (map (lane_texts T) (ex_lanes x')) = sum_list (map (lane_texts T) (ex_lanes x)) + job_text T job"
    by (simp only: add_right_cancel)
  moreover have "ex_lanes x ! i \<in> set (ex_lanes x)" using i by simp
  with acc have "list_ex accepting (ex_lanes x)" "\<not> list_all (\<lambda>l. \<not> al_connected l) (ex_lanes x)"
    by (auto simp: list_ex_iff list_all_iff accepting_def)
  ultimately show ?thesis using Inr x' assms(1) by simp
qed

definition executor_inv :: "action_texts \<Rightarrow> string list \<Rightarrow> string multiset \<Rightarrow> action_state \<Rightarrow> bool" where
  "executor_inv T reported balance st \<longleftrightarrow> ex_lanes (as_exec st) \<noteq> [] \<and> as_toasts st = newest reported \<and>
     mset reported + pending T st = balance"

lemma job_toasts_texts: "mset (job_toasts T job) = job_text T job"
  by (cases job) (auto simp: job_toasts_def job_text_def outcome_text_def split: sum.split)

lemma fold_toasts: "fold toast_from msgs (newest reported) = newest (reported @ msgs)"
  by (induction msgs arbitrary: reported) (simp_all add: toast_newest)

lemma submit_step:
  assumes "executor_inv T reported balance st"
  shows "\<exists>reported'. executor_inv T reported' (balance + {#owed T m r (ex_lanes (as_exec st))#})
    (snd (run_job T m r st))"
proof -
  from assms have lanes: "ex_lanes (as_exec st) \<noteq> []" and shown: "as_toasts st = newest reported"
    and balance: "mset reported + pending T st = balance" by (simp_all add: executor_inv_def)
  obtain q x where q: "try_queue (Reporting m r) (as_exec st) = (q, x)" by fastforce
  note queued [OF lanes q, of T]
  then have x: "ex_lanes x \<noteq> []" and sum: "sum_list (map (lane_texts T) (ex_lanes x)) =
      pending T st + (if is_ok q then {#outcome_text T m r#} else {#})"
    and ok: "is_ok q = list_ex accepting (ex_lanes (as_exec st))"
    and gone: "(q = Inl QueueDisconnected) = list_all (\<lambda>l. \<not> al_connected l) (ex_lanes (as_exec st))"
    by (simp_all add: pending_def job_text_def)
  consider (queued) u where "q = Inr u" | (full) "q = Inl QueueFull" | (gone) "q = Inl QueueDisconnected"
    by (metis queue_error.exhaust sum.exhaust)
  then show ?thesis
  proof cases
    case queued
    with ok have "owed T m r (ex_lanes (as_exec st)) = outcome_text T m r" by (simp add: owed_def)
    with queued q x sum shown balance show ?thesis
      by (intro exI [of _ reported]) (auto simp: executor_inv_def run_job_def pending_exec)
  next
    case full
    with ok gone have "owed T m r (ex_lanes (as_exec st)) = tx_queue_full T"
      by (auto simp: owed_def list_ex_iff list_all_iff)
    with full q x sum shown balance show ?thesis
      by (intro exI [of _ "reported @ [tx_queue_full T]"])
        (auto simp: executor_inv_def run_job_def pending_def toast_newest)
  next
    case gone': gone
    with ok gone have "owed T m r (ex_lanes (as_exec st)) = tx_action_failed T"
      by (auto simp: owed_def list_ex_iff list_all_iff)
    with gone' q x sum shown balance show ?thesis
      by (intro exI [of _ "reported @ [tx_action_failed T]"])
        (auto simp: executor_inv_def run_job_def pending_def toast_newest)
  qed
qed

lemma worker_step:
  assumes "executor_inv T reported balance st"
  shows "\<exists>reported'. executor_inv T reported' balance (worker_runs T i st)"
proof -
  from assms have lanes: "ex_lanes (as_exec st) \<noteq> []" and shown: "as_toasts st = newest reported"
    and balance: "mset reported + pending T st = balance" by (simp_all add: executor_inv_def)
  show ?thesis
  proof (cases "\<exists>l job jobs. lane_at i st = Some l \<and> al_jobs l = job # jobs \<and> al_connected l")
    case False
    then have "worker_runs T i st = st"
      by (auto simp: worker_runs_def split: option.split list.split)
    with assms show ?thesis by auto
  next
    case True
    then obtain l job jobs where l: "lane_at i st = Some l" "al_jobs l = job # jobs" "al_connected l" by blast
    have "lane_texts T l = job_text T job + lane_texts T (l\<lparr>al_jobs := jobs\<rparr>)"
      using l(2) by (simp add: lane_texts_def)
    with pending_set_lane [OF l(1), of T "l\<lparr>al_jobs := jobs\<rparr>"]
    have rest: "pending T st = pending T (set_lane i (l\<lparr>al_jobs := jobs\<rparr>) st) + job_text T job"
      by (simp add: ac_simps)
    have run: "worker_runs T i st =
        (set_lane i (l\<lparr>al_jobs := jobs\<rparr>) st)\<lparr>as_toasts := fold toast_from (job_toasts T job) (as_toasts st)\<rparr>"
      using l by (simp add: worker_runs_def)
    have kept: "ex_lanes (as_exec (set_lane i (l\<lparr>al_jobs := jobs\<rparr>) st)) \<noteq> []" using lanes by (simp add: set_lane_def)
    show ?thesis
      using balance rest kept
      by (intro exI [of _ "reported @ job_toasts T job"])
        (simp add: executor_inv_def run shown fold_toasts job_toasts_texts pending_def ac_simps)
  qed
qed

lemma executor_step_inv:
  assumes "executor_inv T reported balance st"
  shows "\<exists>reported' balance'. executor_inv T reported' balance' (executor_do T step st) \<and>
    balance' + dropped T [step] st = balance + announced T [step] st"
proof (cases step)
  case (Submit m r)
  with submit_step [OF assms, of m r] show ?thesis by auto
next
  case SubmitQuiet
  obtain q x where q: "try_queue Silent (as_exec st) = (q, x)" by fastforce
  from assms queued [OF _ q, of T] show ?thesis
    by (intro exI [of _ reported] exI [of _ balance])
      (auto simp: SubmitQuiet run_quiet_def q executor_inv_def pending_def job_text_def split: if_splits)
next
  case (WorkerRuns i)
  with worker_step [OF assms, of i] show ?thesis by auto
next
  case (WorkerDies i)
  show ?thesis
  proof (cases "lane_at i st")
    case None
    with assms show ?thesis by (auto simp: WorkerDies worker_dies_def)
  next
    case (Some l)
    have "pending T (set_lane i \<lparr>al_connected = False, al_jobs = []\<rparr> st) + lane_texts T l = pending T st"
      using pending_set_lane [OF Some, of T "\<lparr>al_connected = False, al_jobs = []\<rparr>"] by (simp add: lane_texts_def)
    with assms show ?thesis
      by (intro exI [of _ reported] exI [of _ "mset reported + pending T (set_lane i \<lparr>al_connected = False, al_jobs = []\<rparr> st)"])
        (auto simp: WorkerDies worker_dies_def Some executor_inv_def set_lane_def ac_simps)
  qed
qed

lemma executor_run_inv:
  "executor_inv T reported balance st \<Longrightarrow>
   \<exists>reported' balance'. executor_inv T reported' balance' (fold (executor_do T) steps st) \<and>
     balance' + dropped T steps st = balance + announced T steps st"
proof (induction steps arbitrary: reported balance st)
  case Nil
  then show ?case by auto
next
  case (Cons step steps)
  from executor_step_inv [OF Cons.prems, of step] obtain reported1 balance1 where
    one: "executor_inv T reported1 balance1 (executor_do T step st)"
      "balance1 + dropped T [step] st = balance + announced T [step] st" by blast
  from Cons.IH [OF one(1)] obtain reported2 balance2 where
    two: "executor_inv T reported2 balance2 (fold (executor_do T) steps (executor_do T step st))"
      "balance2 + dropped T steps (executor_do T step st) = balance1 + announced T steps (executor_do T step st)" by blast
  have "balance2 + dropped T (step # steps) st =
      (balance2 + dropped T steps (executor_do T step st)) + dropped T [step] st" by (simp add: ac_simps)
  also have "\<dots> = (balance1 + dropped T [step] st) + announced T steps (executor_do T step st)"
    by (simp add: two(2) ac_simps)
  also have "\<dots> = balance + announced T (step # steps) st" by (simp only: one(2)) (simp add: ac_simps)
  finally show ?case using two(1) by auto
qed

text \<open>
  C14: Every action reports exactly once, and truly. From the start of the executor, after any
  interleaving of submissions with workers that run or die, there is a sequence of messages of which
  the newest six are kept (until they expire or are closed), such that these messages, those that the waiting jobs have still to give
  and those of the jobs dropped with a lane whose worker died are together exactly one message for
  each reporting action submitted: its success text if it succeeded and its error text if it failed,
  when some lane could take it; otherwise the text for a full queue, or the one for a failed action
  when every worker is gone.
\<close>

theorem actions_report_once:
  assumes "start_executor spawned = Some x"
  shows "\<exists>reported.
    as_toasts (fold (executor_do T) steps \<lparr>as_exec = x, as_toasts = []\<rparr>) =
      drop (length reported - 6) reported \<and>
    mset reported + pending T (fold (executor_do T) steps \<lparr>as_exec = x, as_toasts = []\<rparr>) +
      dropped T steps \<lparr>as_exec = x, as_toasts = []\<rparr> =
    announced T steps \<lparr>as_exec = x, as_toasts = []\<rparr>"
proof -
  have lanes: "ex_lanes x \<noteq> []" "list_all (\<lambda>l. al_jobs l = []) (ex_lanes x)"
    using assms by (auto simp: start_executor_def Let_def list_all_iff split: if_splits)
  have "list_all (\<lambda>l. al_jobs l = []) ls \<Longrightarrow> sum_list (map (lane_texts T) ls) = {#}" for ls
    by (induction ls) (simp_all add: lane_texts_def)
  then have "sum_list (map (lane_texts T) (ex_lanes x)) = {#}" using lanes(2) by blast
  with lanes(1) have "executor_inv T [] {#} \<lparr>as_exec = x, as_toasts = []\<rparr>"
    by (simp add: executor_inv_def pending_def newest_def)
  from executor_run_inv [OF this, of steps] obtain reported balance where
    "executor_inv T reported balance (fold (executor_do T) steps \<lparr>as_exec = x, as_toasts = []\<rparr>)"
    "balance + dropped T steps \<lparr>as_exec = x, as_toasts = []\<rparr> = announced T steps \<lparr>as_exec = x, as_toasts = []\<rparr>" by auto
  then show ?thesis
    by (intro exI [of _ reported]) (simp add: executor_inv_def newest_def MAX_TOASTS_def)
qed

definition sample_texts :: action_texts where
  "sample_texts = \<lparr>tx_queue_full = ''busy'', tx_action_failed = ''failed'', tx_err = (\<lambda>e. e)\<rparr>"

lemma actions_report_once_witness:
  "\<exists>reported. mset reported = {#''ended''#} \<and>
     as_toasts (fold (executor_do sample_texts) [Submit ''ended'' (Inr ()), WorkerRuns 0]
       \<lparr>as_exec = \<lparr>ex_lanes = [\<lparr>al_connected = True, al_jobs = []\<rparr>], ex_next_lane = 0\<rparr>, as_toasts = []\<rparr>) =
     drop (length reported - 6) reported"
proof -
  let ?st = "\<lparr>as_exec = \<lparr>ex_lanes = [\<lparr>al_connected = True, al_jobs = []\<rparr>], ex_next_lane = 0\<rparr>, as_toasts = []\<rparr>"
  let ?steps = "[Submit ''ended'' (Inr ()), WorkerRuns 0]"
  have start: "start_executor [True, False] = Some \<lparr>ex_lanes = [\<lparr>al_connected = True, al_jobs = []\<rparr>], ex_next_lane = 0\<rparr>"
    by (simp add: start_executor_def)
  have queued: "try_queue (Reporting ''ended'' (Inr ())) \<lparr>ex_lanes = [\<lparr>al_connected = True, al_jobs = []\<rparr>], ex_next_lane = 0\<rparr> =
      (Inr (), \<lparr>ex_lanes = [\<lparr>al_connected = True, al_jobs = [Reporting ''ended'' (Inr ())]\<rparr>], ex_next_lane = 1\<rparr>)"
    by (simp add: try_queue_def lane_order_def send_to_lane_def LANE_CAPACITY_def)
  have "pending sample_texts (fold (executor_do sample_texts) ?steps ?st) = {#}"
    by (simp add: run_job_def queued worker_runs_def lane_at_def set_lane_def pending_def lane_texts_def)
  moreover have "announced sample_texts ?steps ?st = {#''ended''#}" "dropped sample_texts ?steps ?st = {#}"
    by (simp_all add: owed_def accepting_def LANE_CAPACITY_def outcome_text_def)
  ultimately show ?thesis using actions_report_once [OF start, of sample_texts ?steps] by auto
qed

section \<open>Batches\<close>

text \<open>\<open>apply_batch\<close>: each attempt in turn, the successes counted, the first error kept; \<open>partial\<close> is the
  message of a batch that was done in part.\<close>

fun batch_attempts :: "('t \<Rightarrow> tm_error + unit) \<Rightarrow> 't list \<Rightarrow> nat \<Rightarrow> tm_error option \<Rightarrow> nat \<times> tm_error option" where
  "batch_attempts attempt [] completed first_error = (completed, first_error)"
| "batch_attempts attempt (t # ts) completed first_error =
     (case attempt t of
        Inr _ \<Rightarrow> batch_attempts attempt ts (completed + 1) first_error
      | Inl e \<Rightarrow> batch_attempts attempt ts completed (Some (unwrap_or first_error e)))"

definition apply_batch ::
    "(nat \<Rightarrow> nat \<Rightarrow> string \<Rightarrow> string) \<Rightarrow> ('t \<Rightarrow> tm_error + unit) \<Rightarrow> 't list \<Rightarrow> (tm_error + unit) \<times> nat" where
  "apply_batch partial_text attempt targets =
     (case batch_attempts attempt targets 0 None of
        (completed, None) \<Rightarrow> (Inr (), completed)
      | (completed, Some e) \<Rightarrow>
          (Inl (if completed = 0 then e
                else tm_platform ''batch action'' (partial_text completed (length targets) (tm_error_text e))), completed))"

lemma batch_attempts_result:
  "batch_attempts attempt ts c f =
     (c + length (filter (\<lambda>t. is_ok (attempt t)) ts),
      case f of Some e \<Rightarrow> Some e
      | None \<Rightarrow> (case find (\<lambda>t. \<not> is_ok (attempt t)) ts of None \<Rightarrow> None | Some t \<Rightarrow> Some (projl (attempt t))))"
  by (induction ts arbitrary: c f) (auto split: sum.split option.split)

text \<open>
  A batch hides no failure and stops at none. Every target is attempted, the count is that of the
  successes, and the result is success exactly if all of them succeeded; if none did it is the first
  error itself, otherwise a message with both counts and the first error.
\<close>

theorem batch_result_honest:
  "apply_batch partial_text attempt targets =
     (let done_ones = filter (\<lambda>t. is_ok (attempt t)) targets in
      (case filter (\<lambda>t. \<not> is_ok (attempt t)) targets of
         [] \<Rightarrow> Inr ()
       | t # _ \<Rightarrow> Inl (if done_ones = [] then projl (attempt t)
           else tm_platform ''batch action''
             (partial_text (length done_ones) (length targets) (tm_error_text (projl (attempt t))))),
       length done_ones))"
proof -
  have "find P xs = (case filter P xs of [] \<Rightarrow> None | x # _ \<Rightarrow> Some x)" for P and xs :: "'a list"
    by (induction xs) auto
  then show ?thesis
    by (simp add: apply_batch_def batch_attempts_result Let_def split: list.split)
qed

end
