(* ===== verification/Format.thy ===== *)
theory Format
  imports Rust_Text Complex_Main
begin

text \<open>
  Texts of numbers and dates (crates/tm-core/src/format.rs, and the locale of locale.rs): grouping of
  digits, uptime, the calendar date of a point in time, and the scale of a chart. Rates are
  rationals; decimal rendering of a floating-point number is a function of the caller.
\<close>

section \<open>Locale\<close>

datatype date_order = Dmy | Mdy | Ymd

record locale_fmt =
  lf_decimal :: char
  lf_grouping :: "char option"
  lf_date_order :: date_order
  lf_lang_tag :: string

definition EN_US :: locale_fmt where
  "EN_US = \<lparr>lf_decimal = CHR ''.'', lf_grouping = Some (CHR '',''), lf_date_order = Mdy, lf_lang_tag = ''en-US''\<rparr>"

definition DE_DE :: locale_fmt where
  "DE_DE = \<lparr>lf_decimal = CHR '','', lf_grouping = Some (CHR ''.''), lf_date_order = Dmy, lf_lang_tag = ''de-DE''\<rparr>"

section \<open>Numbers\<close>

definition group_digits :: "char \<Rightarrow> string \<Rightarrow> string" where
  "group_digits g digits =
     concat (map (\<lambda>(i, c). (if 0 < i \<and> (length digits - i) mod 3 = 0 then [g] else []) @ [c]) (enumerate 0 digits))"

text \<open>\<open>fixed\<close> is the rendering with a number of decimals; a value that is not finite is None.\<close>

definition fixed_with :: "(rat \<Rightarrow> nat \<Rightarrow> string) \<Rightarrow> rat option \<Rightarrow> nat \<Rightarrow> locale_fmt \<Rightarrow> string" where
  "fixed_with fixed v decimals loc =
     (let s = fixed (case v of None \<Rightarrow> 0 | Some v \<Rightarrow> v) decimals;
          (int_part, dec_part) = (case split_once (CHR ''.'') s of Some (i, d) \<Rightarrow> (i, Some d) | None \<Rightarrow> (s, None));
          neg = starts_with int_part ''-'';
          digits = (if neg then drop 1 int_part else int_part) in
      (if neg then ''-'' else []) @
      (case lf_grouping loc of Some g \<Rightarrow> group_digits g digits | None \<Rightarrow> digits) @
      (case dec_part of Some d \<Rightarrow> lf_decimal loc # d | None \<Rightarrow> []))"

definition format_thousands :: "(rat \<Rightarrow> nat \<Rightarrow> string) \<Rightarrow> u64 \<Rightarrow> locale_fmt \<Rightarrow> string" where
  "format_thousands fixed n loc = fixed_with fixed (Some (of_nat (unat n))) 0 loc"

text \<open>Groups of three from the right.\<close>

fun groups_of_three :: "char \<Rightarrow> string \<Rightarrow> string" where
  "groups_of_three g (a # b # c # d # rest) = a # b # c # g # groups_of_three g (d # rest)"
| "groups_of_three g ds = ds"

definition grouped_tail :: "char \<Rightarrow> string \<Rightarrow> string" where
  "grouped_tail g ds = concat (map (\<lambda>(i, c). (if (length ds - i) mod 3 = 0 then [g] else []) @ [c]) (enumerate 0 ds))"

lemma enumerate_Suc_shift: "enumerate (Suc n) ds = map (\<lambda>(i, c). (Suc i, c)) (enumerate n ds)"
  by (induction ds arbitrary: n) auto

lemma grouped_tail_Cons: "grouped_tail g (c # ds) = (if Suc (length ds) mod 3 = 0 then [g] else []) @ c # grouped_tail g ds"
  by (simp add: grouped_tail_def enumerate_Suc_shift comp_def case_prod_unfold)

lemma group_digits_Cons: "group_digits g (c # ds) = c # grouped_tail g ds"
  by (simp add: group_digits_def grouped_tail_def enumerate_Suc_shift comp_def case_prod_unfold)

lemma groups_of_three_append:
  "groups_of_three g (xs @ [c]) =
     groups_of_three g xs @ (if xs \<noteq> [] \<and> length xs mod 3 = 0 then [g, c] else [c])"
proof (induction g xs rule: groups_of_three.induct)
  case (1 g a b c' d rest)
  have "(4 + n) mod 3 = Suc n mod 3" for n :: nat by presburger
  then have len: "length (a # b # c' # d # rest) mod 3 = length (d # rest) mod 3" by simp
  have "groups_of_three g ((a # b # c' # d # rest) @ [c]) = a # b # c' # g # groups_of_three g ((d # rest) @ [c])" by simp
  with 1 show ?case unfolding len by simp
qed simp_all

lemma grouped_tail_Nil: "grouped_tail g [] = []"
  by (simp add: grouped_tail_def)

lemma three_dvd_Suc: "\<not> (n mod 3 = 0 \<and> Suc n mod 3 = 0)"
  by presburger

lemma grouped_tail_groups:
  "rev (grouped_tail g ds) = groups_of_three g (rev ds) @ (if ds \<noteq> [] \<and> length ds mod 3 = 0 then [g] else [])"
proof (induction ds)
  case (Cons c ds)
  then show ?case
    using three_dvd_Suc [of "length ds"] by (auto simp: grouped_tail_Cons groups_of_three_append)
qed (simp add: grouped_tail_Nil)

lemma group_digits_groups: "rev (group_digits g ds) = groups_of_three g (rev ds)"
proof (cases ds)
  case Nil
  then show ?thesis by (simp add: group_digits_def)
next
  case (Cons c cs)
  then show ?thesis by (simp only: group_digits_Cons rev.simps grouped_tail_groups groups_of_three_append) simp
qed

lemma groups_filter: "g \<notin> set ds \<Longrightarrow> filter (\<lambda>c. c \<noteq> g) (groups_of_three g ds) = ds"
  by (induction g ds rule: groups_of_three.induct) auto

definition format_uptime :: "u64 \<Rightarrow> string" where
  "format_uptime total_secs =
     (let t = unat total_secs; d = t div 86400; h = t mod 86400 div 3600; m = t mod 3600 div 60; s = t mod 60 in
      show_nat d @ '':'' @ show_pad 2 h @ '':'' @ show_pad 2 m @ '':'' @ show_pad 2 s)"

section \<open>Dates\<close>

definition show_int :: "int \<Rightarrow> string" where
  "show_int n = (if n < 0 then ''-'' @ show_nat (nat (- n)) else show_nat (nat n))"

definition show_int_pad :: "nat \<Rightarrow> int \<Rightarrow> string" where
  "show_int_pad w n = (if n < 0 then ''-'' @ show_pad (w - 1) (nat (- n)) else show_pad w (nat n))"

text \<open>Year, month and day of a number of days since the epoch, as the code computes them.\<close>

definition civil_parts :: "int \<Rightarrow> int \<times> int \<times> int" where
  "civil_parts days =
     (let z = days + 719468;
          era = z div 146097;
          doe = z mod 146097;
          yoe = (doe - doe div 1460 + doe div 36524 - doe div 146096) div 365;
          doy = doe - (365 * yoe + yoe div 4 - yoe div 100);
          mp = (5 * doy + 2) div 153;
          d = doy - (153 * mp + 2) div 5 + 1;
          mo = (if mp < 10 then mp + 3 else mp - 9);
          y = yoe + era * 400
      in (y, mo, d))"

definition format_date_in :: "int \<Rightarrow> locale_fmt \<Rightarrow> string" where
  "format_date_in epoch_s loc =
     (case civil_parts (epoch_s div 86400) of (y, mo, d) \<Rightarrow>
        let sep = (case lf_date_order loc of
              Dmy \<Rightarrow> if starts_with (lf_lang_tag loc) ''de'' then ''.'' else ''/''
            | Ymd \<Rightarrow> ''-''
            | Mdy \<Rightarrow> ''/'') in
        (case lf_date_order loc of
           Dmy \<Rightarrow> show_int_pad 2 d @ sep @ show_int_pad 2 mo @ sep @ show_int y
         | Mdy \<Rightarrow> show_int mo @ ''/'' @ show_int d @ ''/'' @ show_int y
         | Ymd \<Rightarrow> show_int y @ sep @ show_int_pad 2 mo @ sep @ show_int_pad 2 d))"

text \<open>The calendar: months, leap years and the next day.\<close>

definition leap :: "int \<Rightarrow> bool" where
  "leap y \<longleftrightarrow> 4 dvd y \<and> (\<not> 100 dvd y \<or> 400 dvd y)"

definition month_length :: "int \<Rightarrow> int \<Rightarrow> int" where
  "month_length y m = (if m = 2 then (if leap y then 29 else 28) else if m \<in> {4, 6, 9, 11} then 30 else 31)"

definition next_day :: "int \<times> int \<times> int \<Rightarrow> int \<times> int \<times> int" where
  "next_day date =
     (case date of (y, m, d) \<Rightarrow>
        if d < month_length y m then (y, m, d + 1)
        else if m < 12 then (y, m + 1, 1)
        else (y + 1, 1, 1))"

primrec calendar :: "nat \<Rightarrow> int \<times> int \<times> int" where
  "calendar 0 = (1970, 1, 1)"
| "calendar (Suc n) = next_day (calendar n)"

definition valid_date :: "int \<times> int \<times> int \<Rightarrow> bool" where
  "valid_date date \<longleftrightarrow> (case date of (y, m, d) \<Rightarrow> 1 \<le> m \<and> m \<le> 12 \<and> 1 \<le> d \<and> d \<le> month_length y m)"

text \<open>Days of a year that begins in March, and the number of a date.\<close>

definition march_year :: "int \<Rightarrow> int \<Rightarrow> int" where
  "march_year y m = (if m \<le> 2 then y - 1 else y)"

definition march_month :: "int \<Rightarrow> int" where
  "march_month m = (if m \<le> 2 then m + 9 else m - 3)"

definition leaps :: "int \<Rightarrow> int" where
  "leaps y = y div 4 - y div 100 + y div 400"

definition day_number :: "int \<times> int \<times> int \<Rightarrow> int" where
  "day_number date =
     (case date of (y, m, d) \<Rightarrow>
        365 * march_year y m + leaps (march_year y m) +
        (153 * march_month m + 2) div 5 + d - 1 - 719468)"

lemma div_unique: "x = k * q + r \<Longrightarrow> 0 \<le> r \<Longrightarrow> r < k \<Longrightarrow> x div k = q" for x k q r :: int
  by (rule int_div_pos_eq)

lemma div_next: "(x + 1) div k = x div k + (if k dvd x + 1 then 1 else 0)" if "0 < k" for x k :: int
proof (cases "k dvd x + 1")
  case True
  then obtain q where "x + 1 = k * q" by (elim dvdE)
  then have "x = k * (q - 1) + (k - 1)" by (simp add: algebra_simps)
  then have "x div k = q - 1" using that by (intro div_unique [of _ _ _ "k - 1"]) auto
  then show ?thesis using True \<open>x + 1 = k * q\<close> that by simp
next
  case False
  have "x = k * (x div k) + x mod k" by simp
  moreover have "0 \<le> x mod k" "x mod k < k" using that by simp_all
  moreover have "x mod k + 1 \<noteq> k"
  proof
    assume "x mod k + 1 = k"
    then have "x + 1 = k * (x div k) + k" using \<open>x = k * (x div k) + x mod k\<close> by linarith
    then have "x + 1 = k * (x div k + 1)" by (simp add: distrib_left)
    with False show False by simp
  qed
  ultimately have "(x + 1) div k = x div k" by (intro div_unique [of _ _ _ "x mod k + 1"]) linarith+
  with False show ?thesis by simp
qed

lemma month_cases:
  "1 \<le> m \<Longrightarrow> m \<le> (12 :: int) \<Longrightarrow>
   m = 1 \<or> m = 2 \<or> m = 3 \<or> m = 4 \<or> m = 5 \<or> m = 6 \<or> m = 7 \<or> m = 8 \<or> m = 9 \<or> m = 10 \<or> m = 11 \<or> m = 12"
  by presburger

lemma next_day_valid: "valid_date x \<Longrightarrow> valid_date (next_day x)"
  by (cases x) (auto simp: valid_date_def next_day_def month_length_def split: if_splits)

lemma div_prev: "0 < k \<Longrightarrow> x div k = (x - 1) div k + (if k dvd x then 1 else 0)" for x k :: int
  using div_next [of k "x - 1"] by (simp only: diff_add_cancel)

lemma leap_count:
  fixes a b c a' b' c' :: int
  assumes "r \<longrightarrow> q" "q \<longrightarrow> p" "a = a' + (if p then 1 else 0)" "b = b' + (if q then 1 else 0)" "c = c' + (if r then 1 else 0)"
  shows "a - b + c = a' - b' + c' + (if p \<and> (\<not> q \<or> r) then 1 else 0)"
  using assms by (cases p; cases q; cases r) simp_all

lemma leap_march: "leaps y = leaps (y - 1) + (if leap y then 1 else 0)"
proof -
  have dvd: "(100 :: int) dvd 400" "(4 :: int) dvd 100" by simp_all
  have "400 dvd y \<longrightarrow> 100 dvd y" "100 dvd y \<longrightarrow> 4 dvd y"
    using dvd_trans [OF dvd(1), of y] dvd_trans [OF dvd(2), of y] by blast+
  moreover have "y div 4 = (y - 1) div 4 + (if 4 dvd y then 1 else 0)" by (rule div_prev) simp
  moreover have "y div 100 = (y - 1) div 100 + (if 100 dvd y then 1 else 0)" by (rule div_prev) simp
  moreover have "y div 400 = (y - 1) div 400 + (if 400 dvd y then 1 else 0)" by (rule div_prev) simp
  ultimately show ?thesis unfolding leaps_def leap_def by (rule leap_count)
qed

lemma next_day_number:
  assumes "valid_date x" shows "day_number (next_day x) = day_number x + 1"
proof -
  obtain y m d where x: "x = (y, m, d)" by (cases x) auto
  have v: "1 \<le> m" "m \<le> 12" "1 \<le> d" "d \<le> month_length y m" using assms by (simp_all add: x valid_date_def)
  show ?thesis
  proof (cases "d < month_length y m")
    case True
    then show ?thesis by (simp add: x next_day_def day_number_def)
  next
    case False
    then have d: "d = month_length y m" using v(4) by simp
    show ?thesis
      using month_cases [OF v(1,2)]
      by (elim disjE)
        (simp_all add: x d next_day_def day_number_def month_length_def march_year_def march_month_def leap_march [of y])
  qed
qed

lemma calendar_valid: "valid_date (calendar n)"
  by (induction n) (simp_all add: next_day_valid, simp add: valid_date_def month_length_def)

lemma calendar_number: "day_number (calendar n) = int n"
proof (induction n)
  case 0
  show ?case by (simp add: day_number_def march_year_def march_month_def leaps_def)
next
  case (Suc n)
  then show ?case using next_day_number [OF calendar_valid] by simp
qed


section \<open>The computation inverts the numbering\<close>

text \<open>The year within its era of 400 years, from the day of the era.\<close>

lemma year_of_era:
  fixes c q y doy :: int
  assumes "0 \<le> c" "c \<le> 3" "0 \<le> q" "q \<le> 24" "0 \<le> y" "y \<le> 3" "0 \<le> doy"
    and doy: "doy \<le> (if y = 3 \<and> (q < 24 \<or> c = 3) then 365 else 364)"
    and doe: "doe = 36524 * c + 1461 * q + 365 * y + doy"
  shows "(doe - doe div 1460 + doe div 36524 - doe div 146096) div 365 = 100 * c + 4 * q + y"
proof (cases "doe = 146096")
  case True
  have "c = 3 \<and> q = 24 \<and> y = 3"
  proof -
    have "doy \<le> 365" using doy by (auto split: if_splits)
    then have "3 \<le> c" "24 \<le> q" "3 \<le> y" using True doe assms(1-7) by linarith+
    then show ?thesis using assms(2,4,6) by simp
  qed
  with True show ?thesis by simp
next
  case False
  define s where "s = 365 * y + doy"
  define e :: int where "e = (if 1460 \<le> 24 * c + q + s then 1 else 0)"
  have d365: "doy \<le> 365" using doy by (auto split: if_splits)
  have s: "0 \<le> s" "s \<le> 1460" using assms(5-7) d365 by (simp_all add: s_def)
  have small: "1461 * q + s < 36524"
  proof (rule ccontr)
    assume "\<not> 1461 * q + s < 36524"
    then have "24 \<le> q" "1460 \<le> s" using s assms(4) by linarith+
    then have "q = 24 \<and> s = 1460" using s assms(4) by simp
    moreover from this have "3 \<le> y" "365 \<le> doy" using d365 assms(6) unfolding s_def by linarith+
    ultimately have "y = 3 \<and> doy = 365 \<and> q = 24" using d365 assms(6) by simp
    with doy have "c = 3" by (auto split: if_splits)
    with False doe \<open>y = 3 \<and> doy = 365 \<and> q = 24\<close> show False using \<open>q = 24 \<and> s = 1460\<close> \<open>c = 3\<close> unfolding s_def by linarith
  qed
  have a: "doe div 1460 = 25 * c + q + e"
    using assms s by (intro div_unique [of _ _ _ "24 * c + q + s - 1460 * e"]) (auto simp: doe s_def e_def)
  have b: "doe div 36524 = c"
    using small s assms(3) by (intro div_unique [of _ _ _ "1461 * q + s"]) (auto simp: doe s_def)
  have c: "doe div 146096 = 0"
    using small s assms by (intro div_pos_pos_trivial) (auto simp: doe s_def)
  have e: "0 \<le> doy - e" "doy - e < 365"
  proof -
    show "0 \<le> doy - e" using assms by (auto simp: e_def s_def)
    show "doy - e < 365"
    proof (cases "doy = 365")
      case True
      then have "y = 3" using doy by (auto split: if_splits)
      with True assms have "e = 1" by (simp add: e_def s_def)
      with True show ?thesis by simp
    next
      case False
      with d365 show ?thesis by (simp add: e_def)
    qed
  qed
  show ?thesis
    unfolding a b c by (rule div_unique [of _ _ _ "doy - e"]) (use e in \<open>simp_all add: doe s_def\<close>)
qed

lemma month_of_day:
  assumes "1 \<le> m" "m \<le> 12" "1 \<le> d" "d \<le> month_length y m"
    and doy: "doy = (153 * march_month m + 2) div 5 + d - 1"
  shows "(5 * doy + 2) div 153 = march_month m" "0 \<le> doy" "doy \<le> (if leap y \<and> m = 2 then 365 else 364)"
    "(if march_month m < 10 then march_month m + 3 else march_month m - 9) = m"
proof -
  have d: "d \<le> (if m = 2 then if leap y then 29 else 28 else if m \<in> {4, 6, 9, 11} then 30 else 31)"
    using assms(4) by (simp add: month_length_def)
  note cs = month_cases [OF assms(1,2)]
  show "0 \<le> doy" "doy \<le> (if leap y \<and> m = 2 then 365 else 364)"
    using cs d assms(3) by (elim disjE; simp add: doy march_month_def split: if_splits)+
  show "(if march_month m < 10 then march_month m + 3 else march_month m - 9) = m"
    using assms(1,2) by (auto simp: march_month_def)
  have "153 * march_month m \<le> 5 * doy + 2 \<and> 5 * doy + 2 < 153 * march_month m + 153"
    using cs d assms(3) by (elim disjE; simp add: doy march_month_def split: if_splits)
  then show "(5 * doy + 2) div 153 = march_month m"
    by (intro div_unique [of _ _ _ "5 * doy + 2 - 153 * march_month m"]) auto
qed

lemma civil_of_number:
  assumes "valid_date (y, m, d)"
  shows "civil_parts (day_number (y, m, d)) = (march_year y m, m, d)"
proof -
  define Y where "Y = march_year y m"
  define era where "era = Y div 400"
  define yoe where "yoe = Y mod 400"
  define c where "c = yoe div 100"
  define r where "r = yoe mod 100"
  define q where "q = r div 4"
  define w where "w = r mod 4"
  define doy where "doy = (153 * march_month m + 2) div 5 + d - 1"
  define doe where "doe = 36524 * c + 1461 * q + 365 * w + doy"
  have v: "1 \<le> m" "m \<le> 12" "1 \<le> d" "d \<le> month_length y m" using assms by (simp_all add: valid_date_def)
  note month = month_of_day [OF v doy_def]
  have Y: "Y = 400 * era + yoe" "0 \<le> yoe" "yoe < 400" by (simp_all add: era_def yoe_def)
  have yoe: "yoe = 100 * c + r" "0 \<le> r" "r < 100" by (simp_all add: c_def r_def)
  have r: "r = 4 * q + w" "0 \<le> w" "w < 4" by (simp_all add: q_def w_def)
  have bounds: "0 \<le> c" "c \<le> 3" "0 \<le> q" "q \<le> 24" "0 \<le> w" "w \<le> 3" using Y yoe r by linarith+
  have doy: "doy \<le> (if w = 3 \<and> (q < 24 \<or> c = 3) then 365 else 364)"
  proof (cases "leap y \<and> m = 2")
    case True
    then have y: "y = 400 * era + 100 * c + 4 * q + w + 1" using Y yoe r by (simp add: Y_def march_year_def)
    have "4 dvd y" using True by (simp add: leap_def)
    moreover have "y = 4 * (100 * era + 25 * c + q) + (w + 1)" using y by simp
    ultimately have "4 dvd w + 1" by (metis dvd_add_right_iff dvd_triv_left)
    then have w: "w = 3" using r(2,3) by (auto dest: zdvd_imp_le)
    have "q < 24 \<or> c = 3"
    proof (rule ccontr)
      assume no: "\<not> (q < 24 \<or> c = 3)"
      then have "y = 100 * (4 * era + c + 1)" using y w bounds by simp
      then have "400 dvd y" using True by (auto simp: leap_def)
      moreover have "y = 400 * era + 100 * (c + 1)" using \<open>y = 100 * (4 * era + c + 1)\<close> by simp
      ultimately have "400 dvd 100 * (c + 1)" by (metis dvd_add_right_iff dvd_triv_left)
      then have "400 \<le> 100 * (c + 1)" using bounds(1) by (auto dest: zdvd_imp_le)
      with no bounds show False by simp
    qed
    with w month(3) show ?thesis by (auto split: if_splits)
  next
    case False
    with month(3) show ?thesis by (auto split: if_splits)
  qed
  have doe: "0 \<le> doe" "doe < 146097"
  proof -
    show "0 \<le> doe" using bounds month(2) by (simp add: doe_def)
    have "doy \<le> 365" using doy by (auto split: if_splits)
    then show "doe < 146097" using bounds by (simp add: doe_def)
  qed
  have leaps: "leaps Y = 97 * era + 24 * c + q"
  proof -
    have "Y div 4 = 100 * era + 25 * c + q" using Y yoe r by (intro div_unique [of _ _ _ w]) simp_all
    moreover have "Y div 100 = 4 * era + c" using Y yoe by (intro div_unique [of _ _ _ r]) simp_all
    moreover have "Y div 400 = era" by (simp add: era_def)
    ultimately show ?thesis by (simp add: leaps_def)
  qed
  have z: "day_number (y, m, d) + 719468 = 146097 * era + doe"
  proof -
    have "day_number (y, m, d) = 365 * Y + leaps Y + doy - 719468"
      by (simp add: day_number_def doy_def Y_def)
    then show ?thesis unfolding leaps doe_def using Y(1) yoe(1) r(1) by linarith
  qed
  have era_div: "(day_number (y, m, d) + 719468) div 146097 = era" "(day_number (y, m, d) + 719468) mod 146097 = doe"
    using doe unfolding z by simp_all
  have year: "(doe - doe div 1460 + doe div 36524 - doe div 146096) div 365 = yoe"
    using year_of_era [OF bounds month(2) doy doe_def] yoe r by simp
  have day: "doe - (365 * yoe + yoe div 4 - yoe div 100) = doy"
  proof -
    have "yoe div 4 = 25 * c + q" using yoe r by (intro div_unique [of _ _ _ w]) simp_all
    then show ?thesis using yoe r by (simp add: doe_def flip: c_def)
  qed
  show ?thesis
    unfolding civil_parts_def Let_def era_div year day month(1)
    using month(4) Y by (simp add: doy_def Y_def)
qed

text \<open>The day before, and the calendar in both directions from 1 January 1970.\<close>

definition prev_day :: "int \<times> int \<times> int \<Rightarrow> int \<times> int \<times> int" where
  "prev_day date =
     (case date of (y, m, d) \<Rightarrow>
        if 1 < d then (y, m, d - 1)
        else if 1 < m then (y, m - 1, month_length y (m - 1))
        else (y - 1, 12, 31))"

primrec calendar_back :: "nat \<Rightarrow> int \<times> int \<times> int" where
  "calendar_back 0 = (1970, 1, 1)"
| "calendar_back (Suc n) = prev_day (calendar_back n)"

definition calendar_day :: "int \<Rightarrow> int \<times> int \<times> int" where
  "calendar_day n = (if 0 \<le> n then calendar (nat n) else calendar_back (nat (- n)))"

lemma prev_day_valid: "valid_date x \<Longrightarrow> valid_date (prev_day x)"
  by (cases x) (auto simp: valid_date_def prev_day_def month_length_def split: if_splits)

lemma next_prev_day:
  assumes "valid_date x" shows "next_day (prev_day x) = x"
proof -
  obtain y m d where x: "x = (y, m, d)" by (cases x) auto
  have v: "1 \<le> m" "m \<le> 12" "1 \<le> d" "d \<le> month_length y m" using assms by (simp_all add: x valid_date_def)
  show ?thesis
    using v by (auto simp: x next_day_def prev_day_def month_length_def)
qed

lemma prev_day_number: "valid_date x \<Longrightarrow> day_number (prev_day x) = day_number x - 1"
  using next_day_number [OF prev_day_valid, of x] by (simp add: next_prev_day)

lemma calendar_back_valid: "valid_date (calendar_back n)"
  by (induction n) (simp_all add: prev_day_valid, simp add: valid_date_def month_length_def)

lemma calendar_back_number: "day_number (calendar_back n) = - int n"
proof (induction n)
  case 0
  show ?case by (simp add: day_number_def march_year_def march_month_def leaps_def)
next
  case (Suc n)
  then show ?case using prev_day_number [OF calendar_back_valid] by simp
qed

lemma calendar_day_valid: "valid_date (calendar_day n)"
  by (simp add: calendar_day_def calendar_valid calendar_back_valid)

lemma calendar_day_number: "day_number (calendar_day n) = n"
  by (simp add: calendar_day_def calendar_number calendar_back_number)

text \<open>How a date is written: day first, with points in German and slashes elsewhere, month first
  without leading zeros, or year first with dashes.\<close>

definition two_digits :: "int \<Rightarrow> string" where
  "two_digits n = [digit (nat n div 10), digit (nat n mod 10)]"

definition no_zeros :: "int \<Rightarrow> string" where
  "no_zeros n = (if n < 10 then [digit (nat n)] else two_digits n)"

definition written_date :: "locale_fmt \<Rightarrow> int \<times> int \<times> int \<Rightarrow> string" where
  "written_date loc date =
     (case date of (y, m, d) \<Rightarrow>
        case lf_date_order loc of
          Dmy \<Rightarrow>
            if take 2 (lf_lang_tag loc) = ''de'' then two_digits d @ ''.'' @ two_digits m @ ''.'' @ show_int y
            else two_digits d @ ''/'' @ two_digits m @ ''/'' @ show_int y
        | Mdy \<Rightarrow> no_zeros m @ ''/'' @ no_zeros d @ ''/'' @ show_int y
        | Ymd \<Rightarrow> show_int y @ ''-'' @ two_digits m @ ''-'' @ two_digits d)"

lemma show_nat_small: "n < 100 \<Longrightarrow> show_nat n = (if n < 10 then [digit n] else [digit (n div 10), digit (n mod 10)])"
  by (subst show_nat.simps, subst show_nat.simps) auto

lemma zero_digit: "digit 0 = CHR ''0''"
  by code_simp

lemma shown_two: "0 \<le> n \<Longrightarrow> n < 100 \<Longrightarrow> show_int_pad 2 n = two_digits n"
  by (simp add: show_int_pad_def show_pad_def two_digits_def show_nat_small nat_less_iff zero_digit)

lemma shown_plain: "0 \<le> n \<Longrightarrow> n < 100 \<Longrightarrow> show_int n = no_zeros n"
  by (simp add: show_int_def no_zeros_def two_digits_def show_nat_small nat_less_iff)

lemma length_de: "length ''de'' = 2"
  by simp

lemma small_date: "valid_date (y, m, d) \<Longrightarrow> 0 \<le> m \<and> m < 100 \<and> 0 \<le> d \<and> d < 100"
  by (auto simp: valid_date_def month_length_def split: if_splits)

text \<open>
  C18: A date in January or February is shown with the year before. For every number of seconds,
  before or after the epoch, and every locale, the text is the date written in the locale's layout
  (day first with points for German and slashes otherwise, month first, year first), with the month and
  the day of the calendar, counted day by day from 1 January 1970 with its leap years in both
  directions; the year is that of the calendar from March on, and one less in the first two months,
  because the year that begins in March is not turned back.
\<close>

theorem shown_date_is_calendar_but_winter_year:
  "format_date_in secs loc =
     (case calendar_day (secs div 86400) of (y, m, d) \<Rightarrow> written_date loc (if m \<le> 2 then y - 1 else y, m, d))"
proof -
  obtain y m d where date: "calendar_day (secs div 86400) = (y, m, d)" by (cases "calendar_day (secs div 86400)") auto
  have valid: "valid_date (y, m, d)" using calendar_day_valid [of "secs div 86400"] by (simp add: date)
  have "day_number (y, m, d) = secs div 86400" using calendar_day_number [of "secs div 86400"] by (simp add: date)
  then have "civil_parts (secs div 86400) = (if m \<le> 2 then y - 1 else y, m, d)"
    using civil_of_number [OF valid] by (simp add: march_year_def)
  moreover have "starts_with (lf_lang_tag loc) ''de'' = (take 2 (lf_lang_tag loc) = ''de'')"
    unfolding starts_with_def by (simp only: length_de)
  ultimately show ?thesis
    using small_date [OF valid]
    by (cases "lf_date_order loc")
      (simp_all only: format_date_in_def written_date_def date shown_two shown_plain Let_def prod.case
        date_order.case split: if_split, simp_all)
qed

text \<open>The epoch itself, the day the tests of the code look at, and the last day before the epoch.\<close>

lemma shown_dates:
  "format_date_in 0 EN_US = ''1/1/1969''" "format_date_in (-1) EN_US = ''12/31/1969''" "format_date_in 1784980800 DE_DE = ''25.07.2026''"
  by code_simp+

section \<open>Scale of a chart\<close>

text \<open>The loop multiplies at most three times, from 1024 to its fourth power.\<close>

fun scale_unit :: "nat \<Rightarrow> rat \<Rightarrow> rat \<Rightarrow> rat" where
  "scale_unit 0 peak unit = unit"
| "scale_unit (Suc n) peak unit =
     (if peak \<ge> unit * 1024 \<and> unit < 1024 * 1024 * 1024 * 1024 then scale_unit n peak (unit * 1024) else unit)"

definition nice_rate_max :: "rat option \<Rightarrow> rat" where
  "nice_rate_max peak =
     (case peak of
        None \<Rightarrow> 1024
      | Some peak \<Rightarrow>
          if peak \<le> 1024 then 1024
          else
            (let unit = scale_unit 4 peak 1024 in
             case find (\<lambda>step. step * unit \<ge> peak) [1, 2, 5, 10, 20, 50, 100, 200, 500] of
               Some step \<Rightarrow> step * unit
             | None \<Rightarrow> 1024 * unit))"

lemma scale_unit_cases:
  assumes "1024 < peak"
  shows "scale_unit 4 peak 1024 \<in> {1024, 1024 ^ 2, 1024 ^ 3, 1024 ^ 4} \<and> scale_unit 4 peak 1024 \<le> peak \<and>
    (peak < 1024 * scale_unit 4 peak 1024 \<or> scale_unit 4 peak 1024 = 1024 ^ 4)"
  using assms by (simp add: numeral_eq_Suc)

text \<open>
  The scale of a chart holds its peak and does not dwarf it: for a peak of more than a KB/s and up
  to 1024^5 bytes per second the maximum is at least the peak and at most two and a half times it.
\<close>

theorem chart_scale_fits:
  assumes "1024 < peak" "peak \<le> 1024 ^ 5"
  shows "peak \<le> nice_rate_max (Some peak) \<and> 2 * nice_rate_max (Some peak) \<le> 5 * peak"
proof -
  let ?u = "scale_unit 4 peak 1024"
  have u: "?u \<le> peak" "peak < 1024 * ?u \<or> ?u = 1024 ^ 4" using scale_unit_cases [OF assms(1)] by simp_all
  then have top: "peak \<le> 1024 * ?u" using assms(2) by auto
  show ?thesis
    using assms(1) u(1) top by (simp add: nice_rate_max_def Let_def)
qed

lemma chart_scale_fits_witness: "3000 \<le> nice_rate_max (Some 3000) \<and> 2 * nice_rate_max (Some 3000) \<le> 15000"
  using chart_scale_fits [of 3000] by simp

end
