(* ===== verification/Spec2Isabelle.thy ===== *)
theory Spec2Isabelle
  imports Settings_File App_History_Props Startup_Impact Engine Writers Persist Errors
    Selection Classify Demand Ordered_Map Ini Payload_Roundtrip Process_Kill List_Nav
    Value_Columns Process_Page_Props Process_Sections Details_Columns Details_Tree
    Broker_Lane Broker_Server Service_Install Service_Redirect Setup_Run Net_Usage Action_Executor Format
begin

text \<open>
  A verification development for TaskMan, a task manager for Windows in Rust with collectors for Linux
  and macOS. The theories follow the crates of the repository; each names the source file it models
  and keeps the names of its functions.

  \<^bold>\<open>The program.\<close> The sampling engine (tm-core) owns a platform collector, takes a snapshot of the
  machine at a cadence, publishes it, and feeds the usage history and the startup impact. The pages of
  the GUI (tm-app) derive their rows from the snapshot; selecting rows and acting on them ends, changes
  or inspects processes through the platform layer (tm-platform). Actions that need more rights go
  over a pipe to the core service, a privileged process that checks who asks and does what was asked
  on the process that was meant, or not at all. Settings and history are written by background
  threads through an atomic file replacement. The setup program (tm-installer) carries its payload in
  its own executable and installs the GUI and the service.

  \<^bold>\<open>Foundations.\<close> Prelude (machine integers, options, positions), Rust_Text (the str operations), Rust_Order
  (Ordering and the stable sort), Bytes (little-endian integers), Ordered_Map (BTreeMap, as the
  interpretation bt of the locale ordered_map), Errors (error.rs and the ? operator).

  \<^bold>\<open>Core.\<close> Demand (demand.rs), Classify (classify.rs), Engine (engine.rs and mock.rs: the parked and the
  running engine, with the locale supported_collector for what a collector supports), Persist
  (persist.rs over a crash model of the file system), Settings_Values, Ini, Settings, Settings_Columns,
  Settings_Load, Settings_Roundtrip and Settings_File (settings.rs: values, document, record, loading,
  saving and setting aside), Writers (the two writer threads as instances of the locale
  coalescing_writer), App_History and App_History_Props (app_history.rs), Startup_Impact
  (startup_impact.rs), Process_Entry (model.rs), Format (format.rs, locale.rs).

  \<^bold>\<open>Pages.\<close> Selection (selection.rs), List_Nav (search.rs and the navigation of tablekit.rs), Value_Columns
  (value_columns.rs), Tree_Walk and Marking_Walk (the walks over process trees, the second as the
  locale marking_walk), Process_Groups, Process_Rows, Process_Sections, Process_Page and
  Process_Page_Props (tabs/processes.rs), Details, Details_Columns and Details_Tree (tabs/details.rs),
  Action_Executor (action_executor.rs).

  \<^bold>\<open>Platform.\<close> Process_Kill and Process_Ops (process_ops.rs: descendants, tree kill, priorities, affinity,
  suspension, modules and the pure helpers), Command_Line (quoting), Disk_Usage (disk_etw.rs), Net_Usage
  (net_etw.rs), Task_Manager_Replacement (taskmgr_replacement.rs), and the core service
  (core_service.rs): Broker_Protocol (frames, manifest, exit codes), Broker_Dispatch and Broker_Safety
  (every request, and what none of them does), Broker_Traces (the traces it hosts, with watchdogs),
  Broker_Client (both ends of a request, and the fallback to the own token), Broker_Server (the accept
  loop), Broker_Lane (the single lane of the sampler, an inductive step relation), Service_Setup,
  Service_Install and Service_Redirect (protected copies, installation, state, redirection).

  \<^bold>\<open>Setup.\<close> Payload, Payload_Props and Payload_Roundtrip (payload.rs), Setup_Run (options.rs, install.rs),
  which composes the archive, the replacement and the machine's other answers.

  \<^bold>\<open>What the lemmas show.\<close> Invariants: reachable states of the engine, the lane, the history and the
  selection; ranges of loaded settings; conservation of disk time. Round trips: settings text, column
  preferences, payload, frames, command lines. Refinement and equivalence: a call over the pipe is
  the dispatch of its request; the manifest of an installation is loaded by the service it starts; the
  descendants of a process are those of the tree that is specified; setup runs do, step by step, what
  the plan shown announces; dates, network counters and messages are those of specifications that do
  not use the functions of the code.
  Safety: only the process that was meant is acted on, whoever has taken its pid; extraction stays in
  its directory; a crash leaves the old or the new file; only the installed GUI is served; another
  product's debugger value stays. Liveness and termination: the newest history is written, the accept
  loop survives, the wait for an old service ends, each action reports once.

  \<^bold>\<open>Abstractions.\<close> A str is a list of characters up to U+00FF. Times are milliseconds, or ticks where the
  code counts ticks; rates, percentages and CPU seconds are rationals, and the few f32 values of the
  settings are operated on by functions of the caller. usize has 64 bits. Hash maps and sets are walked
  in ascending order where the code walks them; no property depends on that order where the code says
  it does not. JSON, UTF-8, the codec, SHA-256, canonicalization of paths and every call of the
  operating system are functions or answers of an environment record; properties that rely on such a
  function name what they assume and have a witness. Concurrency is the sequence of the steps of
  the threads: messages, passes of a loop with the answers of each, or a step relation. A function of
  such a list that has no answer yet is None. Error texts are shortened where nothing reads them.

  \<^bold>\<open>Bounds and fuel.\<close> Walks over trees are functions with a measure, the keys that are not yet visited. The
  tree kill and the promotion of busy tasks terminate for parents in a circle. The loop of the chart
  scale has fuel four: it multiplies at most three times before its own bound stops it. Loops that
  wait take a list of answers; how long a list suffices is part of the property (201 queries for a
  stopping service, 16 failures for the accept loop). Which calls fail while files are replaced is a
  function of the number of the call, so that a call can fail once and succeed again; a watchdog may
  wake at any time after it is due.

  \<^bold>\<open>Found on the way.\<close> A date in January or February is shown with the year before (Format). Deleting
  the registration as Task Manager is reported as done when the key cannot be opened
  (Task_Manager_Replacement). An empty file makes an archive that cannot be read (Payload_Roundtrip). A
  process swallowed by a family that is swallowed in turn has no row (Process_Sections). The
  tree of the Processes page does not check that a parent is plausible, and a process that descends
  from a circle of parents can be in two groups (Process_Page_Props). The baseline of a process
  without a start time is kept (Startup_Impact). A trace whose watchdog could not be spawned is never
  stopped (Broker_Traces). A no-break space at the end of the last argument is lost when a copy hands
  over to the installed program (Service_Redirect).

  \<^bold>\<open>Not modelled.\<close> Drawing with egui (the shell, the other pages, charts, menus, theme, icons), the
  collectors that fill the snapshot from Win32, PDH, DXGI, /proc or launchd, the sessions of Event
  Tracing, windows, hooks and the single-instance pipe, the wizard of the setup program, and log
  rotation: their substance is in calls of the system or in pixels, and the models take what they
  deliver as input. Security queries, dumps and the service catalogue of process_ops.rs are left out
  for the same reason, and so is the vendored toolkit.
\<close>

end
